(* ===== verification/Prelude.thy ===== *)
theory Prelude
  imports Main "HOL-Library.Word" "HOL-Library.AList"
begin

text \<open>
  Shared material of the development: the lemma collections the component theories feed, the
  names of the types they share, and generic facts on lists, slices and options that the
  component proofs rely on.

  Bytes that the code only compares with ASCII constants (the HTTP side) are characters, and a
  Go byte slice or string is a \<open>string\<close>. Bytes the code computes on (the WebSocket side) are
  eight-bit words.
\<close>

named_theorems frame_simps \<open>fields an operation leaves alone\<close>
named_theorems inv_intros \<open>operations keep the invariant of their component\<close>
named_theorems eval_simps \<open>definitions unfolded to evaluate a concrete run\<close>

type_synonym bytes = string
type_synonym octet = "8 word"
type_synonym octets = "octet list"

text \<open>Go's \<open>data[s:e]\<close> for \<open>s \<le> e \<le> len(data)\<close>.\<close>

definition go_slice :: "'a list \<Rightarrow> nat \<Rightarrow> nat \<Rightarrow> 'a list" where
  "go_slice xs s e = take (e - s) (drop s xs)"

text \<open>Go's \<open>int\<close> and \<open>int64\<close>: reduction to 64-bit two's complement.\<close>

definition wrap64 :: "int \<Rightarrow> int" where
  "wrap64 x = (x + 2 ^ 63) mod 2 ^ 64 - 2 ^ 63"

lemma length_go_slice [simp]: "length (go_slice xs s e) = min (e - s) (length xs - s)"
  by (simp add: go_slice_def min.commute)

lemma go_slice_append_left [simp]: "e \<le> length xs \<Longrightarrow> go_slice (xs @ ys) s e = go_slice xs s e"
  by (simp add: go_slice_def)

lemma go_slice_drop: "go_slice (drop k xs) s e = go_slice xs (k + s) (k + e)"
  by (simp add: go_slice_def add.commute)

lemma go_slice_full [simp]: "go_slice xs 0 (length xs) = xs"
  by (simp add: go_slice_def)

lemma go_slice_append_exact: "go_slice (xs @ ys) (length xs) (length xs + length ys) = ys"
  by (simp add: go_slice_def)

lemma drop_append_le: "n \<le> length xs \<Longrightarrow> drop n (xs @ ys) = drop n xs @ ys"
  by simp

lemma wrap64_id: "- (2 ^ 63) \<le> x \<Longrightarrow> x < 2 ^ 63 \<Longrightarrow> wrap64 x = x"
  by (simp add: wrap64_def)

lemma wrap64_bounds: "- (2 ^ 63) \<le> wrap64 x" "wrap64 x < 2 ^ 63"
proof -
  have "0 \<le> (x + 2 ^ 63) mod (2 ^ 64 :: int)" by simp
  then show "- (2 ^ 63) \<le> wrap64 x" by (simp add: wrap64_def)
  have "(x + 2 ^ 63) mod (2 ^ 64 :: int) < 2 ^ 64" by simp
  then show "wrap64 x < 2 ^ 63" by (simp add: wrap64_def)
qed

lemma wrap64_high: "2 ^ 63 \<le> x \<Longrightarrow> x < 2 ^ 64 + 2 ^ 63 \<Longrightarrow> wrap64 x = x - 2 ^ 64"
proof -
  assume x: "2 ^ 63 \<le> x" "x < 2 ^ 64 + 2 ^ 63"
  have "(x + 2 ^ 63) mod 2 ^ 64 = (x + 2 ^ 63 - 2 ^ 64) mod 2 ^ 64"
    by (rule minus_mod_self2 [symmetric])
  also have "\<dots> = x + 2 ^ 63 - 2 ^ 64" using x by (intro mod_pos_pos_trivial) auto
  finally show ?thesis by (simp add: wrap64_def)
qed

lemma sum_list_map_length_concat: "sum_list (map length xss) = length (concat xss)"
  by (simp add: length_concat)

lemma last_conv_butlast: "xs \<noteq> [] \<Longrightarrow> butlast xs @ [last xs] = xs"
  by simp

end
