(* ===== verification/GoStd.thy ===== *)
theory GoStd
  imports Prelude
begin

text \<open>
  The functions of Go's standard library that the modelled code calls, written from their
  documented behaviour: \<open>strconv.ParseInt\<close>, \<open>strings.ToUpper/ToLower/Split\<close>,
  \<open>textproto.TrimString\<close>, \<open>http.CanonicalHeaderKey\<close>, \<open>http.Header\<close> and
  \<open>http.ParseHTTPVersion\<close>. An \<open>http.Header\<close> is an association list with distinct keys; the
  nil map and the empty map are both the empty list, since reading and deleting do not tell
  them apart.
\<close>

abbreviation CR :: char where "CR \<equiv> CHR 0x0D"
abbreviation LF :: char where "LF \<equiv> CHR 0x0A"
abbreviation SP :: char where "SP \<equiv> CHR 0x20"
abbreviation HTAB :: char where "HTAB \<equiv> CHR 0x09"

definition byte_val :: "char \<Rightarrow> nat" where
  "byte_val c = of_char c"

definition is_upper :: "char \<Rightarrow> bool" where
  "is_upper c \<longleftrightarrow> 65 \<le> byte_val c \<and> byte_val c \<le> 90"

definition is_lower :: "char \<Rightarrow> bool" where
  "is_lower c \<longleftrightarrow> 97 \<le> byte_val c \<and> byte_val c \<le> 122"

definition is_digit :: "char \<Rightarrow> bool" where
  "is_digit c \<longleftrightarrow> 48 \<le> byte_val c \<and> byte_val c \<le> 57"

definition up :: "char \<Rightarrow> char" where
  "up c = (if is_lower c then char_of (byte_val c - 32) else c)"

definition low :: "char \<Rightarrow> char" where
  "low c = (if is_upper c then char_of (byte_val c + 32) else c)"

text \<open>\<open>strings.ToUpper\<close>, used on ASCII letters only.\<close>

definition ToUpper :: "string \<Rightarrow> string" where
  "ToUpper s = map up s"

text \<open>
  \<open>strings.ToLower\<close>, used only in comparisons with ASCII literals: ASCII letters are lowered,
  the two runes beyond ASCII whose lower case is an ASCII letter (U+212A to k, U+0130 to i) are
  replaced by it, and every other byte, which no ASCII literal contains, is kept.
\<close>

fun ToLower :: "string \<Rightarrow> string" where
  "ToLower [] = []"
| "ToLower [a] = [low a]"
| "ToLower [a, b] =
     (if a = CHR 0xC4 \<and> b = CHR 0xB0 then ''i'' else [low a, low b])"
| "ToLower (a # b # c # s) =
     (if a = CHR 0xE2 \<and> b = CHR 0x84 \<and> c = CHR 0xAA then CHR ''k'' # ToLower s
      else if a = CHR 0xC4 \<and> b = CHR 0xB0 then CHR ''i'' # ToLower (c # s)
      else low a # ToLower (b # c # s))"

fun split_on :: "char \<Rightarrow> string \<Rightarrow> string list" where
  "split_on sep [] = [[]]"
| "split_on sep (c # s) =
     (if c = sep then [] # split_on sep s
      else case split_on sep s of [] \<Rightarrow> [[c]] | w # ws \<Rightarrow> (c # w) # ws)"

definition is_ascii_space :: "char \<Rightarrow> bool" where
  "is_ascii_space c \<longleftrightarrow> c = SP \<or> c = HTAB \<or> c = LF \<or> c = CR"

definition TrimString :: "string \<Rightarrow> string" where
  "TrimString s = rev (dropWhile is_ascii_space (rev (dropWhile is_ascii_space s)))"

text \<open>\<open>strings.Trim(s, " ")\<close>.\<close>

definition TrimSpaces :: "string \<Rightarrow> string" where
  "TrimSpaces s = rev (dropWhile (\<lambda>c. c = SP) (rev (dropWhile (\<lambda>c. c = SP) s)))"

text \<open>\<open>strconv.ParseInt(s, base, bits)\<close>: an optional sign, then at least one digit; None for a
  syntax or a range error.\<close>

definition digit_val :: "char \<Rightarrow> nat option" where
  "digit_val c = (if is_digit c then Some (byte_val c - 48)
     else if is_lower c then Some (byte_val c - 97 + 10)
     else if is_upper c then Some (byte_val c - 65 + 10)
     else None)"

fun parse_digits :: "nat \<Rightarrow> nat \<Rightarrow> string \<Rightarrow> nat option" where
  "parse_digits base acc [] = Some acc"
| "parse_digits base acc (c # s) =
     (case digit_val c of None \<Rightarrow> None
      | Some d \<Rightarrow> if d < base then parse_digits base (acc * base + d) s else None)"

definition parse_unsigned :: "nat \<Rightarrow> string \<Rightarrow> nat option" where
  "parse_unsigned base s = (if s = [] then None else parse_digits base 0 s)"

definition ParseInt :: "nat \<Rightarrow> nat \<Rightarrow> string \<Rightarrow> int option" where
  "ParseInt base bits s =
     (let neg = (s \<noteq> [] \<and> hd s = CHR ''-'');
          ds = (if s \<noteq> [] \<and> (hd s = CHR ''-'' \<or> hd s = CHR ''+'') then tl s else s)
      in case parse_unsigned base ds of None \<Rightarrow> None
         | Some u \<Rightarrow>
             if \<not> neg \<and> int u \<ge> 2 ^ (bits - 1) then None
             else if neg \<and> int u > 2 ^ (bits - 1) then None
             else Some (if neg then - int u else int u))"

text \<open>\<open>http.CanonicalHeaderKey\<close>: a key with a byte that is no token character is returned
  unchanged; otherwise the first letter and every letter after a hyphen are upper case and the
  others lower case.\<close>

definition valid_header_byte :: "char \<Rightarrow> bool" where
  "valid_header_byte c \<longleftrightarrow>
     is_digit c \<or> is_upper c \<or> is_lower c \<or> c \<in> set ''!#$%&*+-.^_|~'' \<or> c = CHR 0x27 \<or> c = CHR 0x60"

fun canon_case :: "bool \<Rightarrow> string \<Rightarrow> string" where
  "canon_case u [] = []"
| "canon_case u (c # s) = (if u then up c else low c) # canon_case (c = CHR ''-'') s"

definition CanonicalHeaderKey :: "string \<Rightarrow> string" where
  "CanonicalHeaderKey s = (if list_all valid_header_byte s then canon_case True s else s)"

type_synonym Header = "(string \<times> string list) list"

definition Header_values :: "Header \<Rightarrow> string \<Rightarrow> string list" where
  "Header_values h k = (case map_of h k of None \<Rightarrow> [] | Some vs \<Rightarrow> vs)"

definition Header_Get :: "Header \<Rightarrow> string \<Rightarrow> string" where
  "Header_Get h k = (case Header_values h k of [] \<Rightarrow> [] | v # _ \<Rightarrow> v)"

definition Header_Add :: "Header \<Rightarrow> string \<Rightarrow> string \<Rightarrow> Header" where
  "Header_Add h k v = AList.update k (Header_values h k @ [v]) h"

definition Header_Set :: "Header \<Rightarrow> string \<Rightarrow> string \<Rightarrow> Header" where
  "Header_Set h k v = AList.update k [v] h"

definition Header_Del :: "Header \<Rightarrow> string \<Rightarrow> Header" where
  "Header_Del h k = AList.delete k h"

definition ParseHTTPVersion :: "string \<Rightarrow> (int \<times> int) option" where
  "ParseHTTPVersion v =
     (if v = ''HTTP/1.1'' then Some (1, 1)
      else if v = ''HTTP/1.0'' then Some (1, 0)
      else if take 5 v \<noteq> ''HTTP/'' \<or> length v \<noteq> 8 \<or> v ! 6 \<noteq> CHR ''.'' then None
      else if is_digit (v ! 5) \<and> is_digit (v ! 7)
        then Some (int (byte_val (v ! 5) - 48), int (byte_val (v ! 7) - 48))
      else None)"

text \<open>\<open>strconv.FormatInt\<close> of a number that is not negative.\<close>

definition digit_char :: "nat \<Rightarrow> char" where
  "digit_char d = (if d < 10 then char_of (48 + d) else char_of (97 + d - 10))"

function FormatInt :: "nat \<Rightarrow> nat \<Rightarrow> string" where
  "FormatInt base n = (if n < base \<or> base < 2 then [digit_char n]
     else FormatInt base (n div base) @ [digit_char (n mod base)])"
  by pat_completeness auto
termination
  by (relation "measure snd") auto

declare FormatInt.simps [simp del]

lemma byte_val_less [simp]: "byte_val c < 256"
  by (simp add: byte_val_def)

lemma byte_val_inj [simp]: "byte_val c = byte_val d \<longleftrightarrow> c = d"
  by (simp add: byte_val_def)

lemma Header_values_Add [simp]:
  "Header_values (Header_Add h k v) k' =
     (if k' = k then Header_values h k @ [v] else Header_values h k')"
  by (simp add: Header_values_def Header_Add_def update_conv')

lemma Header_values_Set [simp]:
  "Header_values (Header_Set h k v) k' = (if k' = k then [v] else Header_values h k')"
  by (simp add: Header_values_def Header_Set_def update_conv')

lemma Header_values_Del [simp]:
  "Header_values (Header_Del h k) k' = (if k' = k then [] else Header_values h k')"
  by (simp add: Header_values_def Header_Del_def delete_conv')

lemma Header_values_Nil [simp]: "Header_values [] k = []"
  by (simp add: Header_values_def)

lemma ParseInt_bounds:
  assumes "ParseInt base bits s = Some n"
  shows "- (2 ^ (bits - 1)) \<le> n \<and> n < 2 ^ (bits - 1)"
proof -
  define K :: int where "K = 2 ^ (bits - 1)"
  have K: "0 < K" by (simp add: K_def)
  show ?thesis
    using assms K unfolding ParseInt_def K_def [symmetric]
    by (auto simp: Let_def split: option.splits if_splits)
qed

lemma parse_digits_append:
  "parse_digits b acc (xs @ ys) =
     (case parse_digits b acc xs of None \<Rightarrow> None | Some a \<Rightarrow> parse_digits b a ys)"
  by (induction xs arbitrary: acc) (auto split: option.splits)

lemma byte_val_char_of [simp]: "n < 256 \<Longrightarrow> byte_val (char_of n) = n"
  by (simp add: byte_val_def)

lemma digit_val_digit_char [simp]: "d < 36 \<Longrightarrow> digit_val (digit_char d) = Some d"
  by (auto simp: digit_val_def digit_char_def is_digit_def is_lower_def is_upper_def)

lemma parse_digits_FormatInt:
  "2 \<le> base \<Longrightarrow> base \<le> 36 \<Longrightarrow> parse_digits base 0 (FormatInt base n) = Some n"
proof (induction base n rule: FormatInt.induct)
  case (1 base n)
  show ?case
  proof (cases "n < base")
    case True
    with 1 show ?thesis by (subst FormatInt.simps) simp
  next
    case False
    then have m: "n mod base < base" using 1 by simp
    then have "n mod base < 36" using 1 by linarith
    with False 1 m show ?thesis
      by (subst FormatInt.simps) (simp add: parse_digits_append)
  qed
qed

lemma FormatInt_neq_Nil [simp]: "FormatInt base n \<noteq> []"
  by (subst FormatInt.simps) simp

lemma FormatInt_digits: "2 \<le> base \<Longrightarrow> base \<le> 36 \<Longrightarrow> c \<in> set (FormatInt base n) \<Longrightarrow> \<exists>d<base. c = digit_char d"
proof (induction base n rule: FormatInt.induct)
  case (1 base n)
  have m: "n mod base < base" using "1.prems" by simp
  show ?case
  proof (cases "n < base")
    case True
    with 1 show ?thesis by (auto simp: FormatInt.simps [of base n])
  next
    case False
    have "c = digit_char (n mod base) \<or> c \<in> set (FormatInt base (n div base))"
      using False "1.prems" by (simp add: FormatInt.simps [of base n])
    then show ?thesis
    proof
      assume "c = digit_char (n mod base)"
      with m show ?thesis by (intro exI [of _ "n mod base"] conjI)
    qed (use "1.IH" False "1.prems" in auto)
  qed
qed

lemma digit_char_sign [simp]: "d < 36 \<Longrightarrow> digit_char d \<noteq> CHR ''-''" "d < 36 \<Longrightarrow> digit_char d \<noteq> CHR ''+''"
  "d < 36 \<Longrightarrow> digit_char d \<noteq> SP" "d < 36 \<Longrightarrow> digit_char d \<noteq> CR" "d < 36 \<Longrightarrow> digit_char d \<noteq> LF"
  using digit_val_digit_char [of d]
  by (auto simp: digit_val_def is_digit_def is_lower_def is_upper_def byte_val_def)

lemma ParseInt_FormatInt:
  assumes "2 \<le> base" "base \<le> 36" "int n < 2 ^ (bits - 1)"
  shows "ParseInt base bits (FormatInt base n) = Some (int n)"
proof -
  have "hd (FormatInt base n) \<in> set (FormatInt base n)" by simp
  then obtain d where "d < base" "hd (FormatInt base n) = digit_char d"
    using FormatInt_digits assms by blast
  then show ?thesis
    using assms by (simp add: ParseInt_def parse_unsigned_def parse_digits_FormatInt Let_def)
qed

text \<open>Code equations on characters, for evaluation: classes and cases by table instead of by the numbers of the bytes.\<close>

lemma char_of_byte_val [simp]: "char_of (byte_val c) = c"
  by (simp add: byte_val_def)

lemma byte_range: "b \<le> 256 \<Longrightarrow> byte_val c \<in> {a..<b} \<longleftrightarrow> c \<in> set (map char_of [a..<b])"
proof
  assume "b \<le> 256" "c \<in> set (map char_of [a..<b])"
  then obtain n where n: "c = char_of n" "a \<le> n" "n < b" by auto
  with \<open>b \<le> 256\<close> show "byte_val c \<in> {a..<b}" by simp
qed (use char_of_byte_val [of c] in \<open>force simp del: char_of_byte_val\<close>)

definition upper_chars :: string where
  "upper_chars = ''ABCDEFGHIJKLMNOPQRSTUVWXYZ''"
definition lower_chars :: string where
  "lower_chars = ''abcdefghijklmnopqrstuvwxyz''"

lemma char_ranges: "map char_of [65..<91] = upper_chars" "map char_of [97..<123] = lower_chars" "map char_of [48..<58] = ''0123456789''"
  by code_simp+

lemma is_upper_code [code]: "is_upper c = (c \<in> set upper_chars)"
  using byte_range [of 91 c 65, unfolded char_ranges(1)] by (auto simp: is_upper_def)

lemma is_lower_code [code]: "is_lower c = (c \<in> set lower_chars)"
  using byte_range [of 123 c 97, unfolded char_ranges(2)] by (auto simp: is_lower_def)

lemma is_digit_code [code]: "is_digit c = (c \<in> set ''0123456789'')"
  using byte_range [of 58 c 48, unfolded char_ranges(3)] by (auto simp: is_digit_def simp del: list.set)

fun pick :: "char list \<Rightarrow> char list \<Rightarrow> char \<Rightarrow> char" where
  "pick (a # as) (b # bs) c = (if c = a then b else pick as bs c)"
| "pick _ _ c = c"

lemma case_tables: "list_all (\<lambda>c. up c = pick lower_chars upper_chars c) lower_chars" "list_all (\<lambda>c. low c = pick upper_chars lower_chars c) upper_chars"
  by code_simp+

lemma pick_other: "c \<notin> set as \<Longrightarrow> pick as bs c = c"
  by (induction as bs c rule: pick.induct) auto

lemma up_code [code]: "up c = pick lower_chars upper_chars c"
  using case_tables(1) pick_other [of c lower_chars] is_lower_code [of c] by (cases "c \<in> set lower_chars") (auto simp: list_all_iff up_def)

lemma low_code [code]: "low c = pick upper_chars lower_chars c"
  using case_tables(2) pick_other [of c upper_chars] is_upper_code [of c] by (cases "c \<in> set upper_chars") (auto simp: list_all_iff low_def)

end
