(* ===== verification/HttpTable.thy ===== *)
theory HttpTable
  imports GoStd
begin

text \<open>
  The character tables of \<open>nbhttp/table.go\<close>, built the way its \<open>init\<close> function fills them, and
  the parser states of \<open>nbhttp/state.go\<close>. A \<open>[256]bool\<close> table is the list of the byte values it
  marks true.
\<close>

datatype pstate =
    stateClose
  | stateMethodBefore
  | stateMethod
  | statePathBefore
  | statePath
  | stateProtoBefore
  | stateProto
  | stateProtoLF
  | stateClientProtoBefore
  | stateClientProto
  | stateStatusCodeBefore
  | stateStatusCode
  | stateStatusBefore
  | stateStatus
  | stateStatusLF
  | stateHeaderKeyBefore
  | stateHeaderValueLF
  | stateHeaderKey
  | stateHeaderValueBefore
  | stateHeaderValue
  | stateBodyContentLength
  | stateHeaderOverLF
  | stateBodyChunkSizeBefore
  | stateBodyChunkSize
  | stateBodyChunkSizeLF
  | stateBodyChunkData
  | stateBodyChunkDataCR
  | stateBodyChunkDataLF
  | stateBodyTrailerHeaderValueLF
  | stateBodyTrailerHeaderKeyBefore
  | stateBodyTrailerHeaderKey
  | stateBodyTrailerHeaderValueBefore
  | stateBodyTrailerHeaderValue
  | stateTailCR
  | stateTailLF

definition validMethods :: "string list" where
  "validMethods = [''OPTIONS'', ''GET'', ''HEAD'', ''POST'', ''PUT'', ''DELETE'', ''TRACE'',
     ''CONNECT'', ''PATCH'', ''PRI'']"

definition tokenCharMap :: "nat list" where
  "tokenCharMap = map byte_val
     (CHR 0x27 # CHR 0x60 # ''!#$%&*+-.0123456789ABCDEFGHIJKLMNOPQRSTUWVXYZ^_abcdefghijklmnopqrstuvwxyz|~'')"

definition validMethodCharMap :: "nat list" where
  "validMethodCharMap =
     concat (map (\<lambda>m. concat (map (\<lambda>c. [byte_val c, byte_val c + 32]) m)) validMethods)"

definition numCharMap :: "nat list" where
  "numCharMap = map (\<lambda>i. 48 + i) [0..<10]"

definition hexCharMap :: "nat list" where
  "hexCharMap = map (\<lambda>i. 48 + i) [0..<10] @ concat (map (\<lambda>i. [65 + i, 97 + i]) [0..<6])"

definition alphaCharMap :: "nat list" where
  "alphaCharMap = concat (map (\<lambda>i. [65 + i, 65 + i + 32]) [0..<26])"

definition isAlpha :: "char \<Rightarrow> bool" where
  "isAlpha c \<longleftrightarrow> byte_val c \<in> set alphaCharMap"

definition isNum :: "char \<Rightarrow> bool" where
  "isNum c \<longleftrightarrow> byte_val c \<in> set numCharMap"

definition isHex :: "char \<Rightarrow> bool" where
  "isHex c \<longleftrightarrow> byte_val c \<in> set hexCharMap"

definition isToken :: "char \<Rightarrow> bool" where
  "isToken c \<longleftrightarrow> byte_val c \<in> set tokenCharMap"

definition isValidMethod :: "string \<Rightarrow> bool" where
  "isValidMethod m \<longleftrightarrow> ToUpper m \<in> set validMethods"

definition isValidMethodChar :: "char \<Rightarrow> bool" where
  "isValidMethodChar c \<longleftrightarrow> byte_val c \<in> set validMethodCharMap"

lemma set_concat_pairs: "set (concat (map (\<lambda>i. [f i, g i]) xs)) = f ` set xs \<union> g ` set xs"
  by auto

lemma isNum_iff: "isNum c \<longleftrightarrow> is_digit c"
  by (auto simp: isNum_def numCharMap_def is_digit_def simp del: upt_Suc)

lemma isAlpha_iff: "isAlpha c \<longleftrightarrow> is_upper c \<or> is_lower c"
proof -
  have "set alphaCharMap = (\<lambda>i. 65 + i) ` {0..<26} \<union> (\<lambda>i. 97 + i) ` {0..<26}"
    unfolding alphaCharMap_def set_concat_pairs by simp
  also have "\<dots> = {65..<91} \<union> {97..<123}" by simp
  finally show ?thesis
    by (auto simp: isAlpha_def is_upper_def is_lower_def)
qed

lemma isHex_iff:
  "isHex c \<longleftrightarrow> is_digit c \<or> (65 \<le> byte_val c \<and> byte_val c \<le> 70) \<or> (97 \<le> byte_val c \<and> byte_val c \<le> 102)"
proof -
  have "set hexCharMap =
      (\<lambda>i. 48 + i) ` {0..<10} \<union> ((\<lambda>i. 65 + i) ` {0..<6} \<union> (\<lambda>i. 97 + i) ` {0..<6})"
    unfolding hexCharMap_def set_append set_concat_pairs by simp
  also have "\<dots> = {48..<58} \<union> ({65..<71} \<union> {97..<103})" by simp
  finally show ?thesis
    by (auto simp: isHex_def is_digit_def)
qed

lemma validMethodCharMap_subset: "set validMethodCharMap \<subseteq> set alphaCharMap"
  by code_simp

lemma isValidMethodChar_isAlpha: "isValidMethodChar c \<Longrightarrow> isAlpha c"
  using validMethodCharMap_subset by (auto simp: isValidMethodChar_def isAlpha_def)

lemma not_isToken [simp]:
  "\<not> isToken SP" "\<not> isToken CR" "\<not> isToken LF" "\<not> isToken HTAB" "\<not> isToken (CHR '':'')"
  by (code_simp, code_simp, code_simp, code_simp, code_simp)

lemma not_isHex [simp]: "\<not> isHex SP" "\<not> isHex CR" "\<not> isHex LF" "\<not> isHex (CHR '';'')"
  by (code_simp, code_simp, code_simp, code_simp)

text \<open>A hexadecimal digit of the table is exactly a digit \<open>strconv\<close> accepts in base 16.\<close>

lemma isHex_digit_val: "isHex c \<longleftrightarrow> (\<exists>d. digit_val c = Some d \<and> d < 16)"
  by (auto simp: isHex_iff digit_val_def is_digit_def is_lower_def is_upper_def)

lemma isHex_FormatInt: "c \<in> set (FormatInt 16 n) \<Longrightarrow> isHex c"
  using FormatInt_digits [of 16 c n] by (auto simp: isHex_digit_val)

lemma isToken_code [code]:
  "isToken c = (c \<in> set (CHR 0x27 # CHR 0x60 # ''!#$%&*+-.0123456789ABCDEFGHIJKLMNOPQRSTUWVXYZ^_abcdefghijklmnopqrstuvwxyz|~''))"
  unfolding isToken_def tokenCharMap_def set_map by (rule inj_image_mem_iff) (simp add: inj_def)

end
