(* ===== verification/StreamReader.thy ===== *)
theory StreamReader
  imports Prelude
begin

text \<open>
  The interface between the network side of the program and its protocol readers. The engine reads
  a stream in pieces of arbitrary size and hands each piece to a reader (the HTTP parser, the
  websocket frame reader), which keeps what it cannot use yet. \<open>feed\<close> is one such call (\<open>None\<close>
  where the call would not return), \<open>ready s n\<close> says that the reader in state \<open>s\<close> may be given \<open>n\<close>
  more bytes, and \<open>obs\<close> is what is observed of a result. The laws make the result independent of
  how the stream is cut, which is proved once, in the locale.
\<close>

fun feed_all :: "('a list \<Rightarrow> 's \<Rightarrow> ('s \<times> 'e option) option) \<Rightarrow> 'a list list \<Rightarrow> 's \<Rightarrow> ('s \<times> 'e option) option" where
  "feed_all feed [] s = Some (s, None)"
| "feed_all feed (d # ds) s =
     (case feed d s of
        None \<Rightarrow> None
      | Some (s', Some e) \<Rightarrow> Some (s', Some e)
      | Some (s', None) \<Rightarrow> feed_all feed ds s')"

locale stream_reader =
  fixes feed :: "'a list \<Rightarrow> 's \<Rightarrow> ('s \<times> 'e option) option"
    and ready :: "'s \<Rightarrow> nat \<Rightarrow> bool"
    and obs :: "('s \<times> 'e option) option \<Rightarrow> 'r"
  assumes feed_total: "ready s (length d) \<Longrightarrow> feed d s \<noteq> None"
    and ready_mono: "ready s (n + m) \<Longrightarrow> ready s n"
    and feed_ready: "ready s (length d + n) \<Longrightarrow> feed d s = Some (s', None) \<Longrightarrow> ready s' n"
    and feed_cut: "ready s (length a + length b) \<Longrightarrow> feed a s = Some (s', None) \<Longrightarrow>
      obs (feed b s') = obs (feed (a @ b) s)"
    and feed_fail: "ready s (length a + length b) \<Longrightarrow> feed a s = Some (s', Some e) \<Longrightarrow>
      obs (feed (a @ b) s) = obs (feed a s)"
begin

lemma feed_all_single: "feed d s \<noteq> None \<Longrightarrow> feed_all feed [d] s = feed d s"
  by (auto split: option.split)

lemma feed_all_concat:
  "ds \<noteq> [] \<Longrightarrow> ready s (length (concat ds)) \<Longrightarrow>
   obs (feed_all feed ds s) = obs (feed (concat ds) s)"
proof (induction ds arbitrary: s)
  case (Cons d ds)
  from Cons.prems have rd: "ready s (length d + length (concat ds))" by simp
  then have "feed d s \<noteq> None" by (rule feed_total [OF ready_mono])
  then obtain s' e where f: "feed d s = Some (s', e)" by auto
  show ?case
  proof (cases e)
    case None
    show ?thesis
    proof (cases "ds = []")
      case True
      then show ?thesis using f None by simp
    next
      case False
      have "ready s' (length (concat ds))" using rd f None by (blast intro: feed_ready)
      then have "obs (feed_all feed ds s') = obs (feed (concat ds) s')" using Cons.IH False by blast
      also have "\<dots> = obs (feed (d @ concat ds) s)" using rd f None by (blast intro: feed_cut)
      finally show ?thesis using f None by simp
    qed
  next
    case (Some e')
    then show ?thesis using f feed_fail [of s d "concat ds" s' e'] rd by simp
  qed
qed simp

lemma feed_all_total: "ready s (length (concat ds)) \<Longrightarrow> feed_all feed ds s \<noteq> None"
proof (induction ds arbitrary: s)
  case (Cons d ds)
  from Cons.prems have rd: "ready s (length d + length (concat ds))" by simp
  then have "feed d s \<noteq> None" by (rule feed_total [OF ready_mono])
  with rd Cons.IH show ?case by (auto split: option.splits intro: feed_ready)
qed simp

text \<open>Two ways to cut the same bytes give the same result.\<close>

lemma feed_all_recut:
  assumes "concat ds = concat ds'" "ds \<noteq> []" "ds' \<noteq> []" "ready s (length (concat ds))"
  shows "obs (feed_all feed ds s) = obs (feed_all feed ds' s)"
  using assms feed_all_concat by metis

end

end
