(* ===== verification/HttpParser.thy ===== *)
theory HttpParser
  imports HttpTable StreamReader
begin

text \<open>
  The incremental HTTP/1.x parser of \<open>nbhttp/parser.go\<close>. \<open>Parse\<close> is the method of that name: it
  prepends the bytes cached from the previous call, runs the byte loop (\<open>parse_loop\<close>, one
  \<open>parse_step\<close> per byte, the \<open>switch p.state\<close> split into the request line, the status line, the
  header, the body and the trailer), and caches what is left from the start of the unfinished
  token. The \<open>Processor\<close> interface, the upgraded reader (\<open>ParserCloser\<close>) and the engine settings
  the parser reads are the dictionary \<open>penv\<close>, so every result holds for each processor.

  Buffers are modelled by their contents: \<open>mempool.Malloc\<close> with \<open>copy\<close> is the copied bytes and
  \<open>mempool.Append\<close> is concatenation. The parser mutex is held during a whole call, so a call is
  one step. The loop function returns \<open>LStuck\<close> where the index would not advance; it is shown
  never to happen.
\<close>

datatype http_err =
    ErrClosed
  | ErrInvalidMethod
  | ErrInvalidRequestURI
  | ErrInvalidHTTPStatusCode
  | ErrInvalidHTTPStatus
  | ErrCRExpected
  | ErrLFExpected
  | ErrInvalidCharInHeader
  | ErrUnexpectedContentLength
  | ErrInvalidContentLength
  | ErrInvalidChunkSize
  | ErrTrailerExpected
  | ErrTooLong
  | ErrNumber string
  | ErrChunkSize string
  | ErrTooManyTransferEncodings "string list"
  | ErrUnsupportedTransferEncoding string
  | ErrBadContentLength string
  | ErrBadTrailerKey string
  | ErrInvalidTrailer string
  | ErrMalformedVersion string
  | ErrURL string
  | ErrHandler string

record ('ps, 'u) penv =
  OnMethod :: "string \<Rightarrow> 'ps \<Rightarrow> 'ps"
  OnURL :: "string \<Rightarrow> 'ps \<Rightarrow> 'ps \<times> http_err option"
  OnProto :: "string \<Rightarrow> 'ps \<Rightarrow> 'ps \<times> http_err option"
  OnStatus :: "int \<Rightarrow> string \<Rightarrow> 'ps \<Rightarrow> 'ps"
  OnHeader :: "string \<Rightarrow> string \<Rightarrow> 'ps \<Rightarrow> 'ps"
  OnContentLength :: "int \<Rightarrow> 'ps \<Rightarrow> 'ps"
  OnBody :: "bytes \<Rightarrow> 'ps \<Rightarrow> 'ps \<times> http_err option"
  OnTrailerHeader :: "string \<Rightarrow> string \<Rightarrow> 'ps \<Rightarrow> 'ps"
  OnComplete :: "'ps \<Rightarrow> 'ps \<times> 'u option"
  ProcClose :: "'ps \<Rightarrow> http_err option \<Rightarrow> 'ps"
  Clean :: "'ps \<Rightarrow> 'ps"
  CloserParse :: "bytes \<Rightarrow> 'u \<Rightarrow> 'u \<times> http_err option"
  ReadLimit :: int
  KeepaliveDeadline :: int

record ('ps, 'u) parser =
  p_bytesCached :: "bytes option"
  p_ParserCloser :: "'u option"
  p_Processor :: 'ps
  p_proto :: string
  p_statusCode :: int
  p_status :: string
  p_headerKey :: string
  p_headerValue :: string
  p_header :: Header
  p_trailer :: Header
  p_contentLength :: int
  p_chunkSize :: int
  p_state :: pstate
  p_chunked :: bool
  p_isClient :: bool
  p_headerExists :: bool
  p_initialReadDeadlinePending :: bool
  p_readDeadline :: "int option"

definition MaxInt :: int where
  "MaxInt = 2 ^ 63 - 1"

definition transferEncodingHeader :: string where
  "transferEncodingHeader = ''Transfer-Encoding''"

definition trailerHeader :: string where
  "trailerHeader = ''Trailer''"

definition contentLengthHeader :: string where
  "contentLengthHeader = ''Content-Length''"

definition NewParser :: "'ps \<Rightarrow> bool \<Rightarrow> ('ps, 'u) parser" where
  "NewParser ps isClient = \<lparr>
     p_bytesCached = None, p_ParserCloser = None, p_Processor = ps, p_proto = [],
     p_statusCode = 0, p_status = [], p_headerKey = [], p_headerValue = [], p_header = [],
     p_trailer = [], p_contentLength = 0, p_chunkSize = 0,
     p_state = (if isClient then stateClientProtoBefore else stateMethodBefore),
     p_chunked = False, p_isClient = isClient, p_headerExists = False,
     p_initialReadDeadlinePending = False, p_readDeadline = None\<rparr>"

definition initReadDeadline :: "('ps, 'u) penv \<Rightarrow> ('ps, 'u) parser \<Rightarrow> ('ps, 'u) parser" where
  "initReadDeadline E p =
     (if \<not> p_initialReadDeadlinePending p then p
      else if p_state p \<noteq> stateClose
        then p\<lparr>p_initialReadDeadlinePending := False, p_readDeadline := Some (KeepaliveDeadline E)\<rparr>
        else p\<lparr>p_initialReadDeadlinePending := False\<rparr>)"

definition nextState :: "('ps, 'u) parser \<Rightarrow> pstate \<Rightarrow> ('ps, 'u) parser" where
  "nextState p s = (if p_state p = stateClose then p else p\<lparr>p_state := s\<rparr>)"

text \<open>\<open>CloseAndClean\<close>: the second component says whether the \<open>onClose\<close> callback runs.\<close>

definition CloseAndClean ::
  "('ps, 'u) penv \<Rightarrow> http_err option \<Rightarrow> ('ps, 'u) parser \<Rightarrow> ('ps, 'u) parser \<times> bool" where
  "CloseAndClean E err p =
     (if p_state p = stateClose then (p, False)
      else (p\<lparr>p_state := stateClose, p_Processor := ProcClose E (p_Processor p) err\<rparr>, True))"

definition parseAndValidateChunkSize :: "string \<Rightarrow> http_err + int" where
  "parseAndValidateChunkSize s =
     (case ParseInt 16 63 s of
        None \<Rightarrow> Inl (ErrChunkSize s)
      | Some n \<Rightarrow> if n < 0 then Inl (ErrChunkSize s)
                 else if n > MaxInt then Inl (ErrChunkSize s)
                 else Inr n)"

definition parseTransferEncoding :: "('ps, 'u) parser \<Rightarrow> ('ps, 'u) parser \<times> http_err option" where
  "parseTransferEncoding p =
     (case map_of (p_header p) transferEncodingHeader of
        None \<Rightarrow> (p, None)
      | Some raw \<Rightarrow>
          (let p1 = p\<lparr>p_header := Header_Del (p_header p) transferEncodingHeader\<rparr> in
           if length raw \<noteq> 1 then (p1, Some (ErrTooManyTransferEncodings raw))
           else if ToLower (TrimString (hd raw)) \<noteq> ''chunked''
             then (p1, Some (ErrUnsupportedTransferEncoding (hd raw)))
           else (p1\<lparr>p_header := Header_Del (p_header p1) contentLengthHeader, p_chunked := True\<rparr>,
                 None)))"

text \<open>The loop of \<open>parseContentLength\<close> that cuts trailing spaces; a value of spaces only is kept.\<close>

definition trimTrailingSpaces :: "string \<Rightarrow> string" where
  "trimTrailingSpaces cl =
     (let r = rev (dropWhile (\<lambda>c. c = SP) (rev cl)) in if r = [] then cl else r)"

definition parseContentLength :: "('ps, 'u) parser \<Rightarrow> ('ps, 'u) parser \<times> http_err option" where
  "parseContentLength p =
     (let cl = Header_Get (p_header p) contentLengthHeader in
      if cl \<noteq> [] then
        (if p_chunked p then (p, Some ErrUnexpectedContentLength)
         else case ParseInt 10 63 (trimTrailingSpaces cl) of
                None \<Rightarrow> (p, Some (ErrBadContentLength (trimTrailingSpaces cl)))
              | Some l \<Rightarrow> if l < 0 then (p, Some ErrInvalidContentLength)
                         else if l > MaxInt then (p, Some ErrInvalidContentLength)
                         else (p\<lparr>p_contentLength := l\<rparr>, None))
      else (p\<lparr>p_contentLength := -1\<rparr>, None))"

definition add_trailer_key :: "string \<Rightarrow> http_err + Header \<Rightarrow> http_err + Header" where
  "add_trailer_key raw acc =
     (case acc of Inl e \<Rightarrow> Inl e
      | Inr trailer \<Rightarrow>
          (let k = TrimString raw in
           if k = [] then Inr trailer
           else let k' = CanonicalHeaderKey k in
             if k' \<in> {transferEncodingHeader, trailerHeader, contentLengthHeader}
             then Inl (ErrBadTrailerKey k') else Inr (AList.update k' [] trailer)))"

definition add_trailer_value :: "string \<Rightarrow> http_err + Header \<Rightarrow> http_err + Header" where
  "add_trailer_value key acc =
     (let k = TrimString key in
      if k = [] then acc
      else if CHR '','' \<notin> set k then add_trailer_key k acc
      else fold add_trailer_key (split_on (CHR '','') k) acc)"

definition parseTrailer :: "('ps, 'u) parser \<Rightarrow> ('ps, 'u) parser \<times> http_err option" where
  "parseTrailer p =
     (if \<not> p_chunked p then (p, None)
      else case map_of (p_header p) trailerHeader of
        None \<Rightarrow> (p, None)
      | Some trailers \<Rightarrow>
          (let p1 = p\<lparr>p_header := Header_Del (p_header p) trailerHeader\<rparr> in
           case fold add_trailer_value trailers (Inr []) of
             Inl e \<Rightarrow> (p1, Some e)
           | Inr trailer \<Rightarrow>
               (if trailer \<noteq> [] then (p1\<lparr>p_trailer := trailer\<rparr>, None) else (p1, None))))"

definition handleMessage :: "('ps, 'u) penv \<Rightarrow> ('ps, 'u) parser \<Rightarrow> ('ps, 'u) parser" where
  "handleMessage E p =
     (let (ps, up) = OnComplete E (p_Processor p);
          p1 = p\<lparr>p_Processor := ps,
                 p_ParserCloser := (case up of None \<Rightarrow> p_ParserCloser p | Some u \<Rightarrow> Some u),
                 p_chunked := False, p_header := [], p_trailer := []\<rparr>
      in nextState p1 (if \<not> p_isClient p then stateMethodBefore else stateClientProtoBefore))"

text \<open>The result of one iteration of the byte loop: \<open>Next\<close> carries the token start and the index of
  the next iteration, \<open>Fail\<close> is a \<open>return\<close> with an error and \<open>ExitLoop\<close> is \<open>goto Exit\<close>.\<close>

datatype 'p step = Next 'p nat nat | Fail 'p http_err | ExitLoop 'p nat

definition step_request ::
  "('ps, 'u) penv \<Rightarrow> bytes \<Rightarrow> nat \<Rightarrow> nat \<Rightarrow> ('ps, 'u) parser \<Rightarrow> ('ps, 'u) parser step" where
  "step_request E data i start p =
     (let c = data ! i; tok = go_slice data start i in
      case p_state p of
        stateMethodBefore \<Rightarrow>
          if isValidMethodChar c then Next (nextState p stateMethod) i (Suc i)
          else Fail p ErrInvalidMethod
      | stateMethod \<Rightarrow>
          if c = SP then
            (if \<not> isValidMethod (ToUpper tok) then Fail p ErrInvalidMethod
             else Next (nextState (p\<lparr>p_Processor := OnMethod E (ToUpper tok) (p_Processor p)\<rparr>)
                         statePathBefore) (Suc i) (Suc i))
          else if \<not> isAlpha c then Fail p ErrInvalidMethod
          else Next p start (Suc i)
      | statePathBefore \<Rightarrow>
          if c = CHR ''/'' \<or> c = CHR ''*'' then Next (nextState p statePath) i (Suc i)
          else if c = SP then Next p start (Suc i)
          else Fail p ErrInvalidRequestURI
      | statePath \<Rightarrow>
          if c = SP then
            (case OnURL E tok (p_Processor p) of
               (ps, Some e) \<Rightarrow> Fail (p\<lparr>p_Processor := ps\<rparr>) e
             | (ps, None) \<Rightarrow> Next (nextState (p\<lparr>p_Processor := ps\<rparr>) stateProtoBefore) (Suc i) (Suc i))
          else Next p start (Suc i)
      | stateProtoBefore \<Rightarrow>
          if c \<noteq> SP then Next (nextState p stateProto) i (Suc i) else Next p start (Suc i)
      | stateProto \<Rightarrow>
          (let p1 = (if p_proto p = [] then p\<lparr>p_proto := tok\<rparr> else p) in
           if c = SP then Next p1 start (Suc i)
           else if c = CR then
             (case OnProto E (p_proto p1) (p_Processor p1) of
                (ps, Some e) \<Rightarrow> Fail (p1\<lparr>p_Processor := ps, p_proto := []\<rparr>) e
              | (ps, None) \<Rightarrow>
                  Next (nextState (p1\<lparr>p_Processor := ps, p_proto := []\<rparr>) stateProtoLF) start (Suc i))
           else Next p start (Suc i))
      | stateProtoLF \<Rightarrow>
          if c = LF then Next (nextState p stateHeaderKeyBefore) (Suc i) (Suc i)
          else Fail p ErrLFExpected
      | _ \<Rightarrow> Next p start (Suc i))"

definition step_status ::
  "('ps, 'u) penv \<Rightarrow> bytes \<Rightarrow> nat \<Rightarrow> nat \<Rightarrow> ('ps, 'u) parser \<Rightarrow> ('ps, 'u) parser step" where
  "step_status E data i start p =
     (let c = data ! i; tok = go_slice data start i in
      case p_state p of
        stateClientProtoBefore \<Rightarrow>
          if c = CHR ''H'' then Next (nextState p stateClientProto) i (Suc i)
          else Fail p ErrInvalidMethod
      | stateClientProto \<Rightarrow>
          if c = SP then
            (let p1 = (if p_proto p = [] then p\<lparr>p_proto := tok\<rparr> else p) in
             case OnProto E (p_proto p1) (p_Processor p1) of
               (ps, Some e) \<Rightarrow> Fail (p1\<lparr>p_Processor := ps, p_proto := []\<rparr>) e
             | (ps, None) \<Rightarrow>
                 Next (nextState (p1\<lparr>p_Processor := ps, p_proto := []\<rparr>) stateStatusCodeBefore)
                   start (Suc i))
          else Next p start (Suc i)
      | stateStatusCodeBefore \<Rightarrow>
          if c = SP then Fail p ErrInvalidHTTPStatusCode
          else if isNum c then Next (nextState p stateStatusCode) i (Suc i)
          else Next p start (Suc i)
      | stateStatusCode \<Rightarrow>
          if c = SP then
            (case ParseInt 10 64 tok of
               None \<Rightarrow> Fail p (ErrNumber tok)
             | Some code \<Rightarrow> Next (nextState (p\<lparr>p_statusCode := code\<rparr>) stateStatusBefore) start (Suc i))
          else if \<not> isNum c then Fail p ErrInvalidHTTPStatusCode
          else Next p start (Suc i)
      | stateStatusBefore \<Rightarrow>
          if c = SP then Fail p ErrInvalidHTTPStatus
          else if isAlpha c then Next (nextState p stateStatus) i (Suc i)
          else Next p start (Suc i)
      | stateStatus \<Rightarrow>
          (let p1 = (if p_status p = [] then p\<lparr>p_status := tok\<rparr> else p) in
           if c = SP then Next p1 start (Suc i)
           else if c = CR then
             Next (nextState (p1\<lparr>p_Processor := OnStatus E (p_statusCode p1) (p_status p1) (p_Processor p1),
                                p_statusCode := 0, p_status := []\<rparr>) stateStatusLF) start (Suc i)
           else Next p start (Suc i))
      | stateStatusLF \<Rightarrow>
          if c = LF then Next (nextState p stateHeaderKeyBefore) start (Suc i)
          else Fail p ErrLFExpected
      | _ \<Rightarrow> Next p start (Suc i))"

text \<open>The \<open>'\r'\<close> case of the two header value states: the framing headers are remembered, the
  processor is told, and the next header line starts.\<close>

definition finish_header ::
  "('ps, 'u) penv \<Rightarrow> string \<Rightarrow> ('ps, 'u) parser \<Rightarrow> ('ps, 'u) parser" where
  "finish_header E tok p =
     (let p1 = (if p_headerValue p = [] then p\<lparr>p_headerValue := tok\<rparr> else p);
          p2 = (if p_headerKey p1 \<in> {transferEncodingHeader, trailerHeader, contentLengthHeader}
                then p1\<lparr>p_header := Header_Add (p_header p1) (p_headerKey p1) (p_headerValue p1)\<rparr>
                else p1)
      in nextState (p2\<lparr>p_Processor := OnHeader E (p_headerKey p2) (p_headerValue p2) (p_Processor p2),
                       p_headerKey := [], p_headerValue := []\<rparr>) stateHeaderValueLF)"

text \<open>The \<open>'\r'\<close> case of \<open>stateHeaderKeyBefore\<close>: the framing headers are interpreted.\<close>

definition finish_headers ::
  "('ps, 'u) penv \<Rightarrow> ('ps, 'u) parser \<Rightarrow> ('ps, 'u) parser \<times> http_err option" where
  "finish_headers E p =
     (case parseTransferEncoding p of
        (p1, Some e) \<Rightarrow> (p1, Some e)
      | (p1, None) \<Rightarrow>
          (case parseContentLength p1 of
             (p2, Some e) \<Rightarrow> (p2, Some e)
           | (p2, None) \<Rightarrow>
               (let p3 = p2\<lparr>p_Processor := OnContentLength E (p_contentLength p2) (p_Processor p2)\<rparr> in
                case parseTrailer p3 of
                  (p4, Some e) \<Rightarrow> (p4, Some e)
                | (p4, None) \<Rightarrow> (nextState p4 stateHeaderOverLF, None))))"

definition step_header ::
  "('ps, 'u) penv \<Rightarrow> bytes \<Rightarrow> nat \<Rightarrow> nat \<Rightarrow> ('ps, 'u) parser \<Rightarrow> ('ps, 'u) parser step" where
  "step_header E data i start p =
     (let c = data ! i; tok = go_slice data start i in
      case p_state p of
        stateHeaderValueLF \<Rightarrow>
          if c = LF then Next (nextState p stateHeaderKeyBefore) (Suc i) (Suc i)
          else Fail p ErrLFExpected
      | stateHeaderKeyBefore \<Rightarrow>
          if c = SP then
            (if \<not> p_headerExists p then Fail p ErrInvalidCharInHeader else Next p start (Suc i))
          else if c = CR then
            (case finish_headers E p of
               (p1, Some e) \<Rightarrow> Fail p1 e
             | (p1, None) \<Rightarrow> Next p1 (Suc i) (Suc i))
          else if c = LF then Fail p ErrInvalidCharInHeader
          else if isToken c then
            Next ((nextState p stateHeaderKey)\<lparr>p_headerExists := True\<rparr>) i (Suc i)
          else Fail p ErrInvalidCharInHeader
      | stateHeaderKey \<Rightarrow>
          (let p1 = (if p_headerKey p = [] then p\<lparr>p_headerKey := CanonicalHeaderKey tok\<rparr> else p) in
           if c = SP then Next p1 start (Suc i)
           else if c = CHR '':'' then Next (nextState p1 stateHeaderValueBefore) (Suc i) (Suc i)
           else if c = CR \<or> c = LF then Fail p ErrInvalidCharInHeader
           else if \<not> isToken c then Fail p ErrInvalidCharInHeader
           else Next p start (Suc i))
      | stateHeaderValueBefore \<Rightarrow>
          if c = SP then Next p start (Suc i)
          else if c = CR then Next (finish_header E tok p) (Suc i) (Suc i)
          else if c = LF then Fail p ErrInvalidCharInHeader
          else Next (nextState p stateHeaderValue) i (Suc i)
      | stateHeaderValue \<Rightarrow>
          if c = CR then Next (finish_header E tok p) (Suc i) (Suc i)
          else if c = LF then Fail p ErrInvalidCharInHeader
          else Next p start (Suc i)
      | stateHeaderOverLF \<Rightarrow>
          if c = LF then
            (let p1 = p\<lparr>p_headerExists := False\<rparr> in
             if p_chunked p1 then Next (nextState p1 stateBodyChunkSizeBefore) (Suc i) (Suc i)
             else if p_contentLength p1 > 0
               then Next (nextState p1 stateBodyContentLength) (Suc i) (Suc i)
             else Next (handleMessage E p1) (Suc i) (Suc i))
          else Fail p ErrLFExpected
      | _ \<Rightarrow> Next p start (Suc i))"

text \<open>The three identical uses of \<open>parseAndValidateChunkSize\<close>.\<close>

definition read_chunk_size :: "string \<Rightarrow> ('ps, 'u) parser \<Rightarrow> http_err + ('ps, 'u) parser" where
  "read_chunk_size tok p =
     (if p_chunkSize p < 0 then
        (case parseAndValidateChunkSize tok of
           Inl e \<Rightarrow> Inl e | Inr n \<Rightarrow> Inr (p\<lparr>p_chunkSize := n\<rparr>))
      else Inr p)"

definition step_body ::
  "('ps, 'u) penv \<Rightarrow> bytes \<Rightarrow> nat \<Rightarrow> nat \<Rightarrow> ('ps, 'u) parser \<Rightarrow> ('ps, 'u) parser step" where
  "step_body E data i start p =
     (let c = data ! i; tok = go_slice data start i; left = length data - start in
      case p_state p of
        stateBodyContentLength \<Rightarrow>
          (let cl = nat (p_contentLength p) in
           if left \<ge> cl then
             (case OnBody E (go_slice data start (start + cl)) (p_Processor p) of
                (ps, Some e) \<Rightarrow> Fail (p\<lparr>p_Processor := ps\<rparr>) e
              | (ps, None) \<Rightarrow>
                  Next (handleMessage E (p\<lparr>p_Processor := ps\<rparr>)) (start + cl) (start + cl))
           else ExitLoop p start)
      | stateBodyChunkSizeBefore \<Rightarrow>
          if isHex c then Next (nextState (p\<lparr>p_chunkSize := -1\<rparr>) stateBodyChunkSize) i (Suc i)
          else Fail p ErrInvalidChunkSize
      | stateBodyChunkSize \<Rightarrow>
          if c = SP then
            (case read_chunk_size tok p of Inl e \<Rightarrow> Fail p e | Inr p1 \<Rightarrow> Next p1 start (Suc i))
          else if c = CR then
            (case read_chunk_size tok p of Inl e \<Rightarrow> Fail p e
             | Inr p1 \<Rightarrow> Next (nextState p1 stateBodyChunkSizeLF) (Suc i) (Suc i))
          else if \<not> isHex c then
            (case read_chunk_size tok p of Inl e \<Rightarrow> Fail p e | Inr p1 \<Rightarrow> Next p1 start (Suc i))
          else Next p start (Suc i)
      | stateBodyChunkSizeLF \<Rightarrow>
          if c = LF then
            (if p_chunkSize p > 0 then Next (nextState p stateBodyChunkData) (Suc i) (Suc i)
             else if p_trailer p \<noteq> []
               then Next (nextState p stateBodyTrailerHeaderKeyBefore) (Suc i) (Suc i)
             else Next (nextState p stateTailCR) (Suc i) (Suc i))
          else Fail p ErrLFExpected
      | stateBodyChunkData \<Rightarrow>
          (let cl = nat (p_chunkSize p) in
           if left \<ge> cl then
             (case OnBody E (go_slice data start (start + cl)) (p_Processor p) of
                (ps, Some e) \<Rightarrow> Fail (p\<lparr>p_Processor := ps\<rparr>) e
              | (ps, None) \<Rightarrow>
                  Next (nextState (p\<lparr>p_Processor := ps\<rparr>) stateBodyChunkDataCR) (start + cl) (start + cl))
           else ExitLoop p start)
      | stateBodyChunkDataCR \<Rightarrow>
          if c = CR then Next (nextState p stateBodyChunkDataLF) start (Suc i)
          else Fail p ErrCRExpected
      | stateBodyChunkDataLF \<Rightarrow>
          if c = LF then Next (nextState p stateBodyChunkSizeBefore) start (Suc i)
          else Fail p ErrLFExpected
      | _ \<Rightarrow> Next p start (Suc i))"

definition step_trailer ::
  "('ps, 'u) penv \<Rightarrow> bytes \<Rightarrow> nat \<Rightarrow> nat \<Rightarrow> ('ps, 'u) parser \<Rightarrow> ('ps, 'u) parser step" where
  "step_trailer E data i start p =
     (let c = data ! i; tok = go_slice data start i;
          pv = (if p_headerValue p = [] then p\<lparr>p_headerValue := tok\<rparr> else p);
          done = (\<lambda>q. nextState (q\<lparr>p_Processor :=
                     OnTrailerHeader E (p_headerKey q) (p_headerValue q) (p_Processor q),
                     p_headerKey := [], p_headerValue := []\<rparr>) stateBodyTrailerHeaderValueLF) in
      case p_state p of
        stateBodyTrailerHeaderValueLF \<Rightarrow>
          if c = LF then Next (nextState p stateBodyTrailerHeaderKeyBefore) i (Suc i)
          else Fail p ErrLFExpected
      | stateBodyTrailerHeaderKeyBefore \<Rightarrow>
          if isToken c then Next (nextState p stateBodyTrailerHeaderKey) i (Suc i)
          else if c = CR then
            (if p_trailer p \<noteq> [] then Fail p ErrTrailerExpected
             else Next (nextState p stateTailLF) (Suc i) (Suc i))
          else Next p start (Suc i)
      | stateBodyTrailerHeaderKey \<Rightarrow>
          (let p1 = (if p_headerKey p = [] then p\<lparr>p_headerKey := CanonicalHeaderKey tok\<rparr> else p) in
           if c = SP then Next p1 start (Suc i)
           else if c = CHR '':'' then
             Next (nextState p1 stateBodyTrailerHeaderValueBefore) (Suc i) (Suc i)
           else if \<not> isToken c then Fail p ErrInvalidCharInHeader
           else Next p start (Suc i))
      | stateBodyTrailerHeaderValueBefore \<Rightarrow>
          if c = SP then Next p start (Suc i)
          else if c = CR then Next (done pv) (Suc i) (Suc i)
          else Next (nextState p stateBodyTrailerHeaderValue) i (Suc i)
      | stateBodyTrailerHeaderValue \<Rightarrow>
          if c = SP then Next pv start (Suc i)
          else if c = CR then
            (if p_trailer pv = [] then Fail pv (ErrInvalidTrailer (p_headerKey pv))
             else Next (done (pv\<lparr>p_trailer := AList.delete (p_headerKey pv) (p_trailer pv)\<rparr>))
                    (Suc i) (Suc i))
          else Next p start (Suc i)
      | stateTailCR \<Rightarrow>
          if c = CR then Next (nextState p stateTailLF) start (Suc i)
          else Fail p ErrCRExpected
      | stateTailLF \<Rightarrow>
          if c = LF then Next (handleMessage E p) (Suc i) (Suc i)
          else Fail p ErrLFExpected
      | _ \<Rightarrow> Next p start (Suc i))"

definition parse_step ::
  "('ps, 'u) penv \<Rightarrow> bytes \<Rightarrow> nat \<Rightarrow> nat \<Rightarrow> ('ps, 'u) parser \<Rightarrow> ('ps, 'u) parser step" where
  "parse_step E data i start p =
     (if p_state p = stateClose then Fail p ErrClosed
      else if p_state p \<in> {stateMethodBefore, stateMethod, statePathBefore, statePath,
              stateProtoBefore, stateProto, stateProtoLF} then step_request E data i start p
      else if p_state p \<in> {stateClientProtoBefore, stateClientProto, stateStatusCodeBefore,
              stateStatusCode, stateStatusBefore, stateStatus, stateStatusLF}
        then step_status E data i start p
      else if p_state p \<in> {stateHeaderValueLF, stateHeaderKeyBefore, stateHeaderKey,
              stateHeaderValueBefore, stateHeaderValue, stateHeaderOverLF}
        then step_header E data i start p
      else if p_state p \<in> {stateBodyContentLength, stateBodyChunkSizeBefore, stateBodyChunkSize,
              stateBodyChunkSizeLF, stateBodyChunkData, stateBodyChunkDataCR, stateBodyChunkDataLF}
        then step_body E data i start p
      else step_trailer E data i start p)"

datatype 'p loop_result = LExit 'p nat | LFail 'p http_err | LUpgrade 'p nat | LStuck

function parse_loop ::
  "('ps, 'u) penv \<Rightarrow> bytes \<Rightarrow> nat \<Rightarrow> nat \<Rightarrow> ('ps, 'u) parser \<Rightarrow> ('ps, 'u) parser loop_result" where
  "parse_loop E data i start p =
     (if i < length data then
        (if p_ParserCloser p \<noteq> None
         then LUpgrade (p\<lparr>p_Processor := Clean E (p_Processor p)\<rparr>) start
         else case parse_step E data i start p of
                Next p' start' i' \<Rightarrow>
                  (if i < i' then parse_loop E data i' start' p' else LStuck)
              | Fail p' e \<Rightarrow> LFail p' e
              | ExitLoop p' start' \<Rightarrow> LExit p' start')
      else LExit p start)"
  by pat_completeness auto
termination
  by (relation "measure (\<lambda>(E, data, i, start, p). length data - i)") auto

text \<open>The code after the label \<open>Exit\<close>.\<close>

definition cache_rest :: "bytes \<Rightarrow> nat \<Rightarrow> ('ps, 'u) parser \<Rightarrow> ('ps, 'u) parser" where
  "cache_rest data start p =
     (if length data - start > 0 then
        (if p_bytesCached p = None then p\<lparr>p_bytesCached := Some (drop start data)\<rparr>
         else if start > 0 then p\<lparr>p_bytesCached := Some (drop start data)\<rparr>
         else p)
      else if p_bytesCached p \<noteq> None \<and> the (p_bytesCached p) \<noteq> [] then p\<lparr>p_bytesCached := None\<rparr>
      else p)"

text \<open>The code after the label \<open>UPGRADER\<close>, when a \<open>ParserCloser\<close> is set.\<close>

definition upgrade_parse ::
  "('ps, 'u) penv \<Rightarrow> bytes \<Rightarrow> nat \<Rightarrow> ('ps, 'u) parser \<Rightarrow> ('ps, 'u) parser \<times> http_err option" where
  "upgrade_parse E data start p =
     (case p_ParserCloser p of
        None \<Rightarrow> (p, None)
      | Some u \<Rightarrow>
          (let (u', err) = CloserParse E (if start > 0 then drop start data else data) u
           in (p\<lparr>p_ParserCloser := Some u', p_bytesCached := None\<rparr>, err)))"

definition Parse ::
  "('ps, 'u) penv \<Rightarrow> bytes \<Rightarrow> ('ps, 'u) parser \<Rightarrow> (('ps, 'u) parser \<times> http_err option) option" where
  "Parse E data0 p0 =
     (if p_state p0 = stateClose then Some (p0, Some ErrClosed)
      else
        (let p = initReadDeadline E p0 in
         if data0 = [] then Some (p, None)
         else
           (let cached = (case p_bytesCached p of None \<Rightarrow> [] | Some b \<Rightarrow> b);
                offset = length cached in
            if offset > 0 \<and> ReadLimit E > 0 \<and> int (offset + length data0) > ReadLimit E
            then Some (p, Some ErrTooLong)
            else
              (let data = cached @ data0;
                   p1 = (if offset > 0 then p\<lparr>p_bytesCached := Some data\<rparr> else p) in
               if p_ParserCloser p1 \<noteq> None then Some (upgrade_parse E data 0 p1)
               else case parse_loop E data offset 0 p1 of
                      LExit p2 start \<Rightarrow> Some (cache_rest data start p2, None)
                    | LFail p2 e \<Rightarrow> Some (p2, Some e)
                    | LUpgrade p2 start \<Rightarrow> Some (upgrade_parse E data start p2)
                    | LStuck \<Rightarrow> None))))"

text \<open>A sequence of reads: the engine calls \<open>Parse\<close> once per read and stops at the first error.\<close>

definition Parse_all ::
  "('ps, 'u) penv \<Rightarrow> bytes list \<Rightarrow> ('ps, 'u) parser \<Rightarrow> (('ps, 'u) parser \<times> http_err option) option" where
  "Parse_all E = feed_all (Parse E)"

declare parse_loop.simps [simp del]

end
