(* ===== verification/HttpParserInv.thy ===== *)
theory HttpParserInv
  imports HttpParser
begin

text \<open>
  Facts about the byte loop of \<open>HttpParser\<close>: the loop invariant (the token start never passes
  the index, and in a body state fewer bytes than announced have been seen), that each iteration
  advances, that an iteration reads only from the token start on (so it can be run on a longer or
  on a shifted buffer), and what an iteration leaves alone. They give the totality of \<open>Parse\<close> and
  the independence of its result from the way the stream is cut into reads.
\<close>

definition body_len :: "('ps, 'u) parser \<Rightarrow> nat option" where
  "body_len p = (if p_state p = stateBodyContentLength then Some (nat (p_contentLength p))
     else if p_state p = stateBodyChunkData then Some (nat (p_chunkSize p)) else None)"

definition loop_inv :: "bytes \<Rightarrow> nat \<Rightarrow> nat \<Rightarrow> ('ps, 'u) parser \<Rightarrow> bool" where
  "loop_inv data i start p \<longleftrightarrow> start \<le> i \<and> i \<le> length data \<and>
     (\<forall>cl. body_len p = Some cl \<longrightarrow> i - start < cl)"

definition step_ok :: "bytes \<Rightarrow> nat \<Rightarrow> ('ps, 'u) parser step \<Rightarrow> bool" where
  "step_ok data i r = (case r of
     Next p' start' i' \<Rightarrow> loop_inv data i' start' p' \<and> i < i'
   | ExitLoop p' start' \<Rightarrow> start' \<le> length data \<and> (\<exists>cl. body_len p' = Some cl \<and> length data - start' < cl)
   | Fail p' e \<Rightarrow> True)"

primrec map_step :: "('p \<Rightarrow> 'p) \<Rightarrow> (nat \<Rightarrow> nat) \<Rightarrow> 'p step \<Rightarrow> 'p step" where
  "map_step f g (Next p s i) = Next (f p) (g s) (g i)"
| "map_step f g (Fail p e) = Fail (f p) e"
| "map_step f g (ExitLoop p s) = ExitLoop (f p) (g s)"

primrec map_loop :: "('p \<Rightarrow> 'p) \<Rightarrow> (nat \<Rightarrow> nat) \<Rightarrow> 'p loop_result \<Rightarrow> 'p loop_result" where
  "map_loop f g (LExit p s) = LExit (f p) (g s)"
| "map_loop f g (LFail p e) = LFail (f p) e"
| "map_loop f g (LUpgrade p s) = LUpgrade (f p) (g s)"
| "map_loop f g LStuck = LStuck"

definition exit_ok :: "bytes \<Rightarrow> ('ps, 'u) parser loop_result \<Rightarrow> bool" where
  "exit_ok data r = (case r of
     LExit p' s' \<Rightarrow> loop_inv data (length data) s' p'
   | LStuck \<Rightarrow> False | _ \<Rightarrow> True)"

definition set_cached :: "bytes option \<Rightarrow> ('ps, 'u) parser \<Rightarrow> ('ps, 'u) parser" where
  "set_cached b p = p\<lparr>p_bytesCached := b\<rparr>"

definition no_upgrade :: "('ps, 'u) penv \<Rightarrow> bool" where
  "no_upgrade E \<longleftrightarrow> (\<forall>ps. snd (OnComplete E ps) = None)"

definition frame :: "('ps, 'u) penv \<Rightarrow> ('ps, 'u) parser \<Rightarrow> ('ps, 'u) parser \<Rightarrow> bool" where
  "frame E p q \<longleftrightarrow> p_bytesCached q = p_bytesCached p \<and> p_readDeadline q = p_readDeadline p \<and>
     p_initialReadDeadlinePending q = p_initialReadDeadlinePending p \<and> p_isClient q = p_isClient p \<and>
     (p_state q = stateClose) = (p_state p = stateClose) \<and>
     (no_upgrade E \<longrightarrow> p_ParserCloser q = p_ParserCloser p)"

primrec step_parser :: "'p step \<Rightarrow> 'p" where
  "step_parser (Next p s i) = p" | "step_parser (Fail p e) = p" | "step_parser (ExitLoop p s) = p"

lemma step_ok_simps [simp]:
  "step_ok data i (Next p' s' i') \<longleftrightarrow> loop_inv data i' s' p' \<and> i < i'"
  "step_ok data i (Fail p' e)"
  "step_ok data i (ExitLoop p' s') \<longleftrightarrow> s' \<le> length data \<and> (\<exists>cl. body_len p' = Some cl \<and> length data - s' < cl)"
  by (simp_all add: step_ok_def)

lemma p_state_nextState [simp]: "p_state (nextState p s) = (if p_state p = stateClose then stateClose else s)"
  by (simp add: nextState_def)

lemma nextState_fields [simp]:
  "p_contentLength (nextState p s) = p_contentLength p" "p_chunkSize (nextState p s) = p_chunkSize p"
  by (simp_all add: nextState_def)

lemma p_state_handleMessage [simp]:
  "p_state p \<noteq> stateClose \<Longrightarrow> p_state (handleMessage E p) =
     (if p_isClient p then stateClientProtoBefore else stateMethodBefore)"
  by (simp add: handleMessage_def split: prod.splits)

lemma p_state_finish_header [simp]:
  "p_state p \<noteq> stateClose \<Longrightarrow> p_state (finish_header E t p) = stateHeaderValueLF"
  by (simp add: finish_header_def Let_def)

lemma p_state_finish_headers:
  "finish_headers E p = (p', None) \<Longrightarrow> p_state p \<noteq> stateClose \<Longrightarrow> p_state p' = stateHeaderOverLF"
  by (auto simp: finish_headers_def Let_def parseTransferEncoding_def parseContentLength_def
      parseTrailer_def split: prod.splits option.splits if_splits sum.splits)

lemma read_chunk_size_state: "read_chunk_size t p = Inr p' \<Longrightarrow> p_state p' = p_state p"
  by (auto simp: read_chunk_size_def split: if_splits sum.splits)

lemma loop_inv_None: "body_len p = None \<Longrightarrow> loop_inv data i start p \<longleftrightarrow> start \<le> i \<and> i \<le> length data"
  by (simp add: loop_inv_def)

lemma body_len_None: "body_len p = None \<longleftrightarrow> p_state p \<noteq> stateBodyContentLength \<and> p_state p \<noteq> stateBodyChunkData"
  by (simp add: body_len_def)

lemma step_request_ok: "body_len p = None \<Longrightarrow> start \<le> i \<Longrightarrow> i < length data \<Longrightarrow> step_ok data i (step_request E data i start p)"
  by (cases "p_state p") (auto simp: step_request_def loop_inv_None body_len_None Let_def split: option.splits prod.splits)

lemma step_status_ok: "body_len p = None \<Longrightarrow> start \<le> i \<Longrightarrow> i < length data \<Longrightarrow> step_ok data i (step_status E data i start p)"
  by (cases "p_state p") (auto simp: step_status_def loop_inv_None body_len_None Let_def split: option.splits prod.splits)

lemma step_header_ok: "body_len p = None \<Longrightarrow> start \<le> i \<Longrightarrow> i < length data \<Longrightarrow> step_ok data i (step_header E data i start p)"
  by (cases "p_state p") (auto simp: step_header_def loop_inv_def body_len_def Let_def dest: p_state_finish_headers split: option.splits prod.splits if_splits)

lemma step_trailer_ok: "body_len p = None \<Longrightarrow> start \<le> i \<Longrightarrow> i < length data \<Longrightarrow> step_ok data i (step_trailer E data i start p)"
  by (cases "p_state p") (auto simp: step_trailer_def loop_inv_None body_len_None Let_def split: option.splits prod.splits)

lemma step_body_ok: "loop_inv data i start p \<Longrightarrow> i < length data \<Longrightarrow> p_state p \<in> {stateBodyContentLength, stateBodyChunkSizeBefore, stateBodyChunkSize,
              stateBodyChunkSizeLF, stateBodyChunkData, stateBodyChunkDataCR, stateBodyChunkDataLF} \<Longrightarrow> step_ok data i (step_body E data i start p)"
  by (cases "p_state p") (auto simp: step_body_def loop_inv_def body_len_def Let_def dest: read_chunk_size_state split: option.splits prod.splits sum.splits)

lemma parse_step_ok:
  assumes "loop_inv data i start p" "i < length data"
  shows "step_ok data i (parse_step E data i start p)"
proof -
  have "start \<le> i" using assms by (simp add: loop_inv_def)
  with assms show ?thesis unfolding parse_step_def
    by (auto simp: body_len_None intro!: step_request_ok step_status_ok step_header_ok step_trailer_ok step_body_ok)
qed

lemma step_request_append [simp]:
  "i < length data \<Longrightarrow> start \<le> i \<Longrightarrow> step_request E (data @ b) i start p = step_request E data i start p"
  by (simp add: step_request_def nth_append)

lemma step_status_append [simp]:
  "i < length data \<Longrightarrow> start \<le> i \<Longrightarrow> step_status E (data @ b) i start p = step_status E data i start p"
  by (simp add: step_status_def nth_append)

lemma step_header_append [simp]:
  "i < length data \<Longrightarrow> start \<le> i \<Longrightarrow> step_header E (data @ b) i start p = step_header E data i start p"
  by (simp add: step_header_def nth_append)

lemma step_trailer_append [simp]:
  "i < length data \<Longrightarrow> start \<le> i \<Longrightarrow> step_trailer E (data @ b) i start p = step_trailer E data i start p"
  by (simp add: step_trailer_def nth_append)

lemma step_body_append:
  "i < length data \<Longrightarrow> start \<le> i \<Longrightarrow> \<forall>p' s'. step_body E data i start p \<noteq> ExitLoop p' s' \<Longrightarrow> step_body E (data @ b) i start p = step_body E data i start p"
  by (cases "p_state p") (auto simp: step_body_def nth_append Let_def split: if_splits)

lemma parse_step_append:
  "i < length data \<Longrightarrow> start \<le> i \<Longrightarrow> \<forall>p' s'. parse_step E data i start p \<noteq> ExitLoop p' s' \<Longrightarrow>
   parse_step E (data @ b) i start p = parse_step E data i start p"
  by (cases "p_state p") (simp_all add: parse_step_def step_body_append)

lemma parse_step_ExitLoop:
  "parse_step E data i start p = ExitLoop p' s' \<Longrightarrow> p' = p \<and> s' = start \<and> p_state p \<in> {stateBodyContentLength, stateBodyChunkData}"
  by (cases "p_state p") (auto simp: parse_step_def step_request_def step_status_def step_header_def step_body_def step_trailer_def Let_def split: if_splits option.splits prod.splits sum.splits)

lemma step_request_shift:
  "s + i < length data \<Longrightarrow> step_request E data (s + i) (s + start) p =
     map_step id ((+) s) (step_request E (drop s data) i start p)"
  by (cases "p_state p") (auto simp: step_request_def go_slice_drop Let_def split: option.splits prod.splits)

lemma step_status_shift:
  "s + i < length data \<Longrightarrow> step_status E data (s + i) (s + start) p =
     map_step id ((+) s) (step_status E (drop s data) i start p)"
  by (cases "p_state p") (auto simp: step_status_def go_slice_drop Let_def split: option.splits prod.splits)

lemma step_header_shift:
  "s + i < length data \<Longrightarrow> step_header E data (s + i) (s + start) p =
     map_step id ((+) s) (step_header E (drop s data) i start p)"
  by (cases "p_state p") (auto simp: step_header_def go_slice_drop Let_def split: option.splits prod.splits)

lemma step_trailer_shift:
  "s + i < length data \<Longrightarrow> step_trailer E data (s + i) (s + start) p =
     map_step id ((+) s) (step_trailer E (drop s data) i start p)"
  by (cases "p_state p") (auto simp: step_trailer_def go_slice_drop Let_def split: option.splits prod.splits)

lemma step_body_shift:
  "s + i < length data \<Longrightarrow> step_body E data (s + i) (s + start) p =
     map_step id ((+) s) (step_body E (drop s data) i start p)"
  by (cases "p_state p") (auto simp: step_body_def go_slice_drop Let_def add.assoc split: option.splits prod.splits sum.splits)

lemma parse_step_shift:
  "s + i < length data \<Longrightarrow> parse_step E data (s + i) (s + start) p =
     map_step id ((+) s) (parse_step E (drop s data) i start p)"
  by (simp add: parse_step_def step_request_shift step_status_shift step_header_shift step_trailer_shift step_body_shift)

lemma parse_loop_shift:
  "parse_loop E data (s + i) (s + start) p =
     map_loop id ((+) s) (parse_loop E (drop s data) i start p)"
proof (induction E "drop s data" i start p rule: parse_loop.induct)
  case (1 E i start p)
  show ?case
  proof (cases "s + i < length data \<and> p_ParserCloser p = None")
    case False
    then show ?thesis by (auto simp: parse_loop.simps [of E data] parse_loop.simps [of E "drop s data"])
  next
    case True
    then have i: "i < length data - s" by arith
    from True have step: "parse_step E data (s + i) (s + start) p =
        map_step id ((+) s) (parse_step E (drop s data) i start p)"
      by (simp add: parse_step_shift)
    show ?thesis
    proof (cases "parse_step E (drop s data) i start p")
      case (Next p' start' i')
      with True step 1 i show ?thesis
        by (simp add: parse_loop.simps [of E data "s + i"] parse_loop.simps [of E "drop s data" i])
    qed (use True step i in \<open>simp_all add: parse_loop.simps [of E data "s + i"] parse_loop.simps [of E "drop s data" i]\<close>)
  qed
qed

text \<open>In a body state the step looks at the data from the token start only.\<close>

lemma body_step_index:
  assumes "p_state p \<in> {stateBodyContentLength, stateBodyChunkData}"
  shows "parse_step E data i start p = parse_step E data j start p"
  using assms by (auto simp: parse_step_def step_body_def Let_def)

lemma body_loop_index:
  assumes "loop_inv data i start p" "loop_inv data j start p" "i < length data" "j < length data"
    and "p_state p \<in> {stateBodyContentLength, stateBodyChunkData}"
  shows "parse_loop E data i start p = parse_loop E data j start p"
proof -
  have "step_ok data i (parse_step E data i start p)" "step_ok data j (parse_step E data i start p)"
    using assms by (metis parse_step_ok body_step_index)+
  then show ?thesis
    using assms(3,4) body_step_index [OF assms(5), of E data j start i]
    by (subst (1 2) parse_loop.simps) (auto split: step.splits)
qed

lemma parse_loop_append:
  "loop_inv data i start p \<Longrightarrow> parse_loop E (data @ b) i start p =
     (case parse_loop E data i start p of
        LExit p' s' \<Rightarrow> parse_loop E (data @ b) (length data) s' p' | r \<Rightarrow> r)"
proof (induction E data i start p rule: parse_loop.induct)
  case (1 E data i start p)
  show ?case
  proof (cases "i < length data \<and> p_ParserCloser p = None")
    case False
    show ?thesis
    proof (cases "i < length data")
      case True
      with False show ?thesis
        by (simp add: parse_loop.simps [of E data i] parse_loop.simps [of E "data @ b" i])
    next
      case False
      with "1.prems" have "i = length data" by (simp add: loop_inv_def)
      then show ?thesis by (simp add: parse_loop.simps [of E data])
    qed
  next
    case True
    have le: "start \<le> i" using 1 by (simp add: loop_inv_def)
    have ok: "step_ok data i (parse_step E data i start p)"
      using 1 True parse_step_ok by blast
    show ?thesis
    proof (cases "parse_step E data i start p")
      case (Next p' start' i')
      with True le have "parse_step E (data @ b) i start p = Next p' start' i'"
        by (simp add: parse_step_append)
      with Next ok True 1 show ?thesis
        by (simp add: parse_loop.simps [of E data i] parse_loop.simps [of E "data @ b" i])
    next
      case (Fail p' e)
      with True le show ?thesis
        by (simp add: parse_step_append parse_loop.simps [of E data i] parse_loop.simps [of E "data @ b" i])
    next
      case (ExitLoop p' s')
      then have *: "p' = p" "s' = start" "p_state p \<in> {stateBodyContentLength, stateBodyChunkData}"
        by (auto dest: parse_step_ExitLoop)
      have "parse_loop E (data @ b) i start p = parse_loop E (data @ b) (length data) start p"
      proof (cases "b = []")
        case True
        then show ?thesis using ExitLoop * \<open>i < length data \<and> _\<close>
          by (simp add: parse_loop.simps [of E data])
      next
        case False
        have "loop_inv (data @ b) i start p" "loop_inv (data @ b) (length data) start p"
          using 1 ok * ExitLoop by (auto simp: loop_inv_def)
        then show ?thesis using False True * by (intro body_loop_index) auto
      qed
      with ExitLoop * True show ?thesis
        by (simp add: parse_loop.simps [of E data i])
    qed
  qed
qed

lemma parse_loop_ok: "loop_inv data i start p \<Longrightarrow> exit_ok data (parse_loop E data i start p)"
proof (induction E data i start p rule: parse_loop.induct)
  case (1 E data i start p)
  show ?case
  proof (cases "i < length data \<and> p_ParserCloser p = None")
    case False
    with "1.prems" show ?thesis by (auto simp: parse_loop.simps [of E data i] exit_ok_def loop_inv_def)
  next
    case True
    with "1.prems" have ok: "step_ok data i (parse_step E data i start p)"
      by (simp add: parse_step_ok)
    with True 1 show ?thesis
      by (cases "parse_step E data i start p")
        (auto simp: parse_loop.simps [of E data i] exit_ok_def loop_inv_def)
  qed
qed

lemma set_cached_select [simp]:
  "p_bytesCached (set_cached b p) = b"
  "p_ParserCloser (set_cached b p) = p_ParserCloser p"
  "p_Processor (set_cached b p) = p_Processor p"
  "p_proto (set_cached b p) = p_proto p"
  "p_statusCode (set_cached b p) = p_statusCode p"
  "p_status (set_cached b p) = p_status p"
  "p_headerKey (set_cached b p) = p_headerKey p"
  "p_headerValue (set_cached b p) = p_headerValue p"
  "p_header (set_cached b p) = p_header p"
  "p_trailer (set_cached b p) = p_trailer p"
  "p_contentLength (set_cached b p) = p_contentLength p"
  "p_chunkSize (set_cached b p) = p_chunkSize p"
  "p_state (set_cached b p) = p_state p"
  "p_chunked (set_cached b p) = p_chunked p"
  "p_isClient (set_cached b p) = p_isClient p"
  "p_headerExists (set_cached b p) = p_headerExists p"
  "p_initialReadDeadlinePending (set_cached b p) = p_initialReadDeadlinePending p"
  "p_readDeadline (set_cached b p) = p_readDeadline p"
  by (simp_all add: set_cached_def)

lemma set_cached_update [simp]:
  "p_ParserCloser_update f1 (set_cached b p) = set_cached b (p_ParserCloser_update f1 p)"
  "p_Processor_update f2 (set_cached b p) = set_cached b (p_Processor_update f2 p)"
  "p_proto_update f3 (set_cached b p) = set_cached b (p_proto_update f3 p)"
  "p_statusCode_update f4 (set_cached b p) = set_cached b (p_statusCode_update f4 p)"
  "p_status_update f5 (set_cached b p) = set_cached b (p_status_update f5 p)"
  "p_headerKey_update f6 (set_cached b p) = set_cached b (p_headerKey_update f6 p)"
  "p_headerValue_update f7 (set_cached b p) = set_cached b (p_headerValue_update f7 p)"
  "p_header_update f8 (set_cached b p) = set_cached b (p_header_update f8 p)"
  "p_trailer_update f9 (set_cached b p) = set_cached b (p_trailer_update f9 p)"
  "p_contentLength_update f10 (set_cached b p) = set_cached b (p_contentLength_update f10 p)"
  "p_chunkSize_update f11 (set_cached b p) = set_cached b (p_chunkSize_update f11 p)"
  "p_state_update f12 (set_cached b p) = set_cached b (p_state_update f12 p)"
  "p_chunked_update f13 (set_cached b p) = set_cached b (p_chunked_update f13 p)"
  "p_headerExists_update f14 (set_cached b p) = set_cached b (p_headerExists_update f14 p)"
  by (cases p; simp add: set_cached_def)+

lemma nextState_cached [simp]: "nextState (set_cached b p) s = set_cached b (nextState p s)"
  by (simp add: nextState_def)

lemma handleMessage_cached [simp]: "handleMessage E (set_cached b p) = set_cached b (handleMessage E p)"
  by (simp add: handleMessage_def Let_def split: prod.splits option.splits)

lemma finish_header_cached [simp]: "finish_header E t (set_cached b p) = set_cached b (finish_header E t p)"
  by (simp add: finish_header_def Let_def)

lemma parseTransferEncoding_cached [simp]:
  "parseTransferEncoding (set_cached b p) = map_prod (set_cached b) id (parseTransferEncoding p)"
  by (simp add: parseTransferEncoding_def Let_def split: option.splits)

lemma parseContentLength_cached [simp]:
  "parseContentLength (set_cached b p) = map_prod (set_cached b) id (parseContentLength p)"
  by (simp add: parseContentLength_def Let_def split: option.splits)

lemma parseTrailer_cached [simp]:
  "parseTrailer (set_cached b p) = map_prod (set_cached b) id (parseTrailer p)"
  by (simp add: parseTrailer_def Let_def split: option.splits sum.splits)

lemma finish_headers_cached [simp]: "finish_headers E (set_cached b p) = map_prod (set_cached b) id (finish_headers E p)"
  by (simp add: finish_headers_def Let_def split: prod.splits option.splits)

lemma read_chunk_size_cached [simp]: "read_chunk_size t (set_cached b p) = map_sum id (set_cached b) (read_chunk_size t p)"
  by (auto simp: read_chunk_size_def split: sum.splits)

lemma step_request_cached: "step_request E data i start (set_cached b p) = map_step (set_cached b) id (step_request E data i start p)"
  by (cases "p_state p") (auto simp: step_request_def Let_def split: option.splits prod.splits)

lemma step_status_cached: "step_status E data i start (set_cached b p) = map_step (set_cached b) id (step_status E data i start p)"
  by (cases "p_state p") (auto simp: step_status_def Let_def split: option.splits prod.splits)

lemma step_header_cached: "step_header E data i start (set_cached b p) = map_step (set_cached b) id (step_header E data i start p)"
  by (cases "p_state p") (auto simp: step_header_def Let_def split: option.splits prod.splits)

lemma step_body_cached: "step_body E data i start (set_cached b p) = map_step (set_cached b) id (step_body E data i start p)"
  by (cases "p_state p") (auto simp: step_body_def Let_def split: option.splits prod.splits sum.splits)

lemma step_trailer_cached: "step_trailer E data i start (set_cached b p) = map_step (set_cached b) id (step_trailer E data i start p)"
  by (cases "p_state p") (auto simp: step_trailer_def Let_def split: option.splits prod.splits)

lemma parse_step_cached: "parse_step E data i start (set_cached b p) = map_step (set_cached b) id (parse_step E data i start p)"
  by (simp add: parse_step_def step_request_cached step_status_cached step_header_cached step_body_cached step_trailer_cached)

lemma parse_loop_cached: "parse_loop E data i start (set_cached b p) = map_loop (set_cached b) id (parse_loop E data i start p)"
proof (induction E data i start p rule: parse_loop.induct)
  case (1 E data i start p)
  then show ?case
    by (cases "parse_step E data i start p")
      (auto simp: parse_loop.simps [of E data i] parse_step_cached)
qed

lemma frame_refl [simp]: "frame E p p"
  by (simp add: frame_def)

lemma frame_trans: "frame E p q \<Longrightarrow> frame E q r \<Longrightarrow> frame E p r"
  by (auto simp: frame_def)

lemma frame_nextState [simp]: "s \<noteq> stateClose \<Longrightarrow> frame E p (nextState q s) = frame E p q"
  by (auto simp: frame_def nextState_def)

lemma frame_update [simp]:
  "frame E p (p_Processor_update f2 q) = frame E p q"
  "frame E p (p_proto_update f3 q) = frame E p q"
  "frame E p (p_statusCode_update f4 q) = frame E p q"
  "frame E p (p_status_update f5 q) = frame E p q"
  "frame E p (p_headerKey_update f6 q) = frame E p q"
  "frame E p (p_headerValue_update f7 q) = frame E p q"
  "frame E p (p_header_update f8 q) = frame E p q"
  "frame E p (p_trailer_update f9 q) = frame E p q"
  "frame E p (p_contentLength_update f10 q) = frame E p q"
  "frame E p (p_chunkSize_update f11 q) = frame E p q"
  "frame E p (p_chunked_update f13 q) = frame E p q"
  "frame E p (p_headerExists_update f14 q) = frame E p q"
  by (simp_all add: frame_def)

lemma frame_handleMessage [simp]: "frame E q (handleMessage E q)"
proof -
  obtain ps up where o: "OnComplete E (p_Processor q) = (ps, up)" by fastforce
  have "no_upgrade E \<Longrightarrow> up = None" using o by (metis no_upgrade_def snd_conv)
  then show ?thesis
    by (cases "p_state q = stateClose") (simp_all add: handleMessage_def o frame_def nextState_def)
qed

lemma frame_handleMessage' [intro]: "frame E p q \<Longrightarrow> frame E p (handleMessage E q)"
  by (rule frame_trans [OF _ frame_handleMessage])

end
