(* ===== verification/HttpStream.thy ===== *)
theory HttpStream
  imports HttpParserInv
begin

text \<open>
  The HTTP parser as a stream reader: what an iteration of the byte loop leaves alone (\<open>frame\<close>),
  the invariant of the parser between two calls (\<open>pinv\<close>), totality of \<open>Parse\<close>, and the laws of
  the locale \<open>stream_reader\<close>, so that the result of a connection does not depend on how its bytes
  were cut into reads.
\<close>

primrec loop_parser :: "'p loop_result \<Rightarrow> 'p option" where
  "loop_parser (LExit p s) = Some p" | "loop_parser (LFail p e) = Some p"
| "loop_parser (LUpgrade p s) = Some p" | "loop_parser LStuck = None"

definition cached :: "('ps, 'u) parser \<Rightarrow> bytes" where
  "cached p = (case p_bytesCached p of None \<Rightarrow> [] | Some b \<Rightarrow> b)"

definition pinv :: "('ps, 'u) parser \<Rightarrow> bool" where
  "pinv p \<longleftrightarrow> p_bytesCached p \<noteq> Some [] \<and>
     (p_ParserCloser p = None \<longrightarrow> (\<forall>cl. body_len p = Some cl \<longrightarrow> length (cached p) < cl))"

definition within_limit :: "('ps, 'u) penv \<Rightarrow> nat \<Rightarrow> bool" where
  "within_limit E n \<longleftrightarrow> ReadLimit E \<le> 0 \<or> int n \<le> ReadLimit E"

definition rest :: "bytes \<Rightarrow> nat \<Rightarrow> bytes option" where
  "rest data start = (if start < length data then Some (drop start data) else None)"

definition forget ::
  "(('ps, 'u) parser \<times> http_err option) option \<Rightarrow> (('ps, 'u) parser \<times> http_err option) option" where
  "forget r = (case r of Some (p, Some e) \<Rightarrow> Some (set_cached None p, Some e) | _ \<Rightarrow> r)"

text \<open>What the parser must satisfy before a call for the stream theorems.\<close>

definition streaming :: "('ps, 'u) penv \<Rightarrow> ('ps, 'u) parser \<Rightarrow> nat \<Rightarrow> bool" where
  "streaming E p n \<longleftrightarrow> pinv p \<and> p_ParserCloser p = None \<and> no_upgrade E \<and>
     within_limit E (length (cached p) + n)"

lemma frame_finish_header [simp]: "frame E p (finish_header E t q) = frame E p q"
  by (simp add: finish_header_def Let_def)

lemma frame_finish_headers: "finish_headers E p = (q, r) \<Longrightarrow> frame E p q"
  by (auto simp: finish_headers_def Let_def parseTransferEncoding_def parseContentLength_def
      parseTrailer_def split: prod.splits option.splits if_splits sum.splits)

lemma frame_read_chunk_size: "read_chunk_size t p = Inr q \<Longrightarrow> frame E p q"
  by (auto simp: read_chunk_size_def split: if_splits sum.splits)

lemma frame_step_request: "frame E p (step_parser (step_request E data i start p))"
  by (cases "p_state p") (simp_all add: step_request_def Let_def split: option.split prod.split)

lemma frame_step_status: "frame E p (step_parser (step_status E data i start p))"
  by (cases "p_state p") (simp_all add: step_status_def Let_def split: option.split prod.split)

lemma frame_step_header: "frame E p (step_parser (step_header E data i start p))"
  by (cases "p_state p")
    (auto simp: step_header_def Let_def frame_finish_headers split: option.split prod.split)

lemma frame_step_body: "frame E p (step_parser (step_body E data i start p))"
  by (cases "p_state p")
    (auto simp: step_body_def Let_def frame_read_chunk_size split: option.split prod.split sum.split)

lemma frame_step_trailer: "frame E p (step_parser (step_trailer E data i start p))"
  by (cases "p_state p") (simp_all add: step_trailer_def Let_def split: option.split prod.split)

lemma frame_parse_step: "frame E p (step_parser (parse_step E data i start p))"
  by (simp add: parse_step_def frame_step_request frame_step_status frame_step_header
      frame_step_body frame_step_trailer)

lemma frame_parse_loop: "loop_parser (parse_loop E data i start p) = Some q \<Longrightarrow> frame E p q"
proof (induction E data i start p rule: parse_loop.induct)
  case (1 E data i start p)
  have fr: "frame E p (step_parser (parse_step E data i start p))" by (rule frame_parse_step)
  from 1 fr show ?case
    by (cases "parse_step E data i start p")
      (auto simp: parse_loop.simps [of E data i] split: if_splits intro: frame_trans)
qed

lemma no_upgrade_loop:
  "no_upgrade E \<Longrightarrow> p_ParserCloser p = None \<Longrightarrow> parse_loop E data i start p \<noteq> LUpgrade q s"
proof (induction E data i start p rule: parse_loop.induct)
  case (1 E data i start p)
  have fr: "frame E p (step_parser (parse_step E data i start p))" by (rule frame_parse_step)
  from 1 fr show ?case
    by (cases "parse_step E data i start p")
      (auto simp: parse_loop.simps [of E data i] frame_def)
qed

lemma body_len_set_cached [simp]: "body_len (set_cached b p) = body_len p"
  by (simp add: body_len_def)

lemma loop_inv_set_cached [simp]: "loop_inv d i s (set_cached b p) = loop_inv d i s p"
  by (simp add: loop_inv_def)

lemma cached_set_cached [simp]: "cached (set_cached b p) = (case b of None \<Rightarrow> [] | Some c \<Rightarrow> c)"
  by (simp add: cached_def)

lemma set_cached_twice [simp]: "set_cached a (set_cached b p) = set_cached a p"
  by (cases p) (simp add: set_cached_def)

lemma set_cached_same: "p_bytesCached p = b \<Longrightarrow> set_cached b p = p"
  by (cases p) (simp add: set_cached_def)

lemma initReadDeadline_fields [simp]:
  "p_bytesCached (initReadDeadline E p) = p_bytesCached p"
  "p_ParserCloser (initReadDeadline E p) = p_ParserCloser p"
  "p_state (initReadDeadline E p) = p_state p"
  "p_contentLength (initReadDeadline E p) = p_contentLength p"
  "p_chunkSize (initReadDeadline E p) = p_chunkSize p"
  "p_initialReadDeadlinePending (initReadDeadline E p) = False"
  by (auto simp: initReadDeadline_def)

lemma initReadDeadline_id: "\<not> p_initialReadDeadlinePending p \<Longrightarrow> initReadDeadline E p = p"
  by (simp add: initReadDeadline_def)

lemma body_len_init [simp]: "body_len (initReadDeadline E p) = body_len p"
  by (simp add: body_len_def)

lemma cached_init [simp]: "cached (initReadDeadline E p) = cached p"
  by (simp add: cached_def)

lemma pinv_init [simp]: "pinv (initReadDeadline E p) = pinv p"
  by (simp add: pinv_def)

lemma pinv_NewParser: "pinv (NewParser ps c)"
  by (simp add: pinv_def NewParser_def body_len_def cached_def)

lemma cache_rest_set_cached:
  assumes "p_bytesCached p = (if b then Some data else None)" "b \<longrightarrow> data \<noteq> []"
  shows "cache_rest data s p = set_cached (rest data s) p"
  using assms by (cases p) (auto simp: cache_rest_def rest_def set_cached_def)

lemma Parse_close: "p_state p = stateClose \<Longrightarrow> Parse E d p = Some (p, Some ErrClosed)"
  by (simp add: Parse_def)

lemma Parse_Nil: "p_state p \<noteq> stateClose \<Longrightarrow> Parse E [] p = Some (initReadDeadline E p, None)"
  by (simp add: Parse_def)

lemma Parse_init: "p_state p \<noteq> stateClose \<Longrightarrow> Parse E d (initReadDeadline E p) = Parse E d p"
  by (simp add: Parse_def initReadDeadline_id)

lemma pinv_loop_inv:
  "pinv p \<Longrightarrow> p_ParserCloser p = None \<Longrightarrow> loop_inv (cached p @ d) (length (cached p)) 0 p"
  by (simp add: pinv_def loop_inv_def)

lemma Parse_alt:
  assumes "pinv p" "p_state p \<noteq> stateClose" "p_ParserCloser p = None" "no_upgrade E"
    and "within_limit E (length (cached p) + length d)" "d \<noteq> []"
  shows "Parse E d p =
    (case parse_loop E (cached p @ d) (length (cached p)) 0 (set_cached None (initReadDeadline E p)) of
       LExit q s \<Rightarrow> Some (set_cached (rest (cached p @ d) s) q, None)
     | LFail q e \<Rightarrow> Some (set_cached (if cached p = [] then None else Some (cached p @ d)) q, Some e)
     | _ \<Rightarrow> None)"
proof -
  let ?c = "cached p" let ?p = "set_cached None (initReadDeadline E p)"
  let ?b = "if ?c = [] then None else Some (?c @ d)"
  have c: "p_bytesCached p = None \<longleftrightarrow> ?c = []"
    using assms(1) by (auto simp: pinv_def cached_def split: option.splits)
  have lim: "\<not> (0 < length ?c \<and> 0 < ReadLimit E \<and> ReadLimit E < int (length ?c + length d))"
    using assms(5) by (auto simp: within_limit_def)
  have start: "(if 0 < length ?c then (initReadDeadline E p)\<lparr>p_bytesCached := Some (?c @ d)\<rparr>
      else initReadDeadline E p) = set_cached ?b ?p"
    using c by (cases "initReadDeadline E p") (auto simp: set_cached_def dest: arg_cong [of _ _ p_bytesCached])
  have loop: "parse_loop E (?c @ d) (length ?c) 0 (set_cached ?b ?p) =
      map_loop (set_cached ?b) id (parse_loop E (?c @ d) (length ?c) 0 ?p)"
    by (rule parse_loop_cached)
  have up: "p_ParserCloser (set_cached ?b ?p) = None" using assms by simp
  have P: "Parse E d p = (case parse_loop E (?c @ d) (length ?c) 0 (set_cached ?b ?p) of
       LExit p2 start \<Rightarrow> Some (cache_rest (?c @ d) start p2, None)
     | LFail p2 e \<Rightarrow> Some (p2, Some e)
     | LUpgrade p2 start \<Rightarrow> Some (upgrade_parse E (?c @ d) start p2)
     | LStuck \<Rightarrow> None)"
    using assms(2,6) lim start up unfolding Parse_def by (auto simp: cached_def [symmetric] Let_def simp del: set_cached_twice)
  show ?thesis
  proof (cases "parse_loop E (?c @ d) (length ?c) 0 ?p")
    case (LUpgrade q s)
    then show ?thesis using no_upgrade_loop [of E ?p] assms by simp
  next
    case (LExit q s)
    then show ?thesis using loop P assms(6)
      by (simp add: cache_rest_set_cached [where b = "?c \<noteq> []"] del: map_loop.simps(1)) (simp add: cache_rest_set_cached [where b = "?c \<noteq> []"])
  qed (use loop P in \<open>auto simp: cache_rest_set_cached [where b = "?c \<noteq> []"]\<close>)
qed

lemma cached_rest [simp]: "(case rest data s of None \<Rightarrow> [] | Some c \<Rightarrow> c) = drop s data"
  by (simp add: rest_def)

lemma Parse_cases:
  assumes "streaming E p (length d)" "p_state p \<noteq> stateClose" "d \<noteq> []"
  obtains (exit) q s where
      "parse_loop E (cached p @ d) (length (cached p)) 0 (set_cached None (initReadDeadline E p)) = LExit q s"
      "Parse E d p = Some (set_cached (rest (cached p @ d) s) q, None)"
      "loop_inv (cached p @ d) (length (cached p @ d)) s q" "frame E (set_cached None (initReadDeadline E p)) q"
    | (fail) q e where
      "parse_loop E (cached p @ d) (length (cached p)) 0 (set_cached None (initReadDeadline E p)) = LFail q e"
      "Parse E d p = Some (set_cached (if cached p = [] then None else Some (cached p @ d)) q, Some e)"
proof -
  let ?p = "set_cached None (initReadDeadline E p)"
  let ?r = "parse_loop E (cached p @ d) (length (cached p)) 0 ?p"
  have P: "Parse E d p = (case ?r of
       LExit q s \<Rightarrow> Some (set_cached (rest (cached p @ d) s) q, None)
     | LFail q e \<Rightarrow> Some (set_cached (if cached p = [] then None else Some (cached p @ d)) q, Some e)
     | _ \<Rightarrow> None)"
    using assms by (intro Parse_alt) (auto simp: streaming_def)
  have li: "loop_inv (cached p @ d) (length (cached p)) 0 ?p"
    using assms by (auto simp: streaming_def loop_inv_def pinv_def)
  have ok: "exit_ok (cached p @ d) ?r" by (rule parse_loop_ok [OF li])
  have fr: "\<And>q. loop_parser ?r = Some q \<Longrightarrow> frame E ?p q" by (rule frame_parse_loop)
  show ?thesis
  proof (cases ?r)
    case (LUpgrade q s)
    then show ?thesis using no_upgrade_loop [of E ?p] assms by (simp add: streaming_def)
  qed (use P ok fr exit fail in \<open>auto simp: exit_ok_def\<close>)
qed

lemma rest_shift: "s \<le> length x \<Longrightarrow> rest (x @ b) (s + t) = rest (drop s x @ b) t"
  by (simp add: rest_def less_diff_conv ac_simps flip: drop_drop)
    (simp add: drop_append_le add.commute)

lemma loop_inv_rest: "loop_inv data (length data) s q \<Longrightarrow> pinv (set_cached (rest data s) q)"
  by (auto simp: loop_inv_def pinv_def rest_def)

lemma Parse_streaming:
  assumes "streaming E p (length d + n)" "Parse E d p = Some (p', None)"
  shows "streaming E p' n \<and> p_state p' \<noteq> stateClose \<and> \<not> p_initialReadDeadlinePending p'"
proof (cases "p_state p = stateClose \<or> d = []")
  case True
  with assms show ?thesis
    by (cases "p_state p = stateClose") (auto simp: Parse_close Parse_Nil streaming_def)
next
  case False
  have "streaming E p (length d)" using assms by (auto simp: streaming_def within_limit_def)
  moreover have "p_state p \<noteq> stateClose" "d \<noteq> []" using False by auto
  ultimately show ?thesis
  proof (cases rule: Parse_cases)
    case (exit q s)
    have "p_ParserCloser q = None" "p_state q \<noteq> stateClose" "\<not> p_initialReadDeadlinePending q"
      using exit(4) assms False by (auto simp: frame_def streaming_def)
    moreover have "within_limit E (length (drop s (cached p @ d)) + n)"
      using assms exit by (auto simp: streaming_def within_limit_def loop_inv_def)
    ultimately show ?thesis using exit assms
      by (auto simp: streaming_def loop_inv_rest simp del: drop_append length_drop)
  qed (use assms in auto)
qed

lemma Parse_append:
  assumes st: "streaming E p (length (a @ b))" and ne: "a \<noteq> []" "b \<noteq> []"
    and a: "Parse E a p = Some (p', None)"
  shows "forget (Parse E b p') = forget (Parse E (a @ b) p)"
proof -
  have cl: "p_state p \<noteq> stateClose" using a by (auto simp: Parse_close)
  have "streaming E p (length a)" using st by (auto simp: streaming_def within_limit_def)
  from this cl ne(1) obtain q s where e1: "parse_loop E (cached p @ a) (length (cached p)) 0
      (set_cached None (initReadDeadline E p)) = LExit q s"
      and e2: "p' = set_cached (rest (cached p @ a) s) q"
      and e3: "loop_inv (cached p @ a) (length (cached p @ a)) s q"
      and e4: "frame E (set_cached None (initReadDeadline E p)) q"
    using a by (cases rule: Parse_cases) auto
  have st': "streaming E p' (length b)" "p_state p' \<noteq> stateClose"
    using Parse_streaming [of E p a "length b"] st a by auto
  have init: "initReadDeadline E p' = p'"
    using e4 e2 by (auto simp: initReadDeadline_id frame_def)
  have q: "set_cached None p' = q" using e2 e4 by (simp add: frame_def set_cached_same)
  have sle: "s \<le> length (cached p @ a)" using e3 by (simp add: loop_inv_def)
  have li: "loop_inv (cached p @ a) (length (cached p)) 0 (set_cached None (initReadDeadline E p))"
    using st by (auto simp: streaming_def loop_inv_def pinv_def)
  let ?c = "cached p @ a"
  let ?r = "parse_loop E (drop s ?c @ b) (length ?c - s) 0 q"
  have "parse_loop E (cached p @ a @ b) (length (cached p)) 0 (set_cached None (initReadDeadline E p)) =
      parse_loop E (?c @ b) (length ?c) s q"
    using parse_loop_append [OF li, of E b] e1 by simp
  also have "\<dots> = map_loop id ((+) s) ?r"
    using parse_loop_shift [of E "?c @ b" s "length ?c - s" 0 q] sle by simp
  finally have whole: "parse_loop E (cached p @ a @ b) (length (cached p)) 0
      (set_cached None (initReadDeadline E p)) = map_loop id ((+) s) ?r" .
  have c': "cached p' = drop s ?c" using e2 by simp
  have PB: "Parse E b p' = (case ?r of
       LExit q' t \<Rightarrow> Some (set_cached (rest (drop s ?c @ b) t) q', None)
     | LFail q' e \<Rightarrow> Some (set_cached (if cached p' = [] then None else Some (cached p' @ b)) q', Some e)
     | _ \<Rightarrow> None)"
    using Parse_alt [of p' E b] st' ne(2) unfolding init q streaming_def c'
    by (simp del: cached_rest cached_set_cached drop_append)
  have PW: "Parse E (a @ b) p = (case map_loop id ((+) s) ?r of
       LExit q' t \<Rightarrow> Some (set_cached (rest (cached p @ a @ b) t) q', None)
     | LFail q' e \<Rightarrow> Some (set_cached (if cached p = [] then None else Some (cached p @ a @ b)) q', Some e)
     | _ \<Rightarrow> None)"
    using Parse_alt [of p E "a @ b"] st cl ne(1) unfolding whole streaming_def by (simp del: drop_append)
  have R: "rest (cached p @ a @ b) (s + t) = rest (drop s ?c @ b) t" for t
    using rest_shift [OF sle, of b t] by simp
  show ?thesis unfolding PB PW
    using R by (cases ?r) (simp_all add: forget_def)
qed

lemma Parse_append_fail:
  assumes st: "streaming E p (length (a @ b))" and ne: "a \<noteq> []"
    and a: "Parse E a p = Some (p', Some e)"
  shows "forget (Parse E (a @ b) p) = forget (Parse E a p)"
proof (cases "p_state p = stateClose")
  case True
  then show ?thesis by (simp add: Parse_close)
next
  case False
  have st1: "streaming E p (length a)" using st by (auto simp: streaming_def within_limit_def)
  have li: "loop_inv (cached p @ a) (length (cached p)) 0 (set_cached None (initReadDeadline E p))"
    using st by (auto simp: streaming_def loop_inv_def pinv_def)
  from st1 False ne show ?thesis
  proof (cases rule: Parse_cases)
    case (fail q e')
    have "parse_loop E (cached p @ a @ b) (length (cached p)) 0 (set_cached None (initReadDeadline E p)) = LFail q e'"
      using parse_loop_append [OF li, of E b] fail(1) by simp
    then show ?thesis
      using Parse_alt [of p E "a @ b"] st False ne fail(2) by (simp add: streaming_def forget_def)
  qed (use a in auto)
qed

lemma Parse_total:
  assumes "streaming E p (length d)"
  shows "Parse E d p \<noteq> None"
proof (cases "p_state p = stateClose \<or> d = []")
  case True
  then show ?thesis by (cases "p_state p = stateClose") (auto simp: Parse_close Parse_Nil)
next
  case False
  then have "p_state p \<noteq> stateClose" "d \<noteq> []" by auto
  with assms show ?thesis by (cases rule: Parse_cases) auto
qed

lemma Parse_after_init:
  "Parse E a p = Some (p', None) \<Longrightarrow> a = [] \<Longrightarrow> Parse E b p' = Parse E b p"
  by (cases "p_state p = stateClose") (auto simp: Parse_close Parse_Nil Parse_init)

lemma Parse_cut:
  assumes st: "streaming E p (length a + length b)" and P: "Parse E a p = Some (p', None)"
  shows "forget (Parse E b p') = forget (Parse E (a @ b) p)"
proof -
  have st': "p_state p' \<noteq> stateClose" "\<not> p_initialReadDeadlinePending p'"
    using Parse_streaming [of E p a "length b" p'] st P by auto
  consider "a = []" | "b = []" | "a \<noteq> []" "b \<noteq> []" by auto
  then show ?thesis
  proof cases
    case 1
    then show ?thesis using P by (simp add: Parse_after_init [of E a p p' b])
  next
    case 2
    then show ?thesis using P st' by (simp add: Parse_Nil initReadDeadline_id)
  next
    case 3
    then show ?thesis using Parse_append [of E p a b p'] st P by simp
  qed
qed

lemma Parse_fail:
  assumes st: "streaming E p (length a + length b)" and P: "Parse E a p = Some (p', Some e)"
  shows "forget (Parse E (a @ b) p) = forget (Parse E a p)"
proof (cases "p_state p = stateClose")
  case True
  then show ?thesis by (simp add: Parse_close)
next
  case False
  then have "a \<noteq> []" using P by (auto simp: Parse_Nil)
  then show ?thesis using Parse_append_fail [of E p a b p' e] st P by simp
qed

interpretation http: stream_reader "Parse E" "streaming E" forget for E
proof unfold_locales
  show "streaming E p (length d) \<Longrightarrow> Parse E d p \<noteq> None" for p d by (rule Parse_total)
  show "streaming E p (n + m) \<Longrightarrow> streaming E p n" for p n m
    by (auto simp: streaming_def within_limit_def)
  show "streaming E p (length d + n) \<Longrightarrow> Parse E d p = Some (p', None) \<Longrightarrow> streaming E p' n" for p d n p'
    using Parse_streaming by blast
qed (blast intro: Parse_cut Parse_fail)+

end
