(* ===== verification/HttpRoundtrip.thy ===== *)
theory HttpRoundtrip
  imports HttpStream
begin

text \<open>
  What the parser delivers. \<open>print_request\<close> writes a request the way RFC 7230 frames it, with no
  body, with a body of announced length or with a chunked body; \<open>deliver\<close> is the sequence of
  processor callbacks that request calls for. The theorem is that pipelined requests, cut into
  reads in any way, reach the processor through exactly those callbacks, in order, and leave the
  parser ready for the next request.
\<close>

definition consumes :: "('ps, 'u) penv \<Rightarrow> bytes \<Rightarrow> ('ps, 'u) parser \<Rightarrow> ('ps, 'u) parser \<Rightarrow> bool" where
  "consumes E d p q \<longleftrightarrow> (\<forall>cl. body_len p = Some cl \<longrightarrow> 0 < cl) \<and> parse_loop E d 0 0 p = LExit q (length d)"

definition framing :: "string set" where
  "framing = {transferEncodingHeader, trailerHeader, contentLengthHeader}"

definition got_header :: "('ps, 'u) penv \<Rightarrow> string \<Rightarrow> string \<Rightarrow> ('ps, 'u) parser \<Rightarrow> ('ps, 'u) parser" where
  "got_header E k v p = p\<lparr>p_header := (if k \<in> framing then Header_Add (p_header p) k v else p_header p),
     p_Processor := OnHeader E k v (p_Processor p), p_headerExists := True\<rparr>"

definition wf_header :: "string \<times> string \<Rightarrow> bool" where
  "wf_header h = (case h of (k, v) \<Rightarrow> k \<noteq> [] \<and> list_all isToken k \<and> v \<noteq> [] \<and> hd v \<noteq> SP \<and>
     CR \<notin> set v \<and> LF \<notin> set v)"

definition print_header :: "string \<times> string \<Rightarrow> bytes" where
  "print_header h = fst h @ '': '' @ snd h @ [CR, LF]"

definition after_size :: "nat \<Rightarrow> ('ps, 'u) parser \<Rightarrow> ('ps, 'u) parser" where
  "after_size n p = p\<lparr>p_chunkSize := int n,
     p_state := (if n > 0 then stateBodyChunkData else if p_trailer p \<noteq> [] then stateBodyTrailerHeaderKeyBefore
                 else stateTailCR)\<rparr>"

datatype msg_body = NoBody | Fixed bytes | Chunked "bytes list"

record request =
  rq_method :: string
  rq_path :: string
  rq_proto :: string
  rq_headers :: "(string \<times> string) list"
  rq_body :: msg_body

definition print_chunk :: "bytes \<Rightarrow> bytes" where
  "print_chunk c = FormatInt 16 (length c) @ [CR, LF] @ c @ [CR, LF]"

definition print_chunks :: "bytes list \<Rightarrow> bytes" where
  "print_chunks cs = concat (map print_chunk cs) @ FormatInt 16 0 @ [CR, LF] @ [CR, LF]"

fun framing_headers :: "msg_body \<Rightarrow> (string \<times> string) list" where
  "framing_headers NoBody = []"
| "framing_headers (Fixed b) = [(contentLengthHeader, FormatInt 10 (length b))]"
| "framing_headers (Chunked cs) = [(transferEncodingHeader, ''chunked'')]"

fun print_body :: "msg_body \<Rightarrow> bytes" where
  "print_body NoBody = []"
| "print_body (Fixed b) = b"
| "print_body (Chunked cs) = print_chunks cs"

definition print_request :: "request \<Rightarrow> bytes" where
  "print_request r = (rq_method r @ [SP]) @ (rq_path r @ [SP]) @ (rq_proto r @ [CR, LF]) @
     concat (map print_header (rq_headers r @ framing_headers (rq_body r))) @ [CR, LF] @ print_body (rq_body r)"

fun wf_body :: "msg_body \<Rightarrow> bool" where
  "wf_body NoBody = True"
| "wf_body (Fixed b) = (int (length b) < 2 ^ 62)"
| "wf_body (Chunked cs) = list_all (\<lambda>c. c \<noteq> [] \<and> int (length c) < 2 ^ 62) cs"

definition wf_request :: "request \<Rightarrow> bool" where
  "wf_request r \<longleftrightarrow> rq_method r \<in> set validMethods \<and>
     rq_path r \<noteq> [] \<and> hd (rq_path r) \<in> {CHR ''/'', CHR ''*''} \<and> SP \<notin> set (rq_path r) \<and>
     rq_proto r \<noteq> [] \<and> SP \<notin> set (rq_proto r) \<and> CR \<notin> set (rq_proto r) \<and>
     list_all (\<lambda>h. wf_header h \<and> CanonicalHeaderKey (fst h) \<notin> framing) (rq_headers r) \<and> wf_body (rq_body r)"

definition deliver_header :: "('ps, 'u) penv \<Rightarrow> string \<times> string \<Rightarrow> 'ps \<Rightarrow> 'ps" where
  "deliver_header E h = OnHeader E (CanonicalHeaderKey (fst h)) (snd h)"

fun deliver_chunks :: "('ps, 'u) penv \<Rightarrow> bytes list \<Rightarrow> 'ps \<Rightarrow> 'ps option" where
  "deliver_chunks E [] ps = Some ps"
| "deliver_chunks E (c # cs) ps = (case OnBody E c ps of (ps', None) \<Rightarrow> deliver_chunks E cs ps' | _ \<Rightarrow> None)"

fun deliver_body :: "('ps, 'u) penv \<Rightarrow> msg_body \<Rightarrow> 'ps \<Rightarrow> 'ps option" where
  "deliver_body E NoBody ps = Some (OnContentLength E (-1) ps)"
| "deliver_body E (Fixed b) ps = deliver_chunks E (if b = [] then [] else [b]) (OnContentLength E (int (length b)) ps)"
| "deliver_body E (Chunked cs) ps = deliver_chunks E cs (OnContentLength E (-1) ps)"

definition deliver :: "('ps, 'u) penv \<Rightarrow> request \<Rightarrow> 'ps \<Rightarrow> 'ps option" where
  "deliver E r ps =
     (case OnURL E (rq_path r) (OnMethod E (rq_method r) ps) of (ps1, None) \<Rightarrow>
       (case OnProto E (rq_proto r) ps1 of (ps2, None) \<Rightarrow>
          map_option (\<lambda>ps3. fst (OnComplete E ps3))
            (deliver_body E (rq_body r)
               (fold (deliver_header E) (rq_headers r @ framing_headers (rq_body r)) ps2))
        | _ \<Rightarrow> None)
      | _ \<Rightarrow> None)"

fun deliver_all :: "('ps, 'u) penv \<Rightarrow> request list \<Rightarrow> 'ps \<Rightarrow> 'ps option" where
  "deliver_all E [] ps = Some ps"
| "deliver_all E (r # rs) ps = (case deliver E r ps of None \<Rightarrow> None | Some ps' \<Rightarrow> deliver_all E rs ps')"

definition idle :: "bool \<Rightarrow> ('ps, 'u) parser \<Rightarrow> bool" where
  "idle client p \<longleftrightarrow> p_bytesCached p = None \<and> p_ParserCloser p = None \<and> p_isClient p = client \<and> p_proto p = [] \<and>
     p_headerKey p = [] \<and> p_headerValue p = [] \<and> p_trailer p = [] \<and> p_status p = []"

text \<open>Between two messages, on a server and on a client.\<close>

definition at_boundary :: "bool \<Rightarrow> ('ps, 'u) parser \<Rightarrow> bool" where
  "at_boundary client p \<longleftrightarrow> idle client p \<and> p_state p = (if client then stateClientProtoBefore else stateMethodBefore) \<and> p_header p = [] \<and> \<not> p_chunked p \<and> \<not> p_headerExists p"

abbreviation boundary :: "('ps, 'u) parser \<Rightarrow> bool" where
  "boundary \<equiv> at_boundary False"

fun body_header :: "msg_body \<Rightarrow> Header" where
  "body_header NoBody = []"
| "body_header (Fixed b) = [(contentLengthHeader, [FormatInt 10 (length b)])]"
| "body_header (Chunked cs) = [(transferEncodingHeader, [''chunked''])]"

fun body_length :: "msg_body \<Rightarrow> int" where
  "body_length (Fixed b) = int (length b)"
| "body_length _ = -1"

lemma consumes_append:
  assumes "consumes E d1 p q" "consumes E d2 q r"
  shows "consumes E (d1 @ d2) p r"
proof -
  have "loop_inv d1 0 0 p" using assms by (auto simp: consumes_def loop_inv_def)
  then have "parse_loop E (d1 @ d2) 0 0 p = parse_loop E (d1 @ d2) (length d1) (length d1) q"
    using assms by (simp add: parse_loop_append consumes_def)
  also have "\<dots> = map_loop id ((+) (length d1)) (parse_loop E d2 0 0 q)"
    using parse_loop_shift [of E "d1 @ d2" "length d1" 0 0 q] by simp
  finally show ?thesis using assms by (simp add: consumes_def)
qed

lemma consumes_Nil [simp]: "consumes E [] p q \<longleftrightarrow> p = q \<and> (\<forall>cl. body_len p = Some cl \<longrightarrow> 0 < cl)"
  by (auto simp: consumes_def parse_loop.simps)

lemma parse_loop_next:
  "i < length data \<Longrightarrow> p_ParserCloser p = None \<Longrightarrow> parse_step E data i s p = Next p' s' i' \<Longrightarrow> i < i' \<Longrightarrow>
   parse_loop E data i s p = parse_loop E data i' s' p'"
  by (subst parse_loop.simps) simp

lemma parse_loop_end: "n = length data \<Longrightarrow> parse_loop E data n s p = LExit p s"
  by (subst parse_loop.simps) simp

lemma parse_loop_scan:
  assumes "p_ParserCloser p = None" "i \<le> k" "k \<le> length data"
    and "\<And>j. i \<le> j \<Longrightarrow> j < k \<Longrightarrow> parse_step E data j s p = Next p s (Suc j)"
  shows "parse_loop E data i s p = parse_loop E data k s p"
  using assms(2,4)
proof (induction "k - i" arbitrary: i)
  case (Suc n)
  then have "parse_loop E data i s p = parse_loop E data (Suc i) s p"
    using assms by (intro parse_loop_next) auto
  also have "\<dots> = parse_loop E data k s p" using Suc.hyps(2) Suc.prems by (intro Suc.hyps(1)) auto
  finally show ?case .
qed simp

lemma validMethods_ok:
  "list_all (\<lambda>m. m \<noteq> [] \<and> isValidMethodChar (hd m) \<and> list_all isAlpha m \<and> ToUpper m = m) validMethods"
  by code_simp

lemma validMethodsD:
  "m \<in> set validMethods \<Longrightarrow> m \<noteq> [] \<and> isValidMethodChar (hd m) \<and> (\<forall>c\<in>set m. isAlpha c) \<and> ToUpper m = m"
  using validMethods_ok by (auto simp: list_all_iff)

lemma isAlpha_not_SP [simp]: "isAlpha SP = False"
  by code_simp

lemma consumes_method:
  assumes "p_state p = stateMethodBefore" "p_ParserCloser p = None" "m \<in> set validMethods"
  shows "consumes E (m @ [SP]) p (p\<lparr>p_Processor := OnMethod E m (p_Processor p), p_state := statePathBefore\<rparr>)"
proof -
  have m: "m \<noteq> []" "isValidMethodChar (hd m)" "\<forall>c\<in>set m. isAlpha c" "ToUpper m = m"
    using validMethodsD [OF assms(3)] by auto
  then have "SP \<notin> set m" by auto
  then have nth: "\<forall>j<length m. m ! j \<noteq> SP \<and> isAlpha (m ! j)" using m by (metis nth_mem)
  let ?d = "m @ [SP]" let ?p = "p\<lparr>p_state := stateMethod\<rparr>"
  have "parse_loop E ?d 0 0 p = parse_loop E ?d 1 0 ?p"
    using assms m by (intro parse_loop_next) (auto simp: parse_step_def step_request_def nextState_def hd_conv_nth nth_append Let_def)
  also have "\<dots> = parse_loop E ?d (length m) 0 ?p"
    using assms m nth by (intro parse_loop_scan) (auto simp: parse_step_def step_request_def nth_append Let_def Suc_le_eq)
  also have "\<dots> = parse_loop E ?d (length ?d) (length ?d) (p\<lparr>p_Processor := OnMethod E m (p_Processor p), p_state := statePathBefore\<rparr>)"
    using assms m by (intro parse_loop_next) (auto simp: parse_step_def step_request_def nth_append Let_def isValidMethod_def nextState_def)
  finally show ?thesis using assms by (simp add: parse_loop_end consumes_def body_len_def)
qed

lemma consumes_path:
  assumes "p_state p = statePathBefore" "p_ParserCloser p = None"
    and "path \<noteq> []" "hd path \<in> {CHR ''/'', CHR ''*''}" "SP \<notin> set path"
    and "OnURL E path (p_Processor p) = (ps, None)"
  shows "consumes E (path @ [SP]) p (p\<lparr>p_Processor := ps, p_state := stateProtoBefore\<rparr>)"
proof -
  let ?d = "path @ [SP]" let ?p = "p\<lparr>p_state := statePath\<rparr>"
  have "parse_loop E ?d 0 0 p = parse_loop E ?d 1 0 ?p"
    using assms by (intro parse_loop_next) (auto simp: parse_step_def step_request_def nextState_def hd_conv_nth nth_append Let_def)
  also have "\<dots> = parse_loop E ?d (length path) 0 ?p"
    using assms by (intro parse_loop_scan) (auto simp: parse_step_def step_request_def nth_append Let_def Suc_le_eq in_set_conv_nth)
  also have "\<dots> = parse_loop E ?d (length ?d) (length ?d) (p\<lparr>p_Processor := ps, p_state := stateProtoBefore\<rparr>)"
    using assms by (intro parse_loop_next) (auto simp: parse_step_def step_request_def nth_append Let_def nextState_def)
  finally show ?thesis using assms by (simp add: parse_loop_end consumes_def body_len_def)
qed

lemma consumes_proto:
  assumes "p_state p = stateProtoBefore" "p_ParserCloser p = None" "p_proto p = []"
    and "v \<noteq> []" "SP \<notin> set v" "CR \<notin> set v"
    and "OnProto E v (p_Processor p) = (ps, None)"
  shows "consumes E (v @ [CR, LF]) p (p\<lparr>p_Processor := ps, p_state := stateHeaderKeyBefore\<rparr>)"
proof -
  let ?d = "v @ [CR, LF]" let ?p = "p\<lparr>p_state := stateProto\<rparr>"
  have "parse_loop E ?d 0 0 p = parse_loop E ?d 1 0 ?p"
    using assms by (intro parse_loop_next) (auto simp: parse_step_def step_request_def nextState_def nth_append Let_def in_set_conv_nth)
  also have "\<dots> = parse_loop E ?d (length v) 0 ?p"
    using assms by (intro parse_loop_scan) (auto simp: parse_step_def step_request_def nth_append Let_def Suc_le_eq in_set_conv_nth)
  also have "\<dots> = parse_loop E ?d (Suc (length v)) 0 (p\<lparr>p_Processor := ps, p_state := stateProtoLF\<rparr>)"
    using assms by (intro parse_loop_next) (auto simp: parse_step_def step_request_def nth_append Let_def nextState_def)
  also have "\<dots> = parse_loop E ?d (length ?d) (length ?d) (p\<lparr>p_Processor := ps, p_state := stateHeaderKeyBefore\<rparr>)"
    using assms by (intro parse_loop_next) (auto simp: parse_step_def step_request_def nth_append Let_def nextState_def)
  finally show ?thesis using assms by (simp add: parse_loop_end consumes_def body_len_def)
qed

lemma print_header_app: "print_header (k, v) = k @ (CHR '':'' # SP # v @ [CR, LF])"
  by (simp add: print_header_def)

lemma go_slice_append_mid: "s = length xs \<Longrightarrow> e = length xs + length ys \<Longrightarrow> go_slice (xs @ ys @ zs) s e = ys"
  by (simp add: go_slice_def)

lemma isToken_neq: "isToken c \<Longrightarrow> c \<noteq> SP \<and> c \<noteq> CR \<and> c \<noteq> LF \<and> c \<noteq> CHR '':''"
  by auto

lemma canon_case_Nil [simp]: "canon_case u k = [] \<longleftrightarrow> k = []"
  by (cases k) auto

lemma CanonicalHeaderKey_Nil [simp]: "CanonicalHeaderKey k = [] \<longleftrightarrow> k = []"
  by (simp add: CanonicalHeaderKey_def)

lemma consumes_header:
  assumes "p_state p = stateHeaderKeyBefore" "p_ParserCloser p = None"
    and "p_headerKey p = []" "p_headerValue p = []" and wf: "wf_header (k, v)"
  shows "consumes E (print_header (k, v)) p (got_header E (CanonicalHeaderKey k) v p)"
proof -
  let ?d = "print_header (k, v)"
  let ?p1 = "p\<lparr>p_state := stateHeaderKey, p_headerExists := True\<rparr>"
  let ?p2 = "p\<lparr>p_state := stateHeaderValueBefore, p_headerExists := True, p_headerKey := CanonicalHeaderKey k\<rparr>"
  let ?p3 = "?p2\<lparr>p_state := stateHeaderValue\<rparr>"
  let ?n = "length k + 2"
  have d: "length ?d = length k + length v + 4" by (simp add: print_header_def)
  have k: "\<forall>j<length k. ?d ! j = k ! j \<and> isToken (k ! j)" "k \<noteq> []"
    using wf by (auto simp: wf_header_def list_all_length print_header_app nth_append)
  then have k': "\<forall>j<length k. isToken (?d ! j)" by simp
  have kt: "go_slice ?d 0 (length k) = k" by (simp add: print_header_app)
  have v0: "v \<noteq> []" "v ! 0 \<noteq> SP" "v ! 0 \<noteq> CR" "v ! 0 \<noteq> LF"
    using wf by (auto simp: wf_header_def hd_conv_nth in_set_conv_nth)
  have v: "\<forall>j<length v. ?d ! (?n + j) = v ! j \<and> v ! j \<noteq> CR \<and> v ! j \<noteq> LF"
    using wf by (auto simp: wf_header_def in_set_conv_nth print_header_app nth_append)
  have vt: "go_slice ?d ?n (?n + length v) = v" by (simp add: print_header_def go_slice_def)
  have c: "?d ! length k = CHR '':''" "?d ! Suc (length k) = SP" "?d ! (?n + length v) = CR" "?d ! Suc (?n + length v) = LF"
    by (simp_all add: print_header_def nth_append)
  have "parse_loop E ?d 0 0 p = parse_loop E ?d 1 0 ?p1"
    using assms k' k isToken_neq [of "?d ! 0"] d
    by (intro parse_loop_next) (auto simp: parse_step_def step_header_def nextState_def Let_def)
  also have "\<dots> = parse_loop E ?d (length k) 0 ?p1"
    using assms k' k isToken_neq d
    by (intro parse_loop_scan) (auto simp: parse_step_def step_header_def nextState_def Let_def Suc_le_eq)
  also have "\<dots> = parse_loop E ?d (Suc (length k)) (Suc (length k)) ?p2"
    using assms d c kt
    by (intro parse_loop_next) (auto simp: parse_step_def step_header_def nextState_def Let_def)
  also have "\<dots> = parse_loop E ?d ?n (Suc (length k)) ?p2"
    using assms d c
    by (intro parse_loop_next) (auto simp: parse_step_def step_header_def nextState_def Let_def)
  also have "\<dots> = parse_loop E ?d (Suc ?n) ?n ?p3"
    using assms d v v0 
    by (intro parse_loop_next) (auto simp: parse_step_def step_header_def nextState_def Let_def)
  also have "\<dots> = parse_loop E ?d (?n + length v) ?n ?p3"
  proof (rule parse_loop_scan)
    fix j assume j: "Suc ?n \<le> j" "j < ?n + length v"
    define m where "m = j - ?n"
    have "j = ?n + m" "m < length v" using j by (auto simp: m_def)
    then show "parse_step E ?d j ?n ?p3 = Next ?p3 ?n (Suc j)"
      using v by (auto simp: parse_step_def step_header_def nextState_def Let_def)
  qed (use assms d v0 in \<open>auto simp: Suc_le_eq\<close>)
  also have "\<dots> = parse_loop E ?d (Suc (?n + length v)) (Suc (?n + length v)) (finish_header E v ?p3)"
    using assms d c vt
    by (intro parse_loop_next) (auto simp: parse_step_def step_header_def nextState_def Let_def)
  also have "\<dots> = parse_loop E ?d (length ?d) (length ?d) (got_header E (CanonicalHeaderKey k) v p)"
  proof (rule parse_loop_next)
    show "parse_step E ?d (Suc (?n + length v)) (Suc (?n + length v)) (finish_header E v ?p3) =
        Next (got_header E (CanonicalHeaderKey k) v p) (length ?d) (length ?d)"
      using assms d c by (auto simp: parse_step_def step_header_def nextState_def Let_def finish_header_def got_header_def framing_def)
    show "p_ParserCloser (finish_header E v ?p3) = None" using assms by (simp add: finish_header_def nextState_def Let_def)
  qed (use d in auto)
  finally show ?thesis using assms by (simp add: parse_loop_end consumes_def body_len_def)
qed

lemma consumes_headers_end:
  assumes "p_state p = stateHeaderKeyBefore" "p_ParserCloser p = None"
    and fh: "finish_headers E p = (q, None)" "p_ParserCloser q = None"
  shows "consumes E [CR, LF] p (if p_chunked q then q\<lparr>p_headerExists := False, p_state := stateBodyChunkSizeBefore\<rparr>
     else if p_contentLength q > 0 then q\<lparr>p_headerExists := False, p_state := stateBodyContentLength\<rparr>
     else handleMessage E (q\<lparr>p_headerExists := False\<rparr>))"
proof -
  have q: "p_state q = stateHeaderOverLF" using p_state_finish_headers [OF fh(1)] assms by simp
  have "parse_loop E [CR, LF] 0 0 p = parse_loop E [CR, LF] 1 1 q"
    using assms by (intro parse_loop_next) (auto simp: parse_step_def step_header_def Let_def)
  also have "\<dots> = parse_loop E [CR, LF] 2 2 (if p_chunked q then q\<lparr>p_headerExists := False, p_state := stateBodyChunkSizeBefore\<rparr>
     else if p_contentLength q > 0 then q\<lparr>p_headerExists := False, p_state := stateBodyContentLength\<rparr>
     else handleMessage E (q\<lparr>p_headerExists := False\<rparr>))"
    using q fh(2) by (intro parse_loop_next) (auto simp: parse_step_def step_header_def Let_def nextState_def)
  finally show ?thesis using assms by (simp add: parse_loop_end consumes_def body_len_def)
qed

lemma consumes_body:
  assumes "p_state p = stateBodyContentLength" "p_ParserCloser p = None"
    and "p_contentLength p = int (length b)" "b \<noteq> []" "OnBody E b (p_Processor p) = (ps, None)"
  shows "consumes E b p (handleMessage E (p\<lparr>p_Processor := ps\<rparr>))"
proof -
  have "parse_loop E b 0 0 p = parse_loop E b (length b) (length b) (handleMessage E (p\<lparr>p_Processor := ps\<rparr>))"
    using assms by (intro parse_loop_next) (auto simp: parse_step_def step_body_def Let_def)
  with assms show ?thesis by (simp add: parse_loop_end consumes_def body_len_def)
qed

lemma consumes_chunk_data:
  assumes "p_state p = stateBodyChunkData" "p_ParserCloser p = None"
    and "p_chunkSize p = int (length b)" "b \<noteq> []" "OnBody E b (p_Processor p) = (ps, None)"
  shows "consumes E b p (p\<lparr>p_Processor := ps, p_state := stateBodyChunkDataCR\<rparr>)"
proof -
  have "parse_loop E b 0 0 p = parse_loop E b (length b) (length b) (p\<lparr>p_Processor := ps, p_state := stateBodyChunkDataCR\<rparr>)"
    using assms by (intro parse_loop_next) (auto simp: parse_step_def step_body_def Let_def nextState_def)
  with assms show ?thesis by (simp add: parse_loop_end consumes_def body_len_def)
qed

lemma chunk_size_loop:
  fixes pre n defines "d \<equiv> pre @ FormatInt 16 n @ [CR, LF]"
  assumes "p_state p = stateBodyChunkSizeBefore" "p_ParserCloser p = None" "int n < 2 ^ 62"
  shows "parse_loop E d (length pre) s p = LExit (after_size n p) (length d)"
proof -
  let ?h = "FormatInt 16 n" let ?i = "length pre"
  let ?p1 = "p\<lparr>p_chunkSize := -1, p_state := stateBodyChunkSize\<rparr>"
  have h: "\<forall>j<length ?h. d ! (?i + j) = ?h ! j \<and> isHex (?h ! j)" 
    using isHex_FormatInt [of _ n] by (auto simp: d_def nth_append)
  have hex: "\<And>j. j < length ?h \<Longrightarrow> isHex (d ! (?i + j)) \<and> d ! (?i + j) \<noteq> SP \<and> d ! (?i + j) \<noteq> CR"
    using h by (metis not_isHex)
  have ht: "go_slice d ?i (?i + length ?h) = ?h" by (simp add: d_def go_slice_def)
  have c: "d ! (?i + length ?h) = CR" "d ! Suc (?i + length ?h) = LF" by (simp_all add: d_def nth_append)
  have l: "length d = ?i + length ?h + 2" by (simp add: d_def)
  have hl: "0 < length ?h" by simp
  have sz: "parseAndValidateChunkSize ?h = Inr (int n)"
    using assms by (simp add: parseAndValidateChunkSize_def ParseInt_FormatInt MaxInt_def)
  have "parse_loop E d ?i s p = parse_loop E d (Suc ?i) ?i ?p1"
    using assms hex [of 0] l hl by (intro parse_loop_next) (auto simp: parse_step_def step_body_def Let_def nextState_def)
  also have "\<dots> = parse_loop E d (?i + length ?h) ?i ?p1"
  proof (rule parse_loop_scan)
    fix j assume j: "Suc ?i \<le> j" "j < ?i + length ?h"
    define m where "m = j - ?i"
    have "j = ?i + m" "m < length ?h" using j by (auto simp: m_def)
    then show "parse_step E d j ?i ?p1 = Next ?p1 ?i (Suc j)"
      using hex [of m] by (auto simp: parse_step_def step_body_def Let_def)
  qed (use assms l hl in \<open>auto simp: Suc_le_eq\<close>)
  also have "\<dots> = parse_loop E d (Suc (?i + length ?h)) (Suc (?i + length ?h)) (p\<lparr>p_chunkSize := int n, p_state := stateBodyChunkSizeLF\<rparr>)"
    using assms c ht l sz by (intro parse_loop_next) (auto simp: parse_step_def step_body_def read_chunk_size_def Let_def nextState_def)
  also have "\<dots> = parse_loop E d (length d) (length d) (after_size n p)"
    using assms c l by (intro parse_loop_next) (auto simp: parse_step_def step_body_def after_size_def Let_def nextState_def)
  finally show ?thesis by (simp add: parse_loop_end)
qed

lemma consumes_first_size:
  assumes "p_state p = stateBodyChunkSizeBefore" "p_ParserCloser p = None" "int n < 2 ^ 62"
  shows "consumes E (FormatInt 16 n @ [CR, LF]) p (after_size n p)"
  using chunk_size_loop [OF assms, of E "[]" 0] assms by (simp add: consumes_def body_len_def)

lemma consumes_next_size:
  assumes "p_state p = stateBodyChunkDataCR" "p_ParserCloser p = None" "int n < 2 ^ 62"
  shows "consumes E ([CR, LF] @ FormatInt 16 n @ [CR, LF]) p (after_size n p)"
proof -
  let ?d = "[CR, LF] @ FormatInt 16 n @ [CR, LF]"
  let ?q = "p\<lparr>p_state := stateBodyChunkSizeBefore\<rparr>"
  have "parse_loop E ?d 0 0 p = parse_loop E ?d 1 0 (p\<lparr>p_state := stateBodyChunkDataLF\<rparr>)"
    using assms by (intro parse_loop_next) (auto simp: parse_step_def step_body_def Let_def nextState_def)
  also have "\<dots> = parse_loop E ?d 2 0 ?q"
    using assms by (intro parse_loop_next) (auto simp: parse_step_def step_body_def Let_def nextState_def)
  also have "\<dots> = LExit (after_size n ?q) (length ?d)"
    using chunk_size_loop [of ?q n E "[CR, LF]" 0] assms by (simp add: numeral_2_eq_2)
  finally show ?thesis using assms by (simp add: consumes_def body_len_def after_size_def)
qed

lemma consumes_tail:
  assumes "p_state p = stateTailCR" "p_ParserCloser p = None"
  shows "consumes E [CR, LF] p (handleMessage E (p\<lparr>p_state := stateTailLF\<rparr>))"
proof -
  have "parse_loop E [CR, LF] 0 0 p = parse_loop E [CR, LF] 1 0 (p\<lparr>p_state := stateTailLF\<rparr>)"
    using assms by (intro parse_loop_next) (auto simp: parse_step_def step_trailer_def Let_def nextState_def)
  also have "\<dots> = parse_loop E [CR, LF] 2 2 (handleMessage E (p\<lparr>p_state := stateTailLF\<rparr>))"
    using assms by (intro parse_loop_next) (auto simp: parse_step_def step_trailer_def Let_def)
  finally show ?thesis using assms by (simp add: parse_loop_end consumes_def body_len_def)
qed

lemma idle_update [simp]:
  "idle cl (p_state_update f1 p) = idle cl p"
  "idle cl (p_Processor_update f2 p) = idle cl p"
  "idle cl (p_header_update f3 p) = idle cl p"
  "idle cl (p_chunked_update f4 p) = idle cl p"
  "idle cl (p_contentLength_update f5 p) = idle cl p"
  "idle cl (p_headerExists_update f6 p) = idle cl p"
  "idle cl (p_chunkSize_update f7 p) = idle cl p"
  by (simp_all add: idle_def)

lemma boundary_handleMessage:
  assumes "no_upgrade E" "idle cl p" "\<not> p_headerExists p" "p_state p \<noteq> stateClose"
  shows "at_boundary cl (handleMessage E p) \<and> p_Processor (handleMessage E p) = fst (OnComplete E (p_Processor p))"
proof -
  obtain ps where "OnComplete E (p_Processor p) = (ps, None)"
    using assms(1) by (metis no_upgrade_def prod.collapse)
  with assms show ?thesis by (simp add: handleMessage_def at_boundary_def idle_def nextState_def)
qed

lemma consumes_headers:
  assumes "idle cl p" "p_state p = stateHeaderKeyBefore" "\<forall>h\<in>set hs. wf_header h"
  shows "\<exists>q. consumes E (concat (map print_header hs)) p q \<and> idle cl q \<and> p_state q = stateHeaderKeyBefore \<and>
     p_header q = fold (\<lambda>h hd. if CanonicalHeaderKey (fst h) \<in> framing
        then Header_Add hd (CanonicalHeaderKey (fst h)) (snd h) else hd) hs (p_header p) \<and>
     p_chunked q = p_chunked p \<and> p_Processor q = fold (deliver_header E) hs (p_Processor p)"
  using assms
proof (induction hs arbitrary: p)
  case Nil
  then show ?case by (simp add: body_len_def)
next
  case (Cons h hs)
  obtain k v where h: "h = (k, v)" by fastforce
  let ?q = "got_header E (CanonicalHeaderKey k) v p"
  have c: "consumes E (print_header h) p ?q"
    using Cons.prems unfolding h by (intro consumes_header) (auto simp: idle_def)
  have "idle cl ?q" "p_state ?q = stateHeaderKeyBefore" using Cons.prems by (auto simp: idle_def got_header_def)
  then obtain q where q: "consumes E (concat (map print_header hs)) ?q q" "idle cl q" "p_state q = stateHeaderKeyBefore"
     "p_header q = fold (\<lambda>h hd. if CanonicalHeaderKey (fst h) \<in> framing
        then Header_Add hd (CanonicalHeaderKey (fst h)) (snd h) else hd) hs (p_header ?q)"
     "p_chunked q = p_chunked ?q" "p_Processor q = fold (deliver_header E) hs (p_Processor ?q)"
    using Cons.IH [of ?q] Cons.prems by auto
  show ?case
    using consumes_append [OF c q(1)] q(2-)
    by (intro exI [of _ q]) (auto simp: h got_header_def deliver_header_def [of E "(k, v)"])
qed

lemma after_size_fields [simp]:
  "idle cl (after_size n p) = idle cl p" "p_Processor (after_size n p) = p_Processor p"
  "p_headerExists (after_size n p) = p_headerExists p" "p_chunkSize (after_size n p) = int n"
  "p_state (after_size n p) = (if n > 0 then stateBodyChunkData else if p_trailer p \<noteq> [] then stateBodyTrailerHeaderKeyBefore
                 else stateTailCR)"
  by (simp_all add: after_size_def idle_def)

lemma consumes_chunks_after_size:
  assumes "no_upgrade E" "\<forall>c\<in>set cs. c \<noteq> [] \<and> int (length c) < 2 ^ 62"
    and "deliver_chunks E cs ps = Some ps'"
    and "idle cl p" "\<not> p_headerExists p"
    and first: "\<And>n. int n < 2 ^ 62 \<Longrightarrow> consumes E (pre @ FormatInt 16 n @ [CR, LF]) p (after_size n p)"
    and "p_Processor p = ps"
  shows "\<exists>q. consumes E (pre @ print_chunks cs) p q \<and> at_boundary cl q \<and> p_Processor q = fst (OnComplete E ps')"
  using assms(2-)
proof (induction cs arbitrary: ps p pre)
  case Nil
  let ?q = "(after_size 0 p)\<lparr>p_state := stateTailLF\<rparr>"
  have "consumes E (pre @ FormatInt 16 0 @ [CR, LF]) p (after_size 0 p)" by (rule Nil.prems(5)) simp
  moreover have "consumes E [CR, LF] (after_size 0 p) (handleMessage E ?q)"
    using Nil.prems by (intro consumes_tail) (auto simp: after_size_def idle_def)
  ultimately have "consumes E (pre @ print_chunks []) p (handleMessage E ?q)"
    using consumes_append by (fastforce simp: print_chunks_def)
  moreover have "at_boundary cl (handleMessage E ?q) \<and> p_Processor (handleMessage E ?q) = fst (OnComplete E ps')"
    using boundary_handleMessage [OF assms(1), of cl ?q] Nil.prems by simp
  ultimately show ?case by blast
next
  case (Cons c cs)
  then obtain ps1 where b: "OnBody E c ps = (ps1, None)" "deliver_chunks E cs ps1 = Some ps'"
    by (auto split: prod.splits option.splits)
  let ?p1 = "after_size (length c) p" let ?p2 = "?p1\<lparr>p_Processor := ps1, p_state := stateBodyChunkDataCR\<rparr>"
  have i: "idle cl ?p2" "\<not> p_headerExists ?p2" "p_Processor ?p2 = ps1" "p_ParserCloser ?p2 = None"
     "p_ParserCloser ?p1 = None"
    using Cons.prems by (auto simp: idle_def after_size_def)
  have "consumes E (pre @ FormatInt 16 (length c) @ [CR, LF]) p ?p1" using Cons.prems by auto
  moreover have "consumes E c ?p1 ?p2"
    using Cons.prems b i by (intro consumes_chunk_data) auto
  ultimately have A: "consumes E ((pre @ FormatInt 16 (length c) @ [CR, LF]) @ c) p ?p2"
    by (rule consumes_append)
  have "consumes E ([CR, LF] @ FormatInt 16 n @ [CR, LF]) ?p2 (after_size n ?p2)" if "int n < 2 ^ 62" for n
    using that i by (intro consumes_next_size) auto
  then obtain q where q: "consumes E ([CR, LF] @ print_chunks cs) ?p2 q" "at_boundary cl q"
      "p_Processor q = fst (OnComplete E ps')"
    using Cons.IH [of ps1 ?p2 "[CR, LF]"] Cons.prems b(2) i by auto
  show ?case
    using consumes_append [OF A q(1)] q(2,3) by (auto simp: print_chunks_def print_chunk_def)
qed

lemma framing_ok [simp]:
  "CanonicalHeaderKey contentLengthHeader = contentLengthHeader"
  "CanonicalHeaderKey transferEncodingHeader = transferEncodingHeader"
  by (code_simp, code_simp)

lemma framing_in [simp]: "contentLengthHeader \<in> framing" "transferEncodingHeader \<in> framing"
  by (simp_all add: framing_def)

lemma header_names [simp]:
  "contentLengthHeader \<noteq> transferEncodingHeader" "transferEncodingHeader \<noteq> contentLengthHeader"
  "trailerHeader \<noteq> transferEncodingHeader" "trailerHeader \<noteq> contentLengthHeader"
  "transferEncodingHeader \<noteq> trailerHeader" "contentLengthHeader \<noteq> trailerHeader"
  by (simp_all add: contentLengthHeader_def transferEncodingHeader_def trailerHeader_def)

lemma chunked_ok: "ToLower (TrimString ''chunked'') = ''chunked''"
  by code_simp

lemma list_all_isToken_names:
  "list_all isToken contentLengthHeader" "list_all isToken transferEncodingHeader"
  by (code_simp, code_simp)

lemma wf_framing_headers: "wf_body b \<Longrightarrow> h \<in> set (framing_headers b) \<Longrightarrow> wf_header h"
proof (cases b)
  case (Fixed x)
  let ?f = "FormatInt 10 (length x)"
  have c: "\<exists>d<10. c = digit_char d" if "c \<in> set ?f" for c
    using FormatInt_digits [of 10 c] that by auto
  have "c \<noteq> SP \<and> c \<noteq> CR \<and> c \<noteq> LF" if "c \<in> set ?f" for c
    using c [OF that] by auto
  then have "SP \<notin> set ?f" "CR \<notin> set ?f" "LF \<notin> set ?f" by blast+
  moreover then have "hd ?f \<noteq> SP" by (metis FormatInt_neq_Nil hd_in_set)
  moreover assume "h \<in> set (framing_headers b)"
  ultimately show ?thesis using Fixed list_all_isToken_names
    by (auto simp: wf_header_def contentLengthHeader_def)
qed (use list_all_isToken_names in \<open>auto simp: wf_header_def transferEncodingHeader_def\<close>)

lemma fold_nonframing:
  "list_all (\<lambda>h. wf_header h \<and> CanonicalHeaderKey (fst h) \<notin> framing) hs \<Longrightarrow>
   fold (\<lambda>h hd. if CanonicalHeaderKey (fst h) \<in> framing
        then Header_Add hd (CanonicalHeaderKey (fst h)) (snd h) else hd) (hs @ framing_headers b) [] = body_header b"
  by (induction hs) (cases b; simp add: Header_Add_def)+

lemma trim_FormatInt: "trimTrailingSpaces (FormatInt 10 n) = FormatInt 10 n"
proof -
  have "last (FormatInt 10 n) \<in> set (FormatInt 10 n)" by simp
  then obtain d where "d < 10" "last (FormatInt 10 n) = digit_char d"
    using FormatInt_digits [of 10 "last (FormatInt 10 n)" n] by auto
  then have "hd (rev (FormatInt 10 n)) \<noteq> SP" by (simp add: hd_rev)
  then have "dropWhile (\<lambda>c. c = SP) (rev (FormatInt 10 n)) = rev (FormatInt 10 n)"
    by (cases "rev (FormatInt 10 n)") auto
  then show ?thesis by (simp add: trimTrailingSpaces_def)
qed

lemma finish_headers_body:
  assumes "p_header p = body_header b" "\<not> p_chunked p" "wf_body b" "p_state p = stateHeaderKeyBefore"
  shows "\<exists>h. finish_headers E p = (p\<lparr>p_header := h, p_chunked := (case b of Chunked _ \<Rightarrow> True | _ \<Rightarrow> False),
      p_contentLength := body_length b, p_Processor := OnContentLength E (body_length b) (p_Processor p),
      p_state := stateHeaderOverLF\<rparr>, None)"
proof (cases b)
  case (Fixed x)
  have "ParseInt 10 63 (FormatInt 10 (length x)) = Some (int (length x))"
    using assms Fixed by (intro ParseInt_FormatInt) auto
  then show ?thesis
    using assms Fixed
    by (intro exI [of _ "body_header b"])
      (simp add: finish_headers_def parseTransferEncoding_def parseContentLength_def Header_Get_def Header_values_def
        trim_FormatInt parseTrailer_def nextState_def MaxInt_def)
next
  case NoBody
  then show ?thesis using assms
    by (intro exI [of _ "body_header b"]) (simp add: finish_headers_def parseTransferEncoding_def parseContentLength_def Header_Get_def Header_values_def
        parseTrailer_def nextState_def)
next
  case (Chunked x)
  then show ?thesis using assms
    by (intro exI [of _ "[]"]) (simp add: finish_headers_def parseTransferEncoding_def parseContentLength_def Header_Get_def Header_values_def
        parseTrailer_def nextState_def chunked_ok Header_Del_def)
qed

lemma consumes_rest:
  assumes nu: "no_upgrade E" and p: "idle cl p" "p_state p = stateHeaderKeyBefore"
    and b: "p_header p = body_header b" "\<not> p_chunked p" "wf_body b"
    and d: "deliver_body E b (p_Processor p) = Some ps'"
  shows "\<exists>q. consumes E ([CR, LF] @ print_body b) p q \<and> at_boundary cl q \<and> p_Processor q = fst (OnComplete E ps')"
proof -
  obtain q where fh: "finish_headers E p = (q, None)" and q: "idle cl q" "p_contentLength q = body_length b"
      "p_chunked q = (case b of Chunked _ \<Rightarrow> True | _ \<Rightarrow> False)" "p_state q = stateHeaderOverLF"
      "p_Processor q = OnContentLength E (body_length b) (p_Processor p)"
    using finish_headers_body [OF b p(2), of E] p(1) by fastforce
  let ?q = "q\<lparr>p_headerExists := False\<rparr>"
  have pc: "p_ParserCloser p = None" "p_ParserCloser q = None" using p q by (auto simp: idle_def)
  note he = consumes_headers_end [OF p(2) pc(1) fh pc(2)]
  note hm = boundary_handleMessage [OF nu]
  show ?thesis
  proof (cases b)
    case NoBody
    then show ?thesis using he hm [of cl ?q] d q by auto
  next
    case (Fixed x)
    show ?thesis
    proof (cases "x = []")
      case True
      then show ?thesis using Fixed he hm [of cl ?q] d q by auto
    next
      case False
      let ?r = "?q\<lparr>p_state := stateBodyContentLength\<rparr>"
      have "OnBody E x (p_Processor q) = (ps', None)"
        using d Fixed False q by (auto split: prod.splits option.splits)
      then have "consumes E x ?r (handleMessage E (?r\<lparr>p_Processor := ps'\<rparr>))"
        using consumes_body [of ?r x E ps'] pc Fixed False q by simp
      moreover have "consumes E [CR, LF] p ?r" using he Fixed False q by simp
      ultimately show ?thesis
        using hm [of cl "?r\<lparr>p_Processor := ps'\<rparr>"] q Fixed consumes_append by fastforce
    qed
  next
    case (Chunked cs)
    let ?r = "?q\<lparr>p_state := stateBodyChunkSizeBefore\<rparr>"
    have "consumes E ([] @ FormatInt 16 n @ [CR, LF]) ?r (after_size n ?r)" if "int n < 2 ^ 62" for n
      using consumes_first_size [of ?r n E] pc that by simp
    then have "\<exists>q. consumes E ([] @ print_chunks cs) ?r q \<and> at_boundary cl q \<and> p_Processor q = fst (OnComplete E ps')"
      using nu b d Chunked q
      by (intro consumes_chunks_after_size [where ps = "p_Processor ?r"]) (auto simp: list_all_iff)
    moreover have "consumes E [CR, LF] p ?r" using he Chunked q by simp
    ultimately show ?thesis using consumes_append Chunked by fastforce
  qed
qed

lemma deliverE:
  assumes "deliver E r ps = Some ps'"
  obtains ps1 ps2 ps3 where "OnURL E (rq_path r) (OnMethod E (rq_method r) ps) = (ps1, None)"
    "OnProto E (rq_proto r) ps1 = (ps2, None)"
    "deliver_body E (rq_body r) (fold (deliver_header E) (rq_headers r @ framing_headers (rq_body r)) ps2) = Some ps3"
    "ps' = fst (OnComplete E ps3)"
  using assms unfolding deliver_def by (auto split: prod.splits option.splits)

lemma consumes_request:
  assumes nu: "no_upgrade E" and p: "boundary p" and wf: "wf_request r"
    and d: "deliver E r (p_Processor p) = Some ps'"
  shows "\<exists>q. consumes E (print_request r) p q \<and> boundary q \<and> p_Processor q = ps'"
proof -
  obtain ps1 ps2 ps3 where d: "OnURL E (rq_path r) (OnMethod E (rq_method r) (p_Processor p)) = (ps1, None)"
    "OnProto E (rq_proto r) ps1 = (ps2, None)"
    "deliver_body E (rq_body r) (fold (deliver_header E) (rq_headers r @ framing_headers (rq_body r)) ps2) = Some ps3"
    "ps' = fst (OnComplete E ps3)"
    by (rule deliverE [OF d])
  have i: "idle False p" "p_state p = stateMethodBefore" "p_ParserCloser p = None" "p_proto p = []"
    using p by (auto simp: at_boundary_def idle_def)
  let ?p1 = "p\<lparr>p_Processor := OnMethod E (rq_method r) (p_Processor p), p_state := statePathBefore\<rparr>"
  let ?p2 = "p\<lparr>p_Processor := ps1, p_state := stateProtoBefore\<rparr>"
  let ?p3 = "p\<lparr>p_Processor := ps2, p_state := stateHeaderKeyBefore\<rparr>"
  have c1: "consumes E (rq_method r @ [SP]) p ?p1"
    using i wf by (intro consumes_method) (auto simp: wf_request_def)
  have c2: "consumes E (rq_path r @ [SP]) ?p1 ?p2"
    using consumes_path [of ?p1 "rq_path r" E ps1] i wf d(1) by (simp add: wf_request_def)
  have c3: "consumes E (rq_proto r @ [CR, LF]) ?p2 ?p3"
    using consumes_proto [of ?p2 "rq_proto r" E ps2] i wf d(2) by (simp add: wf_request_def)
  have "\<forall>h\<in>set (rq_headers r @ framing_headers (rq_body r)). wf_header h"
    using wf wf_framing_headers by (auto simp: wf_request_def list_all_iff)
  from consumes_headers [OF _ _ this, of False ?p3 E] obtain q where
    c4: "consumes E (concat (map print_header (rq_headers r @ framing_headers (rq_body r)))) ?p3 q"
    and q: "idle False q" "p_state q = stateHeaderKeyBefore" "p_header q = body_header (rq_body r)" "\<not> p_chunked q"
      "p_Processor q = fold (deliver_header E) (rq_headers r @ framing_headers (rq_body r)) ps2"
    using i p wf fold_nonframing [of "rq_headers r" "rq_body r"]
    by (auto simp: wf_request_def at_boundary_def simp del: fold_append)
  obtain q' where c5: "consumes E ([CR, LF] @ print_body (rq_body r)) q q'" and q': "boundary q'" "p_Processor q' = ps'"
    using consumes_rest [OF nu q(1-4), of ps3] q(5) wf d(3,4) by (auto simp: wf_request_def)
  have "consumes E (print_request r) p q'"
    unfolding print_request_def
    by (intro consumes_append [OF c1] consumes_append [OF c2] consumes_append [OF c3] consumes_append [OF c4] c5)
  with q' show ?thesis by blast
qed

lemma consumes_requests:
  "no_upgrade E \<Longrightarrow> boundary p \<Longrightarrow> list_all wf_request rs \<Longrightarrow> deliver_all E rs (p_Processor p) = Some ps' \<Longrightarrow>
   \<exists>q. consumes E (concat (map print_request rs)) p q \<and> boundary q \<and> p_Processor q = ps'"
proof (induction rs arbitrary: p)
  case Nil
  then show ?case by (auto simp: at_boundary_def body_len_def)
next
  case (Cons r rs)
  then obtain ps1 where d: "deliver E r (p_Processor p) = Some ps1" "deliver_all E rs ps1 = Some ps'"
    by (auto split: option.splits)
  obtain q1 where q1: "consumes E (print_request r) p q1" "boundary q1" "p_Processor q1 = ps1"
    using consumes_request [OF Cons.prems(1,2) _ d(1)] Cons.prems by auto
  obtain q where "consumes E (concat (map print_request rs)) q1 q" "boundary q" "p_Processor q = ps'"
    using Cons.IH [OF Cons.prems(1) q1(2)] Cons.prems d q1 by auto
  then show ?case using consumes_append [OF q1(1)] by auto
qed

lemma boundary_init [simp]:
  "at_boundary cl (initReadDeadline E p) = at_boundary cl p" "p_Processor (initReadDeadline E p) = p_Processor p"
  by (auto simp: at_boundary_def idle_def initReadDeadline_def)

lemma boundary_cached: "at_boundary cl p \<Longrightarrow> cached p = [] \<and> set_cached None p = p \<and> pinv p"
  by (simp add: at_boundary_def idle_def cached_def set_cached_same pinv_def body_len_def)

lemma forget_ok: "forget r = Some (p, None) \<longleftrightarrow> r = Some (p, None)"
  by (auto simp: forget_def split: option.splits)

text \<open>From the byte loop to a sequence of reads.\<close>

lemma consumed_reads:
  assumes nu: "no_upgrade E" and p: "at_boundary cl p"
    and c: "\<And>p'. at_boundary cl p' \<Longrightarrow> p_Processor p' = p_Processor p \<Longrightarrow>
      \<exists>q. consumes E (concat ds) p' q \<and> at_boundary cl q \<and> p_Processor q = ps'"
    and lim: "within_limit E (length (concat ds))" and ds: "ds \<noteq> []"
  shows "\<exists>q. Parse_all E ds p = Some (q, None) \<and> at_boundary cl q \<and> p_Processor q = ps'"
proof -
  have open_p: "p_state p \<noteq> stateClose" using p by (simp add: at_boundary_def)
  have st: "streaming E p (length (concat ds))"
    using assms by (auto simp: streaming_def boundary_cached [OF p] at_boundary_def idle_def)
  let ?p = "set_cached None (initReadDeadline E p)"
  have b: "at_boundary cl ?p" "p_Processor ?p = p_Processor p"
    using p boundary_cached [of cl "initReadDeadline E p"] by simp_all
  obtain q where q: "consumes E (concat ds) ?p q" "at_boundary cl q" "p_Processor q = ps'" using c [OF b] by blast
  have "\<exists>q. Parse E (concat ds) p = Some (q, None) \<and> at_boundary cl q \<and> p_Processor q = ps'"
  proof (cases "concat ds = []")
    case True
    have "q = ?p" using q(1) unfolding True by simp
    then show ?thesis using q(3) b(2) p open_p unfolding True by (intro exI [of _ "initReadDeadline E p"]) (simp add: Parse_Nil)
  next
    case False
    have "Parse E (concat ds) p = Some (set_cached None q, None)"
      using Parse_alt [of p E "concat ds"] st False q(1) boundary_cached [OF p] open_p
      by (auto simp: streaming_def consumes_def rest_def)
    then show ?thesis using q boundary_cached [OF q(2)] by auto
  qed
  then obtain q where q: "Parse E (concat ds) p = Some (q, None)" "at_boundary cl q" "p_Processor q = ps'" by blast
  have "forget (Parse_all E ds p) = Some (q, None)"
    using http.feed_all_concat [OF ds st] q(1) by (simp add: Parse_all_def forget_def)
  then show ?thesis using q by (auto simp: forget_ok)
qed

lemma pipelined:
  assumes "no_upgrade E" "boundary p" "list_all wf_request rs" "deliver_all E rs (p_Processor p) = Some ps'"
    and "within_limit E (length (concat ds))" "concat ds = concat (map print_request rs)" "ds \<noteq> []"
  shows "\<exists>q. Parse_all E ds p = Some (q, None) \<and> boundary q \<and> p_Processor q = ps'"
proof (rule consumed_reads [OF assms(1,2) _ assms(5,7)])
  show "\<exists>q. consumes E (concat ds) p' q \<and> boundary q \<and> p_Processor q = ps'" if "boundary p'" "p_Processor p' = p_Processor p" for p'
    using consumes_requests [OF assms(1) that(1) assms(3)] assms(4,6) that(2) by simp
qed

end
