(* ===== verification/HttpProps.thy ===== *)
theory HttpProps
  imports HttpRoundtrip
begin

text \<open>
  The properties of the HTTP parser, with a processor that logs its callbacks as the concrete
  instance at which they are applied.
\<close>

definition log_env :: "(string list, unit) penv" where
  "log_env = \<lparr>
     OnMethod = (\<lambda>m l. l @ [''method '' @ m]),
     OnURL = (\<lambda>u l. (l @ [''url '' @ u], None)),
     OnProto = (\<lambda>v l. if ParseHTTPVersion v = None then (l, Some (ErrMalformedVersion v)) else (l @ [''proto '' @ v], None)),
     OnStatus = (\<lambda>n s l. l @ [''status '' @ FormatInt 10 (nat n) @ [SP] @ s]),
     OnHeader = (\<lambda>k v l. l @ [k @ '': '' @ v]),
     OnContentLength = (\<lambda>n l. l @ [if n < 0 then ''no length'' else ''length '' @ FormatInt 10 (nat n)]),
     OnBody = (\<lambda>b l. (l @ [''body '' @ b], None)),
     OnTrailerHeader = (\<lambda>k v l. l @ [''trailer '' @ k @ '': '' @ v]),
     OnComplete = (\<lambda>l. (l @ [''complete''], None)),
     ProcClose = (\<lambda>l e. l @ [''close'']),
     Clean = (\<lambda>l. l @ [''clean'']),
     CloserParse = (\<lambda>b u. (u, None)),
     ReadLimit = 1024,
     KeepaliveDeadline = 7\<rparr>"

definition get_request :: request where
  "get_request = \<lparr>rq_method = ''GET'', rq_path = ''/a'', rq_proto = ''HTTP/1.1'',
     rq_headers = [(''host'', ''x'')], rq_body = NoBody\<rparr>"

definition post_request :: request where
  "post_request = \<lparr>rq_method = ''POST'', rq_path = ''/b'', rq_proto = ''HTTP/1.1'',
     rq_headers = [], rq_body = Chunked [''hello'', ''!'']\<rparr>"


lemma no_upgrade_log_env [simp]: "no_upgrade log_env"
  by (simp add: no_upgrade_def log_env_def)

lemma upgrade_parse_pinv: "upgrade_parse E data s p = (p', None) \<Longrightarrow> p_ParserCloser p \<noteq> None \<Longrightarrow> pinv p'"
  by (auto simp: upgrade_parse_def pinv_def cached_def split: option.splits prod.splits)

lemma parse_loop_LUpgrade: "parse_loop E data i start p = LUpgrade q s \<Longrightarrow> p_ParserCloser q \<noteq> None"
proof (induction E data i start p rule: parse_loop.induct)
  case (1 E data i start p)
  then show ?case
    by (cases "parse_step E data i start p")
      (auto simp: parse_loop.simps [of E data i] split: if_splits)
qed

lemma cache_rest_loop:
  assumes "frame E p q" "p_bytesCached p = (if b then Some data else None)" "b \<longrightarrow> data \<noteq> []"
    and "loop_inv data (length data) s q"
  shows "pinv (cache_rest data s q) \<and> length (cached (cache_rest data s q)) \<le> length data"
proof -
  have "cache_rest data s q = set_cached (rest data s) q"
    using assms by (intro cache_rest_set_cached) (auto simp: frame_def)
  then show ?thesis using loop_inv_rest assms by simp
qed

lemma Parse_result:
  assumes inv: "pinv p"
  shows "\<exists>p' err. Parse E d p = Some (p', err) \<and>
     (err = None \<longrightarrow> pinv p' \<and> length (cached p') \<le> length (cached p) + length d \<and>
        (d \<noteq> [] \<and> cached p \<noteq> [] \<and> 0 < ReadLimit E \<longrightarrow> int (length (cached p) + length d) \<le> ReadLimit E))"
proof (cases "p_state p = stateClose \<or> d = []")
  case True
  then show ?thesis using inv by (cases "p_state p = stateClose") (auto simp: Parse_close Parse_Nil)
next
  case False
  let ?q = "initReadDeadline E p" let ?c = "cached p"
  let ?p1 = "if ?c \<noteq> [] then ?q\<lparr>p_bytesCached := Some (?c @ d)\<rparr> else ?q"
  have c: "p_bytesCached ?p1 = (if ?c \<noteq> [] then Some (?c @ d) else None)"
    using inv by (auto simp: pinv_def cached_def split: option.splits)
  show ?thesis
  proof (cases "?c \<noteq> [] \<and> 0 < ReadLimit E \<and> ReadLimit E < int (length ?c + length d)")
    case True
    then show ?thesis using False by (auto simp: Parse_def cached_def [symmetric] Let_def)
  next
    case lim: False
    show ?thesis
    proof (cases "p_ParserCloser p = None")
      case up: False
      then have "Parse E d p = Some (upgrade_parse E (?c @ d) 0 ?p1)"
        using False lim by (auto simp: Parse_def cached_def [symmetric] Let_def)
      moreover have "p_ParserCloser ?p1 \<noteq> None" using up by simp
      moreover have "cached (fst (upgrade_parse E (?c @ d) 0 ?p1)) = []"
        using up by (auto simp: upgrade_parse_def cached_def split: prod.splits)
      ultimately show ?thesis using lim upgrade_parse_pinv [of E "?c @ d" 0 ?p1]
        by (cases "upgrade_parse E (?c @ d) 0 ?p1") auto
    next
      case True
      have P: "Parse E d p = (case parse_loop E (?c @ d) (length ?c) 0 ?p1 of
                      LExit p2 start \<Rightarrow> Some (cache_rest (?c @ d) start p2, None)
                    | LFail p2 e \<Rightarrow> Some (p2, Some e)
                    | LUpgrade p2 start \<Rightarrow> Some (upgrade_parse E (?c @ d) start p2)
                    | LStuck \<Rightarrow> None)"
        using False lim True by (auto simp: Parse_def cached_def [symmetric] Let_def)
      have "loop_inv (?c @ d) (length ?c) 0 ?p1"
        using inv True by (auto simp: loop_inv_def pinv_def body_len_def)
      then have ok: "exit_ok (?c @ d) (parse_loop E (?c @ d) (length ?c) 0 ?p1)" by (rule parse_loop_ok)
      show ?thesis
      proof (cases "parse_loop E (?c @ d) (length ?c) 0 ?p1")
        case (LExit q s)
        then have fr: "frame E ?p1 q" using frame_parse_loop [of E "?c @ d" "length ?c" 0 ?p1 q] by simp
        have "loop_inv (?c @ d) (length (?c @ d)) s q" using ok LExit by (simp add: exit_ok_def)
        from cache_rest_loop [OF fr c _ this] show ?thesis using P LExit False lim by auto
      next
        case (LUpgrade q s)
        have "p_ParserCloser q \<noteq> None" using LUpgrade by (rule parse_loop_LUpgrade)
        moreover from this have "cached (fst (upgrade_parse E (?c @ d) s q)) = []"
          by (auto simp: upgrade_parse_def cached_def split: prod.splits)
        ultimately show ?thesis using P LUpgrade lim upgrade_parse_pinv [of E "?c @ d" s q]
          by (cases "upgrade_parse E (?c @ d) s q") auto
      qed (use P ok in \<open>auto simp: exit_ok_def\<close>)
    qed
  qed
qed







text \<open>
  C1: Pipelined requests, each without body, with a body of announced length or with a chunked
  body, and cut into reads at arbitrary places, reach the processor through exactly the callbacks
  the requests call for, in order; no error is reported and the parser is back at a message
  boundary with nothing cached.
\<close>

theorem Parse_pipelined:
  assumes "no_upgrade E" "boundary p" "list_all wf_request rs"
    and "deliver_all E rs (p_Processor p) = Some ps"
    and "within_limit E (length (concat reads))"
    and "concat reads = concat (map print_request rs)" "reads \<noteq> []"
  shows "\<exists>q. Parse_all E reads p = Some (q, None) \<and> boundary q \<and> p_Processor q = ps"
  using assms by (rule pipelined)

theorem Parse_pipelined_witness:
  "\<exists>q. Parse_all log_env [print_request get_request @ take 9 (print_request post_request),
       drop 9 (print_request post_request)] (NewParser [] False) = Some (q, None) \<and> boundary q \<and>
     p_Processor q = [''method GET'', ''url /a'', ''proto HTTP/1.1'', ''Host: x'', ''no length'', ''complete'',
       ''method POST'', ''url /b'', ''proto HTTP/1.1'', ''Transfer-Encoding: chunked'', ''no length'',
       ''body hello'', ''body !'', ''complete'']"
proof (rule Parse_pipelined [where rs = "[get_request, post_request]"])
  show "list_all wf_request [get_request, post_request]" by code_simp
  show "deliver_all log_env [get_request, post_request] (p_Processor (NewParser [] False)) =
    Some [''method GET'', ''url /a'', ''proto HTTP/1.1'', ''Host: x'', ''no length'', ''complete'',
       ''method POST'', ''url /b'', ''proto HTTP/1.1'', ''Transfer-Encoding: chunked'', ''no length'',
       ''body hello'', ''body !'', ''complete'']" by code_simp
qed (simp_all add: at_boundary_def idle_def NewParser_def, code_simp+)

text \<open>
  C2: The outcome of a connection does not depend on how its bytes were cut into reads: two
  ways to cut the same bytes end in the same parser state, with the same callbacks delivered and
  the same error (after an error only the contents of the read cache may differ).
\<close>

theorem Parse_any_cut:
  assumes "streaming E p (length (concat ds))" "concat ds = concat ds'" "ds \<noteq> []" "ds' \<noteq> []"
  shows "forget (Parse_all E ds p) = forget (Parse_all E ds' p)"
  unfolding Parse_all_def using assms(2,3,4,1) by (rule http.feed_all_recut)

theorem Parse_any_cut_witness:
  "forget (Parse_all log_env [''GET'', '' /a HTTP/1.1'', [CR, LF] @ ''A b''] (NewParser [] False)) =
   forget (Parse_all log_env [''GET /a HTT'', ''P/1.1'' @ [CR], [LF] @ ''A b''] (NewParser [] False))"
proof (rule Parse_any_cut)
  show "streaming log_env (NewParser [] False) (length (concat [''GET'', '' /a HTTP/1.1'', [CR, LF] @ ''A b'']))"
    unfolding streaming_def by (intro conjI) (rule pinv_NewParser, simp add: NewParser_def, simp, code_simp)
qed simp_all

text \<open>
  C4: From every state that satisfies the parser invariant, for every processor (one that
  upgrades the connection included) and every input, \<open>Parse\<close> returns, and when it returns without
  an error the invariant holds again: nothing empty is cached, and in a body state fewer bytes are
  cached than the body still needs, so the next call makes progress.
\<close>

theorem Parse_returns:
  assumes "pinv p"
  shows "\<exists>p' err. Parse E d p = Some (p', err) \<and> (err = None \<longrightarrow> pinv p')"
  using Parse_result [OF assms, of E d] by blast

theorem Parse_returns_witness:
  "\<exists>p' err. Parse log_env ''GET /x'' (NewParser [] False) = Some (p', err) \<and> (err = None \<longrightarrow> pinv p')"
  using Parse_returns [OF pinv_NewParser] .





text \<open>
  Closing runs the close callback once: it closes the processor, a second
  \<open>CloseAndClean\<close> does nothing, and every later \<open>Parse\<close> is refused with \<open>ErrClosed\<close> and changes
  nothing.
\<close>

theorem closed_parser:
  assumes "p_state p \<noteq> stateClose" "CloseAndClean E err p = (q, called)"
  shows "called \<and> p_Processor q = ProcClose E (p_Processor p) err \<and>
     CloseAndClean E err' q = (q, False) \<and> Parse E d q = Some (q, Some ErrClosed)"
  using assms by (auto simp: CloseAndClean_def Parse_close)

theorem closed_parser_witness:
  "let q = fst (CloseAndClean log_env None (NewParser [] False)) in
   p_Processor q = [''close''] \<and> CloseAndClean log_env None q = (q, False) \<and> Parse log_env ''GET'' q = Some (q, Some ErrClosed)"
  using closed_parser [of "NewParser [] False" log_env None _ _ None "''GET''"]
  by (cases "CloseAndClean log_env None (NewParser [] False)") (simp add: NewParser_def log_env_def)

end
