(* ===== verification/WsMask.thy ===== *)
theory WsMask
  imports Prelude
begin

unbundle bit_operations_syntax

text \<open>
  The frame masking of \<open>nbhttp/websocket/conn.go\<close>: \<open>maskXOR\<close> works on 64-bit words, eight at a
  time, then one at a time, then on the bytes that are left. It is shown to be the bytewise
  exclusive or of RFC 6455 (byte \<open>i\<close> with key byte \<open>i mod 4\<close>), hence its own inverse.
  \<open>encoding/binary\<close> in both byte orders is modelled here too.
\<close>

text \<open>\<open>binary.LittleEndian\<close>: reading \<open>Uint64\<close> (or \<open>Uint32\<close>, zero-extended), and \<open>PutUint64\<close>.\<close>

fun le_val :: "octets \<Rightarrow> 64 word" where
  "le_val [] = 0"
| "le_val (b # bs) = ucast b OR push_bit 8 (le_val bs)"

fun le_bytes :: "nat \<Rightarrow> 64 word \<Rightarrow> octets" where
  "le_bytes 0 v = []"
| "le_bytes (Suc n) v = ucast v # le_bytes n (drop_bit 8 v)"

text \<open>\<open>binary.BigEndian\<close>.\<close>

definition be_val :: "octets \<Rightarrow> int" where
  "be_val bs = foldl (\<lambda>a b. a * 256 + uint b) 0 bs"

fun be_bytes :: "nat \<Rightarrow> int \<Rightarrow> octets" where
  "be_bytes 0 n = []"
| "be_bytes (Suc k) n = be_bytes k (n div 256) @ [word_of_int n]"

definition mask_word :: "64 word \<Rightarrow> octets \<Rightarrow> octets" where
  "mask_word key64 b = le_bytes 8 (le_val b XOR key64)"

definition mask_tail :: "octets \<Rightarrow> octets \<Rightarrow> octets" where
  "mask_tail key b = map (\<lambda>i. b ! i XOR key ! (i AND 3)) [0..<length b]"

function mask_loop8 :: "octets \<Rightarrow> 64 word \<Rightarrow> octets \<Rightarrow> octets" where
  "mask_loop8 key key64 b =
     (if length b \<ge> 8 then mask_word key64 (take 8 b) @ mask_loop8 key key64 (drop 8 b)
      else mask_tail key b)"
  by pat_completeness auto
termination
  by (relation "measure (\<lambda>(key, key64, b). length b)") auto

function mask_loop64 :: "octets \<Rightarrow> 64 word \<Rightarrow> octets \<Rightarrow> octets" where
  "mask_loop64 key key64 b =
     (if length b \<ge> 64 then
        mask_word key64 (take 8 b) @ mask_word key64 (go_slice b 8 16) @
        mask_word key64 (go_slice b 16 24) @ mask_word key64 (go_slice b 24 32) @
        mask_word key64 (go_slice b 32 40) @ mask_word key64 (go_slice b 40 48) @
        mask_word key64 (go_slice b 48 56) @ mask_word key64 (go_slice b 56 64) @
        mask_loop64 key key64 (drop 64 b)
      else mask_loop8 key key64 b)"
  by pat_completeness auto
termination
  by (relation "measure (\<lambda>(key, key64, b). length b)") auto

definition maskXOR :: "octets \<Rightarrow> octets \<Rightarrow> octets" where
  "maskXOR b key =
     (let k = le_val (take 4 key); key64 = k OR push_bit 32 k in mask_loop64 key key64 b)"

text \<open>The specification: RFC 6455, section 5.3.\<close>

definition mask_spec :: "octets \<Rightarrow> octets \<Rightarrow> octets" where
  "mask_spec b key = map (\<lambda>i. b ! i XOR key ! (i mod 4)) [0..<length b]"

declare mask_loop8.simps [simp del] mask_loop64.simps [simp del]

lemma length_le_bytes [simp]: "length (le_bytes n v) = n"
  by (induction n arbitrary: v) auto

lemma length_be_bytes [simp]: "length (be_bytes n v) = n"
  by (induction n arbitrary: v) auto

lemma le_bytes_xor: "le_bytes n (v XOR w) = map2 (XOR) (le_bytes n v) (le_bytes n w)"
  by (induction n arbitrary: v w) (auto simp: drop_bit_xor unsigned_xor_eq)

lemma bit_le_val: "bit (le_val bs) k \<longleftrightarrow> k < 64 \<and> k div 8 < length bs \<and> bit (bs ! (k div 8)) (k mod 8)"
proof (induction bs arbitrary: k)
  case (Cons b bs)
  show ?case
  proof (cases "k < 8")
    case True
    then show ?thesis by (auto simp: bit_or_iff bit_push_bit_iff bit_unsigned_iff)
  next
    case False
    then obtain j where k: "k = j + 8" by (metis add.commute le_iff_add not_less)
    then have "k div 8 = Suc (j div 8)" "k mod 8 = j mod 8" by auto
    moreover have "\<not> bit b k" using False by (auto dest: bit_imp_le_length)
    ultimately show ?thesis using Cons [of j] k
      by (auto simp: bit_or_iff bit_push_bit_iff bit_unsigned_iff)
  qed
qed simp

lemma nth_le_bytes: "i < n \<Longrightarrow> le_bytes n v ! i = ucast (drop_bit (8 * i) v)"
proof (induction n arbitrary: i v)
  case (Suc n)
  then show ?case by (cases i) (simp_all add: ac_simps)
qed simp

lemma le_bytes_le_val:
  assumes "length bs = n" "n \<le> 8"
  shows "le_bytes n (le_val bs) = bs"
proof (rule nth_equalityI)
  fix i assume "i < length (le_bytes n (le_val bs))"
  then have i: "i < n" by simp
  show "le_bytes n (le_val bs) ! i = bs ! i"
  proof (rule bit_word_eqI)
    fix m assume "m < LENGTH(8)"
    then have m: "m < 8" by simp
    then have "(8 * i + m) div 8 = i" "(8 * i + m) mod 8 = m" by auto
    then show "bit (le_bytes n (le_val bs) ! i) m = bit (bs ! i) m"
      using m i assms by (simp add: nth_le_bytes bit_unsigned_iff bit_drop_bit_eq bit_le_val)
  qed
qed (use assms in simp)

lemma mask_word_bytes:
  assumes "length b = 8" "length key = 4"
  shows "mask_word (le_val key OR push_bit 32 (le_val key)) b = map2 (XOR) b (key @ key)"
proof -
  obtain k0 k1 k2 k3 where "key = [k0, k1, k2, k3]"
    using assms(2) by (auto simp: length_Suc_conv eval_nat_numeral)
  then have "le_val key OR push_bit 32 (le_val key) = le_val (key @ key)"
    by (simp add: push_bit_or or.assoc)
  then show ?thesis
    using assms by (simp add: mask_word_def le_bytes_xor le_bytes_le_val)
qed

lemma length_mask_word [simp]: "length (mask_word k b) = 8"
  by (simp add: mask_word_def)

lemma and_3_mod: "i AND 3 = i mod (4::nat)"
  using and_exp_eq_0_iff_not_bit [of i 2] take_bit_eq_mask [of 2 i] by (simp add: take_bit_eq_mod mask_eq_exp_minus_1)

lemma mask_tail_spec: "mask_tail key b = mask_spec b key"
  by (simp add: mask_tail_def mask_spec_def and_3_mod)

lemma nth_mask_spec [simp]: "i < length b \<Longrightarrow> mask_spec b key ! i = b ! i XOR key ! (i mod 4)"
  by (simp add: mask_spec_def)

lemma length_mask_spec [simp]: "length (mask_spec b key) = length b"
  by (simp add: mask_spec_def)

lemma mask_spec_append:
  assumes "4 dvd length a"
  shows "mask_spec (a @ b) key = mask_spec a key @ mask_spec b key"
proof (rule nth_equalityI)
  fix i assume i: "i < length (mask_spec (a @ b) key)"
  show "mask_spec (a @ b) key ! i = (mask_spec a key @ mask_spec b key) ! i"
  proof (cases "i < length a")
    case False
    then obtain j where j: "i = length a + j" by (metis le_iff_add not_less)
    then have "i mod 4 = j mod 4" using assms by (metis dvd_eq_mod_eq_0 add.commute mod_add_self2 mod_add_right_eq add_0_right)
    then show ?thesis using i j by (simp add: nth_append)
  qed (use i in \<open>simp add: nth_append\<close>)
qed simp

lemma mask_word_spec:
  assumes "length b = 8" "length key = 4"
  shows "mask_word (le_val key OR push_bit 32 (le_val key)) b = mask_spec b key"
proof -
  have "(key @ key) ! i = key ! (i mod 4)" if "i < 8" for i
    using that assms by (auto simp: nth_append mod_if)
  then show ?thesis using assms
    by (intro nth_equalityI) (simp_all add: mask_word_bytes)
qed

lemma mask_loop8_spec:
  "length key = 4 \<Longrightarrow> mask_loop8 key (le_val key OR push_bit 32 (le_val key)) b = mask_spec b key"
proof (induction "length b" arbitrary: b rule: less_induct)
  case less
  show ?case
  proof (cases "length b \<ge> 8")
    case True
    then have "mask_spec b key = mask_spec (take 8 b) key @ mask_spec (drop 8 b) key"
      using mask_spec_append [of "take 8 b" "drop 8 b" key] by simp
    then show ?thesis using less True by (subst mask_loop8.simps) (simp add: mask_word_spec)
  qed (use less in \<open>simp add: mask_loop8.simps [of key _ b] mask_tail_spec\<close>)
qed

lemma mask_loop64_spec:
  "length key = 4 \<Longrightarrow> mask_loop64 key (le_val key OR push_bit 32 (le_val key)) b = mask_spec b key"
proof (induction "length b" arbitrary: b rule: less_induct)
  case less
  show ?case
  proof (cases "length b \<ge> 64")
    case True
    let ?w = "mask_word (le_val key OR push_bit 32 (le_val key))"
    have step: "mask_spec (drop n b) key = ?w (go_slice b n (n + 8)) @ mask_spec (drop (n + 8) b) key"
      if "n + 8 \<le> length b" for n
    proof -
      have "mask_spec (take 8 (drop n b) @ drop 8 (drop n b)) key =
          mask_spec (take 8 (drop n b)) key @ mask_spec (drop 8 (drop n b)) key"
        using that by (intro mask_spec_append) simp
      then have "mask_spec (drop n b) key = mask_spec (take 8 (drop n b)) key @ mask_spec (drop 8 (drop n b)) key"
        by (simp only: append_take_drop_id)
      moreover have "mask_spec (take 8 (drop n b)) key = ?w (take 8 (drop n b))"
        using that less by (intro mask_word_spec [symmetric]) auto
      ultimately show ?thesis by (simp add: go_slice_def add.commute)
    qed
    show ?thesis
      using step [of 0] step [of 8] step [of 16] step [of 24] step [of 32] step [of 40]
        step [of 48] step [of 56] less(1) [of "drop 64 b"] less(2) True
      by (subst mask_loop64.simps) (simp add: go_slice_def)
  qed (use less in \<open>simp add: mask_loop64.simps [of key _ b] mask_loop8_spec\<close>)
qed

lemma maskXOR_spec:
  assumes "length key = 4"
  shows "maskXOR b key = mask_spec b key"
  using mask_loop64_spec [OF assms, of b] assms by (simp add: maskXOR_def Let_def)

lemma mask_spec_involutive [simp]: "mask_spec (mask_spec b key) key = b"
  by (rule nth_equalityI) (simp_all add: xor.assoc)

lemma length_maskXOR [simp]: "length key = 4 \<Longrightarrow> length (maskXOR b key) = length b"
  by (simp add: maskXOR_spec)

lemma maskXOR_involutive [simp]: "length key = 4 \<Longrightarrow> maskXOR (maskXOR b key) key = b"
  by (simp add: maskXOR_spec)

lemma foldl_be: "foldl (\<lambda>a b. a * 256 + uint (b :: octet)) x bs = x * 256 ^ length bs + be_val bs"
proof (induction bs arbitrary: x)
  case (Cons b bs)
  show ?case using Cons [of "x * 256 + uint b"] Cons [of "uint b"]
    by (simp add: be_val_def algebra_simps)
qed (simp add: be_val_def)

lemma be_val_append: "be_val (xs @ ys) = be_val xs * 256 ^ length ys + be_val ys"
  using foldl_be [of "be_val xs" ys] by (simp add: be_val_def)

lemma be_val_single [simp]: "be_val [b] = uint b"
  by (simp add: be_val_def)

lemma be_val_Nil [simp]: "be_val [] = 0"
  by (simp add: be_val_def)

lemma be_val_be_bytes: "be_val (be_bytes k n) = n mod 256 ^ k"
proof (induction k arbitrary: n)
  case (Suc k)
  have "n mod (256 * 256 ^ k) = 256 * (n div 256 mod 256 ^ k) + n mod 256"
    using zmod_zmult2_eq [of "256 ^ k" n 256] by simp
  then show ?case using Suc [of "n div 256"]
    by (simp add: be_val_append uint_word_of_int algebra_simps)
qed simp

lemma be_val_bounds: "0 \<le> be_val bs \<and> be_val bs < 256 ^ length bs"
proof (induction bs rule: rev_induct)
  case (snoc b bs)
  have b: "0 \<le> uint b" "uint b < 256" using uint_bounded [of b] by auto
  have "be_val bs * 256 + uint b < (be_val bs + 1) * 256" using b by simp
  also have "\<dots> \<le> 256 ^ length bs * 256" using snoc by simp
  finally show ?case using snoc b by (simp add: be_val_append)
qed simp

end
