(* ===== verification/WsFrame.thy ===== *)
theory WsFrame
  imports WsMask StreamReader
begin

unbundle bit_operations_syntax

text \<open>
  The state of the websocket connection of \<open>nbhttp/websocket/conn.go\<close> and the parts of its
  reading loop: decoding of one frame (\<open>nextFrame\<close>, \<open>validFrame\<close>), its effect on the message
  being assembled (\<open>dataFrame\<close>), dropping it from the cache (\<open>consume\<close>) and closing. \<open>wsconn\<close> holds the fields of \<open>Conn\<close> these use. What lies outside is the dictionary
  \<open>wenv\<close>: engine settings, the handler that receives the events of the loop (its second result
  says whether the connection has been closed by the time the loop looks again), the
  decompressor, and the write of a close frame on an oversized message.

  Buffers are modelled by their contents. Go's \<open>int\<close> and \<open>int64\<close> arithmetic on lengths wraps
  (\<open>wrap64\<close>), and the slice expression that panics when the frame length overflows is the error
  \<open>WErrPanic\<close>, which is what the \<open>recover\<close> of \<open>Parse\<close> turns it into.
\<close>

datatype ws_err =
    WErrClosed
  | WErrTooLong
  | WErrPanic
  | WErrInvalidConsumed
  | WErrDecompress string
  | WErrConn string
  | ErrReserveBitSet
  | ErrReservedMessageType int
  | ErrControlMessageFragmented int
  | ErrControlMessageTooBig
  | ErrFragmentsShouldNotHaveBinaryOrTextMessage
  | ErrInvalidFragmentMessage
  | ErrMessageTooLarge
  | ErrMessageSendQuqueIsFull

abbreviation (input) FragmentMessage :: int where "FragmentMessage \<equiv> 0"
abbreviation (input) TextMessage :: int where "TextMessage \<equiv> 1"
abbreviation (input) BinaryMessage :: int where "BinaryMessage \<equiv> 2"
abbreviation (input) CloseMessage :: int where "CloseMessage \<equiv> 8"
abbreviation (input) PingMessage :: int where "PingMessage \<equiv> 9"
abbreviation (input) PongMessage :: int where "PongMessage \<equiv> 10"

definition maxControlFramePayloadSize :: int where
  "maxControlFramePayloadSize = 125"

text \<open>What the loop hands to \<open>handleMessage\<close>, \<open>handleDataFrame\<close> and \<open>handleProtocolMessage\<close>.\<close>

datatype ws_event =
    EvMessage int octets
  | EvFrame int bool octets
  | EvProtocol int octets

record 'h wenv =
  WReadLimit :: int
  MessageLengthLimit :: int
  enableCompression :: bool
  hasMessageHandler :: bool
  hasDataFrameHandler :: bool
  Decompress :: "octets \<Rightarrow> ws_err + octets"
  Handle :: "ws_event \<Rightarrow> 'h \<Rightarrow> 'h \<times> bool"
  WriteClose1009 :: "ws_err \<Rightarrow> 'h \<Rightarrow> 'h"

record 'h wsconn =
  w_closed :: bool
  w_compress :: bool
  w_expectingFragments :: bool
  w_msgType :: int
  w_message :: "octets option"
  w_bytesCached :: "octets option"
  w_app :: 'h

record wframe =
  fr_total :: int
  fr_opcode :: int
  fr_body :: octets
  fr_fin :: bool
  fr_res1 :: bool

definition newConn :: "'h \<Rightarrow> 'h wsconn" where
  "newConn h = \<lparr>w_closed = False, w_compress = False, w_expectingFragments = False, w_msgType = 0,
     w_message = None, w_bytesCached = None, w_app = h\<rparr>"

definition isMessageTooLarge :: "'h wenv \<Rightarrow> int \<Rightarrow> bool" where
  "isMessageTooLarge W n \<longleftrightarrow> \<not> MessageLengthLimit W \<le> 0 \<and> n > MessageLengthLimit W"

definition validFrame :: "'h wenv \<Rightarrow> int \<Rightarrow> bool \<Rightarrow> bool \<Rightarrow> bool \<Rightarrow> bool \<Rightarrow> bool \<Rightarrow> ws_err option" where
  "validFrame W opcode fin res1 res2 res3 expecting =
     (if res1 \<and> \<not> enableCompression W then Some ErrReserveBitSet
      else if res2 \<or> res3 then Some ErrReserveBitSet
      else if opcode > BinaryMessage \<and> opcode < CloseMessage then Some (ErrReservedMessageType opcode)
      else if \<not> fin \<and> (opcode \<noteq> FragmentMessage \<and> opcode \<noteq> TextMessage \<and> opcode \<noteq> BinaryMessage)
        then Some (ErrControlMessageFragmented opcode)
      else if expecting \<and> (opcode = TextMessage \<or> opcode = BinaryMessage)
        then Some ErrFragmentsShouldNotHaveBinaryOrTextMessage
      else None)"

text \<open>The \<open>switch payloadLen\<close> of \<open>nextFrame\<close>: body length (-1 when its bytes are not there yet) and
  header length.\<close>

definition frameLengths :: "octets \<Rightarrow> ws_err + int \<times> int" where
  "frameLengths pdata =
     (let l = length pdata; payloadLen = uint (pdata ! 1 AND 0x7F) in
      if payloadLen = 126 then
        (if l \<ge> 4 then Inr (be_val (go_slice pdata 2 4), 4) else Inr (-1, 2))
      else if payloadLen = 127 then
        (if l \<ge> 10 then
           (let bodyLen = wrap64 (be_val (go_slice pdata 2 10)) in
            if bodyLen < 0 then Inl ErrInvalidFragmentMessage else Inr (bodyLen, 10))
         else Inr (-1, 2))
      else Inr (payloadLen, 2))"

text \<open>The last part of \<open>nextFrame\<close>, for a known body length: the frame if all of it is cached.\<close>

definition takeFrame :: "'h wenv \<Rightarrow> octets \<Rightarrow> int \<Rightarrow> int \<Rightarrow> bool \<Rightarrow> ws_err + wframe option" where
  "takeFrame W pdata bodyLen headLen0 expecting =
     (let b0 = pdata ! 0;
          opcode = uint (b0 AND 0xF);
          res1 = (b0 AND 0x40 \<noteq> 0); res2 = (b0 AND 0x20 \<noteq> 0); res3 = (b0 AND 0x10 \<noteq> 0);
          fin = (b0 AND 0x80 \<noteq> 0);
          masked = (pdata ! 1 AND 0x80 \<noteq> 0);
          headLen = (if masked then headLen0 + 4 else headLen0);
          totalLen = wrap64 (headLen + bodyLen)
      in if int (length pdata) \<ge> totalLen then
           (if totalLen < headLen then Inl WErrPanic
            else
              (let raw = go_slice pdata (nat headLen) (nat totalLen);
                   body = (if masked then maskXOR raw (go_slice pdata (nat headLen - 4) (nat headLen))
                           else raw)
               in case validFrame W opcode fin res1 res2 res3 expecting of
                    Some e \<Rightarrow> Inl e
                  | None \<Rightarrow> Inr (Some \<lparr>fr_total = totalLen, fr_opcode = opcode, fr_body = body,
                                     fr_fin = fin, fr_res1 = res1\<rparr>)))
         else Inr None)"

text \<open>\<open>nextFrame\<close>: an error, or a complete frame, or none because more bytes are needed.\<close>

definition nextFrame :: "'h wenv \<Rightarrow> octets \<Rightarrow> nat \<Rightarrow> bool \<Rightarrow> ws_err + wframe option" where
  "nextFrame W pdata ml expecting =
     (if length pdata < 2 then Inr None
      else case frameLengths pdata of
        Inl e \<Rightarrow> Inl e
      | Inr (bodyLen, headLen) \<Rightarrow>
          (let opcode = uint (pdata ! 0 AND 0xF) in
           if isMessageTooLarge W (wrap64 (int ml + bodyLen)) then Inl ErrMessageTooLarge
           else if bodyLen > maxControlFramePayloadSize \<and>
               (opcode = PingMessage \<or> opcode = PongMessage \<or> opcode = CloseMessage)
             then Inl ErrControlMessageTooBig
           else if bodyLen \<ge> 0 then takeFrame W pdata bodyLen headLen expecting
           else Inr None))"

text \<open>The \<open>switch opcode\<close> of the loop: the new state and the events, before the frame's bytes are
  dropped from the cache.\<close>

definition dataFrame :: "'h wenv \<Rightarrow> wframe \<Rightarrow> 'h wsconn \<Rightarrow> 'h wsconn \<times> (ws_err + ws_event list)" where
  "dataFrame W f c =
     (let c1 = (if w_msgType c = 0
                then c\<lparr>w_msgType := fr_opcode f, w_compress := fr_res1 f\<rparr> else c);
          msgType = w_msgType c1; body = fr_body f;
          frames = (if body \<noteq> [] \<and> hasDataFrameHandler W then [EvFrame msgType (fr_fin f) body] else [])
      in if \<not> hasMessageHandler W then (c1, Inr frames)
         else
           (let c2 = (if body \<noteq> [] then
                        c1\<lparr>w_message := Some (case w_message c1 of None \<Rightarrow> body | Some m \<Rightarrow> m @ body)\<rparr>
                      else c1)
            in if fr_fin f then
                 (let message = w_message c2; c3 = c2\<lparr>w_message := None\<rparr>;
                      reset = (\<lambda>c. c\<lparr>w_msgType := 0, w_compress := False, w_expectingFragments := False\<rparr>)
                  in if w_compress c3 then
                       (case message of
                          None \<Rightarrow> (c3, Inl WErrPanic)
                        | Some m \<Rightarrow>
                            (case Decompress W m of
                               Inl e \<Rightarrow> (c3, Inl e)
                             | Inr m' \<Rightarrow> (reset c3, Inr (EvMessage msgType m' # frames))))
                     else (reset c3, Inr ((case message of None \<Rightarrow> [] | Some m \<Rightarrow> [EvMessage msgType m]) @ frames)))
               else (c2\<lparr>w_expectingFragments := True\<rparr>, Inr frames)))"

definition oneFrame :: "'h wenv \<Rightarrow> wframe \<Rightarrow> 'h wsconn \<Rightarrow> 'h wsconn \<times> (ws_err + ws_event list)" where
  "oneFrame W f c =
     (if fr_opcode f \<in> {FragmentMessage, TextMessage, BinaryMessage} then dataFrame W f c
      else if fr_opcode f \<in> {PingMessage, PongMessage, CloseMessage}
        then (c, Inr [EvProtocol (fr_opcode f) (fr_body f)])
      else (c, Inl ErrInvalidFragmentMessage))"

definition cachedBytes :: "'h wsconn \<Rightarrow> octets" where
  "cachedBytes c = (case w_bytesCached c of None \<Rightarrow> [] | Some b \<Rightarrow> b)"

text \<open>Dropping the frame from the cache; the check on the consumed size is the code's.\<close>

definition consume :: "int \<Rightarrow> 'h wsconn \<Rightarrow> ws_err + 'h wsconn" where
  "consume sz c =
     (let cached = cachedBytes c; l = int (length cached) in
      if sz \<le> 0 \<or> sz > l then Inl WErrInvalidConsumed
      else if l = sz then Inr (c\<lparr>w_bytesCached := None\<rparr>)
      else Inr (c\<lparr>w_bytesCached := Some (drop (nat sz) cached)\<rparr>))"

fun handle_events :: "'h wenv \<Rightarrow> ws_event list \<Rightarrow> 'h \<Rightarrow> 'h \<times> bool" where
  "handle_events W [] h = (h, False)"
| "handle_events W (e # es) h =
     (let (h1, closed1) = Handle W e h; (h2, closed2) = handle_events W es h1 in (h2, closed1 \<or> closed2))"

text \<open>The fields \<open>CloseAndClean\<close> changes; the application state is closed by the caller's callback.\<close>

definition closeConn :: "'h wsconn \<Rightarrow> 'h wsconn" where
  "closeConn c = (if w_closed c then c
     else c\<lparr>w_closed := True, w_bytesCached := None, w_message := None\<rparr>)"

lemma dataFrame_cached: "w_bytesCached (fst (dataFrame W f c)) = w_bytesCached c"
  by (simp add: dataFrame_def Let_def split: option.split sum.split)

lemma dataFrame_closed: "w_closed (fst (dataFrame W f c)) = w_closed c"
  by (simp add: dataFrame_def Let_def split: option.split sum.split)

lemma oneFrame_cached: "oneFrame W f c = (c1, r) \<Longrightarrow> w_bytesCached c1 = w_bytesCached c"
  using dataFrame_cached [of W f c] by (auto simp: oneFrame_def split: if_splits)

lemma oneFrame_closed: "oneFrame W f c = (c1, r) \<Longrightarrow> w_closed c1 = w_closed c"
  using dataFrame_closed [of W f c] by (auto simp: oneFrame_def split: if_splits)

lemma consume_less: "consume n c = Inr c2 \<Longrightarrow> length (cachedBytes c2) < length (cachedBytes c) \<and> w_closed c2 = w_closed c"
  by (auto simp: consume_def cachedBytes_def Let_def split: if_splits)

lemma cachedBytes_cong: "w_bytesCached c = w_bytesCached d \<Longrightarrow> cachedBytes c = cachedBytes d"
  by (simp add: cachedBytes_def)

lemma cachedBytes_app [simp]: "cachedBytes (w_app_update g c) = cachedBytes c"
  by (simp add: cachedBytes_def)

lemma cachedBytes_closeConn: "\<not> w_closed c \<Longrightarrow> cachedBytes (closeConn c) = []"
  by (simp add: cachedBytes_def closeConn_def)

lemma w_closed_closeConn [simp]: "w_closed (closeConn c)"
  by (simp add: closeConn_def)

lemma frame_progress:
  "oneFrame W f c = (c1, r) \<Longrightarrow> consume n c1 = Inr c2 \<Longrightarrow>
   length (cachedBytes c2) < length (cachedBytes c) \<and> w_closed c2 = w_closed c"
  using consume_less [of n c1 c2] cachedBytes_cong [OF oneFrame_cached] oneFrame_closed by fastforce

end
