(* ===== verification/WsConn.thy ===== *)
theory WsConn
  imports WsFrame
begin

text \<open>
  The reading loop of a websocket connection, the method \<open>Parse\<close> of \<open>nbhttp/websocket/conn.go\<close>.
\<close>

text \<open>The error exit of the loop.\<close>

definition failRead :: "'h wenv \<Rightarrow> ws_err \<Rightarrow> 'h wsconn \<Rightarrow> 'h wsconn \<times> ws_err option" where
  "failRead W e c =
     (if e = ErrMessageTooLarge \<or> e = ErrControlMessageTooBig
      then (c\<lparr>w_app := WriteClose1009 W e (w_app c)\<rparr>, Some e)
      else if e = WErrPanic \<or> e = WErrInvalidConsumed then (c\<lparr>w_bytesCached := None\<rparr>, Some e)
      else (c, Some e))"

function readLoop :: "'h wenv \<Rightarrow> 'h wsconn \<Rightarrow> 'h wsconn \<times> ws_err option" where
  "readLoop W c =
     (if w_closed c then (c, None)
      else case nextFrame W (cachedBytes c) (case w_message c of None \<Rightarrow> 0 | Some m \<Rightarrow> length m)
                  (w_expectingFragments c) of
        Inl e \<Rightarrow> failRead W e c
      | Inr None \<Rightarrow> (c, None)
      | Inr (Some f) \<Rightarrow>
          (case oneFrame W f c of
             (c1, Inl e) \<Rightarrow> failRead W e c1
           | (c1, Inr evs) \<Rightarrow>
               (case consume (fr_total f) c1 of
                  Inl e \<Rightarrow> failRead W e c1
                | Inr c2 \<Rightarrow>
                    (let (h, closed) = handle_events W evs (w_app c2); c3 = c2\<lparr>w_app := h\<rparr> in
                     readLoop W (if closed then closeConn c3 else c3)))))"
  by pat_completeness auto
termination
proof (relation "measure (\<lambda>(W, c). length (cachedBytes c) + (if w_closed c then 0 else 1))")
qed (auto simp: cachedBytes_closeConn dest!: frame_progress [OF sym])


definition wsParse :: "'h wenv \<Rightarrow> octets \<Rightarrow> 'h wsconn \<Rightarrow> 'h wsconn \<times> ws_err option" where
  "wsParse W data c =
     (if data = [] then (c, None)
      else if w_closed c then (c, Some WErrClosed)
      else if WReadLimit W > 0 \<and> w_bytesCached c \<noteq> None \<and>
          int (length (cachedBytes c) + length data) > WReadLimit W
        then (c, Some WErrTooLong)
      else readLoop W (c\<lparr>w_bytesCached := Some (cachedBytes c @ data)\<rparr>))"

end
