(* ===== verification/WsStream.thy ===== *)
theory WsStream
  imports WsConn
begin

unbundle bit_operations_syntax

text \<open>
  The websocket reader as a stream reader: a frame decision taken on a prefix of the cached bytes
  is not changed by more bytes, each iteration of the loop consumes a frame, the message being
  assembled stays within \<open>MessageLengthLimit\<close>, and so the laws of \<open>stream_reader\<close> hold. The bound
  \<open>2 ^ 62\<close> on the bytes in memory is what keeps Go's 64-bit lengths from wrapping.
\<close>

definition msgLen :: "'h wsconn \<Rightarrow> nat" where
  "msgLen c = (case w_message c of None \<Rightarrow> 0 | Some m \<Rightarrow> length m)"

definition wready :: "'h wenv \<Rightarrow> 'h wsconn \<Rightarrow> nat \<Rightarrow> bool" where
  "wready W c n \<longleftrightarrow> (WReadLimit W \<le> 0 \<or> int (length (cachedBytes c) + n) \<le> WReadLimit W) \<and>
     (MessageLengthLimit W \<le> 0 \<or> int (msgLen c) \<le> MessageLengthLimit W) \<and>
     int (length (cachedBytes c) + msgLen c + n) < 2 ^ 62"

definition addBytes :: "octets \<Rightarrow> 'h wsconn \<Rightarrow> 'h wsconn" where
  "addBytes b c = c\<lparr>w_bytesCached := Some (cachedBytes c @ b)\<rparr>"

definition wforget :: "'h wsconn \<times> ws_err option \<Rightarrow> 'h wsconn \<times> ws_err option" where
  "wforget r = (case r of (c, e) \<Rightarrow>
     if w_closed c then (c, None) else if e = None then r else (c\<lparr>w_bytesCached := None\<rparr>, e))"

definition nextConn :: "'h wenv \<Rightarrow> ws_event list \<Rightarrow> 'h wsconn \<Rightarrow> 'h wsconn" where
  "nextConn W evs c2 = (case handle_events W evs (w_app c2) of (h, closed) \<Rightarrow>
     if closed then closeConn (c2\<lparr>w_app := h\<rparr>) else c2\<lparr>w_app := h\<rparr>)"

definition wsize :: "'h wsconn \<Rightarrow> nat" where
  "wsize c = length (cachedBytes c) + msgLen c"

declare readLoop.simps [simp del]

lemma frameLengths_append:
  assumes "frameLengths pdata = Inr (bodyLen, headLen)" "0 \<le> bodyLen" "2 \<le> length pdata"
  shows "frameLengths (pdata @ b) = Inr (bodyLen, headLen)"
  using assms by (auto simp: frameLengths_def nth_append Let_def split: if_splits)

lemma frameLengths_append_err:
  assumes "frameLengths pdata = Inl e" "2 \<le> length pdata"
  shows "frameLengths (pdata @ b) = Inl e"
  using assms by (auto simp: frameLengths_def nth_append Let_def split: if_splits)

lemma frameLengths_head:
  assumes "frameLengths pdata = Inr (bodyLen, headLen)" "2 \<le> length pdata"
  shows "2 \<le> headLen \<and> headLen \<le> 10 \<and> headLen \<le> int (length pdata) \<and> -1 \<le> bodyLen \<and> bodyLen < 2 ^ 63"
proof -
  have "be_val (go_slice pdata 2 4) < 256 ^ 2 \<and> 0 \<le> be_val (go_slice pdata 2 4)" if "4 \<le> length pdata"
    using be_val_bounds [of "go_slice pdata 2 4"] that by simp
  moreover have "-1 \<le> uint (pdata ! 1 AND 127)" "uint (pdata ! 1 AND 127) < 2 ^ 8"
    using uint_bounded [of "pdata ! 1 AND 127"] order_trans [of "-1" 0 "uint (pdata ! 1 AND 127)"] by auto
  moreover have "wrap64 (be_val (go_slice pdata 2 10)) < 2 ^ 63" by (rule wrap64_bounds)
  ultimately show ?thesis using assms by (auto simp: frameLengths_def Let_def split: if_splits)
qed

lemma nextFrame_short: "length pdata < 2 \<Longrightarrow> nextFrame W pdata ml ex = Inr None"
  by (simp add: nextFrame_def)

lemma takeFrame_append:
  assumes "takeFrame W pdata bodyLen headLen ex \<noteq> Inr None" "0 \<le> headLen" "2 \<le> length pdata"
  shows "takeFrame W (pdata @ b) bodyLen headLen ex = takeFrame W pdata bodyLen headLen ex"
proof -
  have b0: "(pdata @ b) ! 0 = pdata ! 0" "(pdata @ b) ! 1 = pdata ! 1" using assms by (auto simp: nth_append)
  have g: "go_slice (pdata @ b) s (nat h) = go_slice pdata s (nat h)"
    if "\<not> wrap64 (h + bodyLen) < h" "wrap64 (h + bodyLen) \<le> int (length pdata)" for h s
    using that by (intro go_slice_append_left) linarith
  show ?thesis
    using assms unfolding takeFrame_def b0 by (auto simp: Let_def g split: if_splits option.splits)
qed

text \<open>A decision taken on a prefix of the cached bytes is not changed by more bytes.\<close>

lemma nextFrame_append:
  assumes "nextFrame W pdata ml ex = r" "r \<noteq> Inr None" "MessageLengthLimit W \<le> 0 \<or> int ml \<le> MessageLengthLimit W"
     "int ml < 2 ^ 62"
  shows "nextFrame W (pdata @ b) ml ex = r"
proof -
  have l: "2 \<le> length pdata" using assms(1,2) nextFrame_short [of pdata W ml ex] by (cases "length pdata < 2") auto
  have b0: "(pdata @ b) ! 0 = pdata ! 0" "(pdata @ b) ! 1 = pdata ! 1" using l by (auto simp: nth_append)
  show ?thesis
  proof (cases "frameLengths pdata")
    case (Inl e)
    then show ?thesis using assms l frameLengths_append_err [OF Inl l, of b] by (simp add: nextFrame_def Let_def)
  next
    case (Inr bh)
    obtain bodyLen headLen where bh: "bh = (bodyLen, headLen)" by fastforce
    note hd = frameLengths_head [OF Inr [unfolded bh] l]
    show ?thesis
    proof (cases "0 \<le> bodyLen")
      case True
      note fl = frameLengths_append [OF Inr [unfolded bh] True l, of b]
      show ?thesis using assms(1,2) Inr bh fl l b0 True hd takeFrame_append [of W pdata bodyLen headLen ex b]
        by (auto simp: nextFrame_def Let_def split: if_splits)
    next
      case False
      then have "bodyLen = -1" using hd by simp
      moreover have "wrap64 (int ml - 1) = int ml - 1" using assms(4) by (intro wrap64_id) auto
      ultimately have "nextFrame W pdata ml ex = Inr None"
        using l assms(3) Inr bh by (auto simp: nextFrame_def Let_def isMessageTooLarge_def maxControlFramePayloadSize_def)
      with assms show ?thesis by simp
    qed
  qed
qed

lemma takeFrame_SomeD:
  assumes "takeFrame W pdata bodyLen headLen0 ex = Inr (Some f)" "2 \<le> headLen0" "headLen0 \<le> 10" "0 \<le> bodyLen" "bodyLen < 2 ^ 63"
    "int (length pdata) < 2 ^ 62"
  shows "2 \<le> fr_total f \<and> fr_total f \<le> int (length pdata) \<and> int (length (fr_body f)) = bodyLen \<and> bodyLen + 2 \<le> fr_total f"
proof -
  define h where "h = (if pdata ! 1 AND 0x80 \<noteq> 0 then headLen0 + 4 else headLen0)"
  define t where "t = wrap64 (h + bodyLen)"
  have h: "2 \<le> h" "h \<le> 14" using assms by (auto simp: h_def)
  let ?m = "pdata ! 1 AND 0x80 \<noteq> 0"
  let ?raw = "go_slice pdata (nat h) (nat t)" let ?key = "go_slice pdata (nat h - 4) (nat h)"
  have t: "t \<le> int (length pdata)" "h \<le> t" "fr_total f = t" "fr_body f = (if ?m then maskXOR ?raw ?key else ?raw)"
    using assms(1) unfolding takeFrame_def Let_def h_def [symmetric] t_def [symmetric]
    by (auto split: if_splits option.splits)
  have "?m \<Longrightarrow> length ?key = 4" using t h assms(2) by (auto simp: h_def min_def nat_le_iff)
  then have lb: "length (fr_body f) = length ?raw" using t(4) length_maskXOR [of ?key ?raw] by (simp del: length_go_slice)
  have "t = h + bodyLen"
  proof (cases "h + bodyLen < 2 ^ 63")
    case True
    then show ?thesis using h assms unfolding t_def by (intro wrap64_id) auto
  next
    case False
    then have "t = h + bodyLen - 2 ^ 64" using h assms(4,5) unfolding t_def by (intro wrap64_high) auto
    then show ?thesis using t h assms by simp
  qed
  moreover from this have "int (length (fr_body f)) = bodyLen"
    using t(1) h lb assms(4) by (simp add: nat_add_distrib)
  ultimately show ?thesis using t(1,2,3) h assms(4) by auto
qed

lemma nextFrame_SomeD:
  assumes "nextFrame W pdata ml ex = Inr (Some f)" "int (length pdata + ml) < 2 ^ 62"
  shows "0 < fr_total f \<and> fr_total f \<le> int (length pdata) \<and> int (length (fr_body f)) + 2 \<le> fr_total f \<and>
    (MessageLengthLimit W \<le> 0 \<or> int (ml + length (fr_body f)) \<le> MessageLengthLimit W)"
proof -
  have l: "2 \<le> length pdata" using assms(1) nextFrame_short [of pdata W ml ex] by (cases "length pdata < 2") auto
  then obtain bodyLen headLen where fl: "frameLengths pdata = Inr (bodyLen, headLen)" and b: "0 \<le> bodyLen"
     and tf: "takeFrame W pdata bodyLen headLen ex = Inr (Some f)" and big: "\<not> isMessageTooLarge W (wrap64 (int ml + bodyLen))"
    using assms(1) by (auto simp: nextFrame_def Let_def split: sum.splits if_splits)
  note hd = frameLengths_head [OF fl l]
  have td: "2 \<le> fr_total f" "fr_total f \<le> int (length pdata)" "int (length (fr_body f)) = bodyLen" "bodyLen + 2 \<le> fr_total f"
    using takeFrame_SomeD [OF tf] hd b assms(2) by auto
  then have "wrap64 (int ml + bodyLen) = int ml + bodyLen" using assms(2) b by (intro wrap64_id) auto
  then show ?thesis using td big by (auto simp: isMessageTooLarge_def)
qed

lemma dataFrame_msgLen: "dataFrame W f c = (c1, Inr evs) \<Longrightarrow> msgLen c1 = 0 \<or> msgLen c1 = msgLen c + length (fr_body f) \<or> msgLen c1 = msgLen c"
  by (auto simp: dataFrame_def Let_def msgLen_def split: if_splits option.splits sum.splits)

lemma oneFrame_msgLen: "oneFrame W f c = (c1, Inr evs) \<Longrightarrow> msgLen c1 \<le> msgLen c + length (fr_body f)"
  by (auto simp: oneFrame_def split: if_splits dest: dataFrame_msgLen)

lemma consume_Inr:
  "0 < n \<Longrightarrow> n \<le> int (length (cachedBytes c)) \<Longrightarrow>
   consume n c = Inr (c\<lparr>w_bytesCached := (if int (length (cachedBytes c)) = n then None else Some (drop (nat n) (cachedBytes c)))\<rparr>)"
  by (auto simp: consume_def Let_def)

lemma cachedBytes_consumed: "consume n c = Inr c2 \<Longrightarrow> cachedBytes c2 = drop (nat n) (cachedBytes c) \<and> msgLen c2 = msgLen c"
  by (auto simp: consume_def Let_def cachedBytes_def msgLen_def split: if_splits)

lemma cachedBytes_addBytes [simp]: "cachedBytes (addBytes b c) = cachedBytes c @ b"
  by (simp add: addBytes_def cachedBytes_def)

lemma addBytes_addBytes [simp]: "addBytes b (addBytes a c) = addBytes (a @ b) c"
  by (simp add: addBytes_def cachedBytes_def)

lemma addBytes_fields [simp]:
  "w_closed (addBytes b c) = w_closed c" "w_compress (addBytes b c) = w_compress c"
  "w_expectingFragments (addBytes b c) = w_expectingFragments c" "w_msgType (addBytes b c) = w_msgType c"
  "w_message (addBytes b c) = w_message c" "w_app (addBytes b c) = w_app c" "msgLen (addBytes b c) = msgLen c"
  by (simp_all add: addBytes_def msgLen_def)

lemma dataFrame_cached_update:
  "dataFrame W f (c\<lparr>w_bytesCached := x\<rparr>) = map_prod (\<lambda>c. c\<lparr>w_bytesCached := x\<rparr>) id (dataFrame W f c)"
  by (simp add: dataFrame_def Let_def split: option.split sum.split)

lemma oneFrame_addBytes:
  "oneFrame W f (addBytes b c) = map_prod (addBytes b) id (oneFrame W f c)"
proof -
  have "dataFrame W f (addBytes b c) = map_prod (addBytes b) id (dataFrame W f c)"
    using dataFrame_cached [of W f c] dataFrame_cached_update [of W f "Some (cachedBytes c @ b)" c]
    by (auto simp: addBytes_def cachedBytes_def map_prod_def split: prod.splits)
  then show ?thesis by (simp add: oneFrame_def)
qed

lemma consume_addBytes:
  assumes "0 < n" "n \<le> int (length (cachedBytes c))" "b \<noteq> []" "consume n c = Inr c2"
  shows "consume n (addBytes b c) = Inr (addBytes b c2)"
  using assms by (auto simp: consume_Inr addBytes_def cachedBytes_def drop_append_le)

lemma readLoop_closed: "w_closed c \<Longrightarrow> readLoop W c = (c, None)"
  by (simp add: readLoop.simps)

text \<open>One iteration on an open connection, as a case distinction.\<close>

lemma readLoop_unfold:
  "\<not> w_closed c \<Longrightarrow> readLoop W c =
     (case nextFrame W (cachedBytes c) (msgLen c) (w_expectingFragments c) of
        Inl e \<Rightarrow> failRead W e c
      | Inr None \<Rightarrow> (c, None)
      | Inr (Some f) \<Rightarrow>
          (case oneFrame W f c of
             (c1, Inl e) \<Rightarrow> failRead W e c1
           | (c1, Inr evs) \<Rightarrow>
               (case consume (fr_total f) c1 of
                  Inl e \<Rightarrow> failRead W e c1
                | Inr c2 \<Rightarrow>
                    (let (h, closed) = handle_events W evs (w_app c2); c3 = c2\<lparr>w_app := h\<rparr> in
                     readLoop W (if closed then closeConn c3 else c3)))))"
  by (subst readLoop.simps) (simp add: msgLen_def)

lemma wforget_failRead [simp]: "\<not> w_closed c \<Longrightarrow> wforget (failRead W e (addBytes b c)) = wforget (failRead W e c)"
  by (simp add: failRead_def wforget_def addBytes_def)

lemma wforget_failRead_closed: "\<not> w_closed c \<Longrightarrow> snd (failRead W e c) = Some e \<and> \<not> w_closed (fst (failRead W e c))"
  by (simp add: failRead_def)

lemma nextConn_open: "\<not> w_closed (nextConn W evs c) \<Longrightarrow>
   cachedBytes (nextConn W evs c) = cachedBytes c \<and> msgLen (nextConn W evs c) = msgLen c"
  by (auto simp: nextConn_def msgLen_def split: prod.splits if_splits)

lemma nextConn_addBytes:
  "\<not> w_closed c \<Longrightarrow> nextConn W evs (addBytes b c) =
     (if w_closed (nextConn W evs c) then nextConn W evs c else addBytes b (nextConn W evs c))"
  by (auto simp: nextConn_def addBytes_def closeConn_def cachedBytes_def split: prod.splits)

lemma closed_nextConn_le:
  "length (cachedBytes (nextConn W evs c)) \<le> length (cachedBytes c) \<and> msgLen (nextConn W evs c) \<le> msgLen c"
  by (auto simp: nextConn_def closeConn_def cachedBytes_def msgLen_def split: prod.splits)

text \<open>The step of the loop on a complete frame.\<close>

lemma readLoop_frame:
  assumes c: "\<not> w_closed c" and nf: "nextFrame W (cachedBytes c) (msgLen c) (w_expectingFragments c) = Inr (Some f)"
    and len: "int (length (cachedBytes c) + msgLen c) < 2 ^ 62" and of: "oneFrame W f c = (c1, Inr evs)"
  obtains c2 where "consume (fr_total f) c1 = Inr c2" "readLoop W c = readLoop W (nextConn W evs c2)" "\<not> w_closed c2"
    "length (cachedBytes c2) + msgLen c2 + 2 \<le> length (cachedBytes c) + msgLen c"
    "MessageLengthLimit W \<le> 0 \<or> int (msgLen c) \<le> MessageLengthLimit W \<Longrightarrow> MessageLengthLimit W \<le> 0 \<or> int (msgLen c2) \<le> MessageLengthLimit W"
proof -
  note nd = nextFrame_SomeD [OF nf len]
  have cc: "cachedBytes c1 = cachedBytes c" using oneFrame_cached [OF of] by (rule cachedBytes_cong)
  obtain c2 where c2: "consume (fr_total f) c1 = Inr c2" using nd cc by (simp add: consume_Inr)
  have m: "msgLen c2 \<le> msgLen c + length (fr_body f)" and d: "cachedBytes c2 = drop (nat (fr_total f)) (cachedBytes c)"
    using cachedBytes_consumed [OF c2] oneFrame_msgLen [OF of] cc by auto
  show ?thesis
  proof (rule that [OF c2])
    show "readLoop W c = readLoop W (nextConn W evs c2)"
      using readLoop_unfold [OF c, of W] nf of c2 by (simp add: nextConn_def Let_def split: prod.splits)
    show "\<not> w_closed c2" using c consume_less [OF c2] oneFrame_closed [OF of] by simp
    show "length (cachedBytes c2) + msgLen c2 + 2 \<le> length (cachedBytes c) + msgLen c"
      using m d nd by simp linarith
    show "MessageLengthLimit W \<le> 0 \<or> int (msgLen c2) \<le> MessageLengthLimit W" using m nd by auto
  qed
qed

lemma readLoop_cases:
  assumes c: "\<not> w_closed c" and len: "int (length (cachedBytes c) + msgLen c) < 2 ^ 62"
  obtains (err) e where "nextFrame W (cachedBytes c) (msgLen c) (w_expectingFragments c) = Inl e"
      "readLoop W c = failRead W e c"
    | (more) "nextFrame W (cachedBytes c) (msgLen c) (w_expectingFragments c) = Inr None" "readLoop W c = (c, None)"
    | (bad) f c1 e where "nextFrame W (cachedBytes c) (msgLen c) (w_expectingFragments c) = Inr (Some f)"
      "oneFrame W f c = (c1, Inl e)" "readLoop W c = failRead W e c1" "\<not> w_closed c1"
    | (frame) f c1 c2 evs where "nextFrame W (cachedBytes c) (msgLen c) (w_expectingFragments c) = Inr (Some f)"
      "oneFrame W f c = (c1, Inr evs)" "consume (fr_total f) c1 = Inr c2" "readLoop W c = readLoop W (nextConn W evs c2)"
      "\<not> w_closed c2" "length (cachedBytes c2) + msgLen c2 + 2 \<le> length (cachedBytes c) + msgLen c"
      "MessageLengthLimit W \<le> 0 \<or> int (msgLen c) \<le> MessageLengthLimit W \<Longrightarrow> MessageLengthLimit W \<le> 0 \<or> int (msgLen c2) \<le> MessageLengthLimit W"
proof (cases "nextFrame W (cachedBytes c) (msgLen c) (w_expectingFragments c)")
  case (Inl e)
  with err readLoop_unfold [OF c, of W] show ?thesis by simp
next
  case (Inr fo)
  show ?thesis
  proof (cases fo)
    case None
    with Inr more readLoop_unfold [OF c, of W] show ?thesis by simp
  next
    case (Some f)
    obtain c1 r where of: "oneFrame W f c = (c1, r)" by fastforce
    show ?thesis
    proof (cases r)
      case (Inl e)
      then show ?thesis using bad [of f c1 e] Inr Some of c oneFrame_closed [OF of] readLoop_unfold [OF c, of W] by simp
    next
      case (Inr evs)
      then have of': "oneFrame W f c = (c1, Inr evs)" using of by simp
      have nf: "nextFrame W (cachedBytes c) (msgLen c) (w_expectingFragments c) = Inr (Some f)"
        using \<open>nextFrame _ _ _ _ = Inr fo\<close> Some by simp
      show ?thesis by (rule readLoop_frame [OF c nf len of']) (rule frame [OF nf of'])
    qed
  qed
qed

lemma wsize_nextConn: "wsize (nextConn W evs c) \<le> wsize c"
  using closed_nextConn_le [of W evs c] by (simp add: wsize_def)

text \<open>The loop keeps what the next call needs.\<close>

lemma readLoop_ready:
  assumes "\<not> w_closed c" "int (wsize c) < 2 ^ 62" "readLoop W c = (c', None)"
    "MessageLengthLimit W \<le> 0 \<or> int (msgLen c) \<le> MessageLengthLimit W"
  shows "wsize c' \<le> wsize c \<and> length (cachedBytes c') \<le> length (cachedBytes c) \<and>
     (MessageLengthLimit W \<le> 0 \<or> int (msgLen c') \<le> MessageLengthLimit W)"
  using assms
proof (induction "wsize c" arbitrary: c rule: less_induct)
  case less
  have "int (length (cachedBytes c) + msgLen c) < 2 ^ 62" using less.prems by (simp add: wsize_def)
  with less.prems(1) show ?case
  proof (cases rule: readLoop_cases [where W = W])
    case (frame f c1 c2 evs)
    let ?n = "nextConn W evs c2"
    have sz: "wsize ?n < wsize c" using wsize_nextConn [of W evs c2] frame(6) by (simp add: wsize_def)
    have le: "length (cachedBytes ?n) \<le> length (cachedBytes c)"
      using closed_nextConn_le [of W evs c2] frame_progress [OF frame(2,3)] by linarith
    have lim: "MessageLengthLimit W \<le> 0 \<or> int (msgLen ?n) \<le> MessageLengthLimit W"
      using frame(7) less.prems(4) closed_nextConn_le [of W evs c2] by auto
    show ?thesis
    proof (cases "w_closed ?n")
      case True
      then have "c' = ?n" using less.prems(3) frame(4) readLoop_closed [OF True, of W] by simp
      then show ?thesis using sz le lim by simp
    next
      case False
      then show ?thesis using less.hyps [OF sz False] sz le lim less.prems frame(4) by simp
    qed
  qed (use less.prems in \<open>auto simp: failRead_def split: if_splits\<close>)
qed

lemma readLoop_append:
  assumes "\<not> w_closed c" "int (wsize c) < 2 ^ 62" "b \<noteq> []"
    "MessageLengthLimit W \<le> 0 \<or> int (msgLen c) \<le> MessageLengthLimit W"
  shows "wforget (readLoop W (addBytes b c)) =
     wforget (case readLoop W c of (c', None) \<Rightarrow> if w_closed c' then (c', None) else readLoop W (addBytes b c') | r \<Rightarrow> r)"
  using assms
proof (induction "wsize c" arbitrary: c rule: less_induct)
  case less
  let ?a = "addBytes b c"
  have a: "\<not> w_closed ?a" using less.prems by simp
  have len: "int (length (cachedBytes c) + msgLen c) < 2 ^ 62" using less.prems by (simp add: wsize_def)
  have ml: "int (msgLen c) < 2 ^ 62" using len by simp
  note un = readLoop_unfold [OF a, of W]
  have nf: "nextFrame W (cachedBytes ?a) (msgLen ?a) (w_expectingFragments ?a) = r"
    if "nextFrame W (cachedBytes c) (msgLen c) (w_expectingFragments c) = r" "r \<noteq> Inr None" for r
    using nextFrame_append [OF that less.prems(4) ml] by simp
  from less.prems(1) len show ?case
  proof (cases rule: readLoop_cases [where W = W])
    case (err e)
    then show ?thesis using un nf less.prems(1) wforget_failRead_closed [of c W e]
      by (cases "failRead W e c") auto
  next
    case (bad f c1 e)
    have "readLoop W ?a = failRead W e (addBytes b c1)" using un nf [OF bad(1)] bad(2) by (simp add: oneFrame_addBytes)
    then show ?thesis using bad wforget_failRead_closed [of c1 W e] by (cases "failRead W e c1") auto
  next
    case (frame f c1 c2 evs)
    let ?n = "nextConn W evs c2"
    note nd = nextFrame_SomeD [OF frame(1) len]
    have cc: "cachedBytes c1 = cachedBytes c" using oneFrame_cached [OF frame(2)] by (rule cachedBytes_cong)
    have "consume (fr_total f) (addBytes b c1) = Inr (addBytes b c2)"
      using nd cc less.prems(3) frame(3) by (intro consume_addBytes) auto
    then have rl: "readLoop W ?a = readLoop W (nextConn W evs (addBytes b c2))"
      using un nf [OF frame(1)] frame(2) by (simp add: oneFrame_addBytes nextConn_def Let_def split: prod.splits)
    show ?thesis
    proof (cases "w_closed ?n")
      case True
      then show ?thesis using rl frame(4,5) by (simp add: nextConn_addBytes readLoop_closed)
    next
      case False
      have sz: "wsize ?n < wsize c" using wsize_nextConn [of W evs c2] frame(6) by (simp add: wsize_def)
      have "MessageLengthLimit W \<le> 0 \<or> int (msgLen ?n) \<le> MessageLengthLimit W"
        using frame(7) less.prems(4) closed_nextConn_le [of W evs c2] by auto
      then have "wforget (readLoop W (addBytes b ?n)) =
         wforget (case readLoop W ?n of (c', None) \<Rightarrow> if w_closed c' then (c', None) else readLoop W (addBytes b c') | r \<Rightarrow> r)"
        using less.hyps [OF sz False] less.prems(2,3) sz by simp
      then show ?thesis using rl frame(4,5) False by (simp add: nextConn_addBytes)
    qed
  qed (use less.prems in auto)
qed

lemma wsParse_open:
  assumes "d \<noteq> []" "\<not> w_closed c" "wready W c (length d)"
  shows "wsParse W d c = readLoop W (addBytes d c)"
  using assms by (auto simp: wsParse_def wready_def addBytes_def)

lemma wready_addBytes: "wready W c (length d + n) \<Longrightarrow> wready W (addBytes d c) n \<and> int (wsize (addBytes d c)) < 2 ^ 62"
  by (auto simp: wready_def wsize_def)

lemma wready_mono: "wready W c (n + m) \<Longrightarrow> wready W c n"
  by (auto simp: wready_def)

lemma wsParse_ready:
  assumes "wready W c (length d + n)" "wsParse W d c = (c', None)"
  shows "wready W c' n"
proof (cases "d = []")
  case True
  then show ?thesis using assms by (simp add: wsParse_def)
next
  case False
  have c: "\<not> w_closed c" using assms(2) False by (auto simp: wsParse_def)
  note rd = wready_addBytes [OF assms(1)]
  have "readLoop W (addBytes d c) = (c', None)"
    using wsParse_open [OF False c wready_mono [OF assms(1)]] assms(2) by simp
  from readLoop_ready [OF _ _ this] rd c show ?thesis by (auto simp: wready_def wsize_def)
qed

lemma wsParse_append:
  assumes rd: "wready W c (length a + length b)" and ne: "a \<noteq> []" "b \<noteq> []" "\<not> w_closed c"
  shows "wforget (wsParse W (a @ b) c) =
    wforget (case wsParse W a c of (c', None) \<Rightarrow> wsParse W b c' | r \<Rightarrow> r)"
proof -
  have A: "wsParse W a c = readLoop W (addBytes a c)" using wsParse_open ne wready_mono [OF rd] by blast
  have AB: "wsParse W (a @ b) c = readLoop W (addBytes b (addBytes a c))"
    using wsParse_open [of "a @ b" c W] ne rd by simp
  note rd' = wready_addBytes [OF rd]
  have app: "wforget (wsParse W (a @ b) c) = wforget (case wsParse W a c of (c', None) \<Rightarrow>
      if w_closed c' then (c', None) else readLoop W (addBytes b c') | r \<Rightarrow> r)"
    unfolding AB A using rd' ne by (intro readLoop_append) (auto simp: wready_def)
  show ?thesis
  proof (cases "wsParse W a c")
    case (Pair c' e)
    show ?thesis
    proof (cases e)
      case None
      have "wready W c' (length b)" using wsParse_ready [OF rd] Pair None by simp
      then have "\<not> w_closed c' \<Longrightarrow> wsParse W b c' = readLoop W (addBytes b c')" using wsParse_open ne by blast
      moreover have "w_closed c' \<Longrightarrow> wforget (wsParse W b c') = (c', None)"
        using ne by (simp add: wsParse_def wforget_def)
      moreover have "w_closed c' \<Longrightarrow> wforget (c', None) = (c', None)" by (simp add: wforget_def)
      ultimately show ?thesis using app Pair None by (cases "w_closed c'") simp_all
    qed (use app Pair in auto)
  qed
qed

interpretation ws: stream_reader "\<lambda>d c. Some (wsParse W d c)" "wready W" "map_option wforget" for W
proof unfold_locales
  show "wready W c (n + m) \<Longrightarrow> wready W c n" for c n m by (rule wready_mono)
  show "wready W c (length d + n) \<Longrightarrow> Some (wsParse W d c) = Some (c', None) \<Longrightarrow> wready W c' n" for c c' d n
    using wsParse_ready by blast
  show "map_option wforget (Some (wsParse W b c')) = map_option wforget (Some (wsParse W (a @ b) c))"
    if "wready W c (length a + length b)" "Some (wsParse W a c) = Some (c', None)" for c c' a b
  proof (cases "a = [] \<or> b = []")
    case True
    then show ?thesis using that(2) by (auto simp: wsParse_def)
  next
    case False
    moreover have "\<not> w_closed c" using that(2) False by (auto simp: wsParse_def)
    ultimately show ?thesis using wsParse_append [OF that(1)] that(2) by simp
  qed
  show "map_option wforget (Some (wsParse W (a @ b) c)) = map_option wforget (Some (wsParse W a c))"
    if "wready W c (length a + length b)" "Some (wsParse W a c) = Some (c', Some e)" for c c' a b e
  proof -
    have "a \<noteq> []" using that(2) by (auto simp: wsParse_def)
    then show ?thesis
      using wsParse_append [OF that(1)] that(2) by (cases "b = []"; cases "w_closed c") (auto simp: wsParse_def)
  qed
qed simp

end
