(* ===== verification/WsWrite.thy ===== *)
theory WsWrite
  imports WsFrame
begin

unbundle bit_operations_syntax

text \<open>
  The writing side of \<open>nbhttp/websocket/conn.go\<close>: the encoding of a frame, \<open>writeFrame\<close> with the
  asynchronous send queue and the goroutine that drains it (\<open>writer_step\<close>), the splitting of a
  message into frames (\<open>WriteMessage\<close>), close frames, closing, and the dispatch of a received
  message (\<open>handleWsMessage\<close>, its effects as a list of actions in order). The dictionary \<open>wout\<close>
  holds what is outside: the underlying connection, the random mask, the compressor and the
  engine's frame size.
\<close>

record 'o wout =
  MaxWebsocketFramePayloadSize :: int
  Compress :: "octets \<Rightarrow> bool \<times> octets option"
  RandUint32 :: "'o \<Rightarrow> 'o \<times> 32 word"
  ConnWrite :: "octets \<Rightarrow> 'o \<Rightarrow> 'o \<times> ws_err option"

record 'o wwriter =
  o_closed :: bool
  o_closeErr :: "ws_err option"
  o_isClient :: bool
  o_remoteCompressionEnabled :: bool
  o_enableWriteCompression :: bool
  o_sendQueue :: "octets option list option"
  o_sendQueueSize :: nat
  o_writer :: "(octets \<times> nat) option"
  o_net :: 'o

text \<open>The bytes of a frame: header, extended length, masking key, (masked) payload.\<close>

definition encodeFrame :: "bool \<Rightarrow> 32 word \<Rightarrow> int \<Rightarrow> bool \<Rightarrow> bool \<Rightarrow> octets \<Rightarrow> bool \<Rightarrow> octets" where
  "encodeFrame isClient u32 messageType sendOpcode fin data compress =
     (let byte1 = (if isClient then 0x80 else 0);
          bodyLen = int (length data);
          lens = (if bodyLen < 126 then [byte1 OR word_of_int bodyLen]
                  else if bodyLen \<le> 65535 then (byte1 OR 126) # be_bytes 2 bodyLen
                  else (byte1 OR 127) # be_bytes 8 bodyLen);
          key = le_bytes 4 (ucast u32);
          byte0 = (if sendOpcode then word_of_int messageType else 0);
          byte0 = (if compress then byte0 OR 0x40 else byte0);
          byte0 = (if fin then byte0 OR 0x80 else byte0)
      in byte0 # lens @ (if isClient then key @ maskXOR data key else data))"

text \<open>\<open>SetCloseError\<close> keeps the first error.\<close>

definition SetCloseError :: "ws_err \<Rightarrow> 'o wwriter \<Rightarrow> 'o wwriter" where
  "SetCloseError e w = (if o_closeErr w = None then w\<lparr>o_closeErr := Some e\<rparr> else w)"

definition enqueue :: "octets \<Rightarrow> octets option list \<Rightarrow> 'o wwriter \<Rightarrow> 'o wwriter \<times> ws_err option" where
  "enqueue pbuf q w =
     (if o_sendQueueSize w > 0 \<and> length q \<ge> o_sendQueueSize w then (w, Some ErrMessageSendQuqueIsFull)
      else
        (let q1 = q @ [Some pbuf] in
         if length q1 = 1 then (w\<lparr>o_sendQueue := Some [None], o_writer := Some (pbuf, 0)\<rparr>, None)
         else (w\<lparr>o_sendQueue := Some q1\<rparr>, None)))"

definition writeFrame ::
  "'o wout \<Rightarrow> int \<Rightarrow> bool \<Rightarrow> bool \<Rightarrow> octets \<Rightarrow> bool \<Rightarrow> 'o wwriter \<Rightarrow> 'o wwriter \<times> ws_err option" where
  "writeFrame V messageType sendOpcode fin data compress w =
     (let (net, u32) = (if o_isClient w then RandUint32 V (o_net w) else (o_net w, 0));
          pbuf = encodeFrame (o_isClient w) u32 messageType sendOpcode fin data compress;
          w = w\<lparr>o_net := net\<rparr>
      in case o_sendQueue w of
           Some q \<Rightarrow> enqueue pbuf q w
         | None \<Rightarrow> (case ConnWrite V pbuf (o_net w) of (net, err) \<Rightarrow> (w\<lparr>o_net := net\<rparr>, err)))"

text \<open>
  One iteration of the goroutine of \<open>writeFrame\<close>: the write of the buffer it holds, then, under the
  mutex, the choice of the next one.
\<close>

definition writer_next :: "nat \<Rightarrow> 'o wwriter \<Rightarrow> 'o wwriter" where
  "writer_next i w =
     (if o_closed w then w\<lparr>o_writer := None\<rparr>
      else case o_sendQueue w of
        None \<Rightarrow> w\<lparr>o_writer := None\<rparr>
      | Some q \<Rightarrow>
          if length q \<le> i then w\<lparr>o_sendQueue := Some [], o_writer := None\<rparr>
          else w\<lparr>o_sendQueue := Some (q[i := None]),
                 o_writer := (case q ! i of None \<Rightarrow> None | Some pbuf \<Rightarrow> Some (pbuf, i))\<rparr>)"

definition writer_step :: "'o wout \<Rightarrow> 'o wwriter \<Rightarrow> 'o wwriter" where
  "writer_step V w =
     (case o_writer w of
        None \<Rightarrow> w
      | Some (pbuf, i) \<Rightarrow>
          (case ConnWrite V pbuf (o_net w) of
             (net, Some e) \<Rightarrow> SetCloseError e (w\<lparr>o_net := net, o_writer := None\<rparr>)
           | (net, None) \<Rightarrow> writer_next (Suc i) (w\<lparr>o_net := net\<rparr>)))"

text \<open>
  The loop of \<open>WriteMessage\<close>. With a frame size of zero it never ends, and with a negative one the
  slice expression panics: the result is then \<open>None\<close>, or the error \<open>WErrPanic\<close>.
\<close>

partial_function (option) write_frames ::
  "'o wout \<Rightarrow> int \<Rightarrow> bool \<Rightarrow> octets \<Rightarrow> bool \<Rightarrow> 'o wwriter \<Rightarrow> ('o wwriter \<times> ws_err option) option" where
  "write_frames V messageType sendOpcode data compress w =
     (if data = [] then Some (w, None)
      else
        (let n = (if int (length data) > MaxWebsocketFramePayloadSize V
                  then MaxWebsocketFramePayloadSize V else int (length data)) in
         if n < 0 then Some (w, Some WErrPanic)
         else case writeFrame V messageType sendOpcode (n = int (length data)) (take (nat n) data) compress w of
                (w', Some e) \<Rightarrow> Some (w', Some e)
              | (w', None) \<Rightarrow> write_frames V messageType False (drop (nat n) data) False w'))"

declare write_frames.simps [code]

definition WriteMessage ::
  "'o wout \<Rightarrow> int \<Rightarrow> octets \<Rightarrow> 'o wwriter \<Rightarrow> ('o wwriter \<times> ws_err option) option" where
  "WriteMessage V messageType data w =
     (if o_closed w then Some (w, Some WErrClosed)
      else if messageType \<in> {PingMessage, PongMessage, CloseMessage} \<and>
          int (length data) > maxControlFramePayloadSize then Some (w, Some ErrControlMessageTooBig)
      else
        (let wanted = o_enableWriteCompression w \<and> (messageType = TextMessage \<or> messageType = BinaryMessage);
             (compress, data) =
               (if wanted then
                  (case Compress V data of
                     (False, _) \<Rightarrow> (False, data)
                   | (True, None) \<Rightarrow> (True, data)
                   | (True, Some z) \<Rightarrow> (True, z))
                else (False, data))
         in if data \<noteq> [] then write_frames V messageType True data compress w
            else Some (writeFrame V messageType True True [] compress w)))"

definition WriteClose :: "'o wout \<Rightarrow> int \<Rightarrow> octets \<Rightarrow> 'o wwriter \<Rightarrow> ('o wwriter \<times> ws_err option) option" where
  "WriteClose V code reason w = WriteMessage V CloseMessage (be_bytes 2 code @ reason) w"

definition WriteFrame ::
  "'o wout \<Rightarrow> int \<Rightarrow> bool \<Rightarrow> bool \<Rightarrow> octets \<Rightarrow> 'o wwriter \<Rightarrow> 'o wwriter \<times> ws_err option" where
  "WriteFrame V messageType sendOpcode fin data w =
     (if o_closed w then (w, Some WErrClosed) else writeFrame V messageType sendOpcode fin data False w)"

definition EnableWriteCompression :: "bool \<Rightarrow> 'o wwriter \<Rightarrow> 'o wwriter" where
  "EnableWriteCompression enable w =
     (if enable then (if o_remoteCompressionEnabled w then w\<lparr>o_enableWriteCompression := enable\<rparr> else w)
      else w\<lparr>o_enableWriteCompression := enable\<rparr>)"

text \<open>The part of \<open>CloseAndClean\<close> on the writing side: queued buffers are released.\<close>

definition closeWriter :: "ws_err option \<Rightarrow> 'o wwriter \<Rightarrow> 'o wwriter" where
  "closeWriter err w =
     (if o_closed w then w
      else w\<lparr>o_closed := True,
             o_sendQueue := map_option (map (\<lambda>_. None)) (o_sendQueue w),
             o_closeErr := (if o_closeErr w = None then err else o_closeErr w)\<rparr>)"

text \<open>The dispatch of a received message.\<close>

definition validCloseCode :: "int \<Rightarrow> bool" where
  "validCloseCode code =
     (if code \<in> {1000, 1001, 1002, 1003} then True
      else if code \<in> {1004, 1005, 1006} then False
      else if code \<in> {1007, 1008, 1009, 1010, 1011, 1015} then True
      else code \<ge> 3000 \<and> code < 5000)"

datatype close_err =
    ErrInvalidUtf8
  | ErrInvalidCloseCode
  | CloseError int octets
  | CErrInvalidFragmentMessage
  | CErrInvalidMessageType int

datatype ws_action =
    CallMessageHandler int octets
  | CallPingHandler octets
  | CallPongHandler octets
  | CallCloseHandler int octets
  | ActSetCloseError close_err
  | ActWriteMessage int octets
  | ActClose
  | ActSetReadDeadline

definition string_octets :: "string \<Rightarrow> octets" where
  "string_octets s = map of_char s"

definition errInvalidUtf8Text :: octets where
  "errInvalidUtf8Text = string_octets ''invalid UTF-8 bytes''"

definition handleWsMessage :: "(octets \<Rightarrow> bool) \<Rightarrow> bool \<Rightarrow> int \<Rightarrow> octets \<Rightarrow> ws_action list" where
  "handleWsMessage CheckUtf8 keepalive opcode data =
     (let deadline = (if keepalive then [ActSetReadDeadline] else []);
          protoError = (\<lambda>e payload. [ActSetCloseError e, ActWriteMessage CloseMessage payload, ActClose])
      in
      (if opcode = BinaryMessage then [CallMessageHandler opcode data]
       else if opcode = TextMessage then
         (if \<not> CheckUtf8 data then protoError ErrInvalidUtf8 (be_bytes 2 1002 @ errInvalidUtf8Text)
          else [CallMessageHandler opcode data])
       else if opcode = PingMessage then [CallPingHandler data]
       else if opcode = PongMessage then [CallPongHandler data]
       else if opcode = CloseMessage then
         (if length data \<ge> 2 then
            (let code = be_val (take 2 data); reason = drop 2 data in
             if \<not> validCloseCode code then protoError ErrInvalidCloseCode (be_bytes 2 1002)
             else if \<not> CheckUtf8 reason then protoError ErrInvalidUtf8 (be_bytes 2 1002 @ errInvalidUtf8Text)
             else (if code \<noteq> 1000 then [ActSetCloseError (CloseError code reason)] else []) @
                  [CallCloseHandler code reason, ActClose])
          else
            (let code = (if data = [] then 1005 else 1002) in
             [ActSetCloseError (CloseError code []), CallCloseHandler code [], ActClose]))
       else if opcode = FragmentMessage then [ActSetCloseError CErrInvalidFragmentMessage, ActClose]
       else [ActSetCloseError (CErrInvalidMessageType opcode), ActClose])
      @ deadline)"

text \<open>
  The send queue as a transition system: any interleaving of frames written by the application and
  iterations of the draining goroutine. The first list is the frames accepted so far.
\<close>

inductive queue_run :: "'o wout \<Rightarrow> 'o wwriter \<Rightarrow> octets list \<Rightarrow> 'o wwriter \<Rightarrow> bool" for V w0 where
  run_start: "queue_run V w0 [] w0"
| run_enqueue: "queue_run V w0 fs w \<Longrightarrow> o_sendQueue w = Some q \<Longrightarrow> enqueue f q w = (w', None) \<Longrightarrow>
    queue_run V w0 (fs @ [f]) w'"
| run_writer: "queue_run V w0 fs w \<Longrightarrow> o_writer w \<noteq> None \<Longrightarrow> queue_run V w0 fs (writer_step V w)"

end
