(* ===== verification/WsRoundtrip.thy ===== *)
theory WsRoundtrip
  imports WsStream WsWrite
begin

unbundle bit_operations_syntax

text \<open>
  The two ends of a websocket connection together: an encoded frame is decoded to itself, a message
  split into frames by \<open>WriteMessage\<close> is assembled again by the reading loop, and the send queue
  keeps the frames in order. \<open>collects\<close> is what is assumed of the connection a message is written
  to: every write succeeds and appends its bytes.
\<close>

definition opcodes :: "int set" where
  "opcodes = {0, 1, 2, 8, 9, 10}"

definition header0 :: "int \<Rightarrow> bool \<Rightarrow> bool \<Rightarrow> octet" where
  "header0 op fin compress = (let b = word_of_int op; b = (if compress then b OR 0x40 else b) in if fin then b OR 0x80 else b)"

definition len7_ok :: "nat \<Rightarrow> bool" where
  "len7_ok n \<longleftrightarrow> (\<forall>m\<in>{0, 0x80 :: octet}. uint ((m OR word_of_nat n) AND 0x7F) = int n \<and> ((m OR word_of_nat n) AND 0x80 \<noteq> 0) = (m = 0x80))"

definition lenBytes :: "nat \<Rightarrow> octets" where
  "lenBytes n = (if n < 126 then [] else if n \<le> 65535 then be_bytes 2 (int n) else be_bytes 8 (int n))"

definition len7 :: "nat \<Rightarrow> nat" where
  "len7 n = (if n < 126 then n else if n \<le> 65535 then 126 else 127)"

definition tailBytes :: "bool \<Rightarrow> 32 word \<Rightarrow> octets \<Rightarrow> octets" where
  "tailBytes isClient u32 data =
     (if isClient then le_bytes 4 (ucast u32) @ maskXOR data (le_bytes 4 (ucast u32)) else data)"

definition collects :: "'o wout \<Rightarrow> ('o \<Rightarrow> octets) \<Rightarrow> bool" where
  "collects V out \<longleftrightarrow> (\<forall>pb n. snd (ConnWrite V pb n) = None \<and> out (fst (ConnWrite V pb n)) = out n @ pb) \<and>
     (\<forall>n. out (fst (RandUint32 V n)) = out n)"

definition keeps_open :: "'h wenv \<Rightarrow> bool" where
  "keeps_open W \<longleftrightarrow> (\<forall>e h. \<not> snd (Handle W e h))"

definition wconsumes :: "'h wenv \<Rightarrow> octets \<Rightarrow> 'h wsconn \<Rightarrow> 'h wsconn \<Rightarrow> bool" where
  "wconsumes W d c c' \<longleftrightarrow> \<not> w_closed c \<and> w_bytesCached c = None \<and> \<not> w_closed c' \<and> w_bytesCached c' = None \<and>
     readLoop W (addBytes d c) = (c', None)"

definition assembling :: "bool \<Rightarrow> int \<Rightarrow> bool \<Rightarrow> octets \<Rightarrow> 'h wsconn \<Rightarrow> bool" where
  "assembling first mt cz m c \<longleftrightarrow> \<not> w_closed c \<and> w_bytesCached c = None \<and>
     (if first then m = [] \<and> w_message c = None \<and> w_msgType c = 0 \<and> \<not> w_compress c \<and> \<not> w_expectingFragments c
      else w_message c = Some m \<and> w_msgType c = mt \<and> w_compress c = cz \<and> w_expectingFragments c)"

definition unpack :: "'h wenv \<Rightarrow> bool \<Rightarrow> octets \<Rightarrow> ws_err + octets" where
  "unpack W cz z = (if cz then Decompress W z else Inr z)"

definition delivered :: "'h wenv \<Rightarrow> ws_event \<Rightarrow> 'h wsconn \<Rightarrow> 'h wsconn" where
  "delivered W ev c = c\<lparr>w_message := None, w_msgType := 0, w_compress := False, w_expectingFragments := False,
     w_app := fst (Handle W ev (w_app c))\<rparr>"

definition packed :: "'o wout \<Rightarrow> 'o wwriter \<Rightarrow> int \<Rightarrow> octets \<Rightarrow> bool \<times> octets" where
  "packed V w mt data = (if o_enableWriteCompression w \<and> (mt = 1 \<or> mt = 2) then
     (case Compress V data of (False, _) \<Rightarrow> (False, data) | (True, None) \<Rightarrow> (True, data) | (True, Some z) \<Rightarrow> (True, z))
     else (False, data))"

definition sendable :: "'o wout \<Rightarrow> 'h wenv \<Rightarrow> 'o wwriter \<Rightarrow> int \<times> octets \<Rightarrow> bool" where
  "sendable V W w msg = (case msg of (mt, data) \<Rightarrow>
     if mt \<in> {1, 2} then
       (case packed V w mt data of (cz, z) \<Rightarrow> z \<noteq> [] \<and> unpack W cz z = Inr data \<and> (cz \<longrightarrow> enableCompression W) \<and>
          (MessageLengthLimit W \<le> 0 \<or> int (length z) \<le> MessageLengthLimit W) \<and> int (length z) < 2 ^ 57)
     else mt \<in> {8, 9, 10} \<and> length data \<le> 125 \<and> (MessageLengthLimit W \<le> 0 \<or> int (length data) \<le> MessageLengthLimit W))"

definition event_of :: "int \<times> octets \<Rightarrow> ws_event" where
  "event_of msg = (case msg of (mt, data) \<Rightarrow> if mt \<in> {1, 2} then EvMessage mt data else EvProtocol mt data)"

definition widle :: "'h wsconn \<Rightarrow> bool" where
  "widle c \<longleftrightarrow> \<not> w_closed c \<and> w_bytesCached c = None \<and> w_message c = None \<and> w_msgType c = 0 \<and>
     \<not> w_compress c \<and> \<not> w_expectingFragments c"

fun write_all :: "'o wout \<Rightarrow> (int \<times> octets) list \<Rightarrow> 'o wwriter \<Rightarrow> ('o wwriter \<times> ws_err option) option" where
  "write_all V [] w = Some (w, None)"
| "write_all V ((mt, data) # ms) w =
     (case WriteMessage V mt data w of
        Some (w', None) \<Rightarrow> write_all V ms w'
      | r \<Rightarrow> r)"

text \<open>The invariant of the send queue.\<close>

definition queue_ok :: "('o \<Rightarrow> octets) \<Rightarrow> octets \<Rightarrow> octets list \<Rightarrow> 'o wwriter \<Rightarrow> bool" where
  "queue_ok out out0 fs w \<longleftrightarrow> (\<exists>q. o_sendQueue w = Some q \<and>
     (case o_writer w of
        None \<Rightarrow> q = [] \<and> out (o_net w) = out0 @ concat fs
      | Some (pbuf, i) \<Rightarrow> i < length q \<and> (\<forall>j\<le>i. q ! j = None) \<and> (\<forall>j<length q. i < j \<longrightarrow> q ! j \<noteq> None) \<and>
          out0 @ concat fs = out (o_net w) @ pbuf @ concat (map the (drop (Suc i) q))))"

text \<open>The goroutine gets through the queue.\<close>

definition queue_rest :: "'o wwriter \<Rightarrow> nat" where
  "queue_rest w = (case o_writer w of None \<Rightarrow> 0 | Some (pbuf, i) \<Rightarrow>
     (case o_sendQueue w of None \<Rightarrow> 1 | Some q \<Rightarrow> Suc (length q - Suc i)))"

lemma header0_bits:
  assumes "op \<in> opcodes"
  shows "uint (header0 op fin compress AND 0xF) = op" "(header0 op fin compress AND 0x40 \<noteq> 0) = compress"
    "header0 op fin compress AND 0x20 = 0" "header0 op fin compress AND 0x10 = 0"
    "(header0 op fin compress AND 0x80 \<noteq> 0) = fin"
  using assms unfolding opcodes_def by (cases fin; cases compress; auto simp: header0_def)+

lemma len7_all: "list_all len7_ok [0..<128]"
  by code_simp

lemma header1:
  fixes isClient defines "m \<equiv> (if isClient then 0x80 else 0) :: octet"
  assumes "n < 128"
  shows "uint ((m OR word_of_nat n) AND 0x7F) = int n" "((m OR word_of_nat n) AND 0x80 \<noteq> 0) = isClient"
proof -
  have "len7_ok n" using len7_all assms(2) unfolding list_all_iff by simp
  then show "uint ((m OR word_of_nat n) AND 0x7F) = int n" "((m OR word_of_nat n) AND 0x80 \<noteq> 0) = isClient"
    by (auto simp: len7_ok_def m_def)
qed

lemma encodeFrame_alt:
  "encodeFrame isClient u32 mt so fin data compress =
     header0 (if so then mt else 0) fin compress # ((if isClient then 0x80 else 0) OR word_of_nat (len7 (length data))) #
       lenBytes (length data) @ tailBytes isClient u32 data"
  by (simp add: encodeFrame_def header0_def lenBytes_def len7_def tailBytes_def Let_def)

lemma len7_less: "len7 n < 128"
  by (simp add: len7_def)

lemma length_lenBytes: "length (lenBytes n) = (if n < 126 then 0 else if n \<le> 65535 then 2 else 8)"
  by (simp add: lenBytes_def)

lemma length_tailBytes: "length (tailBytes isClient u32 data) = (if isClient then 4 else 0) + length data"
  by (simp add: tailBytes_def)

lemma length_encodeFrame:
  "length (encodeFrame isClient u32 mt so fin data compress) = 2 + length (lenBytes (length data)) + (if isClient then 4 else 0) + length data"
  by (simp add: encodeFrame_alt length_tailBytes)

lemma frameLengths_encode:
  assumes "int (length data) < 2 ^ 62"
  shows "frameLengths (encodeFrame isClient u32 mt so fin data compress @ rest) =
    Inr (int (length data), 2 + int (length (lenBytes (length data))))"
proof -
  let ?p = "encodeFrame isClient u32 mt so fin data compress @ rest"
  have b1: "uint (?p ! 1 AND 0x7F) = int (len7 (length data))"
    using header1(1) [OF len7_less, of isClient] by (simp add: encodeFrame_alt)
  have l: "length ?p = 2 + length (lenBytes (length data)) + (if isClient then 4 else 0) + length data + length rest"
    by (simp add: length_encodeFrame)
  have s: "go_slice ?p 2 (2 + length (lenBytes (length data))) = lenBytes (length data)"
    by (simp add: encodeFrame_alt go_slice_def)
  have v: "be_val (lenBytes (length data)) = int (length data)" if "\<not> length data < 126"
    using that assms by (auto simp: lenBytes_def be_val_be_bytes)
  consider "length data < 126" | "126 \<le> length data" "length data \<le> 65535" | "65535 < length data" by linarith
  then show ?thesis
  proof cases
    case 1
    then show ?thesis using b1 l by (simp add: frameLengths_def len7_def length_lenBytes)
  next
    case 2
    then show ?thesis using b1 l s v by (simp add: frameLengths_def len7_def length_lenBytes Let_def)
  next
    case 3
    then show ?thesis using b1 l s v assms wrap64_id [of "int (length data)"]
      by (simp add: frameLengths_def len7_def length_lenBytes Let_def)
  qed
qed

lemma takeFrame_encode:
  assumes op: "(if so then mt else 0) \<in> opcodes" and len: "int (length data) < 2 ^ 62"
    and ok: "validFrame W (if so then mt else 0) fin compress False False ex = None"
  shows "takeFrame W (encodeFrame isClient u32 mt so fin data compress @ rest) (int (length data))
      (2 + int (length (lenBytes (length data)))) ex =
    Inr (Some \<lparr>fr_total = int (length (encodeFrame isClient u32 mt so fin data compress)), fr_opcode = (if so then mt else 0),
      fr_body = data, fr_fin = fin, fr_res1 = compress\<rparr>)"
proof -
  let ?e = "encodeFrame isClient u32 mt so fin data compress" let ?p = "?e @ rest"
  define H where "H = 2 + length (lenBytes (length data)) + (if isClient then 4 else 0)"
  let ?key = "le_bytes 4 (ucast u32 :: 64 word)"
  have b0: "?p ! 0 = header0 (if so then mt else 0) fin compress" by (simp add: encodeFrame_alt)
  note b0s = header0_bits [OF op, of fin compress]
  have m: "(?p ! 1 AND 0x80 \<noteq> 0) = isClient"
    using header1(2) [OF len7_less, of isClient] by (simp add: encodeFrame_alt)
  have h: "(if isClient then 2 + int (length (lenBytes (length data))) + 4 else 2 + int (length (lenBytes (length data)))) = int H"
    by (simp add: H_def)
  have t: "wrap64 (int H + int (length data)) = int (length ?e)"
    using len wrap64_id [of "int H + int (length data)"] by (simp add: H_def length_encodeFrame length_lenBytes)
  have raw: "go_slice ?p H (length ?e) = (if isClient then maskXOR data ?key else data)"
    by (simp add: encodeFrame_alt go_slice_def tailBytes_def length_lenBytes H_def)
  have key: "isClient \<Longrightarrow> go_slice ?p (H - 4) H = ?key"
    by (simp add: encodeFrame_alt go_slice_def tailBytes_def H_def)
  have le: "int (length ?e) \<le> int (length ?p)" "\<not> int (length ?e) < int H" by (simp_all add: length_encodeFrame H_def)
  show ?thesis
    unfolding takeFrame_def Let_def b0 b0s m h t using le raw key ok b0s(3,4) by (cases isClient) auto
qed

lemma nextFrame_encode:
  assumes op: "(if so then mt else 0) \<in> opcodes" and len: "int (length data + ml) < 2 ^ 62"
    and ok: "validFrame W (if so then mt else 0) fin compress False False ex = None"
    and lim: "MessageLengthLimit W \<le> 0 \<or> int (ml + length data) \<le> MessageLengthLimit W"
    and ctl: "(if so then mt else 0) \<in> {8, 9, 10} \<Longrightarrow> length data \<le> 125"
  shows "nextFrame W (encodeFrame isClient u32 mt so fin data compress @ rest) ml ex =
    Inr (Some \<lparr>fr_total = int (length (encodeFrame isClient u32 mt so fin data compress)), fr_opcode = (if so then mt else 0),
      fr_body = data, fr_fin = fin, fr_res1 = compress\<rparr>)"
proof -
  let ?e = "encodeFrame isClient u32 mt so fin data compress" let ?p = "?e @ rest"
  have len': "int (length data) < 2 ^ 62" using len by simp
  have b0: "uint (?p ! 0 AND 0xF) = (if so then mt else 0)"
    using header0_bits(1) [OF op] by (simp add: encodeFrame_alt)
  have "wrap64 (int ml + int (length data)) = int ml + int (length data)" using len by (intro wrap64_id) auto
  then have "\<not> isMessageTooLarge W (wrap64 (int ml + int (length data)))" using lim by (auto simp: isMessageTooLarge_def)
  moreover have "\<not> length ?p < 2" by (simp add: length_encodeFrame)
  ultimately show ?thesis
    unfolding nextFrame_def frameLengths_encode [OF len'] b0 Let_def
    using takeFrame_encode [OF op len' ok] ctl by (auto simp: maxControlFramePayloadSize_def)
qed

lemma wforget_ok: "wforget r = (c, None) \<Longrightarrow> \<not> w_closed c \<Longrightarrow> r = (c, None)"
  by (auto simp: wforget_def split: prod.splits if_splits)

lemma cachedBytes_None [simp]: "w_bytesCached c = None \<Longrightarrow> cachedBytes c = []"
  by (simp add: cachedBytes_def)

lemma wconsumes_append:
  assumes "wconsumes W d1 c c1" "wconsumes W d2 c1 c2" "d2 \<noteq> []" "int (length d1 + msgLen c) < 2 ^ 62"
    "MessageLengthLimit W \<le> 0 \<or> int (msgLen c) \<le> MessageLengthLimit W"
  shows "wconsumes W (d1 @ d2) c c2"
proof -
  have "wforget (readLoop W (addBytes d2 (addBytes d1 c))) = wforget (readLoop W (addBytes d2 c1))"
    using readLoop_append [of "addBytes d1 c" d2 W] assms by (simp add: wconsumes_def wsize_def)
  also have "\<dots> = (c2, None)" using assms by (simp add: wconsumes_def wforget_def)
  finally have "readLoop W (addBytes d2 (addBytes d1 c)) = (c2, None)"
    by (rule wforget_ok) (use assms in \<open>simp add: wconsumes_def\<close>)
  then show ?thesis using assms by (simp add: wconsumes_def)
qed

lemma handle_events_open: "keeps_open W \<Longrightarrow> handle_events W evs h = (fst (handle_events W evs h), False)"
proof (induction evs arbitrary: h)
  case (Cons e evs)
  have "\<not> snd (Handle W e h)" using Cons.prems by (simp add: keeps_open_def)
  moreover have "handle_events W evs (fst (Handle W e h)) = (fst (handle_events W evs (fst (Handle W e h))), False)"
    using Cons by blast
  ultimately show ?case by (simp add: case_prod_beta Let_def)
qed simp

lemma wconsumes_frame:
  assumes c: "\<not> w_closed c" "w_bytesCached c = None" and op: "(if so then mt else 0) \<in> opcodes"
    and len: "int (length data + msgLen c) < 2 ^ 61"
    and ok: "validFrame W (if so then mt else 0) fin compress False False (w_expectingFragments c) = None"
    and lim: "MessageLengthLimit W \<le> 0 \<or> int (msgLen c + length data) \<le> MessageLengthLimit W"
    and ctl: "(if so then mt else 0) \<in> {8, 9, 10} \<Longrightarrow> length data \<le> 125"
    and ko: "keeps_open W"
    and of: "\<And>t. oneFrame W \<lparr>fr_total = t, fr_opcode = (if so then mt else 0), fr_body = data, fr_fin = fin, fr_res1 = compress\<rparr> c = (c1, Inr evs)"
  shows "wconsumes W (encodeFrame isClient u32 mt so fin data compress) c (c1\<lparr>w_app := fst (handle_events W evs (w_app c1))\<rparr>)"
proof -
  let ?e = "encodeFrame isClient u32 mt so fin data compress"
  let ?f = "\<lparr>fr_total = int (length ?e), fr_opcode = (if so then mt else 0), fr_body = data, fr_fin = fin, fr_res1 = compress\<rparr>"
  let ?a = "addBytes ?e c" let ?r = "c1\<lparr>w_app := fst (handle_events W evs (w_app c1))\<rparr>"
  have ne: "0 < length ?e" by (simp add: length_encodeFrame)
  have a: "\<not> w_closed ?a" "cachedBytes ?a = ?e @ []" "w_expectingFragments ?a = w_expectingFragments c" "msgLen ?a = msgLen c"
    using c by auto
  have nf: "nextFrame W (cachedBytes ?a) (msgLen ?a) (w_expectingFragments ?a) = Inr (Some ?f)"
    unfolding a using len ok lim ctl by (intro nextFrame_encode [OF op]) auto
  have c1: "\<not> w_closed c1" "w_bytesCached c1 = None" using oneFrame_closed [OF of] oneFrame_cached [OF of] c by auto
  have sz: "int (length (cachedBytes ?a) + msgLen ?a) < 2 ^ 62"
    unfolding a using len by (simp add: length_encodeFrame length_lenBytes)
  have of': "oneFrame W ?f ?a = (addBytes ?e c1, Inr evs)" using of [of "int (length ?e)"] by (simp add: oneFrame_addBytes)
  from readLoop_frame [OF a(1) nf sz of'] obtain c2 where
    c2: "consume (fr_total ?f) (addBytes ?e c1) = Inr c2" "readLoop W ?a = readLoop W (nextConn W evs c2)" by blast
  have "c2 = c1" using c2(1) c1 ne by (cases c1) (auto simp: consume_def addBytes_def cachedBytes_def Let_def split: if_splits)
  then have "nextConn W evs c2 = ?r" using handle_events_open [OF ko, of evs "w_app c1"]
    by (cases "handle_events W evs (w_app c1)") (simp add: nextConn_def)
  moreover have "readLoop W ?r = (?r, None)" using c1 readLoop_unfold [of ?r W] by (simp add: nextFrame_short)
  ultimately show ?thesis using c c1 c2 by (simp add: wconsumes_def)
qed

lemma writeFrame_collects:
  assumes "collects V out" "o_sendQueue w = None"
  shows "\<exists>u net. writeFrame V mt so fin data compress w = (w\<lparr>o_net := net\<rparr>, None) \<and>
     out net = out (o_net w) @ encodeFrame (o_isClient w) u mt so fin data compress"
proof -
  obtain net u where r: "(if o_isClient w then RandUint32 V (o_net w) else (o_net w, 0)) = (net, u)" by fastforce
  have o: "out net = out (o_net w)" using r assms(1) unfolding collects_def by (metis Pair_inject prod.collapse)
  let ?e = "encodeFrame (o_isClient w) u mt so fin data compress"
  obtain net' where "ConnWrite V ?e net = (net', None)" "out net' = out net @ ?e"
    using assms(1) unfolding collects_def by (metis prod.collapse)
  then show ?thesis using r o assms(2) by (auto simp: writeFrame_def Let_def)
qed

lemma oneFrame_assembling:
  assumes "assembling first mt cz m c" "mt \<in> {1, 2}" "d \<noteq> []" "hasMessageHandler W" "\<not> hasDataFrameHandler W"
    and "fin \<Longrightarrow> unpack W cz (m @ d) = Inr M"
  shows "oneFrame W \<lparr>fr_total = t, fr_opcode = (if first then mt else 0), fr_body = d, fr_fin = fin, fr_res1 = first \<and> cz\<rparr> c =
    (if fin then (c\<lparr>w_message := None, w_msgType := 0, w_compress := False, w_expectingFragments := False\<rparr>, Inr [EvMessage mt M])
     else (c\<lparr>w_message := Some (m @ d), w_msgType := mt, w_compress := cz, w_expectingFragments := True\<rparr>, Inr []))"
  using assms by (cases first; cases cz; cases fin)
    (auto simp: assembling_def oneFrame_def dataFrame_def unpack_def Let_def)

lemma msgLen_assembling: "assembling first mt cz m c \<Longrightarrow> msgLen c = length m"
  by (auto simp: assembling_def msgLen_def split: if_splits)

lemma length_encodeFrame_le: "d \<noteq> [] \<Longrightarrow> length (encodeFrame isClient u mt so fin d compress) \<le> 15 * length d"
  by (cases d) (simp_all add: length_encodeFrame length_lenBytes)

lemma validFrame_assembling:
  "assembling first mt cz m c \<Longrightarrow> mt \<in> {1, 2} \<Longrightarrow> (cz \<Longrightarrow> enableCompression W) \<Longrightarrow>
   validFrame W (if first then mt else 0) fin (first \<and> cz) False False (w_expectingFragments c) = None"
  by (auto simp: validFrame_def assembling_def)

lemma write_frames_roundtrip:
  assumes V: "collects V out" "0 < MaxWebsocketFramePayloadSize V"
    and W: "keeps_open W" "hasMessageHandler W" "\<not> hasDataFrameHandler W"
    and mt: "mt \<in> {1, 2}" and cz: "cz \<Longrightarrow> enableCompression W"
    and "unpack W cz (m @ data) = Inr M" "MessageLengthLimit W \<le> 0 \<or> int (length (m @ data)) \<le> MessageLengthLimit W"
    and "data \<noteq> []" "assembling first mt cz m c" "int (length m + 16 * length data) < 2 ^ 61" "o_sendQueue w = None"
  shows "\<exists>net bs. write_frames V mt first data (first \<and> cz) w = Some (w\<lparr>o_net := net\<rparr>, None) \<and>
     out net = out (o_net w) @ bs \<and> bs \<noteq> [] \<and> length bs \<le> 15 * length data \<and>
     wconsumes W bs c (delivered W (EvMessage mt M) c)"
  using assms(8-)
proof (induction "length data" arbitrary: data first m c w rule: less_induct)
  case less
  let ?M = "MaxWebsocketFramePayloadSize V"
  define n where "n = (if int (length data) > ?M then nat ?M else length data)"
  have n: "0 < n" "n \<le> length data" using V(2) less.prems(3) by (auto simp: n_def)
  have fin: "((if int (length data) > ?M then ?M else int (length data)) = int (length data)) = (n = length data)"
    using V(2) by (auto simp: n_def)
  have nn: "(if int (length data) > ?M then ?M else int (length data)) = int n" using V(2) by (simp add: n_def)
  let ?d = "take n data"
  have d: "?d \<noteq> []" using n less.prems(3) by auto
  obtain u net where wf: "writeFrame V mt first (n = length data) ?d (first \<and> cz) w = (w\<lparr>o_net := net\<rparr>, None)"
      and o: "out net = out (o_net w) @ encodeFrame (o_isClient w) u mt first (n = length data) ?d (first \<and> cz)"
    using writeFrame_collects [OF V(1) less.prems(6)] by metis
  let ?e = "encodeFrame (o_isClient w) u mt first (n = length data) ?d (first \<and> cz)"
  have un: "write_frames V mt first data (first \<and> cz) w = write_frames V mt False (drop n data) False (w\<lparr>o_net := net\<rparr>)"
    using less.prems(3) wf by (subst write_frames.simps) (simp add: nn Let_def)
  let ?c1 = "if n = length data then c\<lparr>w_message := None, w_msgType := 0, w_compress := False, w_expectingFragments := False\<rparr>
     else c\<lparr>w_message := Some (m @ ?d), w_msgType := mt, w_compress := cz, w_expectingFragments := True\<rparr>"
  let ?evs = "if n = length data then [EvMessage mt M] else []"
  have of: "oneFrame W \<lparr>fr_total = t, fr_opcode = (if first then mt else 0), fr_body = ?d, fr_fin = (n = length data), fr_res1 = first \<and> cz\<rparr> c =
      (?c1, Inr ?evs)" for t
    using oneFrame_assembling [OF less.prems(4) mt d W(2,3), of "n = length data" M t] less.prems(1) by auto
  have e: "wconsumes W ?e c (?c1\<lparr>w_app := fst (handle_events W ?evs (w_app ?c1))\<rparr>)"
  proof (rule wconsumes_frame)
    show "\<not> w_closed c" "w_bytesCached c = None" using less.prems(4) by (auto simp: assembling_def)
    show "(if first then mt else 0) \<in> opcodes" using mt by (auto simp: opcodes_def)
    show "int (length ?d + msgLen c) < 2 ^ 61" using less.prems(5) msgLen_assembling [OF less.prems(4)] by simp
    show "MessageLengthLimit W \<le> 0 \<or> int (msgLen c + length ?d) \<le> MessageLengthLimit W"
      using less.prems(2) msgLen_assembling [OF less.prems(4)] by auto
    show "(if first then mt else 0) \<in> {8, 9, 10} \<Longrightarrow> length ?d \<le> 125" using mt by (auto split: if_splits)
  qed (use validFrame_assembling [OF less.prems(4) mt cz] W(1) of in auto)
  show ?case
  proof (cases "n = length data")
    case True
    have "write_frames V mt first data (first \<and> cz) w = Some (w\<lparr>o_net := net\<rparr>, None)"
      using un True by (simp add: write_frames.simps)
    moreover have "wconsumes W ?e c (delivered W (EvMessage mt M) c)"
      using e True by (simp add: delivered_def case_prod_beta Let_def)
    ultimately show ?thesis using o length_encodeFrame_le [OF d, of "o_isClient w" u mt first "n = length data" "first \<and> cz"] True
      by (intro exI [of _ net] exI [of _ ?e]) (auto simp: encodeFrame_alt)
  next
    case False
    let ?c = "c\<lparr>w_message := Some (m @ ?d), w_msgType := mt, w_compress := cz, w_expectingFragments := True\<rparr>"
    have as: "assembling False mt cz (m @ ?d) ?c" using less.prems(4) by (simp add: assembling_def)
    have "\<exists>net' bs. write_frames V mt False (drop n data) (False \<and> cz) (w\<lparr>o_net := net\<rparr>) = Some (w\<lparr>o_net := net, o_net := net'\<rparr>, None) \<and>
       out net' = out (o_net (w\<lparr>o_net := net\<rparr>)) @ bs \<and> bs \<noteq> [] \<and> length bs \<le> 15 * length (drop n data) \<and>
       wconsumes W bs ?c (delivered W (EvMessage mt M) ?c)"
      using n False less.prems as by (intro less.hyps [where m = "m @ ?d"]) auto
    then obtain net' bs where r: "write_frames V mt False (drop n data) False (w\<lparr>o_net := net\<rparr>) = Some (w\<lparr>o_net := net'\<rparr>, None)"
       "out net' = out net @ bs" "bs \<noteq> []" "length bs \<le> 15 * (length data - n)" "wconsumes W bs ?c (delivered W (EvMessage mt M) ?c)"
      by auto
    have e': "wconsumes W ?e c ?c" using e False by simp
    have le: "length ?e \<le> 15 * n" using length_encodeFrame_le [OF d, of "o_isClient w" u mt first "n = length data" "first \<and> cz"] n by simp
    have "wconsumes W (?e @ bs) c (delivered W (EvMessage mt M) ?c)"
    proof (rule wconsumes_append [OF e' r(5,3)])
      show "int (length ?e + msgLen c) < 2 ^ 62"
        using le n(2) less.prems(5) msgLen_assembling [OF less.prems(4)] by simp
      show "MessageLengthLimit W \<le> 0 \<or> int (msgLen c) \<le> MessageLengthLimit W"
        using less.prems(2) msgLen_assembling [OF less.prems(4)] by auto
    qed
    moreover have "delivered W (EvMessage mt M) ?c = delivered W (EvMessage mt M) c" by (simp add: delivered_def)
    ultimately show ?thesis using un r o le n(2)
      by (intro exI [of _ net'] exI [of _ "?e @ bs"]) auto
  qed
qed

lemma WriteMessage_packed:
  assumes "\<not> o_closed w" "mt \<in> {1, 2} \<or> length data \<le> 125"
  shows "WriteMessage V mt data w = (case packed V w mt data of (cz, z) \<Rightarrow>
     if z \<noteq> [] then write_frames V mt True z cz w else Some (writeFrame V mt True True [] cz w))"
  using assms unfolding WriteMessage_def packed_def Let_def
  by (auto simp: maxControlFramePayloadSize_def split: bool.splits prod.splits option.splits)

lemma control_roundtrip:
  assumes V: "collects V out" "0 < MaxWebsocketFramePayloadSize V" "125 \<le> MaxWebsocketFramePayloadSize V"
    and w: "\<not> o_closed w" "o_sendQueue w = None" and W: "keeps_open W" and c: "widle c"
    and mt: "mt \<in> {8, 9, 10}" and data: "length data \<le> 125" "MessageLengthLimit W \<le> 0 \<or> int (length data) \<le> MessageLengthLimit W"
  shows "\<exists>net bs. WriteMessage V mt data w = Some (w\<lparr>o_net := net\<rparr>, None) \<and> out net = out (o_net w) @ bs \<and>
     bs \<noteq> [] \<and> length bs \<le> 200 \<and> wconsumes W bs c (c\<lparr>w_app := fst (Handle W (EvProtocol mt data) (w_app c))\<rparr>)"
proof -
  obtain u net where wf: "writeFrame V mt True True data False w = (w\<lparr>o_net := net\<rparr>, None)"
      "out net = out (o_net w) @ encodeFrame (o_isClient w) u mt True True data False"
    using writeFrame_collects [OF V(1) w(2)] by metis
  have "packed V w mt data = (False, data)" using mt by (auto simp: packed_def)
  then have "WriteMessage V mt data w = Some (w\<lparr>o_net := net\<rparr>, None)"
    using WriteMessage_packed [OF w(1)] data wf(1) V(2,3)
    by (cases "data = []") (auto simp: write_frames.simps Let_def)
  moreover have "wconsumes W (encodeFrame (o_isClient w) u mt True True data False) c
      (c\<lparr>w_app := fst (handle_events W [EvProtocol mt data] (w_app c))\<rparr>)"
  proof (rule wconsumes_frame)
    show "validFrame W (if True then mt else 0) True False False False (w_expectingFragments c) = None"
      using mt c by (auto simp: validFrame_def widle_def)
    show "oneFrame W \<lparr>fr_total = t, fr_opcode = (if True then mt else 0), fr_body = data, fr_fin = True, fr_res1 = False\<rparr> c = (c, Inr [EvProtocol mt data])" for t
      using mt by (auto simp: oneFrame_def)
  qed (use c W mt data in \<open>auto simp: widle_def opcodes_def msgLen_def\<close>)
  moreover have "length (encodeFrame (o_isClient w) u mt True True data False) \<le> 200"
    using data by (simp add: length_encodeFrame length_lenBytes)
  ultimately show ?thesis using wf(2)
    by (intro exI [of _ net] exI [of _ "encodeFrame (o_isClient w) u mt True True data False"])
      (simp add: encodeFrame_alt case_prod_beta Let_def)
qed

lemma WriteMessage_roundtrip:
  assumes V: "collects V out" "125 \<le> MaxWebsocketFramePayloadSize V"
    and w: "\<not> o_closed w" "o_sendQueue w = None"
    and W: "keeps_open W" "hasMessageHandler W" "\<not> hasDataFrameHandler W" and c: "widle c"
    and s: "sendable V W w (mt, data)"
  shows "\<exists>net bs. WriteMessage V mt data w = Some (w\<lparr>o_net := net\<rparr>, None) \<and> out net = out (o_net w) @ bs \<and>
     bs \<noteq> [] \<and> int (length bs) < 2 ^ 61 \<and> wconsumes W bs c (c\<lparr>w_app := fst (Handle W (event_of (mt, data)) (w_app c))\<rparr>)"
proof (cases "mt \<in> {1, 2}")
  case True
  obtain cz z where z: "packed V w mt data = (cz, z)" by fastforce
  have zs: "z \<noteq> []" "unpack W cz z = Inr data" "cz \<longrightarrow> enableCompression W"
      "MessageLengthLimit W \<le> 0 \<or> int (length z) \<le> MessageLengthLimit W" "int (length z) < 2 ^ 57"
    using s True z by (auto simp: sendable_def split: prod.splits)
  have as: "assembling True mt cz [] c" using c by (simp add: assembling_def widle_def)
  have "\<exists>net bs. write_frames V mt True z (True \<and> cz) w = Some (w\<lparr>o_net := net\<rparr>, None) \<and>
     out net = out (o_net w) @ bs \<and> bs \<noteq> [] \<and> length bs \<le> 15 * length z \<and>
     wconsumes W bs c (delivered W (EvMessage mt data) c)"
    using V W True zs as w by (intro write_frames_roundtrip [where m = "[]" and first = True]) auto
  moreover have "delivered W (EvMessage mt data) c = c\<lparr>w_app := fst (Handle W (event_of (mt, data)) (w_app c))\<rparr>"
    using c True by (cases c) (auto simp: delivered_def widle_def event_of_def)
  ultimately show ?thesis using WriteMessage_packed [OF w(1), of mt data V] True z zs(1,5)
    by auto
next
  case False
  then have s': "mt \<in> {8, 9, 10}" "length data \<le> 125" "MessageLengthLimit W \<le> 0 \<or> int (length data) \<le> MessageLengthLimit W"
    using s by (auto simp: sendable_def split: if_splits)
  then obtain net bs where "WriteMessage V mt data w = Some (w\<lparr>o_net := net\<rparr>, None)" "out net = out (o_net w) @ bs"
     "bs \<noteq> []" "length bs \<le> 200" "wconsumes W bs c (c\<lparr>w_app := fst (Handle W (EvProtocol mt data) (w_app c))\<rparr>)"
    using control_roundtrip [OF V(1) _ V(2) w W(1) c s'] V(2) by auto
  then show ?thesis using False by (intro exI [of _ net] exI [of _ bs]) (simp add: event_of_def)
qed

lemma sendable_net [simp]: "sendable V W (w\<lparr>o_net := n\<rparr>) msg = sendable V W w msg"
  by (simp add: sendable_def packed_def)

lemma write_all_roundtrip:
  assumes V: "collects V out" "125 \<le> MaxWebsocketFramePayloadSize V"
    and W: "keeps_open W" "hasMessageHandler W" "\<not> hasDataFrameHandler W"
  shows "\<not> o_closed w \<Longrightarrow> o_sendQueue w = None \<Longrightarrow> widle c \<Longrightarrow> \<forall>msg\<in>set ms. sendable V W w msg \<Longrightarrow>
     \<exists>net bs. write_all V ms w = Some (w\<lparr>o_net := net\<rparr>, None) \<and> out net = out (o_net w) @ bs \<and>
       (if ms = [] then bs = [] else bs \<noteq> [] \<and>
         wconsumes W bs c (c\<lparr>w_app := fst (handle_events W (map event_of ms) (w_app c))\<rparr>))"
proof (induction ms arbitrary: w c)
  case Nil
  then show ?case by (intro exI [of _ "o_net w"] exI [of _ "[]"]) simp
next
  case (Cons msg ms)
  obtain mt data where m: "msg = (mt, data)" by fastforce
  obtain net bs where 1: "WriteMessage V mt data w = Some (w\<lparr>o_net := net\<rparr>, None)" "out net = out (o_net w) @ bs"
     "bs \<noteq> []" "int (length bs) < 2 ^ 61" "wconsumes W bs c (c\<lparr>w_app := fst (Handle W (event_of msg) (w_app c))\<rparr>)"
    using WriteMessage_roundtrip [OF V Cons.prems(1,2) W Cons.prems(3), of mt data] Cons.prems(4) m by auto
  let ?c = "c\<lparr>w_app := fst (Handle W (event_of msg) (w_app c))\<rparr>" let ?w = "w\<lparr>o_net := net\<rparr>"
  have "widle ?c" using Cons.prems(3) by (simp add: widle_def)
  then obtain net' bs' where 2: "write_all V ms ?w = Some (?w\<lparr>o_net := net'\<rparr>, None)" "out net' = out net @ bs'"
     "if ms = [] then bs' = [] else bs' \<noteq> [] \<and> wconsumes W bs' ?c (?c\<lparr>w_app := fst (handle_events W (map event_of ms) (w_app ?c))\<rparr>)"
    using Cons.IH [of ?w ?c] Cons.prems by auto
  have h: "fst (handle_events W (map event_of (msg # ms)) (w_app c)) = fst (handle_events W (map event_of ms) (w_app ?c))"
    by (simp add: case_prod_beta Let_def)
  have "wconsumes W (bs @ bs') c (c\<lparr>w_app := fst (handle_events W (map event_of (msg # ms)) (w_app c))\<rparr>)"
  proof (cases "ms = []")
    case True
    then show ?thesis using 1(5) 2(3) by (simp add: case_prod_beta Let_def)
  next
    case False
    have lin: "MessageLengthLimit W \<le> 0 \<or> 0 \<le> MessageLengthLimit W" by linarith
    from False show ?thesis using lin wconsumes_append [OF 1(5), of bs' "?c\<lparr>w_app := fst (handle_events W (map event_of ms) (w_app ?c))\<rparr>"]
        2(3) 1(4) Cons.prems(3) h by (simp add: widle_def msgLen_def)
  qed
  then show ?case using 1 2 m by (intro exI [of _ net'] exI [of _ "bs @ bs'"]) simp
qed

lemma written_then_read:
  assumes "wconsumes W bs c c'" "wready W c (length bs)" "bs \<noteq> []" "concat ds = bs"
  shows "feed_all (\<lambda>d c. Some (wsParse W d c)) ds c = Some (c', None)"
proof -
  have ds: "ds \<noteq> []" using assms by auto
  have op: "\<not> w_closed c" "\<not> w_closed c'" using assms(1) by (auto simp: wconsumes_def)
  have "wsParse W bs c = (c', None)"
    using wsParse_open [OF assms(3) op(1) assms(2)] assms(1) by (simp add: wconsumes_def)
  then have "map_option wforget (feed_all (\<lambda>d c. Some (wsParse W d c)) ds c) = Some (wforget (c', None))"
    using ws.feed_all_concat [OF ds, of W c] assms(2,4) by simp
  then obtain r where r: "feed_all (\<lambda>d c. Some (wsParse W d c)) ds c = Some r" "wforget r = wforget (c', None)" by auto
  then have "r = (c', None)" using wforget_ok [of r c'] op(2) by (simp add: wforget_def)
  with r show ?thesis by simp
qed

lemma drop_nth_Cons: "i < length q \<Longrightarrow> drop i q = q ! i # drop (Suc i) q"
  by (rule Cons_nth_drop_Suc [symmetric])

lemma queue_ok_enqueue:
  assumes "queue_ok out out0 fs w" "o_sendQueue w = Some q" "enqueue f q w = (w', None)"
  shows "queue_ok out out0 (fs @ [f]) w'"
proof (cases "o_writer w")
  case None
  then have "q = []" "out (o_net w) = out0 @ concat fs" using assms by (auto simp: queue_ok_def)
  then show ?thesis using assms(3) by (auto simp: enqueue_def queue_ok_def split: if_splits)
next
  case (Some pi)
  obtain pbuf i where pi: "pi = (pbuf, i)" by fastforce
  have q: "i < length q" "\<forall>j\<le>i. q ! j = None" "\<forall>j<length q. i < j \<longrightarrow> q ! j \<noteq> None"
     "out0 @ concat fs = out (o_net w) @ pbuf @ concat (map the (drop (Suc i) q))"
    using assms Some pi by (auto simp: queue_ok_def)
  have w': "w' = w\<lparr>o_sendQueue := Some (q @ [Some f])\<rparr>"
    using assms(3) q(1) by (auto simp: enqueue_def Let_def split: if_splits)
  have "\<forall>j\<le>i. (q @ [Some f]) ! j = None" using q by (simp add: nth_append)
  moreover have "\<forall>j<length (q @ [Some f]). i < j \<longrightarrow> (q @ [Some f]) ! j \<noteq> None" using q by (auto simp: nth_append)
  moreover have "concat (map the (drop (Suc i) (q @ [Some f]))) = concat (map the (drop (Suc i) q)) @ f" using q(1) by simp
  ultimately show ?thesis using q Some pi w' by (auto simp: queue_ok_def)
qed

lemma queue_ok_writer:
  assumes "queue_ok out out0 fs w" "collects V out" "\<not> o_closed w" "o_writer w = Some (pbuf, i)"
  shows "queue_ok out out0 fs (writer_step V w)"
proof -
  obtain q where q: "o_sendQueue w = Some q" "i < length q" "\<forall>j\<le>i. q ! j = None" "\<forall>j<length q. i < j \<longrightarrow> q ! j \<noteq> None"
     "out0 @ concat fs = out (o_net w) @ pbuf @ concat (map the (drop (Suc i) q))"
    using assms by (auto simp: queue_ok_def)
  obtain net where n: "ConnWrite V pbuf (o_net w) = (net, None)" "out net = out (o_net w) @ pbuf"
    using assms(2) unfolding collects_def by (metis prod.collapse)
  show ?thesis
  proof (cases "length q \<le> Suc i")
    case True
    then show ?thesis using q n assms(3,4) by (auto simp: queue_ok_def writer_step_def writer_next_def)
  next
    case False
    then have "q ! Suc i \<noteq> None" using q(4) by simp
    then obtain p where p: "q ! Suc i = Some p" by blast
    have w': "writer_step V w = w\<lparr>o_net := net, o_sendQueue := Some (q[Suc i := None]), o_writer := Some (p, Suc i)\<rparr>"
      using False q n p assms(3,4) by (simp add: writer_step_def writer_next_def)
    have "drop (Suc (Suc i)) (q[Suc i := None]) = drop (Suc (Suc i)) q" by simp
    moreover have "concat (map the (drop (Suc i) q)) = p @ concat (map the (drop (Suc (Suc i)) q))"
      using False p by (simp add: drop_nth_Cons)
    moreover have "\<forall>j\<le>Suc i. q[Suc i := None] ! j = None" using q False by (auto simp: nth_list_update le_Suc_eq)
    moreover have "\<forall>j<length q. Suc i < j \<longrightarrow> q[Suc i := None] ! j \<noteq> None" using q by auto
    ultimately show ?thesis unfolding w' using q(5) n(2) False by (auto simp: queue_ok_def)
  qed
qed

lemma enqueue_fields: "enqueue f q w = (w', r) \<Longrightarrow> o_closed w' = o_closed w"
  by (auto simp: enqueue_def Let_def split: if_splits)

lemma writer_step_closed: "collects V out \<Longrightarrow> o_closed (writer_step V w) = o_closed w"
  unfolding collects_def
  by (auto simp: writer_step_def writer_next_def SetCloseError_def split: option.splits prod.splits)

lemma queue_run_ok:
  assumes "queue_run V w0 fs w" "collects V out" "\<not> o_closed w0" "o_sendQueue w0 = Some []" "o_writer w0 = None"
  shows "queue_ok out (out (o_net w0)) fs w \<and> \<not> o_closed w"
  using assms
proof (induction rule: queue_run.induct)
  case run_start
  then show ?case by (simp add: queue_ok_def)
next
  case (run_enqueue fs w q f w')
  then show ?case using queue_ok_enqueue [of out _ fs w q f w'] enqueue_fields by fastforce
next
  case (run_writer fs w)
  then show ?case using queue_ok_writer [of out _ fs w V] writer_step_closed [of V out w] by (auto)
qed

lemma queue_rest_step:
  assumes "collects V out" "o_writer w \<noteq> None" "queue_ok out out0 fs w" "\<not> o_closed w"
  shows "queue_rest (writer_step V w) < queue_rest w"
proof -
  obtain pbuf i where i: "o_writer w = Some (pbuf, i)" using assms by auto
  obtain q where q: "o_sendQueue w = Some q" "i < length q" using assms i by (auto simp: queue_ok_def)
  obtain net where n: "ConnWrite V pbuf (o_net w) = (net, None)"
    using assms(1) unfolding collects_def by (metis prod.collapse)
  show ?thesis using i q n assms(4)
    by (auto simp: writer_step_def writer_next_def queue_rest_def split: option.split)
qed

lemma queue_drains:
  assumes "collects V out" "queue_ok out out0 fs w" "\<not> o_closed w"
  shows "\<exists>n. o_writer ((writer_step V ^^ n) w) = None \<and> out (o_net ((writer_step V ^^ n) w)) = out0 @ concat fs"
  using assms(2,3)
proof (induction "queue_rest w" arbitrary: w rule: less_induct)
  case less
  show ?case
  proof (cases "o_writer w")
    case None
    then show ?thesis using less.prems by (intro exI [of _ 0]) (auto simp: queue_ok_def)
  next
    case (Some pi)
    obtain pbuf i where pi: "o_writer w = Some (pbuf, i)" using Some by (cases pi) auto
    have "queue_ok out out0 fs (writer_step V w)" "\<not> o_closed (writer_step V w)"
      using queue_ok_writer [OF less.prems(1) assms(1) less.prems(2) pi] writer_step_closed [OF assms(1)] less.prems by auto
    moreover have "queue_rest (writer_step V w) < queue_rest w"
      using queue_rest_step [OF assms(1) _ less.prems] Some by simp
    ultimately obtain n where "o_writer ((writer_step V ^^ n) (writer_step V w)) = None"
       "out (o_net ((writer_step V ^^ n) (writer_step V w))) = out0 @ concat fs"
      using less.hyps by blast
    then show ?thesis by (intro exI [of _ "Suc n"]) (simp add: funpow_Suc_right del: funpow.simps)
  qed
qed

end
