(* ===== verification/WsProps.thy ===== *)
theory WsProps
  imports WsRoundtrip
begin

unbundle bit_operations_syntax

text \<open>
  The properties of the websocket connection, with a collecting network and a recording handler as
  the concrete instances at which they are applied.
\<close>

definition queue_pending :: "'o wwriter \<Rightarrow> octets list" where
  "queue_pending w = (case o_writer w of None \<Rightarrow> [] | Some (pbuf, i) \<Rightarrow>
     pbuf # (case o_sendQueue w of None \<Rightarrow> [] | Some q \<Rightarrow> map the (drop (Suc i) q)))"

definition test_out :: "octets wout" where
  "test_out = \<lparr>MaxWebsocketFramePayloadSize = 125, Compress = (\<lambda>d. (False, None)), RandUint32 = (\<lambda>n. (n, 0x01020304)),
     ConnWrite = (\<lambda>b n. (n @ b, None))\<rparr>"

definition test_writer :: "bool \<Rightarrow> octets option list option \<Rightarrow> octets wwriter" where
  "test_writer isClient q = \<lparr>o_closed = False, o_closeErr = None, o_isClient = isClient, o_remoteCompressionEnabled = False,
     o_enableWriteCompression = False, o_sendQueue = q, o_sendQueueSize = 0, o_writer = None, o_net = []\<rparr>"

definition test_wenv :: "ws_event list wenv" where
  "test_wenv = \<lparr>WReadLimit = 0, MessageLengthLimit = 0, enableCompression = False, hasMessageHandler = True,
     hasDataFrameHandler = False, Decompress = (\<lambda>z. Inr z), Handle = (\<lambda>e h. (h @ [e], False)),
     WriteClose1009 = (\<lambda>e h. h)\<rparr>"



lemma collects_test_out [simp]: "collects test_out id"
  by (simp add: collects_def test_out_def)


lemma dataFrame_events:
  assumes "dataFrame W f c = (c1, Inr evs)" "EvMessage mt m \<in> set evs"
  shows "w_compress (if w_msgType c = 0 then c\<lparr>w_compress := fr_res1 f\<rparr> else c) \<or> length m \<le> msgLen c + length (fr_body f)"
  using assms by (auto simp: dataFrame_def Let_def msgLen_def split: if_splits option.splits sum.splits)



text \<open>
  C9: What the reading loop does with a byte stream does not depend on how the stream is cut into
  reads: same events, same connection state, same error (after an error or a close only the cached
  bytes are left out of the comparison). The handlers may close the connection at any event.
\<close>

theorem wsParse_any_cut:
  assumes "wready W c (length (concat ds))" "concat ds = concat ds'" "ds \<noteq> []" "ds' \<noteq> []"
  shows "map_option wforget (feed_all (\<lambda>d c. Some (wsParse W d c)) ds c) =
    map_option wforget (feed_all (\<lambda>d c. Some (wsParse W d c)) ds' c)"
  using assms(2,3,4,1) by (rule ws.feed_all_recut)

theorem wsParse_any_cut_witness:
  "map_option wforget (feed_all (\<lambda>d c. Some (wsParse test_wenv d c)) [[0x81], [2, 104, 105, 0x89]] (newConn [])) =
   map_option wforget (feed_all (\<lambda>d c. Some (wsParse test_wenv d c)) [[0x81, 2, 104], [105, 0x89]] (newConn []))"
  by (rule wsParse_any_cut) (simp_all, code_simp)

text \<open>
  C25: \<open>maskXOR\<close>, which works on 64-bit words with an unrolled loop, is the bytewise exclusive or
  with the four key bytes in turn, for every length, and is its own inverse.
\<close>

theorem maskXOR_bytewise:
  assumes "length key = 4"
  shows "length (maskXOR b key) = length b \<and> (\<forall>i<length b. maskXOR b key ! i = b ! i XOR key ! (i mod 4)) \<and>
    maskXOR (maskXOR b key) key = b"
  using assms by (simp add: maskXOR_spec)

theorem maskXOR_bytewise_witness:
  "maskXOR [1, 2, 3, 4, 5, 6, 7, 8, 9] [1, 2, 3, 4] ! 8 = 8"
proof -
  have "maskXOR [1, 2, 3, 4, 5, 6, 7, 8, 9] [1, 2, 3, 4] ! 8 =
      [1, 2, 3, 4, 5, 6, 7, 8, 9] ! 8 XOR [1, 2, 3, 4] ! (8 mod 4)"
    using maskXOR_bytewise [of "[1, 2, 3, 4]" "[1, 2, 3, 4, 5, 6, 7, 8, 9]"] by (simp del: nth_Cons_numeral)
  also have "\<dots> = 8" by code_simp
  finally show ?thesis .
qed

text \<open>
  C16: The asynchronous send queue: in every interleaving of writers and the draining goroutine, what
  has been written to the connection followed by what is still pending is exactly the frames
  accepted, in order; and the goroutine reaches the end of the queue with all of them written.
\<close>

theorem send_queue_fifo:
  assumes "queue_run V w0 fs w" "collects V out" "\<not> o_closed w0" "o_sendQueue w0 = Some []" "o_writer w0 = None"
  shows "out (o_net w) @ concat (queue_pending w) = out (o_net w0) @ concat fs \<and>
    (\<exists>n. o_writer ((writer_step V ^^ n) w) = None \<and>
         out (o_net ((writer_step V ^^ n) w)) = out (o_net w0) @ concat fs)"
proof -
  note ok = queue_run_ok [OF assms]
  then have "out (o_net w) @ concat (queue_pending w) = out (o_net w0) @ concat fs"
    by (auto simp: queue_ok_def queue_pending_def split: option.splits)
  then show ?thesis using queue_drains [OF assms(2), of "out (o_net w0)" fs w] ok by blast
qed

theorem send_queue_fifo_witness:
  "\<exists>w. queue_run test_out (test_writer False (Some [])) [[1], [2, 3]] w \<and>
     o_net w @ concat (queue_pending w) = [1, 2, 3]"
proof -
  let ?w0 = "test_writer False (Some [])"
  let ?w1 = "fst (enqueue [1] [] ?w0)"
  let ?w2 = "writer_step test_out (fst (enqueue [2, 3] [None] ?w1))"
  have "queue_run test_out ?w0 ([] @ [[1]]) ?w1"
    by (rule run_enqueue [OF run_start, of _ "[]"]) (simp_all add: test_writer_def enqueue_def)
  then have "queue_run test_out ?w0 (([] @ [[1]]) @ [[2, 3]]) (fst (enqueue [2, 3] [None] ?w1))"
    by (rule run_enqueue [where q = "[None]"]) (simp_all add: test_writer_def enqueue_def)
  then have r: "queue_run test_out ?w0 [[1], [2, 3]] ?w2"
    using run_writer [of test_out ?w0 "([] @ [[1]]) @ [[2, 3]]" "fst (enqueue [2, 3] [None] ?w1)"]
    by (simp add: test_writer_def enqueue_def)
  from send_queue_fifo [OF r collects_test_out] have "o_net ?w2 @ concat (queue_pending ?w2) = [1, 2, 3]"
    by (simp add: test_writer_def)
  with r show ?thesis by blast
qed

text \<open>
  C29: A message that is not compressed and is handed to the application is never longer than
  \<open>MessageLengthLimit\<close>, nor is the message being assembled.
\<close>

theorem message_within_limit:
  assumes "nextFrame W (cachedBytes c) (msgLen c) (w_expectingFragments c) = Inr (Some f)"
    and "oneFrame W f c = (c1, Inr evs)" "int (length (cachedBytes c) + msgLen c) < 2 ^ 62"
    and "0 < MessageLengthLimit W" "\<not> w_compress c" "\<not> fr_res1 f"
  shows "(\<forall>mt m. EvMessage mt m \<in> set evs \<longrightarrow> int (length m) \<le> MessageLengthLimit W) \<and>
    int (msgLen c1) \<le> MessageLengthLimit W"
proof -
  have l: "int (msgLen c + length (fr_body f)) \<le> MessageLengthLimit W"
    using nextFrame_SomeD [OF assms(1,3)] assms(4) by simp
  have "length m \<le> msgLen c + length (fr_body f)" if "EvMessage mt m \<in> set evs" for mt m
    using assms(2) that dataFrame_events [of W f c c1 evs mt m] assms(5,6)
    by (auto simp: oneFrame_def split: if_splits)
  then show ?thesis using l oneFrame_msgLen [OF assms(2)] by force
qed

theorem message_within_limit_witness:
  "let W = test_wenv\<lparr>MessageLengthLimit := 3\<rparr>; c = (newConn [])\<lparr>w_bytesCached := Some [0x81, 2, 104, 105]\<rparr>;
       f = \<lparr>fr_total = 4, fr_opcode = 1, fr_body = [104, 105], fr_fin = True, fr_res1 = False\<rparr>
   in \<forall>mt m. EvMessage mt m \<in> set [EvMessage 1 [104, 105]] \<longrightarrow> int (length m) \<le> MessageLengthLimit W"
proof -
  let ?W = "test_wenv\<lparr>MessageLengthLimit := 3\<rparr>" let ?c = "(newConn [])\<lparr>w_bytesCached := Some [0x81, 2, 104, 105]\<rparr>"
  let ?f = "\<lparr>fr_total = 4, fr_opcode = 1, fr_body = [104, 105], fr_fin = True, fr_res1 = False\<rparr>"
  have n: "nextFrame ?W (cachedBytes ?c) (msgLen ?c) (w_expectingFragments ?c) = Inr (Some ?f)" by code_simp
  have o: "oneFrame ?W ?f ?c = (?c, Inr [EvMessage 1 [104, 105]])" by code_simp
  have "int (length (cachedBytes ?c) + msgLen ?c) < 2 ^ 62" "0 < MessageLengthLimit ?W" "\<not> w_compress ?c" "\<not> fr_res1 ?f"
    by (code_simp, code_simp, code_simp, simp)
  from message_within_limit [OF n o this] show ?thesis by (simp add: Let_def)
qed



text \<open>
  The codes accepted in a received close frame: those RFC 6455 lets an endpoint send, the ranges
  for libraries and applications, and also 1015, which the RFC forbids in a frame.
\<close>

theorem validCloseCode_range:
  "validCloseCode code \<longleftrightarrow> code \<in> {1000..1003} \<union> {1007..1011} \<union> {1015} \<union> {3000..4999}"
  by (auto simp: validCloseCode_def)

text \<open>
  The length check of \<open>nextFrame\<close> adds lengths in 64-bit arithmetic, so an announced length close to
  the maximum passes the check when a fragment is already assembled: the frame is waited for
  instead of being refused.
\<close>

theorem limit_bypassed_by_overflow:
  "nextFrame (test_wenv\<lparr>MessageLengthLimit := 100\<rparr>) [0x80, 127, 0x7F, 0xFF, 0xFF, 0xFF, 0xFF, 0xFF, 0xFF, 0xF0] 20 True = Inr None \<and>
   nextFrame (test_wenv\<lparr>MessageLengthLimit := 100\<rparr>) [0x80, 127, 0x7F, 0xFF, 0xFF, 0xFF, 0xFF, 0xFF, 0xFF, 0xF0] 0 True = Inl ErrMessageTooLarge"
  by code_simp

text \<open>
  Two cases in which the application is not told what the peer sent. A complete data message
  with an empty payload produces no event at all. And when only a data frame handler is set,
  the type of the first message is kept for good: every later frame is reported with it.
\<close>

theorem data_events_lost:
  assumes "fr_opcode f \<in> {TextMessage, BinaryMessage}" "fr_fin f" "\<not> fr_res1 f"
  shows "(hasMessageHandler W \<and> widle c \<and> fr_body f = [] \<longrightarrow> oneFrame W f c = (c, Inr [])) \<and>
    (\<not> hasMessageHandler W \<and> hasDataFrameHandler W \<and> w_msgType c \<noteq> 0 \<and> fr_body f \<noteq> [] \<longrightarrow>
       oneFrame W f c = (c, Inr [EvFrame (w_msgType c) True (fr_body f)]))"
  using assms by (cases c) (auto simp: oneFrame_def dataFrame_def widle_def Let_def)

theorem data_events_lost_witness:
  "oneFrame (test_wenv\<lparr>hasMessageHandler := False, hasDataFrameHandler := True\<rparr>)
     \<lparr>fr_total = 3, fr_opcode = TextMessage, fr_body = [97], fr_fin = True, fr_res1 = False\<rparr>
     ((newConn [])\<lparr>w_msgType := BinaryMessage\<rparr>) =
   ((newConn [])\<lparr>w_msgType := BinaryMessage\<rparr>, Inr [EvFrame BinaryMessage True [97]])"
  using data_events_lost [of "\<lparr>fr_total = 3, fr_opcode = TextMessage, fr_body = [97], fr_fin = True, fr_res1 = False\<rparr>"
      "test_wenv\<lparr>hasMessageHandler := False, hasDataFrameHandler := True\<rparr>" "(newConn [])\<lparr>w_msgType := BinaryMessage\<rparr>"]
  by simp

end
