(* ===== verification/ConnUnix.thy ===== *)
theory ConnUnix
  imports Prelude
begin

text \<open>
  The write side of a connection on Unix systems: \<open>conn_unix.go\<close>, \<open>sendfile_unix.go\<close> and
  \<open>writev_linux.go\<close>. A connection keeps a list of buffers and files that the kernel did not take
  yet (\<open>writeList\<close>) and flushes it when the poller reports the socket writable. The kernel is the
  dictionary \<open>kenv\<close>: each system call is a function of its arguments and of the kernel state, so
  that partial writes, \<open>EAGAIN\<close>, \<open>EINTR\<close> and failures occur in any pattern. Effects outside the
  connection (poller interest, closing of descriptors, callbacks) are recorded in \<open>n_log\<close>.

  A queued item of the code has a zero \<open>fd\<close> for a buffer; here a buffer and a file are the two
  constructors of \<open>toWrite\<close>. Buffers are modelled by their contents, so the capacity and the pooled
  reallocation in \<open>newToWriteBuf\<close> do not appear. A call that would not return is \<open>None\<close>.
\<close>

datatype errno = EAGAIN | EINTR | EFatal string

datatype conn_err = NErrClosed | NErrEOF | NErrOverflow | NErrReadTimeout | NErrWriteTimeout | NErrno errno

datatype ConnType =
    ConnTypeTCP
  | ConnTypeUDPServer
  | ConnTypeUDPClientFromRead
  | ConnTypeUDPClientFromDial
  | ConnTypeUnix

datatype toWrite = TBuf octets nat | TFile int nat int

datatype net_action =
    PollModWrite
  | PollResetRead
  | PollDeleteConn
  | CloseSocket
  | CloseUDP
  | CloseFile int
  | WrittenSize octets int

record 'k kenv =
  sysWrite :: "octets \<Rightarrow> 'k \<Rightarrow> 'k \<times> int \<times> errno option"
  sysSendto :: "octets \<Rightarrow> 'k \<Rightarrow> 'k \<times> errno option"
  sysWritev :: "octets list \<Rightarrow> 'k \<Rightarrow> 'k \<times> int \<times> errno option"
  sysSendfile :: "int \<Rightarrow> nat \<Rightarrow> int \<Rightarrow> 'k \<Rightarrow> 'k \<times> int \<times> errno option"
  sysDup :: "int \<Rightarrow> 'k \<Rightarrow> 'k \<times> (errno + int)"
  MaxWriteBufferSize :: int
  isOneshot :: bool

record 'k conn =
  n_left :: int
  n_writeList :: "toWrite list"
  n_typ :: ConnType
  n_closed :: bool
  n_isWAdded :: bool
  n_closeErr :: "conn_err option"
  n_rTimer :: "int option"
  n_wTimer :: "int option"
  n_log :: "net_action list"
  n_k :: 'k

definition maxWriteCacheOrFlushSize :: nat where
  "maxWriteCacheOrFlushSize = 1024 * 64"

definition maxSendfileSize :: int where
  "maxSendfileSize = 4194304"

definition log_act :: "net_action \<Rightarrow> 'k conn \<Rightarrow> 'k conn" where
  "log_act a c = c\<lparr>n_log := n_log c @ [a]\<rparr>"

definition isDatagram :: "'k conn \<Rightarrow> bool" where
  "isDatagram c \<longleftrightarrow> n_typ c \<in> {ConnTypeUDPServer, ConnTypeUDPClientFromRead, ConnTypeUDPClientFromDial}"

definition newToWriteBuf :: "octets \<Rightarrow> 'k conn \<Rightarrow> 'k conn" where
  "newToWriteBuf buf c0 =
     (let c = c0\<lparr>n_left := n_left c0 + int (length buf)\<rparr>;
          appended = c\<lparr>n_writeList := n_writeList c @ [TBuf buf 0]\<rparr>
      in if n_writeList c = [] then appended
         else case last (n_writeList c) of
           TFile _ _ _ \<Rightarrow> appended
         | TBuf tail off \<Rightarrow>
             if length tail + length buf > maxWriteCacheOrFlushSize then appended
             else c\<lparr>n_writeList := butlast (n_writeList c) @ [TBuf (tail @ buf) off]\<rparr>)"

definition newToWriteFile :: "int \<Rightarrow> nat \<Rightarrow> int \<Rightarrow> 'k conn \<Rightarrow> 'k conn" where
  "newToWriteFile fd offset remain c = c\<lparr>n_writeList := n_writeList c @ [TFile fd offset remain]\<rparr>"

fun releaseToWrite :: "toWrite \<Rightarrow> 'k conn \<Rightarrow> 'k conn" where
  "releaseToWrite (TBuf b off) c = c"
| "releaseToWrite (TFile fd off rem) c = (if fd > 0 then log_act (CloseFile fd) c else c)"

definition modWrite :: "'k conn \<Rightarrow> 'k conn" where
  "modWrite c = (if \<not> n_closed c \<and> \<not> n_isWAdded c
     then log_act PollModWrite (c\<lparr>n_isWAdded := True\<rparr>) else c)"

definition resetRead :: "'k conn \<Rightarrow> 'k conn" where
  "resetRead c = (if \<not> n_closed c \<and> n_isWAdded c
     then log_act PollResetRead (c\<lparr>n_isWAdded := False\<rparr>) else c)"

definition overflow :: "'k kenv \<Rightarrow> int \<Rightarrow> 'k conn \<Rightarrow> bool" where
  "overflow K n c \<longleftrightarrow> MaxWriteBufferSize K > 0 \<and> n_left c + n > MaxWriteBufferSize K"

definition closeWithErrorWithoutLock :: "conn_err option \<Rightarrow> 'k conn \<Rightarrow> 'k conn" where
  "closeWithErrorWithoutLock err c =
     (let c1 = fold releaseToWrite (n_writeList c) (c\<lparr>n_closeErr := err\<rparr>);
          c2 = log_act PollDeleteConn (c1\<lparr>n_writeList := []\<rparr>)
      in case n_typ c of
           ConnTypeTCP \<Rightarrow> log_act CloseSocket c2
         | ConnTypeUnix \<Rightarrow> log_act CloseSocket c2
         | _ \<Rightarrow> log_act CloseUDP c2)"

definition closeWithError :: "conn_err option \<Rightarrow> 'k conn \<Rightarrow> 'k conn" where
  "closeWithError err c =
     (if \<not> n_closed c
      then closeWithErrorWithoutLock err (c\<lparr>n_closed := True, n_wTimer := None, n_rTimer := None\<rparr>)
      else c)"

text \<open>\<open>doWrite\<close>, with the callback on the bytes written.\<close>

definition doWrite :: "'k kenv \<Rightarrow> octets \<Rightarrow> 'k conn \<Rightarrow> 'k conn \<times> int \<times> errno option" where
  "doWrite K b c =
     (let (k, n, err) =
        (case n_typ c of
           ConnTypeTCP \<Rightarrow> sysWrite K b (n_k c)
         | ConnTypeUnix \<Rightarrow> sysWrite K b (n_k c)
         | ConnTypeUDPServer \<Rightarrow> (n_k c, 0, None)
         | ConnTypeUDPClientFromDial \<Rightarrow> sysWrite K b (n_k c)
         | ConnTypeUDPClientFromRead \<Rightarrow>
             (case sysSendto K b (n_k c) of
                (k, Some e) \<Rightarrow> (k, 0, Some e) | (k, None) \<Rightarrow> (k, int (length b), None)));
          c = c\<lparr>n_k := k\<rparr>
      in (if n > 0 then log_act (WrittenSize (take (nat n) b) n) c else c, n, err))"

definition fatal :: "errno option \<Rightarrow> bool" where
  "fatal err \<longleftrightarrow> err \<noteq> None \<and> err \<noteq> Some EINTR \<and> err \<noteq> Some EAGAIN"

definition nwrite :: "'k kenv \<Rightarrow> octets \<Rightarrow> 'k conn \<Rightarrow> 'k conn \<times> int \<times> conn_err option" where
  "nwrite K b c =
     (if b = [] then (c, 0, None)
      else if overflow K (int (length b)) c then (c, -1, Some NErrOverflow)
      else if n_writeList c = [] then
        (let (c1, n, err) = doWrite K b c in
         if fatal err then (c1, n, map_option NErrno err)
         else
           (let n = (if n < 0 then 0 else n); left = int (length b) - n in
            (if left > 0 \<and> (n_typ c1 = ConnTypeTCP \<or> n_typ c1 = ConnTypeUnix)
             then newToWriteBuf (drop (nat n) b) c1 else c1, int (length b), None)))
      else (newToWriteBuf b c, int (length b), None))"

text \<open>The end of \<open>Write\<close> and \<open>Writev\<close>: a failure closes the connection, and what is queued needs the
  write event.\<close>

definition afterWrite :: "'k conn \<times> int \<times> conn_err option \<Rightarrow> 'k conn \<times> int \<times> conn_err option" where
  "afterWrite r =
     (case r of (c, n, err) \<Rightarrow>
        if err \<noteq> None \<and> err \<noteq> Some (NErrno EINTR) \<and> err \<noteq> Some (NErrno EAGAIN)
        then (closeWithErrorWithoutLock err (c\<lparr>n_closed := True\<rparr>), n, err)
        else (if n_writeList c = [] then c\<lparr>n_wTimer := None\<rparr> else modWrite c, n, err))"

definition Write :: "'k kenv \<Rightarrow> octets \<Rightarrow> 'k conn \<Rightarrow> 'k conn \<times> int \<times> conn_err option" where
  "Write K b c = (if n_closed c then (c, -1, Some NErrClosed) else afterWrite (nwrite K b c))"

text \<open>The system call of \<open>writev_linux.go\<close>: only the buffers with bytes are passed.\<close>

definition sys_writev :: "'k kenv \<Rightarrow> octets list \<Rightarrow> 'k conn \<Rightarrow> 'k conn \<times> int \<times> errno option" where
  "sys_writev K bs c =
     (let iovs = filter (\<lambda>b. b \<noteq> []) bs in
      if iovs \<noteq> [] then (case sysWritev K iovs (n_k c) of (k, n, err) \<Rightarrow> (c\<lparr>n_k := k\<rparr>, n, err))
      else (c, 0, None))"

text \<open>The loop of \<open>writev\<close> after a partial write of \<open>n\<close> bytes; it ends as soon as \<open>n\<close> is used up.\<close>

fun writev_rest :: "octets list \<Rightarrow> int \<Rightarrow> 'k conn \<Rightarrow> 'k conn" where
  "writev_rest [] n c = c"
| "writev_rest (b # bs) n c =
     (if \<not> n > 0 then c
      else if n < int (length b) then
        writev_rest bs 0 (newToWriteBuf (drop (nat n) b) (log_act (WrittenSize (take (nat n) b) n) c))
      else writev_rest bs (n - int (length b)) (log_act (WrittenSize b (int (length b))) c))"

definition nwritev :: "'k kenv \<Rightarrow> octets list \<Rightarrow> 'k conn \<Rightarrow> 'k conn \<times> int \<times> conn_err option" where
  "nwritev K bs c =
     (let sz = int (length (concat bs)) in
      if overflow K sz c then (c, -1, Some NErrOverflow)
      else if n_writeList c \<noteq> [] then (fold newToWriteBuf bs c, sz, None)
      else
        (let (c1, n, err) = sys_writev K bs c in
         if n > 0 then (if n < sz then writev_rest bs n c1 else c1, n, map_option NErrno err)
         else (c1, 0, map_option NErrno err)))"

definition Writev :: "'k kenv \<Rightarrow> octets list \<Rightarrow> 'k conn \<Rightarrow> 'k conn \<times> int \<times> conn_err option" where
  "Writev K bs c =
     (if n_closed c then (c, 0, Some NErrClosed)
      else afterWrite (case bs of [b] \<Rightarrow> nwrite K b c | _ \<Rightarrow> nwritev K bs c))"

text \<open>\<open>flush\<close>: \<open>writeBuffer\<close> and \<open>writeFile\<close> on the head of the list.\<close>

definition writeBuffer :: "'k kenv \<Rightarrow> octets \<Rightarrow> nat \<Rightarrow> toWrite list \<Rightarrow> 'k conn \<Rightarrow> 'k conn \<times> errno option" where
  "writeBuffer K hbuf off ts c =
     (let buf = drop off hbuf; (k, n, err) = sysWrite K buf (n_k c); c = c\<lparr>n_k := k\<rparr> in
      if n > 0 then
        (let c = log_act (WrittenSize (take (nat n) buf) n) (c\<lparr>n_left := n_left c - n\<rparr>) in
         (c\<lparr>n_writeList := (if int (length buf) = n then ts else TBuf hbuf (off + nat n) # ts)\<rparr>, err))
      else (c, err))"

partial_function (option) writeFile ::
  "'k kenv \<Rightarrow> int \<Rightarrow> nat \<Rightarrow> int \<Rightarrow> toWrite list \<Rightarrow> 'k conn \<Rightarrow> ('k conn \<times> errno option) option" where
  "writeFile K fd off rem ts c =
     (if rem > 0 then
        (case sysSendfile K fd off rem (n_k c) of (k, n, err) \<Rightarrow>
          (let c = c\<lparr>n_k := k\<rparr> in
           if n > 0 then
             (let rem' = rem - n; off' = off + nat n; c = log_act (WrittenSize [] n) c;
                  c = (if rem' \<le> 0 then (releaseToWrite (TFile fd off' rem') c)\<lparr>n_writeList := ts\<rparr>
                       else c\<lparr>n_writeList := TFile fd off' rem' # ts\<rparr>)
              in if err \<noteq> None then Some (c, err) else writeFile K fd off' rem' ts c)
           else if err \<noteq> None then Some (c, err) else writeFile K fd off rem ts c))
      else Some (c, None))"

partial_function (option) flush_loop :: "'k kenv \<Rightarrow> 'k conn \<Rightarrow> ('k conn \<times> conn_err option) option" where
  "flush_loop K c =
     (case n_writeList c of
        [] \<Rightarrow> Some (resetRead c, None)
      | t # ts \<Rightarrow>
          (case (case t of TBuf b off \<Rightarrow> Some (writeBuffer K b off ts c)
                 | TFile fd off rem \<Rightarrow> writeFile K fd off rem ts c) of
             None \<Rightarrow> None
           | Some (c1, err) \<Rightarrow>
               if err = Some EINTR then flush_loop K c1
               else if err = Some EAGAIN then
                 Some (if isOneshot K then log_act PollModWrite c1 else c1, None)
               else if err \<noteq> None then
                 Some (closeWithErrorWithoutLock (map_option NErrno err) (c1\<lparr>n_closed := True\<rparr>), map_option NErrno err)
               else flush_loop K c1))"

definition flush :: "'k kenv \<Rightarrow> 'k conn \<Rightarrow> ('k conn \<times> conn_err option) option" where
  "flush K c =
     (if n_closed c then Some (c, Some NErrClosed)
      else if n_writeList c = [] then Some (c, None)
      else flush_loop K c)"

text \<open>
  \<open>Sendfile\<close>, from the point where the file's descriptor \<open>src\<close>, its offset and its size are known.
\<close>

partial_function (option) sendfile_loop ::
  "'k kenv \<Rightarrow> int \<Rightarrow> nat \<Rightarrow> int \<Rightarrow> 'k conn \<Rightarrow> ('k conn \<times> conn_err option) option" where
  "sendfile_loop K src off rem c =
     (if rem > 0 then
        (case sysSendfile K src off (if maxSendfileSize > rem then rem else maxSendfileSize) (n_k c) of
           (k, n, err) \<Rightarrow>
             (let c = c\<lparr>n_k := k\<rparr>;
                  rem' = (if n > 0 then rem - n else rem); off' = (if n > 0 then off + nat n else off) in
              if n = 0 \<and> err = None then Some (c, None)
              else if err = Some EINTR then sendfile_loop K src off' rem' c
              else if err = Some EAGAIN then
                (case sysDup K src (n_k c) of
                   (k, Inr fd) \<Rightarrow> Some (modWrite (newToWriteFile fd off' rem' (c\<lparr>n_k := k\<rparr>)), None)
                 | (k, Inl e) \<Rightarrow> Some (c\<lparr>n_k := k\<rparr>, None))
              else if err \<noteq> None then
                Some (closeWithErrorWithoutLock (map_option NErrno err) (c\<lparr>n_closed := True\<rparr>), map_option NErrno err)
              else sendfile_loop K src off' rem' c))
      else Some (c, None))"

definition Sendfile ::
  "'k kenv \<Rightarrow> int \<Rightarrow> nat \<Rightarrow> nat \<Rightarrow> int \<Rightarrow> 'k conn \<Rightarrow> ('k conn \<times> int \<times> conn_err option) option" where
  "Sendfile K src offset sz remain c =
     (if n_closed c then Some (c, 0, Some NErrClosed)
      else
        (let remain = (if remain \<le> 0 \<or> remain > int sz - int offset then int sz - int offset else remain) in
         if n_writeList c \<noteq> [] then
           (case sysDup K src (n_k c) of
              (k, Inl e) \<Rightarrow> Some (c\<lparr>n_k := k\<rparr>, 0, Some (NErrno e))
            | (k, Inr fd) \<Rightarrow> Some (newToWriteFile fd offset remain (c\<lparr>n_k := k\<rparr>), remain, None))
         else
           (case sendfile_loop K src offset remain c of
              None \<Rightarrow> None
            | Some (c', Some e) \<Rightarrow> Some (c', 0, Some e)
            | Some (c', None) \<Rightarrow> Some (c', remain, None))))"

text \<open>Deadlines: a set timer with its deadline, or none; zero time clears.\<close>

definition set_timer :: "int option \<Rightarrow> int option \<Rightarrow> int option" where
  "set_timer t timer = (case t of None \<Rightarrow> None | Some d \<Rightarrow> Some d)"

definition SetDeadline :: "int option \<Rightarrow> 'k conn \<Rightarrow> 'k conn" where
  "SetDeadline t c = (if n_closed c then c
     else c\<lparr>n_rTimer := set_timer t (n_rTimer c), n_wTimer := set_timer t (n_wTimer c)\<rparr>)"

definition SetReadDeadline :: "int option \<Rightarrow> 'k conn \<Rightarrow> 'k conn" where
  "SetReadDeadline t c = (if n_closed c then c else c\<lparr>n_rTimer := set_timer t (n_rTimer c)\<rparr>)"

definition SetWriteDeadline :: "int option \<Rightarrow> 'k conn \<Rightarrow> 'k conn" where
  "SetWriteDeadline t c = (if n_closed c then c else c\<lparr>n_wTimer := set_timer t (n_wTimer c)\<rparr>)"

definition rTimer_fires :: "'k conn \<Rightarrow> 'k conn" where
  "rTimer_fires c = closeWithError (Some NErrReadTimeout) c"

definition wTimer_fires :: "'k conn \<Rightarrow> 'k conn" where
  "wTimer_fires c = closeWithError (Some NErrWriteTimeout) c"

declare writeFile.simps [code] flush_loop.simps [code] sendfile_loop.simps [code]

end
