(* ===== verification/ConnStream.thy ===== *)
theory ConnStream
  imports ConnUnix
begin

text \<open>
  The write side of a connection as a byte stream. What the kernel does is constrained by
  \<open>kernel_ok\<close> only: a system call takes a prefix of what it is given or reports an error and takes
  nothing (\<open>out\<close> is what the peer's stream holds so far, \<open>cont\<close> the contents of a file). On such a
  kernel, \<open>stream\<close> (the bytes on the wire followed by the bytes queued) only ever grows by what the
  caller was told is written: \<open>conn_run\<close> ranges over all sequences of writes, vectored writes, file
  transfers and flushes. \<open>kernel_live\<close> adds that a call without an error takes at least a byte and
  that interrupts are finitely many (\<open>sig\<close> counts those left); then \<open>flush\<close> returns. \<open>kernel_wakes\<close>
  describes the poller: \<open>wake\<close> waits until the socket is writable again.
\<close>

fun item :: "(int \<Rightarrow> octets) \<Rightarrow> toWrite \<Rightarrow> octets" where
  "item cont (TBuf b off) = drop off b"
| "item cont (TFile fd off rem) = take (nat rem) (drop off (cont fd))"

fun item_ok :: "(int \<Rightarrow> octets) \<Rightarrow> toWrite \<Rightarrow> bool" where
  "item_ok cont (TBuf b off) \<longleftrightarrow> off \<le> length b"
| "item_ok cont (TFile fd off rem) \<longleftrightarrow> 0 < fd \<and> 0 \<le> rem \<and> int off + rem \<le> int (length (cont fd))"

fun buf_left :: "toWrite \<Rightarrow> int" where
  "buf_left (TBuf b off) = int (length b) - int off"
| "buf_left (TFile fd off rem) = 0"

definition pend :: "(int \<Rightarrow> octets) \<Rightarrow> 'k conn \<Rightarrow> octets" where
  "pend cont c = concat (map (item cont) (n_writeList c))"

definition cinv :: "(int \<Rightarrow> octets) \<Rightarrow> 'k conn \<Rightarrow> bool" where
  "cinv cont c \<longleftrightarrow> (\<forall>t\<in>set (n_writeList c). item_ok cont t) \<and> n_left c = sum_list (map buf_left (n_writeList c))"

definition armed :: "'k conn \<Rightarrow> bool" where
  "armed c \<longleftrightarrow> (n_writeList c \<noteq> [] \<longrightarrow> n_isWAdded c)"

definition write_ok :: "('k \<Rightarrow> octets) \<Rightarrow> octets \<Rightarrow> 'k \<Rightarrow> 'k \<times> int \<times> errno option \<Rightarrow> bool" where
  "write_ok out b k r = (case r of (k', n, e) \<Rightarrow>
     if e = None then 0 \<le> n \<and> n \<le> int (length b) \<and> out k' = out k @ take (nat n) b else n = -1 \<and> out k' = out k)"

definition sendfile_ok :: "('k \<Rightarrow> octets) \<Rightarrow> octets \<Rightarrow> nat \<Rightarrow> int \<Rightarrow> 'k \<Rightarrow> 'k \<times> int \<times> errno option \<Rightarrow> bool" where
  "sendfile_ok out content off cnt k r = (case r of (k', n, e) \<Rightarrow>
     if e = None then 0 \<le> n \<and> n \<le> int (length (take (nat cnt) (drop off content))) \<and> out k' = out k @ take (nat n) (drop off content)
     else n \<le> 0 \<and> out k' = out k)"

definition dup_ok :: "('k \<Rightarrow> octets) \<Rightarrow> (int \<Rightarrow> octets) \<Rightarrow> int \<Rightarrow> 'k \<Rightarrow> 'k \<times> (errno + int) \<Rightarrow> bool" where
  "dup_ok out cont fd k r = (case r of (k', x) \<Rightarrow> out k' = out k \<and> (\<forall>fd'. x = Inr fd' \<longrightarrow> 0 < fd' \<and> cont fd' = cont fd))"

definition kernel_ok :: "'k kenv \<Rightarrow> ('k \<Rightarrow> octets) \<Rightarrow> (int \<Rightarrow> octets) \<Rightarrow> bool" where
  "kernel_ok K out cont \<longleftrightarrow>
     (\<forall>b k. write_ok out b k (sysWrite K b k)) \<and>
     (\<forall>bs k. write_ok out (concat bs) k (sysWritev K bs k)) \<and>
     (\<forall>fd off cnt k. sendfile_ok out (cont fd) off cnt k (sysSendfile K fd off cnt k)) \<and>
     (\<forall>fd k. dup_ok out cont fd k (sysDup K fd k))"

text \<open>A stream connection that is open, with its queue and write event in order.\<close>

definition nready :: "(int \<Rightarrow> octets) \<Rightarrow> 'k conn \<Rightarrow> bool" where
  "nready cont c \<longleftrightarrow> \<not> n_closed c \<and> n_typ c \<in> {ConnTypeTCP, ConnTypeUnix} \<and> cinv cont c \<and> armed c"

definition stream :: "('k \<Rightarrow> octets) \<Rightarrow> (int \<Rightarrow> octets) \<Rightarrow> 'k conn \<Rightarrow> octets" where
  "stream out cont c = out (n_k c) @ pend cont c"

definition keeps :: "('k \<Rightarrow> octets) \<Rightarrow> (int \<Rightarrow> octets) \<Rightarrow> 'k conn \<Rightarrow> 'k conn \<Rightarrow> bool" where
  "keeps out cont c c' \<longleftrightarrow> cinv cont c' \<and> stream out cont c' = stream out cont c \<and> n_closed c' = n_closed c \<and>
     n_typ c' = n_typ c \<and> n_isWAdded c' = n_isWAdded c"

text \<open>The state after one successful \<open>sendfile\<close> of \<open>n\<close> bytes.\<close>

definition fileSent :: "int \<Rightarrow> nat \<Rightarrow> int \<Rightarrow> toWrite list \<Rightarrow> int \<Rightarrow> 'k \<Rightarrow> 'k conn \<Rightarrow> 'k conn" where
  "fileSent fd off rem ts n k c =
     (let rem' = rem - n; off' = off + nat n; c = log_act (WrittenSize [] n) (c\<lparr>n_k := k\<rparr>) in
      if rem' \<le> 0 then (releaseToWrite (TFile fd off' rem') c)\<lparr>n_writeList := ts\<rparr>
      else c\<lparr>n_writeList := TFile fd off' rem' # ts\<rparr>)"

definition live_result :: "('k \<Rightarrow> nat) \<Rightarrow> 'k \<Rightarrow> 'k \<times> int \<times> errno option \<Rightarrow> bool" where
  "live_result sig k r = (case r of (k', n, e) \<Rightarrow>
     (e = None \<longrightarrow> 0 < n) \<and> sig k' \<le> sig k \<and> (e = Some EINTR \<longrightarrow> sig k' < sig k))"

definition kernel_live :: "'k kenv \<Rightarrow> (int \<Rightarrow> octets) \<Rightarrow> ('k \<Rightarrow> nat) \<Rightarrow> bool" where
  "kernel_live K cont sig \<longleftrightarrow>
     (\<forall>b k. b \<noteq> [] \<longrightarrow> live_result sig k (sysWrite K b k)) \<and>
     (\<forall>fd off cnt k. 0 < cnt \<longrightarrow> int off + cnt \<le> int (length (cont fd)) \<longrightarrow>
        live_result sig k (sysSendfile K fd off cnt k))"

fun item_solid :: "toWrite \<Rightarrow> bool" where
  "item_solid (TBuf b off) \<longleftrightarrow> off < length b"
| "item_solid (TFile fd off rem) \<longleftrightarrow> 0 < rem"

definition solid :: "'k conn \<Rightarrow> bool" where
  "solid c \<longleftrightarrow> list_all item_solid (n_writeList c)"

fun work :: "toWrite list \<Rightarrow> nat" where
  "work [] = 0"
| "work (TBuf b off # ts) = Suc (length b - off) + work ts"
| "work (TFile fd off rem # ts) = 1 + work ts"

definition flush_step :: "'k kenv \<Rightarrow> toWrite \<Rightarrow> toWrite list \<Rightarrow> 'k conn \<Rightarrow> ('k conn \<times> errno option) option" where
  "flush_step K t ts c = (case t of TBuf b off \<Rightarrow> Some (writeBuffer K b off ts c)
                 | TFile fd off rem \<Rightarrow> writeFile K fd off rem ts c)"

definition dup_works :: "'k kenv \<Rightarrow> bool" where
  "dup_works K \<longleftrightarrow> (\<forall>fd k. \<exists>k' fd'. sysDup K fd k = (k', Inr fd'))"

text \<open>Any sequence of writes, vectored writes onto a waiting queue, file transfers and flushes.\<close>

inductive conn_run :: "'k kenv \<Rightarrow> (int \<Rightarrow> octets) \<Rightarrow> 'k conn \<Rightarrow> octets \<Rightarrow> 'k conn \<Rightarrow> bool" for K cont c0 where
  conn_start: "conn_run K cont c0 [] c0"
| conn_write: "conn_run K cont c0 bs c \<Longrightarrow> Write K b c = (c', n, None) \<Longrightarrow> conn_run K cont c0 (bs @ b) c'"
| conn_writev: "conn_run K cont c0 bs c \<Longrightarrow> Writev K vs c = (c', n, None) \<Longrightarrow> n = int (length (concat vs)) \<Longrightarrow> conn_run K cont c0 (bs @ concat vs) c'"
| conn_sendfile: "conn_run K cont c0 bs c \<Longrightarrow> off \<le> length (cont src) \<Longrightarrow> Sendfile K src off (length (cont src)) remain c = Some (c', n, None) \<Longrightarrow>
    conn_run K cont c0 (bs @ take (nat n) (drop off (cont src))) c'"
| conn_flush: "conn_run K cont c0 bs c \<Longrightarrow> flush K c = Some (c', None) \<Longrightarrow> conn_run K cont c0 bs c'"

definition kernel_healthy :: "'k kenv \<Rightarrow> (int \<Rightarrow> octets) \<Rightarrow> bool" where
  "kernel_healthy K cont \<longleftrightarrow>
     (\<forall>b k. snd (snd (sysWrite K b k)) \<in> {None, Some EAGAIN, Some EINTR}) \<and>
     (\<forall>fd off cnt k. snd (snd (sysSendfile K fd off cnt k)) \<in> {None, Some EAGAIN, Some EINTR})"

definition kernel_wakes :: "'k kenv \<Rightarrow> ('k \<Rightarrow> octets) \<Rightarrow> (int \<Rightarrow> octets) \<Rightarrow> ('k \<Rightarrow> 'k) \<Rightarrow> bool" where
  "kernel_wakes K out cont wake \<longleftrightarrow>
     (\<forall>k. out (wake k) = out k) \<and>
     (\<forall>b k. b \<noteq> [] \<longrightarrow> snd (snd (sysWrite K b (wake k))) = None) \<and>
     (\<forall>fd off cnt k. 0 < cnt \<longrightarrow> int off + cnt \<le> int (length (cont fd)) \<longrightarrow> snd (snd (sysSendfile K fd off cnt (wake k))) = None)"

fun flush_rounds :: "'k kenv \<Rightarrow> ('k \<Rightarrow> 'k) \<Rightarrow> nat \<Rightarrow> 'k conn \<Rightarrow> 'k conn option" where
  "flush_rounds K wake 0 c = Some c"
| "flush_rounds K wake (Suc m) c =
     (case flush K (c\<lparr>n_k := wake (n_k c)\<rparr>) of
        Some (c', None) \<Rightarrow> flush_rounds K wake m c'
      | _ \<Rightarrow> None)"

definition left_within :: "'k kenv \<Rightarrow> 'k conn \<Rightarrow> bool" where
  "left_within K c \<longleftrightarrow> (0 < MaxWriteBufferSize K \<longrightarrow> n_left c \<le> MaxWriteBufferSize K)"

lemma kernel_write:
  assumes "kernel_ok K out cont" "sysWrite K b k = (k', n, e)"
  shows "if e = None then 0 \<le> n \<and> n \<le> int (length b) \<and> out k' = out k @ take (nat n) b else n = -1 \<and> out k' = out k"
proof -
  have "write_ok out b k (k', n, e)" using assms unfolding kernel_ok_def by metis
  then show ?thesis by (simp add: write_ok_def)
qed

lemma kernel_writev:
  assumes "kernel_ok K out cont" "sysWritev K bs k = (k', n, e)"
  shows "if e = None then 0 \<le> n \<and> n \<le> int (length (concat bs)) \<and> out k' = out k @ take (nat n) (concat bs) else n = -1 \<and> out k' = out k"
proof -
  have "write_ok out (concat bs) k (k', n, e)" using assms unfolding kernel_ok_def by metis
  then show ?thesis by (simp add: write_ok_def)
qed

lemma kernel_sendfile:
  assumes "kernel_ok K out cont" "sysSendfile K fd off cnt k = (k', n, e)"
  shows "if e = None then 0 \<le> n \<and> n \<le> max 0 cnt \<and> (0 < n \<longrightarrow> int off + n \<le> int (length (cont fd))) \<and> out k' = out k @ take (nat n) (drop off (cont fd))
    else n \<le> 0 \<and> out k' = out k"
proof -
  have "sendfile_ok out (cont fd) off cnt k (k', n, e)" using assms unfolding kernel_ok_def by metis
  then show ?thesis by (auto simp: sendfile_ok_def)
qed

lemma kernel_dup:
  assumes "kernel_ok K out cont" "sysDup K fd k = (k', r)"
  shows "out k' = out k \<and> (\<forall>fd'. r = Inr fd' \<longrightarrow> 0 < fd' \<and> cont fd' = cont fd)"
proof -
  have "dup_ok out cont fd k (k', r)" using assms unfolding kernel_ok_def by metis
  then show ?thesis by (simp add: dup_ok_def)
qed

text \<open>Fields that logging, arming and the like leave alone.\<close>

lemma log_act_fields [simp]:
  "n_left (log_act a c) = n_left c" "n_writeList (log_act a c) = n_writeList c" "n_typ (log_act a c) = n_typ c"
  "n_closed (log_act a c) = n_closed c" "n_isWAdded (log_act a c) = n_isWAdded c" "n_k (log_act a c) = n_k c"
  by (simp_all add: log_act_def)

lemma cinv_cong: "n_writeList c = n_writeList d \<Longrightarrow> n_left c = n_left d \<Longrightarrow> cinv cont c = cinv cont d"
  by (simp add: cinv_def)

lemma pend_cong: "n_writeList c = n_writeList d \<Longrightarrow> pend cont c = pend cont d"
  by (simp add: pend_def)

lemma modWrite_fields [simp]:
  "n_left (modWrite c) = n_left c" "n_writeList (modWrite c) = n_writeList c" "n_typ (modWrite c) = n_typ c"
  "n_closed (modWrite c) = n_closed c" "n_k (modWrite c) = n_k c"
  by (simp_all add: modWrite_def)

lemma armed_modWrite: "\<not> n_closed c \<Longrightarrow> armed (modWrite c)"
  by (simp add: armed_def modWrite_def)

lemma resetRead_fields [simp]:
  "n_left (resetRead c) = n_left c" "n_writeList (resetRead c) = n_writeList c" "n_k (resetRead c) = n_k c"
  "n_closed (resetRead c) = n_closed c"
  by (simp_all add: resetRead_def)

lemma newToWriteBuf_queue:
  assumes "cinv cont c"
  shows "cinv cont (newToWriteBuf b c)" "pend cont (newToWriteBuf b c) = pend cont c @ b"
    "n_k (newToWriteBuf b c) = n_k c" "n_closed (newToWriteBuf b c) = n_closed c" "n_writeList (newToWriteBuf b c) \<noteq> []"
    "n_typ (newToWriteBuf b c) = n_typ c"
proof -
  have *: "cinv cont (newToWriteBuf b c) \<and> pend cont (newToWriteBuf b c) = pend cont c @ b \<and>
      n_k (newToWriteBuf b c) = n_k c \<and> n_closed (newToWriteBuf b c) = n_closed c \<and> n_writeList (newToWriteBuf b c) \<noteq> [] \<and>
      n_typ (newToWriteBuf b c) = n_typ c"
  proof (cases "n_writeList c" rule: rev_cases)
    case Nil
    then show ?thesis using assms by (simp add: newToWriteBuf_def cinv_def pend_def)
  next
    case (snoc ts t)
    then show ?thesis using assms
      by (cases t) (auto simp: newToWriteBuf_def cinv_def pend_def Let_def)
  qed
  show "cinv cont (newToWriteBuf b c)" "pend cont (newToWriteBuf b c) = pend cont c @ b"
    "n_k (newToWriteBuf b c) = n_k c" "n_closed (newToWriteBuf b c) = n_closed c" "n_writeList (newToWriteBuf b c) \<noteq> []"
    "n_typ (newToWriteBuf b c) = n_typ c"
    using * by auto
qed

lemma nwrite_stream:
  assumes K: "kernel_ok K out cont" and inv: "cinv cont c" and ty: "n_typ c \<in> {ConnTypeTCP, ConnTypeUnix}"
    and w: "nwrite K b c = (c', n, None)"
  shows "n = int (length b) \<and> cinv cont c' \<and> out (n_k c') @ pend cont c' = out (n_k c) @ pend cont c @ b \<and>
     n_closed c' = n_closed c \<and> n_typ c' = n_typ c"
proof (cases "b = [] \<or> n_writeList c \<noteq> []")
  case True
  then show ?thesis using w inv newToWriteBuf_queue [OF inv, of b] by (auto simp: nwrite_def split: if_splits)
next
  case False
  obtain k m e where s: "sysWrite K b (n_k c) = (k, m, e)" by (cases "sysWrite K b (n_k c)")
  note ks = kernel_write [OF K s]
  let ?c = "if m > 0 then log_act (WrittenSize (take (nat m) b) m) (c\<lparr>n_k := k\<rparr>) else c\<lparr>n_k := k\<rparr>"
  have d: "doWrite K b c = (?c, m, e)" using s ty by (auto simp: doWrite_def)
  have q: "cinv cont ?c" "pend cont ?c = []" "n_k ?c = k" "n_closed ?c = n_closed c" "n_typ ?c = n_typ c"
    using inv False cinv_cong [of ?c c] by (auto simp: pend_def)
  have nf: "\<not> fatal e" using w False d by (auto simp: nwrite_def Let_def fatal_def split: if_splits)
  define j where "j = (if m < 0 then 0 else nat m)"
  have j: "out k = out (n_k c) @ take j b" "j \<le> length b" using ks by (auto simp: j_def split: if_splits)
  have "nwrite K b c = (if j < length b then newToWriteBuf (drop j b) ?c else ?c, int (length b), None)"
    using False w d nf ty q(5) ks by (auto simp: nwrite_def Let_def j_def split: if_splits)
  then show ?thesis using w q j False newToWriteBuf_queue [OF q(1), of "drop j b"]
    by (auto simp: pend_def split: if_splits)
qed

lemma afterWrite_ok:
  assumes "afterWrite (c, n, None) = (c', m, e)"
  shows "m = n \<and> e = None \<and> n_writeList c' = n_writeList c \<and> n_left c' = n_left c \<and> n_k c' = n_k c \<and>
    n_closed c' = n_closed c \<and> n_typ c' = n_typ c \<and> (\<not> n_closed c \<longrightarrow> armed c')"
  using assms armed_modWrite [of c] by (auto simp: afterWrite_def armed_def split: if_splits)

lemma closeWithErrorWithoutLock_fields [simp]:
  "n_writeList (closeWithErrorWithoutLock e c) = []" "n_closed (closeWithErrorWithoutLock e c) = n_closed c"
proof -
  have r: "n_closed (releaseToWrite t c) = n_closed c" for t and c :: "'a conn"
    by (cases t) simp_all
  have "n_closed (fold releaseToWrite ts c) = n_closed c" for ts and c :: "'a conn"
    by (induction ts arbitrary: c) (simp_all add: r)
  then show "n_closed (closeWithErrorWithoutLock e c) = n_closed c"
    by (simp add: closeWithErrorWithoutLock_def Let_def split: ConnType.split)
  show "n_writeList (closeWithErrorWithoutLock e c) = []"
    by (simp add: closeWithErrorWithoutLock_def Let_def split: ConnType.split)
qed

lemma afterWrite_err:
  assumes "afterWrite (c, n, Some e) = (c', m, e')" "e \<noteq> NErrno EINTR" "e \<noteq> NErrno EAGAIN"
  shows "e' = Some e \<and> n_closed c' \<and> n_writeList c' = []"
  using assms by (auto simp: afterWrite_def)

lemma nwrite_err: "nwrite K b c = (c', n, Some e) \<Longrightarrow> e \<noteq> NErrno EINTR \<and> e \<noteq> NErrno EAGAIN"
  by (auto simp: nwrite_def fatal_def Let_def split: if_splits prod.splits)

lemma fold_newToWriteBuf:
  "cinv cont c \<Longrightarrow> cinv cont (fold newToWriteBuf bs c) \<and> pend cont (fold newToWriteBuf bs c) = pend cont c @ concat bs \<and>
   n_k (fold newToWriteBuf bs c) = n_k c \<and> n_closed (fold newToWriteBuf bs c) = n_closed c \<and>
   n_typ (fold newToWriteBuf bs c) = n_typ c \<and> (n_writeList c \<noteq> [] \<longrightarrow> n_writeList (fold newToWriteBuf bs c) \<noteq> [])"
  by (induction bs arbitrary: c) (auto simp: newToWriteBuf_queue)

text \<open>With a non-empty queue \<open>Writev\<close> appends all its buffers.\<close>

lemma Writev_queued:
  assumes "nready cont c" "n_writeList c \<noteq> []" "\<not> overflow K (int (length (concat bs))) c" "length bs \<noteq> 1"
    "Writev K bs c = (c', n, e)"
  shows "e = None \<and> n = int (length (concat bs)) \<and> nready cont c' \<and> stream out cont c' = stream out cont c @ concat bs"
proof -
  have "Writev K bs c = afterWrite (fold newToWriteBuf bs c, int (length (concat bs)), None)"
    using assms by (cases bs rule: list.exhaust; cases "tl bs") (auto simp: Writev_def nwritev_def nready_def Let_def)
  then have w: "afterWrite (fold newToWriteBuf bs c, int (length (concat bs)), None) = (c', n, e)" using assms(5) by simp
  have "cinv cont c" using assms by (simp add: nready_def)
  note q = fold_newToWriteBuf [OF this, of bs]
  show ?thesis using afterWrite_ok [OF w] q assms(1) cinv_cong [of c' "fold newToWriteBuf bs c"] pend_cong [of c' "fold newToWriteBuf bs c"]
    by (auto simp: nready_def stream_def)
qed

lemma writeBuffer_stream:
  assumes K: "kernel_ok K out cont" and inv: "cinv cont c" and l: "n_writeList c = TBuf b off # ts"
    and w: "writeBuffer K b off ts c = (c', e)"
  shows "cinv cont c' \<and> stream out cont c' = stream out cont c \<and> n_closed c' = n_closed c \<and> n_typ c' = n_typ c \<and>
     n_isWAdded c' = n_isWAdded c \<and> (e \<noteq> None \<longrightarrow> n_writeList c' = n_writeList c)"
proof -
  obtain k n r where s: "sysWrite K (drop off b) (n_k c) = (k, n, r)" by (cases "sysWrite K (drop off b) (n_k c)")
  note ks = kernel_write [OF K s]
  have off: "off \<le> length b" "n_left c = int (length b) - int off + sum_list (map buf_left ts)"
     "\<forall>t\<in>set ts. item_ok cont t" using inv l by (auto simp: cinv_def)
  show ?thesis
  proof (cases "n > 0")
    case True
    then have r: "r = None" "n \<le> int (length b - off)" "out k = out (n_k c) @ take (nat n) (drop off b)"
      using ks by (auto split: if_splits)
    have "take (nat n) (drop off b) @ drop (off + nat n) b = drop off b"
      by (metis append_take_drop_id drop_drop add.commute)
    then have o: "out k @ drop (off + nat n) b = out (n_k c) @ drop off b" using r(3) by simp
    show ?thesis
    proof (cases "int (length (drop off b)) = n")
      case eq: True
      then have "drop (off + nat n) b = []" by auto
      then have "out k = out (n_k c) @ drop off b" using o by simp
      then show ?thesis using w s True eq r(1) off l
        by (auto simp: writeBuffer_def cinv_def stream_def pend_def Let_def)
    next
      case False
      then show ?thesis using w s True r off l o
        by (auto simp: writeBuffer_def cinv_def stream_def pend_def Let_def)
    qed
  next
    case False
    then have "out k = out (n_k c)" using ks by (cases r) auto
    then show ?thesis using w s False inv l by (auto simp: writeBuffer_def cinv_def stream_def pend_def Let_def)
  qed
qed

lemma keeps_trans: "keeps out cont c d \<Longrightarrow> keeps out cont d e \<Longrightarrow> keeps out cont c e"
  by (simp add: keeps_def)

lemma keeps_refl: "cinv cont c \<Longrightarrow> keeps out cont c c"
  by (simp add: keeps_def)

lemma releaseToWrite_fields [simp]:
  "n_left (releaseToWrite t c) = n_left c" "n_writeList (releaseToWrite t c) = n_writeList c" "n_typ (releaseToWrite t c) = n_typ c"
  "n_closed (releaseToWrite t c) = n_closed c" "n_isWAdded (releaseToWrite t c) = n_isWAdded c" "n_k (releaseToWrite t c) = n_k c"
  by (cases t; simp)+

lemma fileSent_list: "n_writeList (fileSent fd off rem ts n k c) = (if rem - n \<le> 0 then ts else TFile fd (off + nat n) (rem - n) # ts)"
  by (simp add: fileSent_def Let_def)

lemma fileSent_keeps:
  assumes K: "kernel_ok K out cont" and inv: "cinv cont c" and l: "n_writeList c = TFile fd off rem # ts"
    and s: "sysSendfile K fd off rem (n_k c) = (k, n, e)" and n: "n > 0"
  shows "keeps out cont c (fileSent fd off rem ts n k c) \<and> e = None"
proof -
  have e: "e = None" "n \<le> rem" "int off + n \<le> int (length (cont fd))" "out k = out (n_k c) @ take (nat n) (drop off (cont fd))"
    using kernel_sendfile [OF K s] n by (auto split: if_splits)
  have ok: "0 < fd" "int off + rem \<le> int (length (cont fd))" "\<forall>t\<in>set ts. item_ok cont t" "n_left c = sum_list (map buf_left ts)"
    using inv l by (auto simp: cinv_def)
  have "take (nat rem) (drop off (cont fd)) = take (nat n) (drop off (cont fd)) @ take (nat (rem - n)) (drop (off + nat n) (cont fd))"
    using n e(2) take_add [of "nat n" "nat (rem - n)" "drop off (cont fd)"] by (simp add: nat_diff_distrib add.commute)
  then show ?thesis using e ok l n
    by (auto simp: keeps_def fileSent_def cinv_def stream_def pend_def Let_def)
qed

lemma writeFile_unfold:
  "writeFile K fd off rem ts c = (if rem > 0 then
     (case sysSendfile K fd off rem (n_k c) of (k, n, e) \<Rightarrow>
        if n > 0 then (if e \<noteq> None then Some (fileSent fd off rem ts n k c, e)
           else writeFile K fd (off + nat n) (rem - n) ts (fileSent fd off rem ts n k c))
        else if e \<noteq> None then Some (c\<lparr>n_k := k\<rparr>, e) else writeFile K fd off rem ts (c\<lparr>n_k := k\<rparr>))
     else Some (c, None))"
  by (subst writeFile.simps) (simp add: fileSent_def Let_def split: prod.split)

lemma writeFile_stream:
  assumes "writeFile K fd off rem ts c = Some r" "kernel_ok K out cont" "cinv cont c"
    "rem > 0 \<Longrightarrow> n_writeList c = TFile fd off rem # ts"
  shows "keeps out cont c (fst r)"
  using assms
proof (induction K fd off rem ts c r rule: writeFile.raw_induct [rotated, consumes 1, case_names step])
  case (step wf K fd off rem ts c r)
  show ?case
  proof (cases "rem > 0")
    case True
    obtain k n e where s: "sysSendfile K fd off rem (n_k c) = (k, n, e)" by (cases "sysSendfile K fd off rem (n_k c)")
    show ?thesis
    proof (cases "n > 0")
      case n: True
      have fs: "keeps out cont c (fileSent fd off rem ts n k c)" "e = None"
        using fileSent_keeps [OF step.prems(1,2) step.prems(3) [OF True] s n] by auto
      have "wf K fd (off + nat n) (rem - n) ts (fileSent fd off rem ts n k c) = Some r"
        using step.hyps True s n fs(2) by (simp add: fileSent_def Let_def)
      then have "keeps out cont (fileSent fd off rem ts n k c) (fst r)"
        using fs(1) step.prems(1) by (intro step.IH) (auto simp: keeps_def fileSent_list)
      then show ?thesis using fs keeps_trans by blast
    next
      case False
      have o: "out k = out (n_k c)" using kernel_sendfile [OF step.prems(1) s] False by (cases e) auto
      have c: "keeps out cont c (c\<lparr>n_k := k\<rparr>)" using step.prems(2) o by (simp add: keeps_def stream_def pend_def cinv_def)
      show ?thesis
      proof (cases e)
        case None
        have "wf K fd off rem ts (c\<lparr>n_k := k\<rparr>) = Some r"
          using step.hyps True s False None by simp
        then have "keeps out cont (c\<lparr>n_k := k\<rparr>) (fst r)"
          using c step.prems True by (intro step.IH) (auto simp: keeps_def)
        then show ?thesis using c keeps_trans by blast
      next
        case (Some x)
        then show ?thesis using step.hyps True s False c by auto
      qed
    qed
  next
    case False
    then show ?thesis using step.hyps step.prems keeps_refl by auto
  qed
qed

lemma flush_head:
  assumes K: "kernel_ok K out cont" and inv: "cinv cont c" and l: "n_writeList c = t # ts"
    and h: "(case t of TBuf b off \<Rightarrow> Some (writeBuffer K b off ts c)
                 | TFile fd off rem \<Rightarrow> writeFile K fd off rem ts c) = Some (c1, e)"
  shows "keeps out cont c c1"
proof (cases t)
  case (TBuf b off)
  then show ?thesis using writeBuffer_stream [OF K inv] l h by (auto simp: keeps_def)
next
  case (TFile fd off rem)
  then show ?thesis using writeFile_stream [of K fd off rem ts c "(c1, e)" out] K inv l h by auto
qed

lemma flush_loop_stream:
  assumes "flush_loop K c = Some r" "kernel_ok K out cont" "nready cont c"
  shows "snd r = None \<longrightarrow> nready cont (fst r) \<and> stream out cont (fst r) = stream out cont c"
  using assms
proof (induction K c r rule: flush_loop.raw_induct [rotated, consumes 1, case_names step])
  case (step fl K c r)
  show ?case
  proof (cases "n_writeList c")
    case Nil
    then have "r = (resetRead c, None)" using step.hyps by simp
    then show ?thesis using step.prems(2) Nil cinv_cong [of "resetRead c" c] pend_cong [of "resetRead c" c]
      by (auto simp: nready_def stream_def armed_def resetRead_def)
  next
    case (Cons t ts)
    obtain c1 e where h: "(case t of TBuf b off \<Rightarrow> Some (writeBuffer K b off ts c)
                 | TFile fd off rem \<Rightarrow> writeFile K fd off rem ts c) = Some (c1, e)"
      using step.hyps Cons by (auto split: option.splits toWrite.splits)
    have k: "keeps out cont c c1" using flush_head [OF step.prems(1) _ Cons h] step.prems(2) by (simp add: nready_def)
    have rd: "nready cont c1" "stream out cont c1 = stream out cont c"
      using k step.prems(2) Cons by (auto simp: nready_def keeps_def armed_def)
    have body: "(if e = Some EINTR then fl K c1
               else if e = Some EAGAIN then Some (if isOneshot K then log_act PollModWrite c1 else c1, None)
               else if e \<noteq> None then
                 Some (closeWithErrorWithoutLock (map_option NErrno e) (c1\<lparr>n_closed := True\<rparr>), map_option NErrno e)
               else fl K c1) = Some r"
      using step.hyps Cons h by simp
    have log: "nready cont (log_act a c1) = nready cont c1" "stream out cont (log_act a c1) = stream out cont c1" for a
      by (auto simp: nready_def stream_def cinv_def pend_def armed_def)
    have step: "fl K c1 = Some r \<Longrightarrow> snd r = None \<longrightarrow> nready cont (fst r) \<and> stream out cont (fst r) = stream out cont c1"
      using step.IH [of K c1 r] step.prems(1) rd(1) by blast
    show ?thesis using body rd log step by (auto split: if_splits)
  qed
qed

lemma live_write:
  assumes "kernel_live K cont sig" "sysWrite K b k = (k', n, e)" "b \<noteq> []"
  shows "(e = None \<longrightarrow> 0 < n) \<and> sig k' \<le> sig k \<and> (e = Some EINTR \<longrightarrow> sig k' < sig k)"
proof -
  have "live_result sig k (k', n, e)" using assms unfolding kernel_live_def by metis
  then show ?thesis by (simp add: live_result_def)
qed

lemma live_sendfile:
  assumes "kernel_live K cont sig" "sysSendfile K fd off cnt k = (k', n, e)" "0 < cnt" "int off + cnt \<le> int (length (cont fd))"
  shows "(e = None \<longrightarrow> 0 < n) \<and> sig k' \<le> sig k \<and> (e = Some EINTR \<longrightarrow> sig k' < sig k)"
proof -
  have "live_result sig k (k', n, e)" using assms unfolding kernel_live_def by metis
  then show ?thesis by (simp add: live_result_def)
qed

lemma solid_newToWriteBuf: "solid c \<Longrightarrow> b \<noteq> [] \<Longrightarrow> solid (newToWriteBuf b c)"
proof (cases "n_writeList c" rule: rev_cases)
  case (snoc ts t)
  assume "solid c" "b \<noteq> []"
  then show ?thesis using snoc by (cases t) (auto simp: solid_def newToWriteBuf_def Let_def)
qed (auto simp: solid_def newToWriteBuf_def)

lemma writeFile_returns:
  assumes "kernel_ok K out cont" "kernel_live K cont sig"
  shows "cinv cont c \<Longrightarrow> n_writeList c = TFile fd off rem # ts \<Longrightarrow> 0 < rem \<Longrightarrow>
    \<exists>c' e. writeFile K fd off rem ts c = Some (c', e) \<and> sig (n_k c') \<le> sig (n_k c) \<and> (e = Some EINTR \<longrightarrow> sig (n_k c') < sig (n_k c)) \<and>
      (if e = None then n_writeList c' = ts else \<exists>off' rem'. 0 < rem' \<and> n_writeList c' = TFile fd off' rem' # ts)"
proof (induction "nat rem" arbitrary: c off rem rule: less_induct)
  case less
  obtain k n e where s: "sysSendfile K fd off rem (n_k c) = (k, n, e)" by (cases "sysSendfile K fd off rem (n_k c)")
  have rng: "int off + rem \<le> int (length (cont fd))" using less.prems by (simp add: cinv_def)
  note lv = live_sendfile [OF assms(2) s less.prems(3) rng]
  note ks = kernel_sendfile [OF assms(1) s]
  show ?case
  proof (cases e)
    case None
    let ?c = "fileSent fd off rem ts n k c"
    have n: "0 < n" "n \<le> rem" using None lv ks by auto
    have kp: "keeps out cont c ?c" using fileSent_keeps [OF assms(1) less.prems(1,2) s n(1)] by simp
    have un: "writeFile K fd off rem ts c = writeFile K fd (off + nat n) (rem - n) ts ?c"
      using less.prems(3) s None n by (subst writeFile_unfold) simp
    have k: "n_k ?c = k" by (simp add: fileSent_def Let_def)
    show ?thesis
    proof (cases "rem - n > 0")
      case True
      have "nat (rem - n) < nat rem" "cinv cont ?c" "n_writeList ?c = TFile fd (off + nat n) (rem - n) # ts"
        using kp True n by (auto simp: keeps_def fileSent_list)
      then obtain c' x where r: "writeFile K fd (off + nat n) (rem - n) ts ?c = Some (c', x)" "sig (n_k c') \<le> sig (n_k ?c)"
          "x = Some EINTR \<longrightarrow> sig (n_k c') < sig (n_k ?c)"
          "if x = None then n_writeList c' = ts else \<exists>off' rem'. 0 < rem' \<and> n_writeList c' = TFile fd off' rem' # ts"
        using less.hyps True by blast
      have "sig (n_k c') \<le> sig (n_k c)" "x = Some EINTR \<longrightarrow> sig (n_k c') < sig (n_k c)" using r(2,3) k lv by auto
      then show ?thesis using un r(1,4) by metis
    next
      case False
      then have "writeFile K fd (off + nat n) (rem - n) ts ?c = Some (?c, None)" by (subst writeFile_unfold) simp
      then show ?thesis using un False k lv by (auto simp: fileSent_list)
    qed
  next
    case (Some x)
    have "n \<le> 0" using Some ks by simp
    then have "writeFile K fd off rem ts c = Some (c\<lparr>n_k := k\<rparr>, e)" using less.prems(3) s Some by (subst writeFile_unfold) simp
    then show ?thesis using lv Some less.prems by auto
  qed
qed

lemma writeBuffer_progress:
  assumes "kernel_ok K out cont" "kernel_live K cont sig" "n_writeList c = TBuf b off # ts" "off < length b"
    and "writeBuffer K b off ts c = (c', e)"
  shows "sig (n_k c') \<le> sig (n_k c) \<and> (e = Some EINTR \<longrightarrow> sig (n_k c') < sig (n_k c)) \<and>
    (e = None \<longrightarrow> n_writeList c' = ts \<or> (\<exists>off'. off < off' \<and> off' < length b \<and> n_writeList c' = TBuf b off' # ts)) \<and>
    (e \<noteq> None \<longrightarrow> n_writeList c' = n_writeList c)"
proof -
  obtain k n r where s: "sysWrite K (drop off b) (n_k c) = (k, n, r)" by (cases "sysWrite K (drop off b) (n_k c)")
  have ne: "drop off b \<noteq> []" using assms(4) by simp
  note lv = live_write [OF assms(2) s ne] and ks = kernel_write [OF assms(1) s]
  have "r = e" using assms(5) s by (auto simp: writeBuffer_def Let_def split: if_splits)
  then show ?thesis using assms(3,4,5) s lv ks
    by (cases r) (auto simp: writeBuffer_def Let_def split: if_splits)
qed

lemma flush_step_progress:
  assumes "kernel_ok K out cont" "kernel_live K cont sig" "cinv cont c" "solid c" "n_writeList c = t # ts"
  shows "\<exists>c1 e. flush_step K t ts c = Some (c1, e) \<and> solid c1 \<and> (e \<noteq> None \<longrightarrow> n_writeList c1 \<noteq> []) \<and>
    (e = None \<or> e = Some EINTR \<longrightarrow> sig (n_k c1) + work (n_writeList c1) < sig (n_k c) + work (n_writeList c))"
proof (cases t)
  case (TBuf b off)
  obtain c1 e where w: "writeBuffer K b off ts c = (c1, e)" by fastforce
  have "off < length b" using assms(4,5) TBuf by (simp add: solid_def)
  from writeBuffer_progress [OF assms(1,2) assms(5) [unfolded TBuf] this w] show ?thesis
    using w TBuf assms(4,5) by (auto simp: solid_def flush_step_def)
next
  case (TFile fd off rem)
  have r: "0 < rem" "list_all item_solid ts" using assms(4,5) TFile by (auto simp: solid_def)
  from writeFile_returns [OF assms(1,2,3) assms(5) [unfolded TFile] r(1)] r(2) show ?thesis
    using TFile assms(5) by (auto simp: solid_def flush_step_def split: if_splits)
qed

lemma flush_loop_returns:
  assumes "kernel_ok K out cont" "kernel_live K cont sig"
  shows "cinv cont c \<Longrightarrow> solid c \<Longrightarrow> \<exists>c' e. flush_loop K c = Some (c', e) \<and> (e = None \<longrightarrow> solid c')"
proof (induction "sig (n_k c) + work (n_writeList c)" arbitrary: c rule: less_induct)
  case less
  show ?case
  proof (cases "n_writeList c")
    case Nil
    then show ?thesis by (subst flush_loop.simps) (simp add: solid_def)
  next
    case (Cons t ts)
    obtain c1 e where h: "flush_step K t ts c = Some (c1, e)" "solid c1"
      and p: "e = None \<or> e = Some EINTR \<longrightarrow> sig (n_k c1) + work (n_writeList c1) < sig (n_k c) + work (n_writeList c)"
      using flush_step_progress [OF assms less.prems Cons] by blast
    have "cinv cont c1" using flush_head [OF assms(1) less.prems(1) Cons] h(1) by (auto simp: keeps_def flush_step_def)
    then have "e = None \<or> e = Some EINTR \<Longrightarrow> \<exists>c' e. flush_loop K c1 = Some (c', e) \<and> (e = None \<longrightarrow> solid c')"
      using less.hyps p h(2) by blast
    moreover have "solid (log_act a c1)" for a using h(2) by (simp add: solid_def)
    ultimately show ?thesis using Cons h by (subst (1) flush_loop.simps) (auto simp: flush_step_def)
  qed
qed

lemma dup_worksE:
  assumes "dup_works K" "kernel_ok K out cont"
  obtains k' fd' where "sysDup K fd k = (k', Inr fd')" "0 < fd'" "cont fd' = cont fd" "out k' = out k"
proof -
  obtain k' fd' where d: "sysDup K fd k = (k', Inr fd')" using assms(1) unfolding dup_works_def by blast
  then show ?thesis using that kernel_dup [OF assms(2) d] by blast
qed

lemma newToWriteFile_queue:
  assumes "cinv cont c" "0 < fd" "0 \<le> rem" "int off + rem \<le> int (length (cont fd))"
  shows "cinv cont (newToWriteFile fd off rem c) \<and> pend cont (newToWriteFile fd off rem c) = pend cont c @ take (nat rem) (drop off (cont fd))"
  using assms by (auto simp: newToWriteFile_def cinv_def pend_def)

lemma sendfile_loop_stream:
  assumes "sendfile_loop K src off rem c = Some r" "kernel_ok K out cont" "kernel_live K cont sig" "dup_works K"
    "nready cont c" "n_writeList c = []" "int off + rem \<le> int (length (cont src))"
  shows "snd r = None \<longrightarrow> nready cont (fst r) \<and> stream out cont (fst r) = stream out cont c @ take (nat rem) (drop off (cont src))"
  using assms
proof (induction K src off rem c r rule: sendfile_loop.raw_induct [rotated, consumes 1, case_names step])
  case (step sf K src off rem c r)
  show ?case
  proof (cases "rem > 0")
    case True
    let ?cnt = "if maxSendfileSize > rem then rem else maxSendfileSize"
    obtain k n e where s: "sysSendfile K src off ?cnt (n_k c) = (k, n, e)" by (cases "sysSendfile K src off ?cnt (n_k c)")
    have cnt: "0 < ?cnt" "?cnt \<le> rem" using True by (auto simp: maxSendfileSize_def)
    have rng: "int off + ?cnt \<le> int (length (cont src))" using step.prems(6) cnt by simp
    note lv = live_sendfile [OF step.prems(2) s cnt(1) rng] and ks = kernel_sendfile [OF step.prems(1) s]
    let ?c = "c\<lparr>n_k := k\<rparr>"
    have rd: "nready cont ?c" using step.prems(4) by (auto simp: nready_def cinv_def armed_def)
    show ?thesis
    proof (cases e)
      case None
      have n: "0 < n" "n \<le> rem" "out k = out (n_k c) @ take (nat n) (drop off (cont src))"
        using None lv ks cnt by auto
      have "sf K src (off + nat n) (rem - n) ?c = Some r" using step.hyps True s None n by (simp add: Let_def)
      then have "snd r = None \<longrightarrow> nready cont (fst r) \<and>
          stream out cont (fst r) = stream out cont ?c @ take (nat (rem - n)) (drop (off + nat n) (cont src))"
        using rd step.prems n by (intro step.IH) auto
      moreover have "take (nat rem) (drop off (cont src)) = take (nat n) (drop off (cont src)) @ take (nat (rem - n)) (drop (off + nat n) (cont src))"
        using n take_add [of "nat n" "nat (rem - n)" "drop off (cont src)"] by (simp add: nat_diff_distrib add.commute)
      ultimately show ?thesis using n(3) step.prems(5) by (auto simp: stream_def pend_def)
    next
      case (Some x)
      have n: "n \<le> 0" "out k = out (n_k c)" using Some ks by auto
      show ?thesis
      proof (cases "x = EAGAIN")
        case True
        obtain k' fd where d: "sysDup K src k = (k', Inr fd)" "0 < fd" "cont fd = cont src" "out k' = out k"
          by (rule dup_worksE [OF step.prems(3,1)])
        let ?d = "newToWriteFile fd off rem (c\<lparr>n_k := k'\<rparr>)"
        have "r = (modWrite ?d, None)" using step.hyps \<open>rem > 0\<close> s Some True n d by (auto simp: Let_def)
        moreover have "cinv cont (c\<lparr>n_k := k'\<rparr>)" using step.prems(4) by (simp add: nready_def cinv_def)
        then have q: "cinv cont ?d \<and> pend cont ?d = pend cont (c\<lparr>n_k := k'\<rparr>) @ take (nat rem) (drop off (cont src))"
          using newToWriteFile_queue [of cont "c\<lparr>n_k := k'\<rparr>" fd rem off] d step.prems(6) \<open>rem > 0\<close> by simp
        ultimately show ?thesis using q d n step.prems(4) armed_modWrite [of ?d] cinv_cong [of "modWrite ?d" ?d] pend_cong [of "modWrite ?d" ?d]
          by (auto simp: nready_def stream_def newToWriteFile_def pend_def)
      next
        case ne: False
        show ?thesis
        proof (cases "x = EINTR")
          case True
          then have "sf K src off rem ?c = Some r" using step.hyps \<open>rem > 0\<close> s Some n by (auto simp: Let_def)
          then have "snd r = None \<longrightarrow> nready cont (fst r) \<and> stream out cont (fst r) = stream out cont ?c @ take (nat rem) (drop off (cont src))"
            using rd step.prems by (intro step.IH) auto
          then show ?thesis using n by (simp add: stream_def pend_def)
        next
        case False
        then have "snd r \<noteq> None" using ne step.hyps \<open>rem > 0\<close> s Some n lv by (auto simp: Let_def split: if_splits)
        then show ?thesis by auto
        qed
      qed
    qed
  next
    case False
    then show ?thesis using step.hyps step.prems(4) by auto
  qed
qed

lemma Sendfile_stream:
  assumes "Sendfile K src off sz remain c = Some (c', n, None)" "kernel_ok K out cont" "kernel_live K cont sig" "dup_works K"
    "nready cont c" "sz = length (cont src)" "off \<le> sz"
  shows "nready cont c' \<and> stream out cont c' = stream out cont c @ take (nat n) (drop off (cont src)) \<and>
    n = (if remain \<le> 0 \<or> remain > int sz - int off then int sz - int off else remain)"
proof -
  define m where "m = (if remain \<le> 0 \<or> remain > int sz - int off then int sz - int off else remain)"
  have m: "0 \<le> m" "int off + m \<le> int (length (cont src))" using assms(6,7) by (auto simp: m_def)
  show ?thesis
  proof (cases "n_writeList c = []")
    case True
    obtain r where r: "sendfile_loop K src off m c = Some r" "c' = fst r" "snd r = None" "n = m"
      using assms(1,5) True by (auto simp: Sendfile_def nready_def m_def [symmetric] Let_def split: option.splits)
    then show ?thesis using sendfile_loop_stream [OF r(1) assms(2-5) True m(2)] by (simp add: m_def)
  next
    case False
    obtain k' fd where d: "sysDup K src (n_k c) = (k', Inr fd)" "0 < fd" "cont fd = cont src" "out k' = out (n_k c)"
      by (rule dup_worksE [OF assms(4,2)])
    have c': "c' = newToWriteFile fd off m (c\<lparr>n_k := k'\<rparr>)" "n = m"
      using assms(1,5) False d by (auto simp: Sendfile_def nready_def m_def [symmetric] Let_def)
    have "cinv cont (c\<lparr>n_k := k'\<rparr>)" using assms(5) by (simp add: nready_def cinv_def)
    then show ?thesis using newToWriteFile_queue [of cont "c\<lparr>n_k := k'\<rparr>" fd m off] d m c' assms(5) False
      by (auto simp: nready_def stream_def pend_def newToWriteFile_def armed_def m_def)
  qed
qed

lemma nwrite_done:
  assumes K: "kernel_ok K out cont" and rd: "nready cont c" and w: "afterWrite (nwrite K b c) = (c', n, e)"
  shows "if e = None then n = int (length b) \<and> nready cont c' \<and> stream out cont c' = stream out cont c @ b
    else n_closed c' \<and> n_writeList c' = []"
proof -
  obtain c1 m r where nw: "nwrite K b c = (c1, m, r)" by (cases "nwrite K b c")
  have w': "afterWrite (c1, m, r) = (c', n, e)" using w nw by simp
  show ?thesis
  proof (cases r)
    case None
    note s = nwrite_stream [OF K _ _ nw [unfolded None]]
    note a = afterWrite_ok [OF w' [unfolded None]]
    show ?thesis using s a rd cinv_cong [of c' c1] pend_cong [of c' c1]
      by (auto simp: nready_def stream_def)
  next
    case (Some x)
    then show ?thesis using afterWrite_err [OF w' [unfolded Some]] nwrite_err [OF nw [unfolded Some]] by auto
  qed
qed

lemma Write_stream:
  assumes "kernel_ok K out cont" "nready cont c" "Write K b c = (c', n, e)"
  shows "if e = None then n = int (length b) \<and> nready cont c' \<and> stream out cont c' = stream out cont c @ b
    else n_closed c' \<and> n_writeList c' = []"
  using nwrite_done [OF assms(1,2), of b c' n e] assms(2,3) by (auto simp: Write_def nready_def)

lemma concat_nonempty: "concat (filter (\<lambda>b. b \<noteq> []) bs) = concat bs"
  by (induction bs) auto

text \<open>Onto an empty queue, \<open>writev\<close> either hands the kernel everything or reports fewer bytes.\<close>

lemma sys_writev_all:
  assumes "kernel_ok K out cont" "sys_writev K bs c = (c1, n, None)"
  shows "n \<le> int (length (concat bs)) \<and> 0 \<le> n \<and> (\<exists>k. c1 = c\<lparr>n_k := k\<rparr> \<and> out k = out (n_k c) @ take (nat n) (concat bs))"
proof (cases "filter (\<lambda>b. b \<noteq> []) bs = []")
  case True
  then have "c1 = c\<lparr>n_k := n_k c\<rparr>" "n = 0" using assms(2) by (simp_all add: sys_writev_def)
  then show ?thesis by (metis (no_types) append_Nil2 nat_zero_as_int of_nat_0_le_iff order_refl take0)
next
  case False
  obtain k m e where s: "sysWritev K (filter (\<lambda>b. b \<noteq> []) bs) (n_k c) = (k, m, e)"
    by (cases "sysWritev K (filter (\<lambda>b. b \<noteq> []) bs) (n_k c)")
  then have "c1 = c\<lparr>n_k := k\<rparr>" "n = m" "e = None" using assms(2) False by (simp_all add: sys_writev_def Let_def)
  then show ?thesis using kernel_writev [OF assms(1) s] by (auto simp: concat_nonempty)
qed

lemma nwritev_direct:
  assumes "kernel_ok K out cont" "nwritev K bs c = (c1, n, None)" "n_writeList c = []" "n = int (length (concat bs))"
  shows "\<exists>k. c1 = c\<lparr>n_k := k\<rparr> \<and> out k = out (n_k c) @ concat bs"
proof -
  have no: "\<not> overflow K (int (length (concat bs))) c" using assms(2) by (auto simp: nwritev_def)
  obtain c2 m e where s: "sys_writev K bs c = (c2, m, e)" by (cases "sys_writev K bs c")
  have e: "e = None" using assms(2,3) no s by (auto simp: nwritev_def Let_def split: if_splits)
  have "c1 = c2" "m = n" using sys_writev_all [OF assms(1) s [unfolded e]] assms(2-4) no s
    by (auto simp: nwritev_def Let_def split: if_splits)
  then show ?thesis using sys_writev_all [OF assms(1) s [unfolded e]] assms(4) by auto
qed

lemma Writev_stream:
  assumes "kernel_ok K out cont" "nready cont c" "Writev K bs c = (c', n, None)" "n = int (length (concat bs))"
  shows "nready cont c' \<and> stream out cont c' = stream out cont c @ concat bs"
proof (cases "length bs = 1")
  case True
  then obtain b where b: "bs = [b]" by (cases bs) auto
  then have "afterWrite (nwrite K b c) = (c', n, None)" using assms(2,3) by (simp add: Writev_def nready_def)
  then show ?thesis using nwrite_done [OF assms(1,2), of b c' n None] b by simp
next
  case False
  have W: "Writev K bs c = afterWrite (nwritev K bs c)"
    using False assms(2) by (cases bs rule: list.exhaust; cases "tl bs") (auto simp: Writev_def nready_def)
  obtain c1 m e where nw: "nwritev K bs c = (c1, m, e)" by (cases "nwritev K bs c")
  have e: "e = None" using W nw assms(3) by (auto simp: afterWrite_def split: if_splits)
  note a = afterWrite_ok [of c1 m c' n None]
  have aw: "afterWrite (c1, m, None) = (c', n, None)" using W nw e assms(3) by simp
  show ?thesis
  proof (cases "n_writeList c = []")
    case True
    obtain k where k: "c1 = c\<lparr>n_k := k\<rparr>" "out k = out (n_k c) @ concat bs"
      using nwritev_direct [OF assms(1) nw [unfolded e] True] a [OF aw] assms(4) by auto
    then show ?thesis using a [OF aw] assms(2) True cinv_cong [of c' c] 
      by (auto simp: nready_def stream_def pend_def)
  next
    case q: False
    have "\<not> overflow K (int (length (concat bs))) c" using nw e by (auto simp: nwritev_def)
    then show ?thesis using Writev_queued [OF assms(2) q _ False assms(3), of out] by blast
  qed
qed

lemma flush_stream:
  assumes "flush K c = Some (c', None)" "kernel_ok K out cont" "nready cont c"
  shows "nready cont c' \<and> stream out cont c' = stream out cont c"
  using assms flush_loop_stream [of K c "(c', None)" out] by (auto simp: flush_def split: if_splits)

lemma conn_run_stream:
  assumes "conn_run K cont c0 bs c" "kernel_ok K out cont" "kernel_live K cont sig" "dup_works K" "nready cont c0"
  shows "nready cont c \<and> stream out cont c = stream out cont c0 @ bs"
  using assms
proof (induction rule: conn_run.induct)
  case (conn_write bs c b c' n)
  then show ?case using Write_stream [of K out cont c b c' n None] by simp
next
  case (conn_writev bs c vs c' n)
  then show ?case using Writev_stream [of K out cont c vs c' n] by simp
next
  case (conn_sendfile bs c off src remain c' n)
  then show ?case using Sendfile_stream [of K src off "length (cont src)" remain c c' n out cont] by simp
next
  case (conn_flush bs c c')
  then show ?case using flush_stream [of K c c' out cont] by simp
qed simp

lemma fileSent_k [simp]: "n_k (fileSent fd off rem ts n k c) = k"
  by (simp add: fileSent_def Let_def)

lemma writeFile_out:
  assumes "writeFile K fd off rem ts c = Some r" "kernel_ok K out cont" "kernel_healthy K cont"
  shows "length (out (n_k c)) \<le> length (out (n_k (fst r))) \<and> snd r \<in> {None, Some EAGAIN, Some EINTR}"
  using assms
proof (induction K fd off rem ts c r rule: writeFile.raw_induct [rotated, consumes 1, case_names step])
  case (step wf K fd off rem ts c r)
  show ?case
  proof (cases "rem > 0")
    case True
    obtain k n e where s: "sysSendfile K fd off rem (n_k c) = (k, n, e)" by (cases "sysSendfile K fd off rem (n_k c)")
    have o: "length (out (n_k c)) \<le> length (out k)" using kernel_sendfile [OF step.prems(1) s] by (auto split: if_splits)
    have e: "e \<in> {None, Some EAGAIN, Some EINTR}" using step.prems(2) s unfolding kernel_healthy_def by (metis snd_conv)
    have IH: "wf K fd o' r' ts d = Some r \<Longrightarrow> n_k d = k \<Longrightarrow>
        length (out (n_k c)) \<le> length (out (n_k (fst r))) \<and> snd r \<in> {None, Some EAGAIN, Some EINTR}" for o' r' d
      using step.IH [of K fd o' r' ts d r] step.prems o by auto
    show ?thesis using step.hyps True s o e IH
      by (auto simp: Let_def split: if_splits)
  next
    case False
    then show ?thesis using step.hyps by auto
  qed
qed

lemma flush_step_out:
  assumes "flush_step K t ts c = Some (c1, e)" "kernel_ok K out cont" "kernel_healthy K cont"
  shows "length (out (n_k c)) \<le> length (out (n_k c1)) \<and> e \<in> {None, Some EAGAIN, Some EINTR}"
proof (cases t)
  case (TBuf b off)
  obtain k n r where s: "sysWrite K (drop off b) (n_k c) = (k, n, r)" by (cases "sysWrite K (drop off b) (n_k c)")
  have "r \<in> {None, Some EAGAIN, Some EINTR}" using assms(3) s unfolding kernel_healthy_def by (metis snd_conv)
  then show ?thesis using TBuf assms(1) s kernel_write [OF assms(2) s]
    by (auto simp: flush_step_def writeBuffer_def Let_def split: if_splits)
next
  case (TFile fd off rem)
  then show ?thesis using writeFile_out [of K fd off rem ts c "(c1, e)" out] assms by (simp add: flush_step_def)
qed

lemma flush_loop_unfold:
  "flush_loop K c = (case n_writeList c of [] \<Rightarrow> Some (resetRead c, None)
      | t # ts \<Rightarrow> (case flush_step K t ts c of None \<Rightarrow> None
           | Some (c1, err) \<Rightarrow>
               if err = Some EINTR then flush_loop K c1
               else if err = Some EAGAIN then Some (if isOneshot K then log_act PollModWrite c1 else c1, None)
               else if err \<noteq> None then
                 Some (closeWithErrorWithoutLock (map_option NErrno err) (c1\<lparr>n_closed := True\<rparr>), map_option NErrno err)
               else flush_loop K c1))"
  unfolding flush_step_def by (subst flush_loop.simps) (rule refl)

lemma flush_loop_healthy:
  assumes K: "kernel_ok K out cont" "kernel_live K cont sig" "kernel_healthy K cont"
  shows "cinv cont c \<Longrightarrow> solid c \<Longrightarrow> \<exists>c'. flush_loop K c = Some (c', None) \<and> solid c' \<and> length (out (n_k c)) \<le> length (out (n_k c'))"
proof (induction "sig (n_k c) + work (n_writeList c)" arbitrary: c rule: less_induct)
  case less
  show ?case
  proof (cases "n_writeList c")
    case Nil
    then show ?thesis by (subst flush_loop.simps) (simp add: solid_def)
  next
    case (Cons t ts)
    obtain c1 e where h: "flush_step K t ts c = Some (c1, e)" "solid c1"
      and p: "e = None \<or> e = Some EINTR \<longrightarrow> sig (n_k c1) + work (n_writeList c1) < sig (n_k c) + work (n_writeList c)"
      using flush_step_progress [OF K(1,2) less.prems Cons] by blast
    have e: "e \<in> {None, Some EAGAIN, Some EINTR}" "length (out (n_k c)) \<le> length (out (n_k c1))"
      using flush_step_out [OF h(1) K(1,3)] by auto
    have "cinv cont c1" using flush_head [OF K(1) less.prems(1) Cons] h(1) by (auto simp: keeps_def flush_step_def)
    then have "e = None \<or> e = Some EINTR \<Longrightarrow>
        \<exists>c'. flush_loop K c1 = Some (c', None) \<and> solid c' \<and> length (out (n_k c1)) \<le> length (out (n_k c'))"
      using less.hyps p h(2) by blast
    then show ?thesis using e h Cons by (subst (1) flush_loop_unfold) (fastforce simp: solid_def)
  qed
qed

lemma flush_step_wakes:
  assumes K: "kernel_ok K out cont" "kernel_live K cont sig" "kernel_healthy K cont" "kernel_wakes K out cont wake"
    and c: "cinv cont c" "solid c" "n_writeList c = t # ts" "n_k c = wake k" and h: "flush_step K t ts c = Some (c1, e)"
  shows "length (out (n_k c)) < length (out (n_k c1))"
proof (cases t)
  case (TBuf b off)
  obtain k' n r where s: "sysWrite K (drop off b) (wake k) = (k', n, r)" by (cases "sysWrite K (drop off b) (wake k)")
  have ne: "drop off b \<noteq> []" using c(2,3) TBuf by (simp add: solid_def)
  have r: "r = None" using K(4) ne s unfolding kernel_wakes_def by (metis snd_conv)
  then show ?thesis using TBuf h s ne c(4) kernel_write [OF K(1) s] live_write [OF K(2) s ne]
    by (auto simp: flush_step_def writeBuffer_def Let_def split: if_splits)
next
  case (TFile fd off rem)
  have rng: "0 < rem" "int off + rem \<le> int (length (cont fd))" using c(1-3) TFile by (auto simp: cinv_def solid_def)
  obtain k' n r where s: "sysSendfile K fd off rem (wake k) = (k', n, r)" by (cases "sysSendfile K fd off rem (wake k)")
  have r: "r = None" using K(4) rng s unfolding kernel_wakes_def by (metis snd_conv)
  have n: "0 < n" "length (out (wake k)) < length (out k')"
    using kernel_sendfile [OF K(1) s] live_sendfile [OF K(2) s rng] r by auto
  have "writeFile K fd (off + nat n) (rem - n) ts (fileSent fd off rem ts n k' c) = Some (c1, e)"
    using h TFile s r n rng c(4) writeFile_unfold [of K fd off rem ts c] by (simp add: flush_step_def)
  then have "length (out k') \<le> length (out (n_k c1))"
    using writeFile_out [OF _ K(1,3), of fd "off + nat n" "rem - n" ts "fileSent fd off rem ts n k' c" "(c1, e)"]
    by simp
  then show ?thesis using n(2) c(4) by simp
qed

lemma flush_round_progress:
  assumes K: "kernel_ok K out cont" "kernel_live K cont sig" "kernel_healthy K cont" "kernel_wakes K out cont wake"
    and c: "nready cont c" "solid c" "n_writeList c \<noteq> []" "n_k c = wake k"
  shows "\<exists>c'. flush K c = Some (c', None) \<and> solid c' \<and> length (out (n_k c)) < length (out (n_k c'))"
proof -
  obtain t ts where l: "n_writeList c = t # ts" using c(3) by (cases "n_writeList c") auto
  have inv: "cinv cont c" "\<not> n_closed c" using c(1) by (simp_all add: nready_def)
  obtain c1 e where h: "flush_step K t ts c = Some (c1, e)" "solid c1"
    using flush_step_progress [OF K(1,2) inv(1) c(2) l] by blast
  have e: "e \<in> {None, Some EAGAIN, Some EINTR}" using flush_step_out [OF h(1) K(1,3)] by simp
  have o: "length (out (n_k c)) < length (out (n_k c1))" by (rule flush_step_wakes [OF K inv(1) c(2) l c(4) h(1)])
  have "cinv cont c1" using flush_head [OF K(1) inv(1) l] h(1) by (auto simp: keeps_def flush_step_def)
  then obtain c' where "flush_loop K c1 = Some (c', None)" "solid c'" "length (out (n_k c1)) \<le> length (out (n_k c'))"
    using flush_loop_healthy [OF K(1-3)] h(2) by blast
  then show ?thesis using o e h l c(3) inv(2) flush_loop_unfold [of K c] 
    by (cases e) (auto simp: flush_def solid_def)
qed

lemma flush_rounds_drain:
  assumes K: "kernel_ok K out cont" "kernel_live K cont sig" "kernel_healthy K cont" "kernel_wakes K out cont wake"
  shows "nready cont c \<Longrightarrow> solid c \<Longrightarrow>
    \<exists>m c'. flush_rounds K wake m c = Some c' \<and> n_writeList c' = [] \<and> out (n_k c') = stream out cont c"
proof (induction "length (pend cont c)" arbitrary: c rule: less_induct)
  case less
  show ?case
  proof (cases "n_writeList c = []")
    case True
    then have "flush_rounds K wake 0 c = Some c \<and> n_writeList c = [] \<and> out (n_k c) = stream out cont c"
      by (simp add: stream_def pend_def)
    then show ?thesis by blast
  next
    case False
    let ?c = "c\<lparr>n_k := wake (n_k c)\<rparr>"
    have w: "out (wake (n_k c)) = out (n_k c)" using K(4) by (simp add: kernel_wakes_def)
    have rd: "nready cont ?c" "solid ?c" "stream out cont ?c = stream out cont c" "pend cont ?c = pend cont c"
      using less.prems w by (auto simp: nready_def cinv_def armed_def solid_def stream_def pend_def)
    obtain c' where f: "flush K ?c = Some (c', None)" "solid c'" "length (out (n_k ?c)) < length (out (n_k c'))"
      using flush_round_progress [OF K rd(1,2), of "n_k c"] False by auto
    have s: "nready cont c'" "stream out cont c' = stream out cont c" using flush_stream [OF f(1) K(1) rd(1)] rd(3) by auto
    have "length (out (n_k c')) + length (pend cont c') = length (out (n_k c)) + length (pend cont c)"
      using arg_cong [OF s(2), of length] by (simp add: stream_def)
    then have "length (pend cont c') < length (pend cont c)" using f(3) w by simp
    then obtain m d where "flush_rounds K wake m c' = Some d \<and> n_writeList d = [] \<and> out (n_k d) = stream out cont c'"
      using less.hyps s(1) f(2) by blast
    then have "flush_rounds K wake (Suc m) c = Some d \<and> n_writeList d = [] \<and> out (n_k d) = stream out cont c"
      using f(1) s(2) by simp
    then show ?thesis by blast
  qed
qed

text \<open>The bytes kept in memory for a connection stay within \<open>MaxWriteBufferSize\<close>.\<close>

lemma newToWriteBuf_left: "n_left (newToWriteBuf b c) = n_left c + int (length b)"
  by (auto simp: newToWriteBuf_def Let_def split: toWrite.split)

lemma fold_newToWriteBuf_left: "n_left (fold newToWriteBuf bs c) = n_left c + int (length (concat bs))"
  by (induction bs arbitrary: c) (auto simp: newToWriteBuf_left)

lemma doWrite_left: "doWrite K b c = (c', n, e) \<Longrightarrow> n_left c' = n_left c"
  by (auto simp: doWrite_def Let_def split: prod.splits if_splits)

lemma writev_rest_left: "n_left (writev_rest bs n c) \<le> n_left c + int (length (concat bs))"
proof (induction bs n c rule: writev_rest.induct)
  case (2 b bs n c)
  have w: "writev_rest bs 0 d = d" for d :: "'a conn" by (cases bs) auto
  show ?case using 2 by (auto simp: w newToWriteBuf_left)
qed simp

lemma nwrite_left: "nwrite K b c = (c', n, None) \<Longrightarrow> n_left c' \<le> n_left c + int (length b) \<and> (b = [] \<and> n_left c' = n_left c \<or> \<not> overflow K (int (length b)) c)"
  by (auto simp: nwrite_def Let_def newToWriteBuf_left fatal_def split: if_splits prod.splits dest!: doWrite_left)

lemma nwritev_left: "nwritev K bs c = (c', n, None) \<Longrightarrow> n_left c' \<le> n_left c + int (length (concat bs)) \<and> \<not> overflow K (int (length (concat bs))) c"
  using writev_rest_left [of bs _ ] 
  by (auto simp: nwritev_def Let_def fold_newToWriteBuf_left sys_writev_def split: if_splits prod.splits intro: order_trans [OF writev_rest_left])

lemma nwrite_limit: "nwrite K b c = (c', n, None) \<Longrightarrow> left_within K c \<Longrightarrow> left_within K c'"
  using nwrite_left [of K b c c' n] by (auto simp: left_within_def overflow_def)

lemma nwritev_limit: "nwritev K bs c = (c', n, None) \<Longrightarrow> left_within K c \<Longrightarrow> left_within K c'"
  using nwritev_left [of K bs c c' n] by (auto simp: left_within_def overflow_def)

lemma afterWrite_limit:
  assumes "afterWrite r = (c', n, None)"
  shows "\<exists>c1. r = (c1, n, None) \<and> (left_within K c1 \<longrightarrow> left_within K c')"
  using assms by (cases r) (auto simp: afterWrite_def left_within_def split: if_splits)

lemma Writev_limit:
  assumes "Writev K bs c = (c', n, None)" "left_within K c"
  shows "left_within K c'"
proof -
  have "afterWrite (case bs of [b] \<Rightarrow> nwrite K b c | _ \<Rightarrow> nwritev K bs c) = (c', n, None)"
    using assms(1) by (auto simp: Writev_def split: if_splits)
  from afterWrite_limit [OF this, of K] obtain c1
    where "(case bs of [b] \<Rightarrow> nwrite K b c | _ \<Rightarrow> nwritev K bs c) = (c1, n, None)" "left_within K c1 \<longrightarrow> left_within K c'" by blast
  then show ?thesis using assms(2) nwrite_limit nwritev_limit
    by (fastforce split: list.splits)
qed

lemma Write_limit:
  assumes "Write K b c = (c', n, None)" "left_within K c"
  shows "left_within K c'"
proof -
  have "afterWrite (nwrite K b c) = (c', n, None)" using assms(1) by (auto simp: Write_def split: if_splits)
  from afterWrite_limit [OF this, of K] show ?thesis using nwrite_limit assms(2) by blast
qed

lemma Sendfile_left:
  assumes "Sendfile K src off sz remain c = Some (c', n, None)" 
  shows "n_left c' = n_left c"
proof -
  have loop: "sendfile_loop K src off rem c = Some r \<Longrightarrow> snd r = None \<longrightarrow> n_left (fst r) = n_left c" for rem r
  proof (induction K src off rem c r rule: sendfile_loop.raw_induct [rotated, consumes 1, case_names step])
    case (step sf K src off rem c r)
    have "sf K src o' r' d = Some r \<Longrightarrow> n_left d = n_left c \<Longrightarrow> snd r = None \<longrightarrow> n_left (fst r) = n_left c" for o' r' d
      using step.IH [of K src o' r' d r] by auto
    then show ?case using step.hyps
      by (auto simp: Let_def newToWriteFile_def split: if_splits prod.splits sum.splits)
  qed
  show ?thesis using assms loop
    by (fastforce simp: Sendfile_def Let_def newToWriteFile_def split: if_splits prod.splits sum.splits option.splits)
qed

lemma writeFile_left: "writeFile K fd off rem ts c = Some r \<Longrightarrow> n_left (fst r) = n_left c"
proof (induction K fd off rem ts c r rule: writeFile.raw_induct [rotated, consumes 1, case_names step])
  case (step wf K fd off rem ts c r)
  have "wf K fd o' r' ts d = Some r \<Longrightarrow> n_left d = n_left c \<Longrightarrow> n_left (fst r) = n_left c" for o' r' d
    using step.IH [of K fd o' r' ts d r] by auto
  then show ?case using step.hyps by (auto simp: Let_def split: if_splits prod.splits)
qed

lemma flush_step_left: "flush_step K t ts c = Some (c1, e) \<Longrightarrow> n_left c1 \<le> n_left c"
  using writeFile_left [of K _ _ _ ts c "(c1, e)"]
  by (auto simp: flush_step_def writeBuffer_def Let_def split: toWrite.splits if_splits prod.splits)

lemma flush_left:
  assumes "flush K c = Some (c', None)"
  shows "n_left c' \<le> n_left c"
proof -
  have loop: "flush_loop K c = Some r \<Longrightarrow> snd r = None \<longrightarrow> n_left (fst r) \<le> n_left c" for r
  proof (induction K c r rule: flush_loop.raw_induct [rotated, consumes 1, case_names step])
    case (step fl K c r)
    show ?case
    proof (cases "n_writeList c")
      case (Cons t ts)
      then obtain c1 e where h: "flush_step K t ts c = Some (c1, e)"
        using step.hyps by (auto simp: flush_step_def split: option.splits toWrite.splits)
      have "fl K c1 = Some r \<Longrightarrow> snd r = None \<longrightarrow> n_left (fst r) \<le> n_left c"
        using step.IH [of K c1 r] flush_step_left [OF h] by auto
      then show ?thesis using step.hyps Cons h flush_step_left [OF h]
        by (auto simp: flush_step_def split: if_splits)
    qed (use step.hyps in auto)
  qed
  show ?thesis using assms loop by (auto simp: flush_def split: if_splits)
qed

lemma conn_run_limit:
  assumes "conn_run K cont c0 bs c" "left_within K c0"
  shows "left_within K c"
  using assms
proof (induction rule: conn_run.induct)
  case (conn_write bs c b c' n)
  then show ?case using Write_limit by blast
next
  case (conn_writev bs c vs c' n)
  then show ?case using Writev_limit by blast
next
  case (conn_sendfile bs c off src remain c' n)
  then show ?case using Sendfile_left [of K src off _ remain c c' n] by (auto simp: left_within_def)
next
  case (conn_flush bs c c')
  then show ?case using flush_left [of K c c'] by (auto simp: left_within_def)
qed

end
