(* ===== verification/ConnRead.thy ===== *)
theory ConnRead
  imports ConnUnix
begin

text \<open>
  The read side of a connection on Unix systems (\<open>conn_unix.go\<close>): reading from stream and datagram
  sockets, the children that a UDP server keeps per remote address (\<open>udpConn\<close>), the read loop of
  \<open>AsyncRead\<close> and the counter that merges read events. The reading system calls are the dictionary
  \<open>renv\<close>; a call returns the bytes it put in the buffer, so \<open>n\<close> of the code is their number. A UDP
  child is named by a number; what its connection does beyond receiving is that of \<open>ConnUnix\<close>.
\<close>

datatype sockaddr = SockaddrInet4 octets nat | SockaddrInet6 octets nat nat | SockaddrOther

text \<open>\<open>udpAddrKey\<close>: 22 bytes, the address, the port and the zone.\<close>

fun key_bytes :: "nat \<Rightarrow> nat \<Rightarrow> octets" where
  "key_bytes 0 v = []"
| "key_bytes (Suc n) v = of_nat v # key_bytes n (v div 256)"

fun getUDPNetAddrKey :: "sockaddr \<Rightarrow> octets" where
  "getUDPNetAddrKey (SockaddrInet4 addr port) = addr @ replicate 12 0 @ key_bytes 2 port @ replicate 4 0"
| "getUDPNetAddrKey (SockaddrInet6 addr port zone) = addr @ key_bytes 2 port @ key_bytes 4 zone"
| "getUDPNetAddrKey SockaddrOther = replicate 22 0"

text \<open>\<open>getUDPNetAddr\<close>: address, port and the name of the zone's interface, if there is one.\<close>

fun getUDPNetAddr :: "(nat \<Rightarrow> string option) \<Rightarrow> sockaddr \<Rightarrow> octets \<times> nat \<times> string" where
  "getUDPNetAddr iface (SockaddrInet4 addr port) = (addr, port, [])"
| "getUDPNetAddr iface (SockaddrInet6 addr port zone) = (addr, port, case iface zone of Some nm \<Rightarrow> nm | None \<Rightarrow> [])"
| "getUDPNetAddr iface SockaddrOther = ([], 0, [])"

record 'k renv =
  sysRead :: "nat \<Rightarrow> 'k \<Rightarrow> 'k \<times> octets \<times> errno option"
  sysRecvfrom :: "nat \<Rightarrow> 'k \<Rightarrow> 'k \<times> octets \<times> sockaddr \<times> errno option"
  UDPReadTimeout :: int
  MaxConnReadTimesPerEventLoop :: nat
  isOneshotR :: bool

datatype rd_err = RErrClosed | RErrInvalidUDP | RErrno errno

datatype dest = Self | Child nat

datatype rd_event =
    OnOpen nat
  | OnData dest octets
  | SetChildDeadline nat
  | RCloseSocket
  | RResetPoller

text \<open>A child of a UDP server: its key and whether it was closed.\<close>

record udp_child =
  uc_key :: octets
  uc_addr :: sockaddr
  uc_closed :: bool

record 'k rconn =
  r_typ :: ConnType
  r_closed :: bool
  r_closeErr :: "rd_err option"
  r_conns :: "octets \<rightharpoonup> nat"
  r_children :: "udp_child list"
  r_log :: "rd_event list"
  r_k :: 'k

definition rlog :: "rd_event \<Rightarrow> 'k rconn \<Rightarrow> 'k rconn" where
  "rlog e c = c\<lparr>r_log := r_log c @ [e]\<rparr>"

definition udp_getConn :: "sockaddr \<Rightarrow> 'k rconn \<Rightarrow> 'k rconn \<times> nat \<times> bool" where
  "udp_getConn rsa c =
     (let rAddrKey = getUDPNetAddrKey rsa in
      case r_conns c rAddrKey of
        Some i \<Rightarrow> (c, i, True)
      | None \<Rightarrow>
          (let i = length (r_children c) in
           (c\<lparr>r_children := r_children c @ [\<lparr>uc_key = rAddrKey, uc_addr = rsa, uc_closed = False\<rparr>],
              r_conns := (r_conns c)(rAddrKey \<mapsto> i)\<rparr>, i, False)))"

text \<open>\<open>udpConn.Close\<close>: closing a child takes it out of the server's table, closing the server (or a
  dialer) closes its socket and all children.\<close>

definition udp_child_close :: "nat \<Rightarrow> 'k rconn \<Rightarrow> 'k rconn" where
  "udp_child_close i c =
     (if i < length (r_children c) \<and> \<not> uc_closed (r_children c ! i)
      then c\<lparr>r_children := (r_children c)[i := (r_children c ! i)\<lparr>uc_closed := True\<rparr>],
             r_conns := (r_conns c)(uc_key (r_children c ! i) := None)\<rparr>
      else c)"

definition udp_server_close :: "'k rconn \<Rightarrow> 'k rconn" where
  "udp_server_close c =
     (fold udp_child_close
        (filter (\<lambda>i. r_conns c (uc_key (r_children c ! i)) = Some i) [0..<length (r_children c)])
        (rlog RCloseSocket c))\<lparr>r_conns := Map.empty\<rparr>"

text \<open>\<open>closeWithError\<close> as far as reading is concerned.\<close>

definition closeRead :: "rd_err \<Rightarrow> 'k rconn \<Rightarrow> 'k rconn" where
  "closeRead err c =
     (if r_closed c then c
      else (let c = c\<lparr>r_closed := True, r_closeErr := Some err\<rparr> in
            if r_typ c = ConnTypeUDPServer \<or> r_typ c = ConnTypeUDPClientFromDial then udp_server_close c
            else rlog RCloseSocket c))"

definition readStream :: "'k renv \<Rightarrow> nat \<Rightarrow> 'k rconn \<Rightarrow> 'k rconn \<times> dest \<times> octets \<times> rd_err option" where
  "readStream K len c =
     (case sysRead K len (r_k c) of (k, b, err) \<Rightarrow> (c\<lparr>r_k := k\<rparr>, Self, b, map_option RErrno err))"

definition readUDP :: "'k renv \<Rightarrow> nat \<Rightarrow> 'k rconn \<Rightarrow> 'k rconn \<times> dest \<times> octets \<times> rd_err option" where
  "readUDP K len c =
     (case sysRecvfrom K len (r_k c) of (k, b, rAddr, err0) \<Rightarrow>
       (let err = map_option RErrno err0;
            c = c\<lparr>r_k := k, r_closeErr := (if r_closeErr c = None then err else r_closeErr c)\<rparr>
        in if err \<noteq> None then (c, Self, [], err)
           else if r_typ c = ConnTypeUDPServer then
             (let (c, uc, ok) = udp_getConn rAddr c;
                  c = (if UDPReadTimeout K > 0 then rlog (SetChildDeadline uc) c else c);
                  c = (if \<not> ok then rlog (OnOpen uc) c else c)
              in (c, Child uc, b, None))
           else (c, Self, b, None)))"

definition doRead :: "'k renv \<Rightarrow> nat \<Rightarrow> 'k rconn \<Rightarrow> 'k rconn \<times> dest \<times> octets \<times> rd_err option" where
  "doRead K len c =
     (case r_typ c of
        ConnTypeTCP \<Rightarrow> readStream K len c
      | ConnTypeUnix \<Rightarrow> readStream K len c
      | ConnTypeUDPServer \<Rightarrow> readUDP K len c
      | ConnTypeUDPClientFromDial \<Rightarrow> readUDP K len c
      | ConnTypeUDPClientFromRead \<Rightarrow> (c, Self, [], Some RErrInvalidUDP))"

definition ReadAndGetConn :: "'k renv \<Rightarrow> nat \<Rightarrow> 'k rconn \<Rightarrow> 'k rconn \<times> dest \<times> octets \<times> rd_err option" where
  "ReadAndGetConn K len c = (if r_closed c then (c, Self, [], Some RErrClosed) else doRead K len c)"

definition Read :: "'k renv \<Rightarrow> nat \<Rightarrow> 'k rconn \<Rightarrow> 'k rconn \<times> octets \<times> rd_err option" where
  "Read K len c = (case ReadAndGetConn K len c of (c', _, b, err) \<Rightarrow> (c', b, err))"

definition datagram :: "'k rconn \<Rightarrow> bool" where
  "datagram c \<longleftrightarrow> r_typ c \<in> {ConnTypeUDPServer, ConnTypeUDPClientFromRead, ConnTypeUDPClientFromDial}"

text \<open>
  The read loop of \<open>AsyncRead\<close>: at most \<open>i\<close> reads into the buffer \<open>pbuf\<close> of the task, whose length is
  \<open>len\<close>; the buffer is cut to what was read. The result is the connection, the buffer's length and
  whether the loop ended in an error that closed the connection.
\<close>

fun async_reads :: "'k renv \<Rightarrow> nat \<Rightarrow> nat \<Rightarrow> 'k rconn \<Rightarrow> 'k rconn \<times> nat \<times> bool" where
  "async_reads K 0 len c = (c, len, False)"
| "async_reads K (Suc i) len c =
     (case ReadAndGetConn K len c of (c, rc, b, err) \<Rightarrow>
        (let n = length b;
             len = (if n > 0 then n else len);
             c = (if n > 0 then rlog (OnData rc b) c else c)
         in if err = Some (RErrno EINTR) then async_reads K i len c
            else if err = Some (RErrno EAGAIN) then (c, len, False)
            else case err of
              Some e \<Rightarrow> (closeRead e c, len, True)
            | None \<Rightarrow>
                if n < len \<and> \<not> datagram c then (c, len, False)
                else async_reads K i len c))"

text \<open>One task of \<open>AsyncRead\<close> under \<open>EPOLLONESHOT\<close>.\<close>

definition AsyncRead_oneshot :: "'k renv \<Rightarrow> nat \<Rightarrow> 'k rconn \<Rightarrow> 'k rconn" where
  "AsyncRead_oneshot K len c =
     (case async_reads K (MaxConnReadTimesPerEventLoop K) len c of
        (c, _, True) \<Rightarrow> c
      | (c, _, False) \<Rightarrow> rlog RResetPoller c)"

text \<open>
  Without \<open>EPOLLONESHOT\<close> the events are counted in \<open>readEvents\<close>. The poller adds one, and takes it back
  when the sum is above two; a task decrements the counter after each pass and ends at zero, or ends
  at once when a read fails and the connection is closed. Each atomic operation is a step:
  \<open>poller_dec\<close> is the poller between its two additions, \<open>unserved\<close> records that an event arrived
  after the last pass began. With \<open>preempt\<close> false, no task ends a pass between these two additions.
\<close>

datatype reader = RStart | RPass

record areads =
  readEvents :: int
  poller_dec :: bool
  readers :: "reader list"
  unserved :: bool
  a_closed :: bool

definition areads0 :: areads where
  "areads0 = \<lparr>readEvents = 0, poller_dec = False, readers = [], unserved = False, a_closed = False\<rparr>"

definition read_event :: "areads \<Rightarrow> areads" where
  "read_event s =
     (let cnt = readEvents s + 1; s = s\<lparr>readEvents := cnt, unserved := True\<rparr> in
      if cnt > 2 then s\<lparr>poller_dec := True\<rparr>
      else if cnt > 1 then s
      else s\<lparr>readers := readers s @ [RStart]\<rparr>)"

definition take_back :: "areads \<Rightarrow> areads" where
  "take_back s = s\<lparr>readEvents := readEvents s - 1, poller_dec := False\<rparr>"

definition pass_begin :: "nat \<Rightarrow> areads \<Rightarrow> areads" where
  "pass_begin j s = s\<lparr>readers := (readers s)[j := RPass], unserved := False\<rparr>"

definition task_return :: "nat \<Rightarrow> areads \<Rightarrow> areads" where
  "task_return j s = s\<lparr>readers := take j (readers s) @ drop (Suc j) (readers s)\<rparr>"

definition pass_end :: "nat \<Rightarrow> areads \<Rightarrow> areads" where
  "pass_end j s =
     (let s = s\<lparr>readEvents := readEvents s - 1\<rparr> in
      if readEvents s = 0 then task_return j s
      else s\<lparr>readers := (readers s)[j := RStart]\<rparr>)"

definition pass_fail :: "nat \<Rightarrow> areads \<Rightarrow> areads" where
  "pass_fail j s = (task_return j s)\<lparr>a_closed := True\<rparr>"

inductive areads_step :: "bool \<Rightarrow> areads \<Rightarrow> areads \<Rightarrow> bool" for preempt where
  step_event: "\<not> poller_dec s \<Longrightarrow> areads_step preempt s (read_event s)"
| step_take_back: "poller_dec s \<Longrightarrow> areads_step preempt s (take_back s)"
| step_begin: "j < length (readers s) \<Longrightarrow> readers s ! j = RStart \<Longrightarrow> areads_step preempt s (pass_begin j s)"
| step_end: "j < length (readers s) \<Longrightarrow> readers s ! j = RPass \<Longrightarrow> preempt \<or> \<not> poller_dec s \<Longrightarrow>
    areads_step preempt s (pass_end j s)"
| step_fail: "j < length (readers s) \<Longrightarrow> readers s ! j = RPass \<Longrightarrow> areads_step preempt s (pass_fail j s)"

inductive areads_reach :: "bool \<Rightarrow> areads \<Rightarrow> bool" for preempt where
  areads_init: "areads_reach preempt areads0"
| areads_next: "areads_reach preempt s \<Longrightarrow> areads_step preempt s s' \<Longrightarrow> areads_reach preempt s'"

inductive_cases areads_stepE: "areads_step preempt s s'"

end
