(* ===== verification/ConnReadInv.thy ===== *)
theory ConnReadInv
  imports ConnRead
begin

text \<open>
  Facts on the read side: the counter of read events as a state machine, the keys of UDP peers, and
  the table of a UDP server's children over any sequence of datagrams and closes.
\<close>

definition areads_inv :: "areads \<Rightarrow> bool" where
  "areads_inv s \<longleftrightarrow>
     (let real = readEvents s - (if poller_dec s then 1 else 0) in
      0 \<le> real \<and> real \<le> 2 \<and> (poller_dec s \<longrightarrow> real = 2) \<and> length (readers s) \<le> 1 \<and>
      (\<not> a_closed s \<longrightarrow> (readers s = [] \<longleftrightarrow> real = 0) \<and> 
        (unserved s \<longrightarrow> readers s = [RStart] \<or> readers s = [RPass] \<and> real = 2)) \<and>
      (a_closed s \<longrightarrow> readers s = [] \<and> 0 < real))"

fun sockaddr_ok :: "bool \<Rightarrow> sockaddr \<Rightarrow> bool" where
  "sockaddr_ok v6 (SockaddrInet4 addr port) \<longleftrightarrow> \<not> v6 \<and> length addr = 4 \<and> port < 65536"
| "sockaddr_ok v6 (SockaddrInet6 addr port zone) \<longleftrightarrow> v6 \<and> length addr = 16 \<and> port < 65536 \<and> zone < 2 ^ 32"
| "sockaddr_ok v6 SockaddrOther \<longleftrightarrow> False"

definition udp_inv :: "'k rconn \<Rightarrow> bool" where
  "udp_inv c \<longleftrightarrow>
     (\<forall>k i. r_conns c k = Some i \<longleftrightarrow> i < length (r_children c) \<and> uc_key (r_children c ! i) = k \<and> \<not> uc_closed (r_children c ! i)) \<and>
     (\<forall>i < length (r_children c). uc_key (r_children c ! i) = getUDPNetAddrKey (uc_addr (r_children c ! i)))"

text \<open>A UDP server over time: datagrams arrive, children are closed.\<close>

inductive udp_run :: "'k renv \<Rightarrow> bool \<Rightarrow> 'k rconn \<Rightarrow> 'k rconn \<Rightarrow> bool" for K v6 c0 where
  udp_start: "udp_run K v6 c0 c0"
| udp_recv: "udp_run K v6 c0 c \<Longrightarrow> sysRecvfrom K len (r_k c) = (k, b, rsa, e) \<Longrightarrow> e = None \<longrightarrow> sockaddr_ok v6 rsa \<Longrightarrow>
    readUDP K len c = (c', d, b', err) \<Longrightarrow> udp_run K v6 c0 c'"
| udp_close: "udp_run K v6 c0 c \<Longrightarrow> udp_run K v6 c0 (udp_child_close i c)"

lemma reader_at:
  assumes "areads_inv s" "j < length (readers s)" "readers s ! j = x"
  shows "j = 0 \<and> readers s = [x]"
proof -
  have "length (readers s) \<le> 1" using assms(1) by (simp add: areads_inv_def Let_def)
  then show ?thesis using assms(2,3) by (cases "readers s") auto
qed

lemma one_reader: "length xs \<le> 1 \<Longrightarrow> xs \<in> {[], [RStart], [RPass]}"
proof (cases xs)
  case (Cons x ys)
  assume "length xs \<le> 1"
  then show ?thesis using Cons by (cases x) auto
qed simp

lemma areads_inv_step: "areads_step False s s' \<Longrightarrow> areads_inv s \<Longrightarrow> areads_inv s'"
proof (induction rule: areads_step.induct)
  case (step_event s)
  then have "readers s \<in> {[], [RStart], [RPass]}" using one_reader [of "readers s"] by (auto simp: areads_inv_def Let_def)
  then show ?case using step_event by (auto simp: areads_inv_def read_event_def Let_def)
next
  case (step_take_back s)
  then show ?case by (auto simp: areads_inv_def take_back_def Let_def)
next
  case (step_begin j s)
  then have "j = 0" "readers s = [RStart]" using reader_at by blast+
  then show ?case using step_begin by (auto simp: areads_inv_def pass_begin_def Let_def)
next
  case (step_end j s)
  then have "j = 0" "readers s = [RPass]" using reader_at by blast+
  then show ?case using step_end by (auto simp: areads_inv_def pass_end_def task_return_def Let_def)
next
  case (step_fail j s)
  then have "j = 0" "readers s = [RPass]" using reader_at by blast+
  then show ?case using step_fail by (auto simp: areads_inv_def pass_fail_def task_return_def Let_def)
qed

lemma areads_inv_reach: "areads_reach False s \<Longrightarrow> areads_inv s"
proof (induction rule: areads_reach.induct)
  case areads_init
  then show ?case by (simp add: areads_inv_def areads0_def)
qed (rule areads_inv_step)

lemma key_bytes_inj: "v < 256 ^ n \<Longrightarrow> w < 256 ^ n \<Longrightarrow> key_bytes n v = key_bytes n w \<Longrightarrow> v = w"
proof (induction n arbitrary: v w)
  case (Suc n)
  have "unat (of_nat v :: octet) = unat (of_nat w :: octet)" using Suc.prems(3) by simp
  then have "v mod 256 = w mod 256" by (simp add: unat_of_nat)
  moreover have "v div 256 = w div 256" using Suc.prems by (intro Suc.IH) (auto simp: less_mult_imp_div_less mult.commute)
  ultimately show ?case by (metis div_mult_mod_eq)
qed simp

lemma length_key_bytes [simp]: "length (key_bytes n v) = n"
  by (induction n arbitrary: v) auto

lemma length_key: "sockaddr_ok v6 sa \<Longrightarrow> length (getUDPNetAddrKey sa) = 22"
  by (cases sa) auto

lemma key_inj:
  assumes "sockaddr_ok v6 sa" "sockaddr_ok v6 sb" "getUDPNetAddrKey sa = getUDPNetAddrKey sb"
  shows "sa = sb"
proof (cases sa)
  case (SockaddrInet4 addr port)
  then obtain addr' port' where b: "sb = SockaddrInet4 addr' port'" using assms by (cases sb) auto
  have "addr = addr' \<and> key_bytes 2 port = key_bytes 2 port'" using assms SockaddrInet4 b by (auto simp: append_eq_append_conv)
  then show ?thesis using key_bytes_inj [of port 2 port'] assms SockaddrInet4 b by simp
next
  case (SockaddrInet6 addr port zone)
  then obtain addr' port' zone' where b: "sb = SockaddrInet6 addr' port' zone'" using assms by (cases sb) auto
  have "addr = addr' \<and> key_bytes 2 port = key_bytes 2 port' \<and> key_bytes 4 zone = key_bytes 4 zone'"
    using assms SockaddrInet6 b by (auto simp: append_eq_append_conv)
  then show ?thesis using key_bytes_inj [of port 2 port'] key_bytes_inj [of zone 4 zone'] assms SockaddrInet6 b by simp
qed (use assms in simp)

lemma udp_getConn_inv:
  assumes "udp_inv c" "udp_getConn rsa c = (c', i, ok)"
  shows "udp_inv c' \<and> i < length (r_children c') \<and> uc_key (r_children c' ! i) = getUDPNetAddrKey rsa \<and>
     \<not> uc_closed (r_children c' ! i) \<and> r_typ c' = r_typ c \<and> r_k c' = r_k c \<and> (ok \<longrightarrow> c' = c) \<and>
     (\<not> ok \<longrightarrow> i = length (r_children c) \<and> r_children c' = r_children c @ [\<lparr>uc_key = getUDPNetAddrKey rsa, uc_addr = rsa, uc_closed = False\<rparr>])"
proof (cases "r_conns c (getUDPNetAddrKey rsa)")
  case (Some j)
  then show ?thesis using assms by (auto simp: udp_getConn_def udp_inv_def Let_def)
next
  case None
  then have c': "c' = c\<lparr>r_children := r_children c @ [\<lparr>uc_key = getUDPNetAddrKey rsa, uc_addr = rsa, uc_closed = False\<rparr>],
              r_conns := (r_conns c)(getUDPNetAddrKey rsa \<mapsto> length (r_children c))\<rparr>" "i = length (r_children c)" "\<not> ok"
    using assms(2) by (auto simp: udp_getConn_def Let_def)
  have none: "\<not> (j < length (r_children c) \<and> uc_key (r_children c ! j) = getUDPNetAddrKey rsa \<and> \<not> uc_closed (r_children c ! j))" for j
    using assms(1) None unfolding udp_inv_def by (metis option.distinct(1))
  have "udp_inv c'" using assms(1) none unfolding udp_inv_def c'(1)
    by (auto simp: nth_append less_Suc_eq)
  then show ?thesis using c' by simp
qed

lemma udp_child_close_inv:
  assumes "udp_inv c"
  shows "udp_inv (udp_child_close i c)"
proof (cases "i < length (r_children c) \<and> \<not> uc_closed (r_children c ! i)")
  case True
  have self: "r_conns c (uc_key (r_children c ! i)) = Some i" using assms True by (simp add: udp_inv_def)
  have uniq: "j = i" if "j < length (r_children c)" "uc_key (r_children c ! j) = uc_key (r_children c ! i)" "\<not> uc_closed (r_children c ! j)" for j
    using that assms self unfolding udp_inv_def by (metis option.inject)
  have other: "uc_closed (r_children c ! j)" if "j < length (r_children c)" "j \<noteq> i" "uc_key (r_children c ! j) = uc_key (r_children c ! i)" for j
    using uniq that by blast
  let ?c = "udp_child_close i c"
  have c: "r_conns ?c = (r_conns c)(uc_key (r_children c ! i) := None)" "length (r_children ?c) = length (r_children c)"
      "\<And>j. j < length (r_children c) \<Longrightarrow> uc_key (r_children ?c ! j) = uc_key (r_children c ! j) \<and>
         uc_addr (r_children ?c ! j) = uc_addr (r_children c ! j) \<and> uc_closed (r_children ?c ! j) = (j = i \<or> uc_closed (r_children c ! j))"
    using True by (auto simp: udp_child_close_def nth_list_update)
  have "r_conns ?c k = Some j \<longleftrightarrow> j < length (r_children ?c) \<and> uc_key (r_children ?c ! j) = k \<and> \<not> uc_closed (r_children ?c ! j)" for k j
    using assms c(1,2) c(3) [of j] other [of j] by (auto simp: udp_inv_def)
  moreover have "\<forall>j < length (r_children ?c). uc_key (r_children ?c ! j) = getUDPNetAddrKey (uc_addr (r_children ?c ! j))"
    using assms c by (auto simp: udp_inv_def)
  ultimately show ?thesis by (simp add: udp_inv_def)
qed (use assms in \<open>auto simp: udp_child_close_def\<close>)

lemma udp_inv_cong: "r_conns c = r_conns d \<Longrightarrow> r_children c = r_children d \<Longrightarrow> udp_inv c = udp_inv d"
  by (simp add: udp_inv_def)

lemma rlog_fields [simp]:
  "r_typ (rlog e c) = r_typ c" "r_closed (rlog e c) = r_closed c" "r_closeErr (rlog e c) = r_closeErr c" "r_conns (rlog e c) = r_conns c"
  "r_children (rlog e c) = r_children c" "r_k (rlog e c) = r_k c" "r_log (rlog e c) = r_log c @ [e]"
  by (simp_all add: rlog_def)

lemma readUDP_cases:
  assumes "readUDP K len c = (c', d, b, err)" "sysRecvfrom K len (r_k c) = (k, b0, rsa, e)" "r_typ c = ConnTypeUDPServer"
  shows "if e = None then \<exists>c1 i ok. udp_getConn rsa (c\<lparr>r_k := k\<rparr>) = (c1, i, ok) \<and> d = Child i \<and> b = b0 \<and> err = None \<and>
           r_conns c' = r_conns c1 \<and> r_children c' = r_children c1 \<and> r_typ c' = r_typ c1 \<and>
           r_log c' = r_log c @ (if UDPReadTimeout K > 0 then [SetChildDeadline i] else []) @ (if ok then [] else [OnOpen i])
         else err = map_option RErrno e \<and> d = Self \<and> b = [] \<and> r_conns c' = r_conns c \<and> r_children c' = r_children c \<and> r_typ c' = r_typ c"
proof (cases e)
  case None
  obtain c1 i ok where g: "udp_getConn rsa (c\<lparr>r_k := k\<rparr>) = (c1, i, ok)" by (cases "udp_getConn rsa (c\<lparr>r_k := k\<rparr>)")
  then have l: "r_log c1 = r_log c" by (auto simp: udp_getConn_def Let_def split: option.splits)
  have s: "c\<lparr>r_k := k, r_closeErr := x\<rparr> = c\<lparr>r_k := k\<rparr>" if "r_closeErr c = x" for x using that by (cases c) simp
  have "readUDP K len c =
      (let c2 = (if UDPReadTimeout K > 0 then rlog (SetChildDeadline i) c1 else c1)
       in (if \<not> ok then rlog (OnOpen i) c2 else c2, Child i, b0, None))"
    using assms(2,3) None by (cases "r_closeErr c") (simp_all add: readUDP_def Let_def s g)
  then show ?thesis using assms(1) None g l by (auto simp: Let_def split: if_splits)
next
  case (Some x)
  then show ?thesis using assms by (auto simp: readUDP_def Let_def)
qed

lemma udp_run_inv:
  assumes "udp_run K v6 c0 c" "udp_inv c0" "r_typ c0 = ConnTypeUDPServer" "\<forall>i < length (r_children c0). sockaddr_ok v6 (uc_addr (r_children c0 ! i))"
  shows "udp_inv c \<and> r_typ c = ConnTypeUDPServer \<and> (\<forall>i < length (r_children c). sockaddr_ok v6 (uc_addr (r_children c ! i)))"
  using assms
proof (induction rule: udp_run.induct)
  case (udp_recv c len k b rsa e c' d b' err)
  then have IH: "udp_inv c" "r_typ c = ConnTypeUDPServer" "\<forall>i < length (r_children c). sockaddr_ok v6 (uc_addr (r_children c ! i))" by auto
  note rc = readUDP_cases [OF udp_recv.hyps(4,2) IH(2)]
  show ?case
  proof (cases e)
    case None
    then obtain c1 i ok where g: "udp_getConn rsa (c\<lparr>r_k := k\<rparr>) = (c1, i, ok)" "r_conns c' = r_conns c1" "r_children c' = r_children c1" "r_typ c' = r_typ c1"
      using rc by auto
    have "udp_inv (c\<lparr>r_k := k\<rparr>)" using IH(1) by (simp add: udp_inv_def)
    note gi = udp_getConn_inv [OF this g(1)]
    have "\<forall>i < length (r_children c1). sockaddr_ok v6 (uc_addr (r_children c1 ! i))"
      using gi IH(3) udp_recv.hyps(3) None by (cases ok) (auto simp: nth_append less_Suc_eq)
    then show ?thesis using gi g IH udp_inv_cong [of c' c1] by auto
  next
    case (Some x)
    then show ?thesis using rc IH udp_inv_cong [of c' c] by auto
  qed
next
  case (udp_close c i)
  then show ?case using udp_child_close_inv [of c i] by (auto simp: udp_child_close_def nth_list_update)
qed auto

text \<open>After a short read the loop of \<open>AsyncRead\<close> goes on, with a buffer as short as the read was: the
  length it compares with is that of the buffer it has just cut.\<close>

lemma async_short_read:
  assumes "sysRead K len (r_k c) = (k, b, None)" "\<not> r_closed c" "r_typ c = ConnTypeTCP" "0 < length b" "length b < len"
  shows "async_reads K (Suc i) len c = async_reads K i (length b) (rlog (OnData Self b) (c\<lparr>r_k := k\<rparr>))"
  using assms by (simp add: ReadAndGetConn_def doRead_def readStream_def Let_def)

end
