(* ===== verification/Poller.thy ===== *)
theory Poller
  imports ConnStream
begin

unbundle bit_operations_syntax

text \<open>
  The epoll poller (\<open>poller_epoll.go\<close>) on one connection: the event masks registered for its socket,
  and the handling of one event of \<open>readWriteLoop\<close>, composed of the write side of \<open>ConnUnix\<close> and a
  read loop. Reading is \<open>pRead\<close>, \<open>ReadAndGetConn\<close> on the connection with a buffer of \<open>ReadBufferSize\<close>
  bytes. The application's data handler is an entry in \<open>p_data\<close>; calls it makes on the connection are
  further operations of \<open>ConnUnix\<close>. \<open>AsyncRead\<close> and a user's \<open>onRead\<close> only appear as entries of
  \<open>p_log\<close>. \<open>pOnConnected\<close> is what the application's dial callback does to the connection.
\<close>

abbreviation (input) EPOLLIN :: "32 word" where "EPOLLIN \<equiv> 0x1"
abbreviation (input) EPOLLPRI :: "32 word" where "EPOLLPRI \<equiv> 0x2"
abbreviation (input) EPOLLOUT :: "32 word" where "EPOLLOUT \<equiv> 0x4"
abbreviation (input) EPOLLERR :: "32 word" where "EPOLLERR \<equiv> 0x8"
abbreviation (input) EPOLLHUP :: "32 word" where "EPOLLHUP \<equiv> 0x10"
abbreviation (input) EPOLLRDHUP :: "32 word" where "EPOLLRDHUP \<equiv> 0x2000"
abbreviation (input) EPOLLONESHOT :: "32 word" where "EPOLLONESHOT \<equiv> 0x40000000"
abbreviation (input) EPOLLET :: "32 word" where "EPOLLET \<equiv> 0x80000000"
abbreviation (input) EPOLLLT :: "32 word" where "EPOLLLT \<equiv> 0"

definition epollEventsRead :: "32 word" where "epollEventsRead = EPOLLPRI OR EPOLLIN"
definition epollEventsWrite :: "32 word" where "epollEventsWrite = EPOLLOUT"
definition epollEventsError :: "32 word" where "epollEventsError = EPOLLERR OR EPOLLHUP OR EPOLLRDHUP"

datatype poll_entry = ReadAsync | ReadUser | Connected

record 'k pollcfg =
  EpollMod :: "32 word"
  cfgONESHOT :: "32 word"
  ReadBufferSize :: nat
  MaxReadTimes :: nat
  hasOnRead :: bool
  AsyncReadInPoller :: bool
  pKenv :: "'k kenv"
  pOnConnected :: "'k conn \<Rightarrow> 'k conn"
  pRead :: "nat \<Rightarrow> 'k conn \<Rightarrow> 'k conn \<times> octets \<times> conn_err option"

record 'k pconn =
  p_conn :: "'k conn"
  p_onConnected :: bool
  p_data :: "octets list"
  p_log :: "poll_entry list"

text \<open>Event masks. \<open>ADD\<close> and \<open>MOD\<close> are the two operations of \<open>epoll_ctl\<close> the poller uses.\<close>

datatype ctl = CtlAdd | CtlMod

definition setRead :: "'k pollcfg \<Rightarrow> ctl \<Rightarrow> 32 word \<Rightarrow> 32 word" where
  "setRead G op old =
     (if EpollMod G = EPOLLET then
        (let events = EPOLLERR OR EPOLLHUP OR EPOLLRDHUP OR EPOLLPRI OR EPOLLIN OR EPOLLET OR cfgONESHOT G in
         if cfgONESHOT G \<noteq> EPOLLONESHOT then (if op = CtlAdd then events OR EPOLLOUT else old)
         else events)
      else EPOLLERR OR EPOLLHUP OR EPOLLRDHUP OR EPOLLPRI OR EPOLLIN)"

definition setReadWrite :: "'k pollcfg \<Rightarrow> ctl \<Rightarrow> 32 word \<Rightarrow> 32 word" where
  "setReadWrite G op old =
     (if EpollMod G = EPOLLET then
        (let events = EPOLLERR OR EPOLLHUP OR EPOLLRDHUP OR EPOLLPRI OR EPOLLIN OR EPOLLOUT OR EPOLLET OR cfgONESHOT G in
         if cfgONESHOT G \<noteq> EPOLLONESHOT then (if op = CtlAdd then events else old)
         else events)
      else EPOLLERR OR EPOLLHUP OR EPOLLRDHUP OR EPOLLPRI OR EPOLLIN OR EPOLLOUT)"

definition addRead :: "'k pollcfg \<Rightarrow> 32 word" where "addRead G = setRead G CtlAdd 0"
definition addReadWrite :: "'k pollcfg \<Rightarrow> 32 word" where "addReadWrite G = setReadWrite G CtlAdd 0"

text \<open>What is registered after the requests a connection made to its poller.\<close>

fun interest_act :: "'k pollcfg \<Rightarrow> net_action \<Rightarrow> 32 word \<Rightarrow> 32 word" where
  "interest_act G PollModWrite m = setReadWrite G CtlMod m"
| "interest_act G PollResetRead m = setRead G CtlMod m"
| "interest_act G a m = m"

definition interest :: "'k pollcfg \<Rightarrow> net_action list \<Rightarrow> 32 word \<Rightarrow> 32 word" where
  "interest G acts m = fold (interest_act G) acts m"

definition isOneshotG :: "'k pollcfg \<Rightarrow> bool" where
  "isOneshotG G \<longleftrightarrow> EpollMod G = EPOLLET \<and> cfgONESHOT G = EPOLLONESHOT"

definition ResetPollerEvent :: "'k pollcfg \<Rightarrow> 'k conn \<Rightarrow> 'k conn" where
  "ResetPollerEvent G c =
     (if isOneshotG G \<and> \<not> n_closed c then
        (if n_writeList c = [] then log_act PollResetRead c else log_act PollModWrite c)
      else c)"

text \<open>Reading from a stream socket, as \<open>pRead\<close>.\<close>

definition stream_read ::
  "(nat \<Rightarrow> 'k \<Rightarrow> 'k \<times> octets \<times> errno option) \<Rightarrow> nat \<Rightarrow> 'k conn \<Rightarrow> 'k conn \<times> octets \<times> conn_err option" where
  "stream_read rd len c =
     (if n_closed c then (c, [], Some NErrClosed)
      else case rd len (n_k c) of (k, b, e) \<Rightarrow> (c\<lparr>n_k := k\<rparr>, b, map_option NErrno e))"

text \<open>The read loop of an event: at most \<open>lim\<close> reads, or without a limit when the peer hung up.\<close>

partial_function (option) poll_reads ::
  "'k pollcfg \<Rightarrow> bool \<Rightarrow> nat option \<Rightarrow> nat \<Rightarrow> 'k pconn \<Rightarrow> 'k pconn option" where
  "poll_reads G drainPeer lim i p =
     (if (case lim of None \<Rightarrow> True | Some m \<Rightarrow> i < m) then
        (case pRead G (ReadBufferSize G) (p_conn p) of (c, b, err) \<Rightarrow>
          (let n = length b;
               p = p\<lparr>p_conn := c, p_data := (if n > 0 then p_data p @ [b] else p_data p)\<rparr>
           in if err = Some (NErrno EINTR) then poll_reads G drainPeer lim (Suc i) p
              else if err = Some (NErrno EAGAIN) then Some p
              else if err \<noteq> None then Some (p\<lparr>p_conn := closeWithError err (p_conn p)\<rparr>)
              else if drainPeer then (if n = 0 then Some p else poll_reads G drainPeer lim (Suc i) p)
              else if n < ReadBufferSize G \<and> \<not> isDatagram c then Some p
              else poll_reads G drainPeer lim (Suc i) p))
      else Some p)"

definition on_writable :: "'k pollcfg \<Rightarrow> 'k pconn \<Rightarrow> 'k pconn option" where
  "on_writable G p =
     (if \<not> p_onConnected p then
        (case flush (pKenv G) (p_conn p) of None \<Rightarrow> None | Some (c, _) \<Rightarrow> Some (p\<lparr>p_conn := c\<rparr>))
      else Some (p\<lparr>p_log := p_log p @ [Connected], p_onConnected := False, p_conn := resetRead (pOnConnected G (p_conn p))\<rparr>))"

definition on_readable :: "'k pollcfg \<Rightarrow> bool \<Rightarrow> 'k pconn \<Rightarrow> 'k pconn option" where
  "on_readable G drainPeer p =
     (if \<not> hasOnRead G then
        (if AsyncReadInPoller G \<and> EpollMod G = EPOLLET then Some (p\<lparr>p_log := p_log p @ [ReadAsync]\<rparr>)
         else map_option (\<lambda>p. if isOneshotG G then p\<lparr>p_conn := ResetPollerEvent G (p_conn p)\<rparr> else p)
                (poll_reads G drainPeer (if drainPeer then None else Some (MaxReadTimes G)) 0 p))
      else Some (p\<lparr>p_log := p_log p @ [ReadUser]\<rparr>))"

definition handle_event :: "'k pollcfg \<Rightarrow> 32 word \<Rightarrow> 'k pconn \<Rightarrow> 'k pconn option" where
  "handle_event G ev p =
     (case (if ev AND epollEventsWrite \<noteq> 0 then on_writable G p else Some p) of
        None \<Rightarrow> None
      | Some p \<Rightarrow>
          (let peerHangup = ev AND (EPOLLHUP OR EPOLLRDHUP) \<noteq> 0;
               drainPeer = peerHangup \<and> \<not> hasOnRead G \<and> \<not> (AsyncReadInPoller G \<and> EpollMod G = EPOLLET) \<and> \<not> isDatagram (p_conn p)
           in case (if ev AND epollEventsRead \<noteq> 0 \<or> drainPeer then on_readable G drainPeer p else Some p) of
                None \<Rightarrow> None
              | Some p \<Rightarrow>
                  Some (if ev AND epollEventsError \<noteq> 0
                        then p\<lparr>p_conn := closeWithError (Some NErrEOF) (p_conn p)\<rparr> else p)))"

declare poll_reads.simps [code]

end
