(* ===== verification/PollerInv.thy ===== *)
theory PollerInv
  imports Poller
begin

unbundle bit_operations_syntax

text \<open>
  Facts on the poller: draining a connection whose peer hung up, the masks that \<open>setRead\<close> and
  \<open>setReadWrite\<close> register and how the operations of a connection keep them in step with its queue,
  and re-arming in one-shot mode. \<open>hup_reads\<close> is what the kernel does on a stream that the peer has
  shut down: a read returns a non-empty prefix of what is left, or nothing when nothing is left, or
  is interrupted, which \<open>sig\<close> bounds.
\<close>

definition hup_read :: "('k \<Rightarrow> octets) \<Rightarrow> ('k \<Rightarrow> nat) \<Rightarrow> nat \<Rightarrow> 'k \<Rightarrow> 'k \<times> octets \<times> errno option \<Rightarrow> bool" where
  "hup_read incoming sig len k r = (case r of (k', b, e) \<Rightarrow>
     incoming k = b @ incoming k' \<and> length b \<le> len \<and> sig k' \<le> sig k \<and>
     (case e of None \<Rightarrow> b = [] \<longleftrightarrow> incoming k = [] | Some x \<Rightarrow> x = EINTR \<and> b = [] \<and> sig k' < sig k))"

definition hup_reads :: "(nat \<Rightarrow> 'k \<Rightarrow> 'k \<times> octets \<times> errno option) \<Rightarrow> ('k \<Rightarrow> octets) \<Rightarrow> ('k \<Rightarrow> nat) \<Rightarrow> bool" where
  "hup_reads rd incoming sig \<longleftrightarrow> (\<forall>len k. 0 < len \<longrightarrow> hup_read incoming sig len k (rd len k))"

text \<open>Event masks.\<close>

definition reads_on :: "32 word \<Rightarrow> bool" where
  "reads_on m \<longleftrightarrow> m AND EPOLLIN \<noteq> 0"

definition writes_on :: "32 word \<Rightarrow> bool" where
  "writes_on m \<longleftrightarrow> m AND EPOLLOUT \<noteq> 0"

definition et_plain :: "'k pollcfg \<Rightarrow> bool" where
  "et_plain G \<longleftrightarrow> EpollMod G = EPOLLET \<and> cfgONESHOT G \<noteq> EPOLLONESHOT"

definition poll_inv :: "'k pollcfg \<Rightarrow> 32 word \<Rightarrow> 'k conn \<Rightarrow> bool" where
  "poll_inv G m0 c \<longleftrightarrow> (let m = interest G (n_log c) m0 in reads_on m \<and> (n_isWAdded c \<or> et_plain G \<longrightarrow> writes_on m))"

definition extends_log :: "'k conn \<Rightarrow> 'k conn \<Rightarrow> bool" where
  "extends_log c c' \<longleftrightarrow> (\<exists>acts. n_log c' = n_log c @ acts)"

definition rearmed :: "'k pollcfg \<Rightarrow> 'k conn \<Rightarrow> 'k conn \<Rightarrow> bool" where
  "rearmed G c c' \<longleftrightarrow> (\<exists>acts. n_log c' = n_log c @ acts \<and> reads_on (interest G acts 0) \<and>
     (n_writeList c' \<noteq> [] \<longrightarrow> writes_on (interest G acts 0)))"

lemma hup_readsD:
  assumes "hup_reads rd incoming sig" "rd len k = (k', b, e)" "0 < len"
  shows "incoming k = b @ incoming k' \<and> sig k' \<le> sig k \<and>
     (case e of None \<Rightarrow> b = [] \<longleftrightarrow> incoming k = [] | Some x \<Rightarrow> x = EINTR \<and> b = [] \<and> sig k' < sig k)"
proof -
  have "hup_read incoming sig len k (k', b, e)" using assms unfolding hup_reads_def by metis
  then show ?thesis by (simp add: hup_read_def)
qed

text \<open>Draining a connection whose peer hung up delivers everything the kernel holds.\<close>

lemma poll_reads_drain:
  assumes G: "pRead G = stream_read rd" "0 < ReadBufferSize G" "hup_reads rd incoming sig"
  shows "\<not> n_closed (p_conn p) \<Longrightarrow>
    \<exists>p'. poll_reads G True None i p = Some p' \<and> concat (p_data p') = concat (p_data p) @ incoming (n_k (p_conn p)) \<and>
      \<not> n_closed (p_conn p') \<and> n_writeList (p_conn p') = n_writeList (p_conn p) \<and> n_typ (p_conn p') = n_typ (p_conn p) \<and>
      incoming (n_k (p_conn p')) = []"
proof (induction "length (incoming (n_k (p_conn p))) + sig (n_k (p_conn p))" arbitrary: p i rule: less_induct)
  case less
  obtain k b e where r: "rd (ReadBufferSize G) (n_k (p_conn p)) = (k, b, e)" by (cases "rd (ReadBufferSize G) (n_k (p_conn p))")
  note h = hup_readsD [OF G(3) r G(2)]
  have pr: "pRead G (ReadBufferSize G) (p_conn p) = ((p_conn p)\<lparr>n_k := k\<rparr>, b, map_option NErrno e)"
    using G(1) less.prems r by (simp add: stream_read_def)
  let ?p = "p\<lparr>p_conn := (p_conn p)\<lparr>n_k := k\<rparr>, p_data := (if length b > 0 then p_data p @ [b] else p_data p)\<rparr>"
  have d: "concat (p_data ?p) @ incoming k = concat (p_data p) @ incoming (n_k (p_conn p))" using h by auto
  show ?case
  proof (cases "e = None \<and> b = []")
    case True
    then have "poll_reads G True None i p = Some ?p" using pr by (subst poll_reads.simps) (simp add: Let_def)
    moreover have "incoming k = []" using h True by auto
    ultimately show ?thesis using d less.prems by auto
  next
    case False
    have rec: "poll_reads G True None i p = poll_reads G True None (Suc i) ?p"
    proof (cases e)
      case None
      then show ?thesis using pr False poll_reads.simps [of G True None i p] by (simp add: Let_def)
    next
      case (Some x)
      then have "x = EINTR" using h by simp
      then show ?thesis using pr Some poll_reads.simps [of G True None i p] by (simp add: Let_def)
    qed
    have hd: "incoming (n_k (p_conn p)) = b @ incoming k" "sig k \<le> sig (n_k (p_conn p))" "e = None \<and> b \<noteq> [] \<or> sig k < sig (n_k (p_conn p))"
      using h False by (cases e; simp)+
    have lt: "length (incoming k) + sig k < length (incoming (n_k (p_conn p))) + sig (n_k (p_conn p))"
      unfolding hd(1) using hd(2,3) by (cases b) auto
    have "length (incoming (n_k (p_conn ?p))) + sig (n_k (p_conn ?p)) < length (incoming (n_k (p_conn p))) + sig (n_k (p_conn p))"
      using lt by simp
    from less.hyps [OF this, of "Suc i"] obtain p' where p': "poll_reads G True None (Suc i) ?p = Some p'"
      "concat (p_data p') = concat (p_data ?p) @ incoming (n_k (p_conn ?p))" "\<not> n_closed (p_conn p')"
      "n_writeList (p_conn p') = n_writeList (p_conn ?p)" "n_typ (p_conn p') = n_typ (p_conn ?p)" "incoming (n_k (p_conn p')) = []"
      using less.prems by auto
    have "concat (p_data p') = concat (p_data p) @ incoming (n_k (p_conn p))" using p'(2) d by simp
    then show ?thesis using rec p'(1,3-6) by simp
  qed
qed

lemma closeWithError_closed: "n_closed (closeWithError e c)"
proof -
  have "n_closed (fold releaseToWrite ts d) = n_closed d" for ts and d :: "'a conn"
    by (induction ts arbitrary: d) simp_all
  then show ?thesis by (simp add: closeWithError_def)
qed

lemma interest_log [simp]: "interest G (n_log (log_act a c)) m = interest_act G a (interest G (n_log c) m)"
  by (simp add: interest_def log_act_def)

lemma reads_on_bit: "reads_on m \<longleftrightarrow> bit m 0"
  using and_exp_eq_0_iff_not_bit [of m 0] by (simp add: reads_on_def)

lemma writes_on_bit: "writes_on m \<longleftrightarrow> bit m 2"
  using and_exp_eq_0_iff_not_bit [of m 2] by (simp add: writes_on_def)

lemma setRead_mask:
  "reads_on (setRead G CtlAdd m)" "et_plain G \<Longrightarrow> writes_on (setRead G CtlAdd m)"
  "et_plain G \<Longrightarrow> setRead G CtlMod m = m"
  "\<not> et_plain G \<Longrightarrow> reads_on (setRead G CtlMod m) \<and> \<not> writes_on (setRead G CtlMod m)"
  by (auto simp: setRead_def reads_on_bit writes_on_bit et_plain_def Let_def bit_simps)

lemma setReadWrite_mask:
  "reads_on (setReadWrite G CtlAdd m)" "writes_on (setReadWrite G CtlAdd m)"
  "et_plain G \<Longrightarrow> setReadWrite G CtlMod m = m"
  "\<not> et_plain G \<Longrightarrow> reads_on (setReadWrite G CtlMod m) \<and> writes_on (setReadWrite G CtlMod m)"
  by (auto simp: setReadWrite_def reads_on_bit writes_on_bit et_plain_def Let_def bit_simps)

lemma poll_inv_cong: "n_log c = n_log d \<Longrightarrow> n_isWAdded c = n_isWAdded d \<Longrightarrow> poll_inv G m c = poll_inv G m d"
  by (simp add: poll_inv_def)

lemma poll_inv_modWrite [simp]: "poll_inv G m c \<Longrightarrow> poll_inv G m (modWrite c)"
  using setReadWrite_mask(3,4) [of G "interest G (n_log c) m"]
  by (cases "et_plain G") (auto simp: modWrite_def poll_inv_def Let_def)

lemma poll_inv_PollModWrite [simp]: "poll_inv G m c \<Longrightarrow> poll_inv G m (log_act PollModWrite c)"
  using setReadWrite_mask(3,4) [of G "interest G (n_log c) m"]
  by (cases "et_plain G") (auto simp: poll_inv_def Let_def)

lemma poll_inv_resetRead [simp]: "poll_inv G m c \<Longrightarrow> poll_inv G m (resetRead c)"
  using setRead_mask(3,4) [of G "interest G (n_log c) m"]
  by (cases "et_plain G") (auto simp: resetRead_def poll_inv_def Let_def)

lemma poll_inv_log [simp]: 
  "poll_inv G m (log_act (WrittenSize b n) c) = poll_inv G m c" "poll_inv G m (log_act (CloseFile fd) c) = poll_inv G m c"
  by (simp_all add: poll_inv_def)

lemma poll_inv_release [simp]: "poll_inv G m (releaseToWrite t c) = poll_inv G m c"
  by (cases t) simp_all

lemma poll_inv_upd [simp]:
  "poll_inv G m (c\<lparr>n_k := k\<rparr>) = poll_inv G m c" "poll_inv G m (c\<lparr>n_left := l\<rparr>) = poll_inv G m c"
  "poll_inv G m (c\<lparr>n_writeList := ts\<rparr>) = poll_inv G m c" "poll_inv G m (c\<lparr>n_wTimer := t\<rparr>) = poll_inv G m c"
  by (simp_all add: poll_inv_def)

lemma poll_inv_newToWriteBuf [simp]: "poll_inv G m (newToWriteBuf b c) = poll_inv G m c"
  by (auto simp: newToWriteBuf_def Let_def split: toWrite.split)

lemma poll_inv_newToWriteFile [simp]: "poll_inv G m (newToWriteFile fd off rem c) = poll_inv G m c"
  by (simp add: newToWriteFile_def)

lemma poll_inv_doWrite: "doWrite K b c = (c', n, e) \<Longrightarrow> poll_inv G m c' = poll_inv G m c"
  by (auto simp: doWrite_def Let_def split: prod.splits if_splits)

lemma poll_inv_nwrite: "nwrite K b c = (c', n, e) \<Longrightarrow> poll_inv G m c' = poll_inv G m c"
  by (auto simp: nwrite_def Let_def split: prod.splits if_splits dest: poll_inv_doWrite [of K b c _ _ _ G m])

lemma poll_inv_fold [simp]: "poll_inv G m (fold newToWriteBuf bs c) = poll_inv G m c"
  by (induction bs arbitrary: c) simp_all

lemma poll_inv_writev_rest [simp]: "poll_inv G m (writev_rest bs n c) = poll_inv G m c"
  by (induction bs n c rule: writev_rest.induct) auto

lemma poll_inv_nwritev: "nwritev K bs c = (c', n, e) \<Longrightarrow> poll_inv G m c' = poll_inv G m c"
  by (auto simp: nwritev_def sys_writev_def Let_def split: prod.splits if_splits)

lemma poll_inv_afterWrite: "afterWrite (c, n, e) = (c', n', None) \<Longrightarrow> poll_inv G m c \<Longrightarrow> poll_inv G m c'"
  by (auto simp: afterWrite_def split: if_splits)

lemma poll_inv_Write:
  assumes "Write K b c = (c', n, None)" "poll_inv G m c"
  shows "poll_inv G m c'"
proof -
  obtain c1 k e where w: "nwrite K b c = (c1, k, e)" by (cases "nwrite K b c")
  then have "afterWrite (c1, k, e) = (c', n, None)" using assms(1) by (auto simp: Write_def split: if_splits)
  then show ?thesis using poll_inv_afterWrite poll_inv_nwrite [OF w] assms(2) by metis
qed

lemma poll_inv_Writev:
  assumes "Writev K bs c = (c', n, None)" "poll_inv G m c"
  shows "poll_inv G m c'"
proof -
  obtain c1 k e where w: "(case bs of [b] \<Rightarrow> nwrite K b c | _ \<Rightarrow> nwritev K bs c) = (c1, k, e)"
    by (cases "case bs of [b] \<Rightarrow> nwrite K b c | _ \<Rightarrow> nwritev K bs c")
  have "afterWrite (c1, k, e) = (c', n, None)" using assms(1) w by (auto simp: Writev_def split: if_splits)
  moreover have "poll_inv G m c1 = poll_inv G m c"
    using w poll_inv_nwrite poll_inv_nwritev by (fastforce split: list.splits)
  ultimately show ?thesis using poll_inv_afterWrite assms(2) by metis
qed

lemma poll_inv_sendfile_loop:
  "sendfile_loop K src off rem c = Some r \<Longrightarrow> poll_inv G m c \<Longrightarrow> snd r = None \<longrightarrow> poll_inv G m (fst r)"
proof (induction K src off rem c r rule: sendfile_loop.raw_induct [rotated, consumes 1, case_names step])
  case (step sf K src off rem c r)
  have IH: "sf K src o' r' d = Some r \<Longrightarrow> poll_inv G m d \<Longrightarrow> snd r = None \<longrightarrow> poll_inv G m (fst r)" for o' r' d
    using step.IH [of K src o' r' d r] by auto
  show ?case using step.hyps step.prems IH
    by (auto simp: Let_def split: if_splits prod.splits sum.splits)
qed

lemma poll_inv_Sendfile:
  assumes "Sendfile K src off sz remain c = Some (c', n, None)" "poll_inv G m c"
  shows "poll_inv G m c'"
  using assms poll_inv_sendfile_loop [of K src off _ c _ G m]
  by (fastforce simp: Sendfile_def Let_def split: if_splits prod.splits sum.splits option.splits)

lemma poll_inv_writeFile: "writeFile K fd off rem ts c = Some r \<Longrightarrow> poll_inv G m (fst r) = poll_inv G m c"
proof (induction K fd off rem ts c r rule: writeFile.raw_induct [rotated, consumes 1, case_names step])
  case (step wf K fd off rem ts c r)
  have IH: "wf K fd o' r' ts d = Some r \<Longrightarrow> poll_inv G m (fst r) = poll_inv G m d" for o' r' d
    using step.IH [of K fd o' r' ts d r] by auto
  show ?case using step.hyps IH by (auto simp: Let_def split: if_splits prod.splits)
qed

lemma poll_inv_flush_step: "flush_step K t ts c = Some (c1, e) \<Longrightarrow> poll_inv G m c1 = poll_inv G m c"
  using poll_inv_writeFile [of K _ _ _ ts c "(c1, e)" G m]
  by (auto simp: flush_step_def writeBuffer_def Let_def split: toWrite.splits if_splits prod.splits)

lemma poll_inv_flush_loop: "flush_loop K c = Some r \<Longrightarrow> poll_inv G m c \<Longrightarrow> snd r = None \<longrightarrow> poll_inv G m (fst r)"
proof (induction K c r rule: flush_loop.raw_induct [rotated, consumes 1, case_names step])
  case (step fl K c r)
  show ?case
  proof (cases "n_writeList c")
    case (Cons t ts)
    then obtain c1 e where h: "flush_step K t ts c = Some (c1, e)"
      using step.hyps by (auto simp: flush_step_def split: option.splits toWrite.splits)
    have "poll_inv G m c1" using poll_inv_flush_step [OF h] step.prems by simp
    then show ?thesis using step.hyps step.IH [of K c1 r] Cons h
      by (auto simp: flush_step_def split: if_splits)
  qed (use step.hyps step.prems in auto)
qed

lemma poll_inv_run:
  assumes "conn_run K cont c0 bs c" "poll_inv G m c0"
  shows "poll_inv G m c"
  using assms
proof (induction rule: conn_run.induct)
  case (conn_flush bs c c')
  then show ?case using poll_inv_flush_loop [of K c _ G m] by (force simp: flush_def split: if_splits)
next
  case (conn_sendfile bs c off src remain c' n)
  then show ?case using poll_inv_Sendfile [of K src off "length (cont src)" remain c c' n G m] by simp
qed (use poll_inv_Write poll_inv_Writev in blast)+

lemma extends_log_refl [simp]: "extends_log c c"
  by (simp add: extends_log_def)

lemma extends_log_trans: "extends_log c d \<Longrightarrow> extends_log d e \<Longrightarrow> extends_log c e"
  by (auto simp: extends_log_def)

lemma extends_log_act [simp]: "extends_log c d \<Longrightarrow> extends_log c (log_act a d)"
  by (auto simp: extends_log_def log_act_def)

lemma extends_log_release [simp]: "extends_log c d \<Longrightarrow> extends_log c (releaseToWrite t d)"
  by (cases t) auto

lemma extends_log_upd [simp]:
  "extends_log c (d\<lparr>n_k := k\<rparr>) = extends_log c d" "extends_log c (d\<lparr>n_left := l\<rparr>) = extends_log c d"
  "extends_log c (d\<lparr>n_writeList := ts\<rparr>) = extends_log c d"
  by (simp_all add: extends_log_def)

lemma extends_log_writeFile:
  "writeFile K fd off rem ts c = Some r \<Longrightarrow> extends_log c0 c \<Longrightarrow> extends_log c0 (fst r) \<and> n_isWAdded (fst r) = n_isWAdded c \<and> n_closed (fst r) = n_closed c"
proof (induction K fd off rem ts c r rule: writeFile.raw_induct [rotated, consumes 1, case_names step])
  case (step wf K fd off rem ts c r)
  have IH: "wf K fd o' r' ts d = Some r \<Longrightarrow> extends_log c0 d \<Longrightarrow> n_isWAdded d = n_isWAdded c \<Longrightarrow> n_closed d = n_closed c \<Longrightarrow>
      extends_log c0 (fst r) \<and> n_isWAdded (fst r) = n_isWAdded c \<and> n_closed (fst r) = n_closed c" for o' r' d
    using step.IH [of K fd o' r' ts d r] by auto
  show ?case using step.hyps IH step.prems by (auto simp: Let_def split: if_splits prod.splits)
qed

lemma extends_log_flush_step:
  "flush_step K t ts c = Some (c1, e) \<Longrightarrow> extends_log c c1 \<and> n_isWAdded c1 = n_isWAdded c \<and> n_closed c1 = n_closed c"
  using extends_log_writeFile [of K _ _ _ ts c "(c1, e)" c]
  by (auto simp: flush_step_def writeBuffer_def Let_def split: toWrite.splits if_splits prod.splits)

text \<open>In one-shot mode the last request to the poller decides the mask.\<close>

lemma rearmed_last:
  assumes "isOneshotG G" "extends_log c d" "a = PollModWrite \<or> a = PollResetRead \<and> n_writeList c' = []" "n_log c' = n_log d @ [a]"
  shows "rearmed G c c'"
proof -
  obtain acts where "n_log c' = n_log c @ (acts @ [a])" using assms(2,4) by (auto simp: extends_log_def)
  moreover have "\<not> et_plain G" using assms(1) by (simp add: isOneshotG_def et_plain_def)
  then have "reads_on (interest G (acts @ [a]) 0) \<and> (n_writeList c' \<noteq> [] \<longrightarrow> writes_on (interest G (acts @ [a]) 0))"
    using assms(3) setRead_mask(4) [of G] setReadWrite_mask(4) [of G] by (auto simp: interest_def)
  ultimately show ?thesis unfolding rearmed_def by blast
qed

lemma flush_loop_rearms:
  "flush_loop K c = Some r \<Longrightarrow> isOneshotG G \<Longrightarrow> isOneshot K \<Longrightarrow> n_isWAdded c \<Longrightarrow> \<not> n_closed c \<Longrightarrow> extends_log c0 c \<Longrightarrow>
   n_closed (fst r) \<or> rearmed G c0 (fst r) \<and> extends_log c0 (fst r)"
proof (induction K c r rule: flush_loop.raw_induct [rotated, consumes 1, case_names step])
  case (step fl K c r)
  show ?case
  proof (cases "n_writeList c")
    case Nil
    then have r: "r = (log_act PollResetRead (c\<lparr>n_isWAdded := False\<rparr>), None)" using step.hyps step.prems by (simp add: resetRead_def)
    have "rearmed G c0 (fst r)" using step.prems Nil r by (intro rearmed_last [of _ _ c PollResetRead]) (auto simp: log_act_def)
    then show ?thesis using r step.prems by (auto simp: log_act_def extends_log_def)
  next
    case (Cons t ts)
    then obtain c1 e where h: "flush_step K t ts c = Some (c1, e)"
      using step.hyps by (auto simp: flush_step_def split: option.splits toWrite.splits)
    note x = extends_log_flush_step [OF h]
    have x0: "extends_log c0 c1" using x step.prems extends_log_trans by blast
    have body: "(if e = Some EINTR then fl K c1
               else if e = Some EAGAIN then Some (log_act PollModWrite c1, None)
               else if e \<noteq> None then
                 Some (closeWithErrorWithoutLock (map_option NErrno e) (c1\<lparr>n_closed := True\<rparr>), map_option NErrno e)
               else fl K c1) = Some r"
      using step.hyps step.prems Cons h by (auto simp: flush_step_def split: if_splits)
    have IH: "fl K c1 = Some r \<Longrightarrow> ?thesis" using step.IH [of K c1 r] x x0 step.prems by auto
    have "rearmed G c0 (log_act PollModWrite c1)"
      using step.prems(1) x0 by (intro rearmed_last [of _ _ c1 PollModWrite]) (auto simp: log_act_def)
    then show ?thesis using body IH x0 by (auto split: if_splits)
  qed
qed

lemma ResetPollerEvent_rearms:
  assumes "isOneshotG G" "\<not> n_closed c" "extends_log c0 c"
  shows "rearmed G c0 (ResetPollerEvent G c)"
  using assms rearmed_last [of G c0 c PollResetRead "log_act PollResetRead c"] rearmed_last [of G c0 c PollModWrite "log_act PollModWrite c"]
  by (auto simp: ResetPollerEvent_def log_act_def)

lemma poll_reads_log:
  assumes "poll_reads G d lim i p = Some p'" "pRead G = stream_read rd" "n_closed (p_conn p) \<or> extends_log c0 (p_conn p)"
  shows "n_closed (p_conn p') \<or> extends_log c0 (p_conn p')"
  using assms
proof (induction G d lim i p p' rule: poll_reads.raw_induct [rotated, consumes 1, case_names step])
  case (step pr G d lim i p p')
  have IH: "pr G d lim j q = Some p' \<Longrightarrow> n_closed (p_conn q) \<or> extends_log c0 (p_conn q) \<Longrightarrow> n_closed (p_conn p') \<or> extends_log c0 (p_conn p')" for j q
    using step.IH [of G d lim j q p'] step.prems by auto
  obtain c b e where s: "stream_read rd (ReadBufferSize G) (p_conn p) = (c, b, e)" by (cases "stream_read rd (ReadBufferSize G) (p_conn p)")
  then have x: "n_closed c \<or> extends_log c0 c" using step.prems(2) by (auto simp: stream_read_def split: if_splits prod.splits)
  show ?case using step.hyps s x IH step.prems closeWithError_closed
    by (auto simp: Let_def split: if_splits)
qed

lemma handle_eventE:
  assumes "handle_event G ev p = Some p'"
  obtains p1 p2 d where "(if ev AND EPOLLOUT \<noteq> 0 then on_writable G p else Some p) = Some p1"
    "(if ev AND epollEventsRead \<noteq> 0 \<or> d then on_readable G d p1 else Some p1) = Some p2"
    "p' = (if ev AND epollEventsError \<noteq> 0 then p2\<lparr>p_conn := closeWithError (Some NErrEOF) (p_conn p2)\<rparr> else p2)"
  using assms by (auto simp: handle_event_def epollEventsWrite_def Let_def split: option.splits)

lemma on_writable_rearms:
  assumes "on_writable G p = Some p'" "isOneshotG G" "isOneshot (pKenv G)" "\<not> n_closed (p_conn p)" "armed (p_conn p)" "\<not> p_onConnected p"
  shows "n_closed (p_conn p') \<or> extends_log (p_conn p) (p_conn p') \<and> (n_writeList (p_conn p) \<noteq> [] \<longrightarrow> rearmed G (p_conn p) (p_conn p'))"
proof -
  obtain c r where f: "flush (pKenv G) (p_conn p) = Some (c, r)" "p' = p\<lparr>p_conn := c\<rparr>"
    using assms(1,6) by (auto simp: on_writable_def split: option.splits)
  show ?thesis
  proof (cases "n_writeList (p_conn p) = []")
    case False
    then have "flush_loop (pKenv G) (p_conn p) = Some (c, r)" "n_isWAdded (p_conn p)"
      using f(1) assms(4,5) by (auto simp: flush_def armed_def)
    from flush_loop_rearms [OF this(1) assms(2,3) this(2) assms(4), of "p_conn p"] show ?thesis using f(2) by auto
  qed (use f assms(4) in \<open>auto simp: flush_def\<close>)
qed

end
