(* ===== verification/EngineConns.thy ===== *)
theory EngineConns
  imports ConnUnix
begin

text \<open>
  The engine's bookkeeping of connections: the table from descriptors to connections
  (\<open>Engine.connsUnix\<close>), \<open>addConn\<close>, \<open>addDialer\<close>, \<open>getConn\<close> and \<open>deleteConn\<close> of the poller, the wait
  group \<open>wgConn\<close> that \<open>Stop\<close> waits on, and the callbacks \<open>onOpen\<close> and \<open>onClose\<close> with the counting
  \<open>engine.go\<close> wraps around them. \<open>onClose\<close> runs in the engine's asynchronous queue: \<open>es_async\<close> holds
  what waits there. Connections are named by their position in \<open>es_store\<close>; whether \<open>epoll_ctl\<close>
  succeeds is an argument.
\<close>

record econn =
  ec_fd :: nat
  ec_typ :: ConnType
  ec_p :: bool
  ec_closed :: bool

datatype async_job = JobOnClose nat | JobClose nat

record estate =
  connsUnix :: "nat option list"
  es_store :: "econn list"
  wgConn :: int
  es_stopped :: bool
  es_async :: "async_job list"
  es_opened :: "nat list"
  es_finished :: "nat list"

definition new_engine :: "nat \<Rightarrow> estate" where
  "new_engine maxOpenFiles = \<lparr>connsUnix = replicate maxOpenFiles None, es_store = [], wgConn = 1, es_stopped = False,
     es_async = [], es_opened = [], es_finished = []\<rparr>"

definition set_econn :: "nat \<Rightarrow> (econn \<Rightarrow> econn) \<Rightarrow> estate \<Rightarrow> estate" where
  "set_econn i f s = s\<lparr>es_store := (es_store s)[i := f (es_store s ! i)]\<rparr>"

definition onOpen :: "nat \<Rightarrow> estate \<Rightarrow> estate" where
  "onOpen i s = s\<lparr>wgConn := wgConn s + 1, es_opened := es_opened s @ [i]\<rparr>"

definition onClose :: "nat \<Rightarrow> estate \<Rightarrow> estate" where
  "onClose i s = s\<lparr>es_async := es_async s @ [JobOnClose i]\<rparr>"

definition getConn :: "nat \<Rightarrow> estate \<Rightarrow> nat option" where
  "getConn fd s = connsUnix s ! fd"

definition deleteConn :: "nat \<Rightarrow> estate \<Rightarrow> estate" where
  "deleteConn i s =
     (let c = es_store s ! i; fd = ec_fd c;
          s = (if ec_typ c \<noteq> ConnTypeUDPClientFromRead \<and> connsUnix s ! fd = Some i
               then s\<lparr>connsUnix := (connsUnix s)[fd := None]\<rparr> else s)
      in if ec_typ c \<noteq> ConnTypeUDPServer then onClose i s else s)"

text \<open>\<open>closeWithError\<close>: a connection that no poller has yet has nothing to be deleted from.\<close>

definition engine_close :: "nat \<Rightarrow> estate \<Rightarrow> estate" where
  "engine_close i s =
     (if ec_closed (es_store s ! i) then s
      else (let s = set_econn i (\<lambda>c. c\<lparr>ec_closed := True\<rparr>) s
            in if ec_p (es_store s ! i) then deleteConn i s else s))"

definition addConn :: "nat \<Rightarrow> bool \<Rightarrow> estate \<Rightarrow> estate \<times> bool" where
  "addConn i ctl_ok s =
     (let fd = ec_fd (es_store s ! i) in
      if fd \<ge> length (connsUnix s) then (engine_close i s, False)
      else
        (let s = set_econn i (\<lambda>c. c\<lparr>ec_p := True\<rparr>) s;
             s = (if ec_typ (es_store s ! i) \<noteq> ConnTypeUDPServer then onOpen i s else s);
             s = s\<lparr>connsUnix := (connsUnix s)[fd := Some i]\<rparr>
         in if \<not> ctl_ok then (engine_close i (s\<lparr>connsUnix := (connsUnix s)[fd := None]\<rparr>), False)
            else (s, True)))"

definition addDialer :: "nat \<Rightarrow> bool \<Rightarrow> estate \<Rightarrow> estate \<times> bool" where
  "addDialer i ctl_ok s =
     (let fd = ec_fd (es_store s ! i) in
      if fd \<ge> length (connsUnix s) then (engine_close i s, False)
      else
        (let s = set_econn i (\<lambda>c. c\<lparr>ec_p := True\<rparr>) s;
             s = s\<lparr>connsUnix := (connsUnix s)[fd := Some i]\<rparr>
         in if \<not> ctl_ok then (engine_close i (s\<lparr>connsUnix := (connsUnix s)[fd := None]\<rparr>), False)
            else (s, True)))"

text \<open>The end of \<open>DialAsyncTimeout\<close>: the connection is counted, then given to a poller.\<close>

definition dial_add :: "nat \<Rightarrow> bool \<Rightarrow> estate \<Rightarrow> estate \<times> bool" where
  "dial_add i ctl_ok s =
     (let s = s\<lparr>wgConn := wgConn s + 1, es_opened := es_opened s @ [i]\<rparr> in
      case addDialer i ctl_ok s of
        (s, True) \<Rightarrow> (s, True)
      | (s, False) \<Rightarrow> (s\<lparr>wgConn := wgConn s - 1, es_finished := es_finished s @ [i]\<rparr>, False))"

text \<open>\<open>Stop\<close> up to the wait: it gives back the engine's own count and closes every connection
  asynchronously.\<close>

definition Stop :: "estate \<Rightarrow> estate" where
  "Stop s =
     (if es_stopped s then s
      else s\<lparr>es_stopped := True, wgConn := wgConn s - 1,
             es_async := es_async s @ concat (map (\<lambda>x. case x of Some i \<Rightarrow> [JobClose i] | None \<Rightarrow> []) (connsUnix s))\<rparr>)"

fun run_job :: "async_job \<Rightarrow> estate \<Rightarrow> estate" where
  "run_job (JobOnClose i) s = s\<lparr>wgConn := wgConn s - 1, es_finished := es_finished s @ [i]\<rparr>"
| "run_job (JobClose i) s = engine_close i s"

definition async_next :: "estate \<Rightarrow> estate" where
  "async_next s = (case es_async s of [] \<Rightarrow> s | j # js \<Rightarrow> run_job j (s\<lparr>es_async := js\<rparr>))"

text \<open>\<open>fresh_fd\<close>: the kernel does not hand out a descriptor that an open connection still holds.\<close>

definition fresh_fd :: "nat \<Rightarrow> estate \<Rightarrow> bool" where
  "fresh_fd fd s \<longleftrightarrow> (\<forall>i < length (es_store s). ec_fd (es_store s ! i) = fd \<and> ec_typ (es_store s ! i) \<noteq> ConnTypeUDPClientFromRead \<longrightarrow> ec_closed (es_store s ! i))"

definition new_econn :: "nat \<Rightarrow> ConnType \<Rightarrow> estate \<Rightarrow> estate" where
  "new_econn fd ty s = s\<lparr>es_store := es_store s @ [\<lparr>ec_fd = fd, ec_typ = ty, ec_p = False, ec_closed = False\<rparr>]\<rparr>"

text \<open>A child of a UDP server shares the server's descriptor and is opened by \<open>readUDP\<close>.\<close>

definition open_udp_child :: "nat \<Rightarrow> estate \<Rightarrow> estate" where
  "open_udp_child parent s =
     (let i = length (es_store s) in
      onOpen i (s\<lparr>es_store := es_store s @ [\<lparr>ec_fd = ec_fd (es_store s ! parent), ec_typ = ConnTypeUDPClientFromRead, ec_p = True, ec_closed = False\<rparr>]\<rparr>))"

inductive engine_run :: "nat \<Rightarrow> estate \<Rightarrow> bool" for m where
  run_new: "engine_run m (new_engine m)"
| run_add: "engine_run m s \<Longrightarrow> fresh_fd fd s \<Longrightarrow> ty \<noteq> ConnTypeUDPClientFromRead \<Longrightarrow>
    addConn (length (es_store s)) ok (new_econn fd ty s) = (s', r) \<Longrightarrow> engine_run m s'"
| run_dial: "engine_run m s \<Longrightarrow> fresh_fd fd s \<Longrightarrow> ty \<notin> {ConnTypeUDPClientFromRead, ConnTypeUDPServer} \<Longrightarrow>
    dial_add (length (es_store s)) True (new_econn fd ty s) = (s', r) \<Longrightarrow> engine_run m s'"
| run_udp: "engine_run m s \<Longrightarrow> parent < length (es_store s) \<Longrightarrow> engine_run m (open_udp_child parent s)"
| run_close: "engine_run m s \<Longrightarrow> i < length (es_store s) \<Longrightarrow> engine_run m (engine_close i s)"
| run_async: "engine_run m s \<Longrightarrow> engine_run m (async_next s)"
| run_stop: "engine_run m s \<Longrightarrow> engine_run m (Stop s)"

end
