(* ===== verification/EngineInv.thy ===== *)
theory EngineInv
  imports EngineConns
begin

text \<open>
  The invariant of the engine's bookkeeping: the table of descriptors agrees with the open
  connections (\<open>table_ok\<close>; its argument exempts a connection that is about to be closed), and the
  wait group counts the connections whose close handler has not run (\<open>count_ok\<close>).
\<close>

definition pending_closes :: "async_job list \<Rightarrow> nat list" where
  "pending_closes js = concat (map (\<lambda>j. case j of JobOnClose i \<Rightarrow> [i] | JobClose i \<Rightarrow> []) js)"

definition gone :: "estate \<Rightarrow> nat list" where
  "gone s = es_finished s @ pending_closes (es_async s)"

definition live :: "econn \<Rightarrow> bool" where
  "live c \<longleftrightarrow> \<not> ec_closed c \<and> ec_p c \<and> ec_typ c \<noteq> ConnTypeUDPClientFromRead"

definition in_table :: "estate \<Rightarrow> nat \<Rightarrow> bool" where
  "in_table s i \<longleftrightarrow> ec_fd (es_store s ! i) < length (connsUnix s) \<and> connsUnix s ! ec_fd (es_store s ! i) = Some i"

definition table_ok :: "nat option \<Rightarrow> estate \<Rightarrow> bool" where
  "table_ok x s \<longleftrightarrow>
     (\<forall>i < length (es_store s). in_table s i = (live (es_store s ! i) \<and> x \<noteq> Some i)) \<and>
     (\<forall>fd < length (connsUnix s). \<forall>i. connsUnix s ! fd = Some i \<longrightarrow> i < length (es_store s) \<and> ec_fd (es_store s ! i) = fd)"

definition id_ok :: "econn \<Rightarrow> bool \<Rightarrow> bool \<Rightarrow> bool" where
  "id_ok c op gn \<longleftrightarrow> (ec_p c \<and> ec_typ c \<noteq> ConnTypeUDPServer \<longrightarrow> op) \<and> (op \<longrightarrow> ec_typ c \<noteq> ConnTypeUDPServer) \<and> (gn \<longleftrightarrow> op \<and> ec_closed c) \<and>
     (op \<and> \<not> ec_closed c \<longrightarrow> ec_p c)"

definition count_ok :: "estate \<Rightarrow> bool" where
  "count_ok s \<longleftrightarrow>
     wgConn s = (if es_stopped s then 0 else 1) + int (length (es_opened s)) - int (length (es_finished s)) \<and>
     distinct (es_opened s) \<and> distinct (gone s) \<and>
     (\<forall>i \<in> set (es_opened s) \<union> set (gone s). i < length (es_store s)) \<and>
     (\<forall>i < length (es_store s). id_ok (es_store s ! i) (i \<in> set (es_opened s)) (i \<in> set (gone s))) \<and>
     (\<forall>i. JobClose i \<in> set (es_async s) \<longrightarrow> i < length (es_store s) \<and> ec_p (es_store s ! i))"

definition einv :: "nat \<Rightarrow> estate \<Rightarrow> bool" where
  "einv m s \<longleftrightarrow> table_ok None s \<and> count_ok s \<and> length (connsUnix s) = m"

lemma pending_simps [simp]:
  "pending_closes (a @ b) = pending_closes a @ pending_closes b"
  "pending_closes [] = []" "pending_closes (JobOnClose i # js) = i # pending_closes js" "pending_closes (JobClose i # js) = pending_closes js"
  by (simp_all add: pending_closes_def)

lemma count_okD:
  assumes "count_ok s"
  shows "distinct (es_opened s)" "distinct (gone s)"
    "wgConn s = (if es_stopped s then 0 else 1) + int (length (es_opened s)) - int (length (es_finished s))"
    "i \<in> set (es_opened s) \<Longrightarrow> i < length (es_store s)" "i \<in> set (gone s) \<Longrightarrow> i < length (es_store s)"
    "i < length (es_store s) \<Longrightarrow> id_ok (es_store s ! i) (i \<in> set (es_opened s)) (i \<in> set (gone s))"
  using assms unfolding count_ok_def by blast+

text \<open>An operation that changes one connection.\<close>

lemma count_ok_one:
  assumes "count_ok s" "i < length (es_store s')" "length (es_store s) \<le> length (es_store s')" "length (es_store s') \<le> Suc (max i (length (es_store s) - 1))"
    and "\<And>j. j < length (es_store s) \<Longrightarrow> j \<noteq> i \<Longrightarrow> es_store s' ! j = es_store s ! j"
    and "i < length (es_store s) \<or> i = length (es_store s)"
    and "set (es_opened s') - {i} = set (es_opened s) - {i}" "set (gone s') - {i} = set (gone s) - {i}"
    and "distinct (es_opened s')" "distinct (gone s')"
    and "wgConn s' = (if es_stopped s' then 0 else 1) + int (length (es_opened s')) - int (length (es_finished s'))"
    and "id_ok (es_store s' ! i) (i \<in> set (es_opened s')) (i \<in> set (gone s'))"
    and "\<And>j. JobClose j \<in> set (es_async s') \<Longrightarrow> JobClose j \<in> set (es_async s)" "i < length (es_store s) \<Longrightarrow> ec_p (es_store s ! i) \<Longrightarrow> ec_p (es_store s' ! i)"
  shows "count_ok s'"
proof -
  have n: "j < length (es_store s') \<longleftrightarrow> j < length (es_store s) \<or> j = i" for j using assms(2,3,4,6) by auto
  have old: "j < length (es_store s)" if "j \<noteq> i" "j \<in> set (es_opened s') \<union> set (gone s')" for j
    using that assms(1,7,8) unfolding count_ok_def by blast
  have id: "id_ok (es_store s' ! j) (j \<in> set (es_opened s')) (j \<in> set (gone s'))" if "j < length (es_store s')" for j
  proof (cases "j = i")
    case False
    then have j: "j < length (es_store s)" using that n by simp
    have "j \<in> set (es_opened s') \<longleftrightarrow> j \<in> set (es_opened s)" "j \<in> set (gone s') \<longleftrightarrow> j \<in> set (gone s)" using False assms(7,8) by blast+
    moreover have "id_ok (es_store s ! j) (j \<in> set (es_opened s)) (j \<in> set (gone s))" using assms(1) j by (simp add: count_ok_def)
    ultimately show ?thesis using assms(5) [OF j False] by simp
  qed (use assms(12) in simp)
  have job: "j < length (es_store s') \<and> ec_p (es_store s' ! j)" if "JobClose j \<in> set (es_async s')" for j
  proof -
    have o: "j < length (es_store s)" "ec_p (es_store s ! j)" using assms(1) assms(13) [OF that] by (simp_all add: count_ok_def)
    then show ?thesis using n assms(5) [OF o(1)] assms(14) by (cases "j = i") auto
  qed
  show ?thesis unfolding count_ok_def using assms(9-11) id job old n by blast
qed

lemma engine_close_store:
  assumes "i < length (es_store s)"
  shows "es_store (engine_close i s) = (es_store s)[i := (es_store s ! i)\<lparr>ec_closed := True\<rparr>]"
proof (cases "ec_closed (es_store s ! i)")
  case True
  then have "(es_store s ! i)\<lparr>ec_closed := True\<rparr> = es_store s ! i" by (cases "es_store s ! i") simp
  then have "(es_store s)[i := (es_store s ! i)\<lparr>ec_closed := True\<rparr>] = es_store s" by simp
  then show ?thesis using True by (simp only: engine_close_def if_True)
qed (auto simp: engine_close_def set_econn_def deleteConn_def onClose_def Let_def)

lemma engine_close_count:
  assumes c: "count_ok s" and i: "i < length (es_store s)" and p: "ec_p (es_store s ! i) \<or> i \<notin> set (es_opened s)"
  shows "count_ok (engine_close i s)"
proof (cases "ec_closed (es_store s ! i)")
  case False
  have id: "id_ok (es_store s ! i) (i \<in> set (es_opened s)) (i \<in> set (gone s))" using c i by (simp add: count_ok_def)
  have ng: "i \<notin> set (gone s)" using id False by (simp add: id_ok_def)
  define j where "j = (if ec_p (es_store s ! i) \<and> ec_typ (es_store s ! i) \<noteq> ConnTypeUDPServer then [JobOnClose i] else [])"
  have f: "wgConn (engine_close i s) = wgConn s" "es_opened (engine_close i s) = es_opened s" "es_finished (engine_close i s) = es_finished s"
     "es_stopped (engine_close i s) = es_stopped s" "es_async (engine_close i s) = es_async s @ j"
    using False i by (auto simp: engine_close_def set_econn_def deleteConn_def onClose_def Let_def j_def)
  have g: "gone (engine_close i s) = gone s @ pending_closes j" by (simp add: gone_def f)
  have k: "distinct (es_opened s)" "distinct (gone s)" "wgConn s = (if es_stopped s then 0 else 1) + int (length (es_opened s)) - int (length (es_finished s))"
    using c by (simp_all add: count_ok_def)
  have pj: "pending_closes j = (if ec_p (es_store s ! i) \<and> ec_typ (es_store s ! i) \<noteq> ConnTypeUDPServer then [i] else [])" by (simp add: j_def)
  show ?thesis
  proof (rule count_ok_one [OF c, of i])
    show "id_ok (es_store (engine_close i s) ! i) (i \<in> set (es_opened (engine_close i s))) (i \<in> set (gone (engine_close i s)))"
    proof -
      have sp: "es_store (engine_close i s) ! i = (es_store s ! i)\<lparr>ec_closed := True\<rparr>" using i by (simp add: engine_close_store)
      show ?thesis unfolding sp f g pj using id p ng False
        by (cases "ec_p (es_store s ! i)"; cases "ec_typ (es_store s ! i) = ConnTypeUDPServer") (simp_all add: id_ok_def)
    qed
    show "distinct (gone (engine_close i s))" using k(2) ng unfolding g pj by auto
    show "set (gone (engine_close i s)) - {i} = set (gone s) - {i}" by (auto simp: g pj)
    show "\<And>m. JobClose m \<in> set (es_async (engine_close i s)) \<Longrightarrow> JobClose m \<in> set (es_async s)" by (auto simp: f j_def)
  qed (use i k in \<open>auto simp: engine_close_store f\<close>)
qed (use c in \<open>simp add: engine_close_def\<close>)

lemma engine_close_table:
  assumes t: "table_ok x s" "x = None \<or> x = Some i" and i: "i < length (es_store s)"
  shows "table_ok None (engine_close i s)"
proof -
  have len: "length (connsUnix (engine_close i s)) = length (connsUnix s)"
    by (simp add: engine_close_def set_econn_def deleteConn_def onClose_def Let_def)
  have tb: "connsUnix (engine_close i s) ! fd = (if fd = ec_fd (es_store s ! i) \<and> connsUnix s ! fd = Some i \<and> live (es_store s ! i) then None else connsUnix s ! fd)"
    if "fd < length (connsUnix s)" for fd
    using that i by (cases "fd = ec_fd (es_store s ! i)") (auto simp: engine_close_def set_econn_def deleteConn_def onClose_def Let_def live_def)
  have st: "ec_fd (es_store (engine_close i s) ! j) = ec_fd (es_store s ! j)" "live (es_store (engine_close i s) ! j) = (live (es_store s ! j) \<and> j \<noteq> i)" if "j < length (es_store s)" for j
    using i that by (auto simp: engine_close_store nth_list_update live_def)
  have ii: "in_table s i \<Longrightarrow> live (es_store s ! i)" using t(1) i by (auto simp: table_ok_def)
  show ?thesis unfolding table_ok_def
  proof (intro conjI allI impI)
    fix j assume "j < length (es_store (engine_close i s))"
    then have j: "j < length (es_store s)" using i by (simp add: engine_close_store)
    have "in_table (engine_close i s) j = (in_table s j \<and> j \<noteq> i)"
      using tb [of "ec_fd (es_store s ! j)"] ii st j by (auto simp: in_table_def len split: if_splits)
    moreover have "in_table s j = (live (es_store s ! j) \<and> x \<noteq> Some j)" using t(1) j by (simp add: table_ok_def)
    ultimately show "in_table (engine_close i s) j = (live (es_store (engine_close i s) ! j) \<and> None \<noteq> Some j)" using st [OF j] t(2) by auto
  next
    fix fd j assume fd: "fd < length (connsUnix (engine_close i s))" "connsUnix (engine_close i s) ! fd = Some j"
    then have "connsUnix s ! fd = Some j" using tb [of fd] len by (auto split: if_splits)
    then have "j < length (es_store s) \<and> ec_fd (es_store s ! j) = fd" using t(1) fd(1) len unfolding table_ok_def by simp
    then show "j < length (es_store (engine_close i s))" "ec_fd (es_store (engine_close i s) ! j) = fd" using st i by (auto simp: engine_close_store)
  qed
qed

lemma table_ok_cong: "es_store s = es_store t \<Longrightarrow> connsUnix s = connsUnix t \<Longrightarrow> table_ok x s = table_ok x t"
  by (simp add: table_ok_def in_table_def)

text \<open>A new connection, registered with a poller or not.\<close>

lemma new_conn_count:
  assumes "count_ok s" "i = length (es_store s)" "es_store s' = es_store s @ [c]" "\<not> ec_closed c"
    and "es_opened s' = (if op then es_opened s @ [i] else es_opened s)" "wgConn s' = (if op then wgConn s + 1 else wgConn s)"
    and "es_finished s' = es_finished s" "es_async s' = es_async s" "es_stopped s' = es_stopped s"
    and "ec_p c \<and> ec_typ c \<noteq> ConnTypeUDPServer \<longrightarrow> op" "op \<longrightarrow> ec_typ c \<noteq> ConnTypeUDPServer \<and> ec_p c"
  shows "count_ok s'"
proof -
  have g: "gone s' = gone s" using assms(7,8) by (simp add: gone_def)
  have k: "distinct (es_opened s)" "distinct (gone s)" "wgConn s = (if es_stopped s then 0 else 1) + int (length (es_opened s)) - int (length (es_finished s))"
    and ni: "i \<notin> set (es_opened s)" "i \<notin> set (gone s)"
    using assms(1,2) by (auto simp: count_ok_def)
  show ?thesis
  proof (rule count_ok_one [OF assms(1), of i])
    show "id_ok (es_store s' ! i) (i \<in> set (es_opened s')) (i \<in> set (gone s'))"
    proof -
      have st: "es_store s' ! i = c" using assms(2,3) by simp
      show ?thesis unfolding st g using assms(4,5,10,11) ni by (cases op) (auto simp: id_ok_def)
    qed
    show "set (es_opened s') - {i} = set (es_opened s) - {i}" using assms(5) by auto
    show "distinct (es_opened s')" using assms(5) k(1) ni by auto
    show "wgConn s' = (if es_stopped s' then 0 else 1) + int (length (es_opened s')) - int (length (es_finished s'))"
      using assms(5-7,9) k(3) by simp
    show "set (gone s') - {i} = set (gone s) - {i}" "distinct (gone s')" using g k by simp_all
  qed (use assms(2,3,8) in \<open>auto simp: nth_append\<close>)
qed

lemma new_conn_table:
  assumes "table_ok None s" "es_store s' = es_store s @ [c]" "\<not> live c" "connsUnix s' = connsUnix s"
  shows "table_ok None s'"
proof -
  have "connsUnix s ! fd \<noteq> Some (length (es_store s))" if "fd < length (connsUnix s)" for fd
    using assms(1) that by (auto simp: table_ok_def)
  then show ?thesis using assms by (auto simp: table_ok_def in_table_def nth_append less_Suc_eq)
qed

lemma reg_conn_table:
  assumes "table_ok None s" "fresh_fd fd s" "es_store s' = es_store s @ [c]" "live c" "ec_fd c = fd" "fd < length (connsUnix s)"
    "connsUnix s' = (connsUnix s)[fd := Some (length (es_store s))]"
  shows "table_ok None s'"
proof -
  have fr: "ec_fd (es_store s ! j) \<noteq> fd" if "j < length (es_store s)" "live (es_store s ! j)" for j
    using assms(2) that by (auto simp: fresh_fd_def live_def)
  have old: "in_table s' j = in_table s j" if "j < length (es_store s)" for j
  proof -
    have "in_table s j \<longrightarrow> ec_fd (es_store s ! j) \<noteq> fd" using assms(1) fr that by (auto simp: table_ok_def)
    then show ?thesis using that assms(3,6,7) by (auto simp: in_table_def nth_append nth_list_update)
  qed
  have new: "in_table s' (length (es_store s))" using assms(3,5-7) by (simp add: in_table_def)
  show ?thesis unfolding table_ok_def
  proof (intro conjI allI impI)
    fix j assume "j < length (es_store s')"
    then consider "j < length (es_store s)" | "j = length (es_store s)" using assms(3) by (auto simp: less_Suc_eq)
    then show "in_table s' j = (live (es_store s' ! j) \<and> None \<noteq> Some j)"
    proof cases
      case 1
      then show ?thesis using old assms(1,3) by (simp add: table_ok_def nth_append)
    qed (use new assms(3,4) in simp)
  next
    fix f j assume f: "f < length (connsUnix s')" "connsUnix s' ! f = Some j"
    then have "j < length (es_store s') \<and> ec_fd (es_store s' ! j) = f"
      using assms(1,3,5,7) by (cases "f = fd") (auto simp: table_ok_def nth_append)
    then show "j < length (es_store s')" "ec_fd (es_store s' ! j) = f" by auto
  qed
qed

lemma new_econn_einv: "einv m s \<Longrightarrow> einv m (new_econn fd ty s)"
  using new_conn_count [of s "length (es_store s)" "new_econn fd ty s" _ False] new_conn_table [of s "new_econn fd ty s"]
  by (auto simp: einv_def new_econn_def live_def)

lemma engine_close_einv:
  assumes "einv m s" "i < length (es_store s)" "ec_p (es_store s ! i) \<or> i \<notin> set (es_opened s)"
  shows "einv m (engine_close i s)"
proof -
  have "length (connsUnix (engine_close i s)) = length (connsUnix s)"
    by (simp add: engine_close_def set_econn_def deleteConn_def onClose_def Let_def)
  then show ?thesis using assms engine_close_count engine_close_table [of None s i] by (simp add: einv_def)
qed

lemma addConn_einv:
  assumes inv: "einv m s" and fr: "fresh_fd fd s" and ty: "ty \<noteq> ConnTypeUDPClientFromRead"
    and a: "addConn (length (es_store s)) ok (new_econn fd ty s) = (s', r)"
  shows "einv m s'"
proof -
  let ?i = "length (es_store s)" and ?n = "new_econn fd ty s"
  let ?c = "\<lparr>ec_fd = fd, ec_typ = ty, ec_p = True, ec_closed = False\<rparr>" and ?op = "ty \<noteq> ConnTypeUDPServer"
  have n: "einv m ?n" by (rule new_econn_einv [OF inv])
  have fd: "ec_fd (es_store ?n ! ?i) = fd" "length (connsUnix ?n) = length (connsUnix s)" by (simp_all add: new_econn_def)
  have no: "?i \<notin> set (es_opened s)" using inv by (auto simp: einv_def count_ok_def)
  show ?thesis
  proof (cases "fd \<ge> length (connsUnix s)")
    case True
    then have "s' = engine_close ?i ?n" using a fd by (simp add: addConn_def Let_def)
    then show ?thesis using engine_close_einv [OF n] no by (simp add: new_econn_def)
  next
    case False
    define g where "g t = s\<lparr>es_store := es_store s @ [?c], wgConn := (if ?op then wgConn s + 1 else wgConn s),
        es_opened := (if ?op then es_opened s @ [?i] else es_opened s), connsUnix := (connsUnix s)[fd := t]\<rparr>" for t
    have s': "s' = (if ok then g (Some ?i) else engine_close ?i (g None))"
      using a False by (auto simp: addConn_def new_econn_def set_econn_def onOpen_def g_def Let_def)
    have c: "count_ok (g t)" for t
      by (rule new_conn_count [of s ?i _ ?c ?op]) (use inv in \<open>auto simp: einv_def g_def\<close>)
    have t: "table_ok None (g (Some ?i))" by (rule reg_conn_table [of s fd _ ?c]) (use inv fr ty False in \<open>auto simp: einv_def g_def live_def\<close>)
    have "table_ok (Some ?i) (g None)"
    proof -
      have fn: "connsUnix s ! fd \<noteq> Some j" for j
      proof
        assume a: "connsUnix s ! fd = Some j"
        then have "j < length (es_store s)" "ec_fd (es_store s ! j) = fd" using inv False by (auto simp: einv_def table_ok_def not_le)
        moreover then have "in_table s j" using a False by (simp add: in_table_def)
        then have "live (es_store s ! j)" using inv calculation by (simp add: einv_def table_ok_def)
        ultimately show False using fr by (auto simp: fresh_fd_def live_def)
      qed
      then have "connsUnix s ! fd = None" by (cases "connsUnix s ! fd") auto
      then have "(connsUnix s)[fd := None] = connsUnix s" by (metis list_update_id)
      then have "g None = s\<lparr>es_store := es_store s @ [?c], wgConn := (if ?op then wgConn s + 1 else wgConn s),
        es_opened := (if ?op then es_opened s @ [?i] else es_opened s)\<rparr>" by (simp add: g_def)
      then show ?thesis using inv fn False
        by (auto simp: einv_def table_ok_def in_table_def nth_append less_Suc_eq)
    qed
    then have "table_ok None (engine_close ?i (g None))" "count_ok (engine_close ?i (g None))"
      using engine_close_table [of "Some ?i" "g None" ?i] engine_close_count [OF c, of ?i] by (auto simp: g_def)
    moreover have "length (connsUnix (engine_close ?i (g None))) = length (connsUnix s)"
      by (simp add: engine_close_def set_econn_def deleteConn_def onClose_def Let_def g_def)
    ultimately show ?thesis using s' c t inv by (simp add: einv_def) (simp add: g_def)
  qed
qed

lemma dial_einv:
  assumes inv: "einv m s" and fr: "fresh_fd fd s" and ty: "ty \<notin> {ConnTypeUDPClientFromRead, ConnTypeUDPServer}"
    and a: "dial_add (length (es_store s)) True (new_econn fd ty s) = (s', r)"
  shows "einv m s'"
proof -
  let ?i = "length (es_store s)"
  have k: "table_ok None s" "count_ok s" "length (connsUnix s) = m" using inv by (auto simp: einv_def)
  show ?thesis
  proof (cases "fd \<ge> length (connsUnix s)")
    case True
    let ?c = "\<lparr>ec_fd = fd, ec_typ = ty, ec_p = False, ec_closed = True\<rparr>"
    have s': "s' = s\<lparr>es_store := es_store s @ [?c], es_opened := es_opened s @ [?i], es_finished := es_finished s @ [?i]\<rparr>"
      using a True by (auto simp: dial_add_def addDialer_def new_econn_def engine_close_def set_econn_def Let_def)
    have ni: "?i \<notin> set (es_opened s)" "?i \<notin> set (gone s)" and d: "distinct (es_opened s)" "distinct (gone s)"
      and w: "wgConn s = (if es_stopped s then 0 else 1) + int (length (es_opened s)) - int (length (es_finished s))"
      using k(2) by (auto simp: count_ok_def)
    have "count_ok s'"
    proof (rule count_ok_one [OF k(2), of ?i])
      show "distinct (gone s')" using d ni by (auto simp: s' gone_def)
      show "set (gone s') - {?i} = set (gone s) - {?i}" by (auto simp: s' gone_def)
      show "id_ok (es_store s' ! ?i) (?i \<in> set (es_opened s')) (?i \<in> set (gone s'))" using ty by (simp add: s' gone_def id_ok_def)
    qed (use ni d w in \<open>auto simp: s' nth_append\<close>)
    moreover have "table_ok None s'" by (rule new_conn_table [OF k(1), of _ ?c]) (auto simp: s' live_def)
    ultimately show ?thesis using k(3) by (simp add: einv_def s')
  next
    case False
    let ?c = "\<lparr>ec_fd = fd, ec_typ = ty, ec_p = True, ec_closed = False\<rparr>"
    have s': "s' = s\<lparr>es_store := es_store s @ [?c], wgConn := wgConn s + 1, es_opened := es_opened s @ [?i], connsUnix := (connsUnix s)[fd := Some ?i]\<rparr>"
      using a False by (auto simp: dial_add_def addDialer_def new_econn_def set_econn_def Let_def)
    have "count_ok s'" by (rule new_conn_count [OF k(2), of ?i _ ?c True]) (use ty in \<open>auto simp: s'\<close>)
    moreover have "table_ok None s'" by (rule reg_conn_table [OF k(1) fr, of _ ?c]) (use ty False in \<open>auto simp: s' live_def\<close>)
    ultimately show ?thesis using k(3) by (simp add: einv_def s')
  qed
qed

lemma async_einv:
  assumes "einv m s"
  shows "einv m (async_next s)"
proof (cases "es_async s")
  case (Cons j js)
  have c: "count_ok s" using assms by (simp add: einv_def)
  show ?thesis
  proof (cases j)
    case (JobOnClose i)
    let ?s = "async_next s"
    have e: "?s = s\<lparr>es_async := js, wgConn := wgConn s - 1, es_finished := es_finished s @ [i]\<rparr>"
      using Cons JobOnClose by (simp add: async_next_def)
    have "gone s = es_finished s @ i # pending_closes js" using Cons JobOnClose by (simp add: gone_def)
    then have g: "gone ?s = gone s" by (simp add: e gone_def)
    have "count_ok ?s" using c Cons JobOnClose unfolding count_ok_def g by (simp add: e)
    then show ?thesis using assms table_ok_cong [of ?s s] by (simp add: einv_def e)
  next
    case (JobClose i)
    let ?s = "s\<lparr>es_async := js\<rparr>"
    have e: "async_next s = engine_close i ?s" using Cons JobClose by (simp add: async_next_def)
    have i: "i < length (es_store s)" "ec_p (es_store s ! i)" using c Cons JobClose by (auto simp: count_ok_def)
    have g: "gone ?s = gone s" using Cons JobClose by (simp add: gone_def)
    have "count_ok ?s" using c Cons JobClose unfolding count_ok_def g by simp
    then have "einv m ?s" using assms table_ok_cong [of ?s s] by (simp add: einv_def)
    then show ?thesis using engine_close_einv [of m ?s i] i e by simp
  qed
qed (use assms in \<open>simp add: async_next_def\<close>)

lemma Stop_einv:
  assumes "einv m s"
  shows "einv m (Stop s)"
proof (cases "es_stopped s")
  case False
  define js where "js = concat (map (\<lambda>x. case x of Some i \<Rightarrow> [JobClose i] | None \<Rightarrow> []) (connsUnix s))"
  have e: "Stop s = s\<lparr>es_stopped := True, wgConn := wgConn s - 1, es_async := es_async s @ js\<rparr>" using False by (simp add: Stop_def js_def)
  have js: "i < length (es_store s) \<and> ec_p (es_store s ! i)" if "JobClose i \<in> set js" for i
  proof -
    have "Some i \<in> set (connsUnix s)" using that by (auto simp: js_def split: option.splits)
    then obtain fd where fd: "fd < length (connsUnix s)" "connsUnix s ! fd = Some i" by (auto simp: in_set_conv_nth)
    then have "i < length (es_store s)" "in_table s i" using assms by (auto simp: einv_def table_ok_def in_table_def)
    then show ?thesis using assms by (auto simp: einv_def table_ok_def live_def)
  qed
  have "pending_closes js = []" by (auto simp: js_def pending_closes_def split: option.splits)
  then have g: "gone (Stop s) = gone s" by (simp add: e gone_def)
  have "count_ok (Stop s)" using assms js False unfolding einv_def count_ok_def g by (auto simp: e)
  then show ?thesis using assms table_ok_cong [of "Stop s" s] by (simp add: einv_def e)
qed (use assms in \<open>simp add: Stop_def\<close>)

lemma engine_einv: "engine_run m s \<Longrightarrow> einv m s"
proof (induction rule: engine_run.induct)
  case run_new
  then show ?case by (simp add: einv_def new_engine_def table_ok_def count_ok_def gone_def)
next
  case (run_add s fd ty ok s' r)
  then show ?case using addConn_einv by blast
next
  case (run_dial s fd ty s' r)
  then show ?case using dial_einv by blast
next
  case (run_udp s parent)
  let ?c = "\<lparr>ec_fd = ec_fd (es_store s ! parent), ec_typ = ConnTypeUDPClientFromRead, ec_p = True, ec_closed = False\<rparr>"
  have k: "table_ok None s" "count_ok s" "length (connsUnix s) = m" using run_udp by (auto simp: einv_def)
  have "count_ok (open_udp_child parent s)"
    by (rule new_conn_count [OF k(2), of "length (es_store s)" _ ?c True]) (auto simp: open_udp_child_def onOpen_def Let_def)
  moreover have "table_ok None (open_udp_child parent s)"
    by (rule new_conn_table [OF k(1), of _ ?c]) (auto simp: open_udp_child_def onOpen_def Let_def live_def)
  ultimately show ?case using k(3) by (simp add: einv_def open_udp_child_def onOpen_def Let_def)
next
  case (run_close s i)
  have "count_ok s" using run_close.IH by (simp add: einv_def)
  from count_okD(6) [OF this run_close.hyps(2)]
  have "ec_p (es_store s ! i) \<or> i \<notin> set (es_opened s) \<or> ec_closed (es_store s ! i)" unfolding id_ok_def by blast
  moreover have "ec_closed (es_store s ! i) \<Longrightarrow> engine_close i s = s" by (simp add: engine_close_def)
  ultimately show ?case using engine_close_einv [OF run_close.IH run_close.hyps(2)] run_close.IH by metis
qed (use async_einv Stop_einv in blast)+

end
