(* ===== verification/NetProps.thy ===== *)
theory NetProps
  imports ConnStream ConnReadInv PollerInv EngineInv
begin

unbundle bit_operations_syntax

text \<open>
  The properties of connections, poller and engine, with the concrete kernel, sockets and engine at which
  they are applied: \<open>kdemo\<close> is a kernel whose state is the bytes sent and a list of quotas, one per
  system call (zero is \<open>EAGAIN\<close>, an empty list takes everything).
\<close>

type_synonym tkern = "octets \<times> nat list"

definition take_some :: "octets \<Rightarrow> tkern \<Rightarrow> tkern \<times> int \<times> errno option" where
  "take_some b k = (case k of
     (w, []) \<Rightarrow> ((w @ b, []), int (length b), None)
   | (w, q # qs) \<Rightarrow> if q = 0 then ((w, qs), -1, Some EAGAIN)
        else ((w @ take q b, qs), int (length (take q b)), None))"

definition take_range :: "octets \<Rightarrow> nat \<Rightarrow> int \<Rightarrow> octets" where
  "take_range content off cnt = take (nat cnt) (drop off content)"

definition kdemo :: "octets \<Rightarrow> tkern kenv" where
  "kdemo content = \<lparr>sysWrite = take_some, sysSendto = (\<lambda>b k. (k, None)), sysWritev = (\<lambda>bs. take_some (concat bs)),
     sysSendfile = (\<lambda>fd off cnt. take_some (take_range content off cnt)),
     sysDup = (\<lambda>fd k. (k, Inr 7)), MaxWriteBufferSize = 8, isOneshot = False\<rparr>"

definition conn0 :: "'k \<Rightarrow> 'k conn" where
  "conn0 k = \<lparr>n_left = 0, n_writeList = [], n_typ = ConnTypeTCP, n_closed = False, n_isWAdded = False,
     n_closeErr = None, n_rTimer = None, n_wTimer = None, n_log = [], n_k = k\<rparr>"

definition queued_files :: "toWrite list \<Rightarrow> int list" where
  "queued_files ts = concat (map (\<lambda>t. case t of TFile fd off rem \<Rightarrow> if 0 < fd then [fd] else [] | _ \<Rightarrow> []) ts)"

definition close_acts :: "'k conn \<Rightarrow> net_action list" where
  "close_acts c = map CloseFile (queued_files (n_writeList c)) @ [PollDeleteConn,
     if n_typ c = ConnTypeTCP \<or> n_typ c = ConnTypeUnix then CloseSocket else CloseUDP]"


definition demo_file :: octets where "demo_file = [20, 21, 22]"

definition demo1 :: "tkern conn" where
  "demo1 = (conn0 ([1, 2], [0]))\<lparr>n_left := 1, n_writeList := [TBuf [3] 0], n_isWAdded := True, n_log := [WrittenSize [1, 2] 2, PollModWrite]\<rparr>"

definition demo2 :: "tkern conn" where
  "demo2 = demo1\<lparr>n_writeList := [TBuf [3] 0, TFile 7 1 2]\<rparr>"

definition demo3 :: "tkern conn" where
  "demo3 = demo1\<lparr>n_left := 3, n_writeList := [TBuf [3] 0, TFile 7 1 2, TBuf [4, 5] 0]\<rparr>"



text \<open>A stream of two bytes per read whose peer has shut it down; the kernel state is what is left.\<close>

definition read_demo :: "nat \<Rightarrow> octets \<Rightarrow> octets \<times> octets \<times> errno option" where
  "read_demo len k = (drop (min 2 len) k, take (min 2 len) k, None)"

definition poll_demo :: "octets pollcfg" where
  "poll_demo = \<lparr>EpollMod = EPOLLLT, cfgONESHOT = 0, ReadBufferSize = 4, MaxReadTimes = 1, hasOnRead = False, AsyncReadInPoller = False,
     pKenv = \<lparr>sysWrite = (\<lambda>b k. (k, int (length b), None)), sysSendto = (\<lambda>b k. (k, None)), sysWritev = (\<lambda>bs k. (k, 0, None)),
       sysSendfile = (\<lambda>fd off cnt k. (k, cnt, None)), sysDup = (\<lambda>fd k. (k, Inr 7)), MaxWriteBufferSize = 0, isOneshot = True\<rparr>,
     pOnConnected = id, pRead = stream_read read_demo\<rparr>"


definition oneshot_demo :: "octets pollcfg" where
  "oneshot_demo = poll_demo\<lparr>EpollMod := EPOLLET, cfgONESHOT := EPOLLONESHOT\<rparr>"

definition pconn0 :: "octets \<Rightarrow> octets pconn" where
  "pconn0 k = \<lparr>p_conn = conn0 k, p_onConnected = False, p_data = [], p_log = []\<rparr>"

lemma take_some_ok: "write_ok fst b k (take_some b k)"
  by (cases k; cases "snd k") (auto simp: take_some_def write_ok_def min_def)

lemma take_range_ok: "sendfile_ok fst content off cnt k (take_some (take_range content off cnt) k)"
  by (cases k; cases "snd k") (auto simp: take_some_def sendfile_ok_def take_range_def min_def)

lemma kdemo_ok: "kernel_ok (kdemo content) fst (\<lambda>fd. content)"
  unfolding kernel_ok_def 
  by (auto simp: kdemo_def take_some_ok take_range_ok dup_ok_def)

lemma kdemo_live: "kernel_live (kdemo content) (\<lambda>fd. content) (\<lambda>k. 0)"
proof -
  have t: "b \<noteq> [] \<Longrightarrow> live_result (\<lambda>k. 0) k (take_some b k)" for b k
    by (cases k; cases "snd k") (auto simp: take_some_def live_result_def)
  have "take_range content off cnt \<noteq> []" if "0 < cnt" "int off + cnt \<le> int (length content)" for off cnt
    using that by (auto simp: take_range_def)
  then show ?thesis using t by (auto simp: kernel_live_def kdemo_def)
qed





lemma fold_release_log:
  "n_log (fold releaseToWrite ts c) = n_log c @ map CloseFile (queued_files ts)"
proof (induction ts arbitrary: c)
  case (Cons t ts)
  then show ?case by (cases t) (auto simp: queued_files_def log_act_def)
qed (simp add: queued_files_def)

lemmas demo_defs = demo1_def demo2_def demo3_def conn0_def kdemo_def demo_file_def take_some_def take_range_def

lemmas write_defs = Write_def Writev_def nwrite_def nwritev_def doWrite_def afterWrite_def overflow_def fatal_def newToWriteBuf_def
  newToWriteFile_def modWrite_def log_act_def maxWriteCacheOrFlushSize_def sys_writev_def Let_def



lemma demo3_ready: "nready (\<lambda>fd. demo_file) demo3" "solid demo3"
  by (simp_all add: nready_def cinv_def armed_def solid_def demo_defs)

lemma flush_loop_stuck:
  assumes "flush_loop K c = Some r" "n_writeList c = t # ts" "flush_step K t ts c = Some (c, None)"
  shows False
  using assms
proof (induction K c r rule: flush_loop.raw_induct [rotated, consumes 1, case_names step])
  case (step fl K c r)
  have "fl K c = Some r" using step.hyps step.prems by (simp add: flush_step_def)
  then show ?case using step.IH step.prems by blast
qed

lemma flush_stuck:
  assumes "\<not> n_closed c" "n_writeList c = t # ts" "flush_step K t ts c = Some (c, None)"
  shows "flush K c = None"
  using assms flush_loop_stuck [OF _ assms(2,3)] by (cases "flush_loop K c") (auto simp: flush_def)


lemma oneshot_demo_runs: "\<exists>p'. handle_event oneshot_demo EPOLLIN (pconn0 [1]) = Some p'"
proof -
  have "poll_reads oneshot_demo False (Some 1) 0 (pconn0 [1]) \<noteq> None"
    by (subst poll_reads.simps) (simp add: oneshot_demo_def poll_demo_def pconn0_def conn0_def stream_read_def read_demo_def isDatagram_def Let_def)
  then show ?thesis
    by (auto simp: handle_event_def epollEventsWrite_def epollEventsRead_def epollEventsError_def on_readable_def oneshot_demo_def poll_demo_def Let_def)
qed




text \<open>
  C19: flush returns: when every queued item has bytes left and the kernel takes at least a byte per call
  without an error, is interrupted finitely often, and may answer EAGAIN or fail at any point, the loops of
  flush end, and without an error the byte stream is unchanged.
\<close>

theorem flush_returns:
  assumes "kernel_ok K out cont" "kernel_live K cont sig" "nready cont c" "solid c"
  shows "\<exists>c' e. flush K c = Some (c', e) \<and> (e = None \<longrightarrow> out (n_k c') @ pend cont c' = out (n_k c) @ pend cont c)"
proof (cases "n_writeList c = []")
  case False
  have c: "cinv cont c" "\<not> n_closed c" using assms(3) by (simp_all add: nready_def)
  obtain c' e where "flush_loop K c = Some (c', e)" using flush_loop_returns [OF assms(1,2) c(1) assms(4)] by blast
  then have "flush K c = Some (c', e)" using False c by (simp add: flush_def)
  then show ?thesis using flush_stream [of K c c' out cont] assms(1,3) by (auto simp: stream_def)
qed (use assms(3) in \<open>auto simp: flush_def nready_def\<close>)

theorem flush_returns_witness:
  "\<exists>c' e. flush (kdemo demo_file) demo3 = Some (c', e) \<and>
     (e = None \<longrightarrow> fst (n_k c') @ pend (\<lambda>fd. demo_file) c' = [1, 2, 3, 21, 22, 4, 5])"
  using flush_returns [OF kdemo_ok kdemo_live demo3_ready] by (simp add: demo_defs pend_def)





text \<open>
  Closing is idempotent and releases everything once: the first closeWithError closes every duplicated
  file descriptor in the queue, deletes the connection from the poller and closes the socket, keeps the given
  error and empties the queue; any later close changes nothing.
\<close>

theorem close_once:
  "n_log (closeWithError e c) = n_log c @ (if n_closed c then [] else close_acts c) \<and>
   n_closed (closeWithError e c) \<and>
   (\<not> n_closed c \<longrightarrow> n_writeList (closeWithError e c) = [] \<and> n_closeErr (closeWithError e c) = e) \<and>
   closeWithError e' (closeWithError e c) = closeWithError e c"
proof -
  have err: "n_closeErr (fold releaseToWrite ts d) = n_closeErr d" for ts and d :: "'a conn"
  proof (induction ts arbitrary: d)
    case (Cons t ts)
    then show ?case by (cases t) (auto simp: log_act_def)
  qed simp
  show ?thesis
  proof (cases "n_closed c")
    case False
    have cl: "n_closed (fold releaseToWrite ts d) = n_closed d" for ts and d :: "'a conn"
      by (induction ts arbitrary: d) simp_all
    from False show ?thesis using err cl
      by (cases "n_typ c") (auto simp: closeWithError_def closeWithErrorWithoutLock_def close_acts_def Let_def fold_release_log log_act_def)
  qed (simp add: closeWithError_def)
qed

theorem close_once_witness:
  "n_log (closeWithError None demo3) = n_log demo3 @ [CloseFile 7, PollDeleteConn, CloseSocket]"
  using close_once [of None demo3] by (simp add: demo_defs close_acts_def queued_files_def)



text \<open>
  C21: The counter of AsyncRead merges read events: as long as no task ends a pass between the poller's two
  atomic additions, at most one task reads a connection, the counter stays between 0 and 3, and an event
  that arrives while a pass is running is followed by another pass.
\<close>

theorem async_read_calm:
  assumes "areads_reach False s"
  shows "length (readers s) \<le> 1 \<and> 0 \<le> readEvents s \<and> readEvents s \<le> 3 \<and> (unserved s \<and> \<not> a_closed s \<longrightarrow> readers s \<noteq> []) \<and>
    (unserved s \<and> readers s = [RPass] \<and> \<not> poller_dec s \<longrightarrow> readers (pass_end 0 s) = [RStart])"
proof -
  have "areads_inv s" using assms by (rule areads_inv_reach)
  then show ?thesis by (auto simp: areads_inv_def Let_def pass_end_def split: if_splits)
qed

theorem async_read_calm_witness: "readers (read_event areads0) = [RStart] \<and> length (readers (read_event areads0)) \<le> 1"
  using async_read_calm [OF areads_next [OF areads_init step_event]]
  by (simp add: areads0_def read_event_def)





text \<open>
  In one-shot mode every handled event re-arms the socket: after an event that is readable, or writable
  with queued data, the connection is closed or its mask was registered again, with EPOLLIN, and with EPOLLOUT
  when data is still queued.
\<close>

theorem oneshot_rearmed:
  assumes "handle_event G ev p = Some p'" "isOneshotG G" "isOneshot (pKenv G)" "pRead G = stream_read rd"
    and "\<not> hasOnRead G" "\<not> AsyncReadInPoller G" "\<not> n_closed (p_conn p)" "armed (p_conn p)" "\<not> p_onConnected p"
    and "ev AND epollEventsRead \<noteq> 0 \<or> ev AND EPOLLOUT \<noteq> 0 \<and> n_writeList (p_conn p) \<noteq> []"
  shows "n_closed (p_conn p') \<or> rearmed G (p_conn p) (p_conn p')"
proof -
  let ?r = "ev AND epollEventsRead \<noteq> 0" and ?w = "ev AND EPOLLOUT \<noteq> 0"
  obtain p1 p2 d where p1: "(if ?w then on_writable G p else Some p) = Some p1"
    and p2: "(if ?r \<or> d then on_readable G d p1 else Some p1) = Some p2"
      "p' = (if ev AND epollEventsError \<noteq> 0 then p2\<lparr>p_conn := closeWithError (Some NErrEOF) (p_conn p2)\<rparr> else p2)"
    using assms(1) by (rule handle_eventE)
  have x: "n_closed (p_conn p1) \<or> extends_log (p_conn p) (p_conn p1) \<and> (?w \<and> n_writeList (p_conn p) \<noteq> [] \<longrightarrow> rearmed G (p_conn p) (p_conn p1))"
    using p1 on_writable_rearms [of G p p1] assms(2,3,7-9) by (auto split: if_splits)
  have y: "n_closed (p_conn p2) \<or> rearmed G (p_conn p) (p_conn p2)"
  proof (cases "?r \<or> d")
    case True
    then obtain p3 where p3: "poll_reads G d (if d then None else Some (MaxReadTimes G)) 0 p1 = Some p3" "p2 = p3\<lparr>p_conn := ResetPollerEvent G (p_conn p3)\<rparr>"
      using p2(1) assms(2,5,6) by (auto simp: on_readable_def)
    have "n_closed (p_conn p3) \<or> extends_log (p_conn p) (p_conn p3)"
      using x poll_reads_log [OF p3(1) assms(4)] by blast
    moreover have "n_closed (ResetPollerEvent G c) = n_closed c" for c by (simp add: ResetPollerEvent_def)
    ultimately show ?thesis using p3(2) ResetPollerEvent_rearms [OF assms(2)] by auto
  qed (use x p2(1) assms(10) in auto)
  show ?thesis using y p2(2) closeWithError_closed by auto
qed

theorem oneshot_rearmed_witness:
  "\<exists>p'. handle_event oneshot_demo EPOLLIN (pconn0 [1]) = Some p' \<and>
     (n_closed (p_conn p') \<or> rearmed oneshot_demo (p_conn (pconn0 [1])) (p_conn p'))"
proof -
  obtain p' where e: "handle_event oneshot_demo EPOLLIN (pconn0 [1]) = Some p'" using oneshot_demo_runs by blast
  have "EPOLLIN AND epollEventsRead \<noteq> 0" by (simp add: epollEventsRead_def)
  then show ?thesis using oneshot_rearmed [OF e, of read_demo] e
    by (simp add: oneshot_demo_def poll_demo_def pconn0_def conn0_def isOneshotG_def armed_def)
qed



text \<open>A vectored write of which the kernel takes a part keeps the rest of one buffer only: the buffers after it are neither sent nor queued, and the call reports no error.\<close>

theorem Writev_drops_buffers:
  "Writev (kdemo []) [[1, 2], [3, 4], [5]] (conn0 ([], [1])) =
     ((conn0 ([1], []))\<lparr>n_left := 1, n_writeList := [TBuf [2] 0], n_isWAdded := True,
        n_log := [WrittenSize [1] 1, PollModWrite]\<rparr>, 1, None)"
  by (simp add: write_defs demo_defs)

text \<open>Sendfile of an empty range onto a waiting queue leaves an item that flush never gets past.\<close>

theorem flush_spins_on_empty_file:
  assumes "\<not> n_closed c" "n_writeList c \<noteq> []" "sysDup K src (n_k c) = (k, Inr fd)"
  shows "Sendfile K src sz sz remain c = Some (newToWriteFile fd sz 0 (c\<lparr>n_k := k\<rparr>), 0, None) \<and>
    (\<forall>c' ts. \<not> n_closed c' \<and> n_writeList c' = TFile fd sz 0 # ts \<longrightarrow> flush K c' = None)"
proof (intro conjI allI impI)
  show "Sendfile K src sz sz remain c = Some (newToWriteFile fd sz 0 (c\<lparr>n_k := k\<rparr>), 0, None)"
    using assms by (auto simp: Sendfile_def)
next
  fix c' :: "'a conn" and ts
  assume "\<not> n_closed c' \<and> n_writeList c' = TFile fd sz 0 # ts"
  moreover have "flush_step K (TFile fd sz 0) ts c' = Some (c', None)"
    by (simp add: flush_step_def) (subst writeFile.simps, simp)
  ultimately show "flush K c' = None" using flush_stuck by blast
qed

theorem flush_spins_on_empty_file_witness:
  "flush (kdemo demo_file) (demo1\<lparr>n_writeList := [TFile 7 3 0]\<rparr>) = None"
  using flush_spins_on_empty_file [of demo1 "kdemo demo_file" 5 "n_k demo1" 7 3 0] by (simp add: demo_defs)

text \<open>Empty buffers given to Writev behind a file are queued as an empty item, on which flush does not return when the kernel answers an empty write with zero.\<close>

theorem flush_spins_on_empty_buffer:
  assumes "\<forall>k. sysWrite K [] k = (k, 0, None)" "\<not> n_closed c" "n_writeList c = [TFile fd off rem]"
    and "MaxWriteBufferSize K = 0"
  shows "(\<exists>c'. Writev K [[], []] c = (c', 0, None) \<and> n_writeList c' = [TFile fd off rem, TBuf [] 0]) \<and>
    (\<forall>c' ts. \<not> n_closed c' \<and> n_writeList c' = TBuf [] 0 # ts \<longrightarrow> flush K c' = None)"
proof (intro conjI allI impI)
  show "\<exists>c'. Writev K [[], []] c = (c', 0, None) \<and> n_writeList c' = [TFile fd off rem, TBuf [] 0]"
    using assms by (simp add: write_defs)
next
  fix c' :: "'a conn" and ts
  assume "\<not> n_closed c' \<and> n_writeList c' = TBuf [] 0 # ts"
  moreover have "flush_step K (TBuf [] 0) ts c' = Some (c', None)"
    using assms(1) by (simp add: flush_step_def writeBuffer_def Let_def)
  ultimately show "flush K c' = None" using flush_stuck by blast
qed

text \<open>Two tasks can read one connection at a time: a task that ends two passes between the two additions of the poller drives the counter below zero.\<close>

theorem async_read_race:
  "\<exists>s. areads_reach True s \<and> length (readers s) = 2"
proof -
  let ?s1 = "read_event areads0" let ?s2 = "pass_begin 0 ?s1" let ?s3 = "read_event ?s2" let ?s4 = "read_event ?s3"
  let ?s5 = "pass_end 0 ?s4" let ?s6 = "pass_begin 0 ?s5" let ?s7 = "pass_end 0 ?s6" let ?s8 = "pass_begin 0 ?s7"
  let ?s9 = "take_back ?s8" let ?s10 = "pass_end 0 ?s9" let ?s11 = "read_event ?s10"
  note d = read_event_def areads0_def pass_begin_def pass_end_def take_back_def task_return_def
  note ev = areads_next [OF _ step_event] and be = areads_next [OF _ step_begin] and en = areads_next [OF _ step_end] and tb = areads_next [OF _ step_take_back]
  have "areads_reach True ?s4" by (rule ev, rule ev, rule be, rule ev, rule areads_init) (simp_all add: d)
  then have "areads_reach True ?s8" by - (rule be, rule en, rule be, rule en, assumption, simp_all add: d)
  then have "areads_reach True ?s11" by - (rule ev, rule en, rule tb, assumption, simp_all add: d)
  moreover have "length (readers ?s11) = 2" by (simp add: d)
  ultimately show ?thesis by blast
qed

text \<open>A write event without queued data leaves the registered mask as it is: a dialled connection that connected at once keeps EPOLLOUT in level-triggered mode and is not re-armed in one-shot mode.\<close>

theorem idle_write_event:
  assumes "\<not> n_closed (p_conn p)" "\<not> p_onConnected p" "n_writeList (p_conn p) = []"
  shows "handle_event G EPOLLOUT p = Some p"
  using assms by (simp add: handle_event_def on_writable_def flush_def epollEventsWrite_def epollEventsRead_def epollEventsError_def)

text \<open>Data that the dial callback leaves queued is not polled for: the reset after the callback takes EPOLLOUT away.\<close>

theorem connected_write_stalls:
  assumes "p_onConnected p" "\<not> et_plain G" "n_isWAdded (pOnConnected G (p_conn p))" "\<not> n_closed (pOnConnected G (p_conn p))"
    "n_writeList (pOnConnected G (p_conn p)) \<noteq> []"
  shows "\<exists>p'. handle_event G EPOLLOUT p = Some p' \<and> n_writeList (p_conn p') \<noteq> [] \<and> \<not> writes_on (interest G (n_log (p_conn p')) m)"
  using assms setRead_mask(4) [OF assms(2)]
  by (simp add: handle_event_def on_writable_def epollEventsWrite_def epollEventsRead_def epollEventsError_def resetRead_def)

text \<open>A dialled connection whose registration fails is taken off the wait group twice.\<close>

theorem dial_failure_counts_twice:
  assumes "fd < m"
  shows "wgConn (async_next (fst (dial_add 0 False (new_econn fd ConnTypeTCP (new_engine m))))) = 0"
  using assms by (simp add: dial_add_def addDialer_def new_econn_def new_engine_def set_econn_def engine_close_def deleteConn_def onClose_def
      async_next_def Let_def)

end
