(* ===== verification/JobQueue.thy ===== *)
theory JobQueue
  imports Prelude
begin

text \<open>
  Serial executors: a list of jobs under a lock, whose first job starts an executor that goes on until
  it finds the list done. \<open>Conn.Execute\<close> and \<open>MustExecute\<close> of \<open>conn.go\<close> and \<open>Timer.Async\<close> of
  \<open>timer.go\<close> are two such executors. Each locked section is one step; the executors that run are
  a list, so that there being at most one is proved and not built in. What a step starts is its second
  result: a job is started when it is taken for execution; a panic in a job is recovered by the code,
  so a job always ends.

  The contract they share is the locale \<open>serial_executor\<close>; a schedule is an interleaving of pushes
  and executor steps (\<open>serial_run\<close>), for any operations.
\<close>

text \<open>\<open>conn.go\<close>: the executor has its index and the job it runs; taken entries are set to nil.\<close>

record 'j jobq =
  jobList :: "'j option list"
  executors :: "(nat \<times> 'j) list"
  jq_closed :: bool

definition jobq0 :: "'j jobq" where
  "jobq0 = \<lparr>jobList = [], executors = [], jq_closed = False\<rparr>"

definition MustExecute :: "'j \<Rightarrow> 'j jobq \<Rightarrow> 'j jobq \<times> 'j list" where
  "MustExecute job q =
     (let isHead = (jobList q = []);
          q = q\<lparr>jobList := jobList q @ [Some job]\<rparr>
      in if isHead then (q\<lparr>executors := executors q @ [(0, job)]\<rparr>, [job]) else (q, []))"

definition Execute :: "'j \<Rightarrow> 'j jobq \<Rightarrow> ('j jobq \<times> 'j list) \<times> bool" where
  "Execute job q = (if jq_closed q then ((q, []), False) else (MustExecute job q, True))"

definition ExecuteLen :: "'j jobq \<Rightarrow> nat" where
  "ExecuteLen q = length (jobList q)"

text \<open>The locked section after the job of executor \<open>r\<close> returned. A nil entry is never taken (that
  would call a nil function).\<close>

definition execute_next :: "nat \<Rightarrow> 'j jobq \<Rightarrow> 'j jobq \<times> 'j list" where
  "execute_next r q =
     (case executors q ! r of (i0, job) \<Rightarrow>
        (let i = Suc i0 in
         if length (jobList q) = i
         then (q\<lparr>jobList := [], executors := take r (executors q) @ drop (Suc r) (executors q)\<rparr>, [])
         else case jobList q ! i of
           Some next \<Rightarrow> (q\<lparr>jobList := (jobList q)[i := None], executors := (executors q)[r := (i, next)]\<rparr>, [next])
         | None \<Rightarrow> (q, [])))"

text \<open>\<open>timer.go\<close>: the goroutine fetches the next function, then runs it.\<close>

datatype async_pc = AFetch nat | ARun nat

record 'j asyncq =
  asyncList :: "'j list"
  gos :: "async_pc list"

definition asyncq0 :: "'j asyncq" where
  "asyncq0 = \<lparr>asyncList = [], gos = []\<rparr>"

definition Async :: "'j \<Rightarrow> 'j asyncq \<Rightarrow> 'j asyncq \<times> 'j list" where
  "Async f q =
     (let isHead = (asyncList q = []);
          q = q\<lparr>asyncList := asyncList q @ [f]\<rparr>
      in (if isHead then q\<lparr>gos := gos q @ [AFetch 0]\<rparr> else q, []))"

definition async_step :: "nat \<Rightarrow> 'j asyncq \<Rightarrow> 'j asyncq \<times> 'j list" where
  "async_step r q =
     (case gos q ! r of
        AFetch i \<Rightarrow>
          if i = length (asyncList q)
          then (q\<lparr>asyncList := [], gos := take r (gos q) @ drop (Suc r) (gos q)\<rparr>, [])
          else (q\<lparr>gos := (gos q)[r := ARun (Suc i)]\<rparr>, [asyncList q ! i])
      | ARun i \<Rightarrow> (q\<lparr>gos := (gos q)[r := AFetch i]\<rparr>, []))"

text \<open>Schedules: the jobs pushed so far, the jobs started so far, and the state.\<close>

inductive serial_run ::
  "('j \<Rightarrow> 's \<Rightarrow> 's \<times> 'j list) \<Rightarrow> (nat \<Rightarrow> 's \<Rightarrow> 's \<times> 'j list) \<Rightarrow> ('s \<Rightarrow> nat) \<Rightarrow> 's \<Rightarrow> 'j list \<Rightarrow> 'j list \<Rightarrow> 's \<Rightarrow> bool"
  for push adv runners s0 where
  serial_start: "serial_run push adv runners s0 [] [] s0"
| serial_push: "serial_run push adv runners s0 ps st s \<Longrightarrow> push j s = (s', new) \<Longrightarrow>
    serial_run push adv runners s0 (ps @ [j]) (st @ new) s'"
| serial_step: "serial_run push adv runners s0 ps st s \<Longrightarrow> r < runners s \<Longrightarrow> adv r s = (s', new) \<Longrightarrow>
    serial_run push adv runners s0 ps (st @ new) s'"

locale serial_executor =
  fixes push :: "'j \<Rightarrow> 's \<Rightarrow> 's \<times> 'j list"
    and adv :: "nat \<Rightarrow> 's \<Rightarrow> 's \<times> 'j list"
    and runners :: "'s \<Rightarrow> nat"
    and invar :: "'s \<Rightarrow> bool"
    and waiting :: "'s \<Rightarrow> 'j list"
    and work :: "'s \<Rightarrow> nat"
    and init :: 's
  assumes init: "invar init" "waiting init = []" "runners init = 0"
    and push_law: "invar s \<Longrightarrow> push j s = (s', new) \<Longrightarrow> invar s' \<and> new @ waiting s' = waiting s @ [j]"
    and adv_law: "invar s \<Longrightarrow> r < runners s \<Longrightarrow> adv r s = (s', new) \<Longrightarrow> invar s' \<and> new @ waiting s' = waiting s \<and> work s' < work s"
    and single: "invar s \<Longrightarrow> runners s \<le> 1"
    and idle: "invar s \<Longrightarrow> runners s = 0 \<Longrightarrow> waiting s = []"
begin

lemma run_invar: "serial_run push adv runners init ps st s \<Longrightarrow> invar s \<and> ps = st @ waiting s"
proof (induction rule: serial_run.induct)
  case (serial_push ps st s j s' new)
  then show ?case using push_law [of s j s' new] by auto
next
  case (serial_step ps st s r s' new)
  then show ?case using adv_law [of s r s' new] by auto
qed (simp add: init)

lemma run_serial:
  assumes "serial_run push adv runners init ps st s"
  shows "runners s \<le> 1 \<and> ps = st @ waiting s \<and> (runners s = 0 \<longrightarrow> st = ps)"
  using run_invar [OF assms] single [of s] idle [of s] by auto

text \<open>When no more jobs come, the executor starts all of them and ends.\<close>

lemma run_drains:
  "serial_run push adv runners init ps st s \<Longrightarrow> \<exists>s'. serial_run push adv runners init ps ps s' \<and> runners s' = 0"
proof (induction "work s" arbitrary: st s rule: less_induct)
  case less
  show ?case
  proof (cases "runners s = 0")
    case True
    then have "st = ps" using run_serial [OF less.prems] by blast
    then show ?thesis using less.prems True by blast
  next
    case False
    obtain s' new where a: "adv 0 s = (s', new)" by (cases "adv 0 s")
    have "serial_run push adv runners init ps (st @ new) s'" using serial_step [OF less.prems _ a] False by simp
    moreover have "work s' < work s" using adv_law [OF _ _ a] run_invar [OF less.prems] False by simp
    ultimately show ?thesis using less.hyps by blast
  qed
qed

end

definition jobq_inv :: "'j jobq \<Rightarrow> bool" where
  "jobq_inv q \<longleftrightarrow>
     (case executors q of
        [] \<Rightarrow> jobList q = []
      | [(i, job)] \<Rightarrow> i < length (jobList q) \<and> (\<forall>x \<in> set (drop (Suc i) (jobList q)). x \<noteq> None)
      | _ \<Rightarrow> False)"

definition jobq_waiting :: "'j jobq \<Rightarrow> 'j list" where
  "jobq_waiting q = (case executors q of [] \<Rightarrow> [] | (i, job) # _ \<Rightarrow> map the (drop (Suc i) (jobList q)))"

definition jobq_work :: "'j jobq \<Rightarrow> nat" where
  "jobq_work q = (case executors q of [] \<Rightarrow> 0 | (i, job) # _ \<Rightarrow> length (jobList q) - i)"

definition asyncq_inv :: "'j asyncq \<Rightarrow> bool" where
  "asyncq_inv q \<longleftrightarrow>
     (case gos q of
        [] \<Rightarrow> asyncList q = []
      | [AFetch i] \<Rightarrow> asyncList q \<noteq> [] \<and> i \<le> length (asyncList q)
      | [ARun i] \<Rightarrow> asyncList q \<noteq> [] \<and> i \<le> length (asyncList q)
      | _ \<Rightarrow> False)"

definition asyncq_waiting :: "'j asyncq \<Rightarrow> 'j list" where
  "asyncq_waiting q = (case gos q of [] \<Rightarrow> [] | AFetch i # _ \<Rightarrow> drop i (asyncList q) | ARun i # _ \<Rightarrow> drop i (asyncList q))"

definition asyncq_work :: "'j asyncq \<Rightarrow> nat" where
  "asyncq_work q = (case gos q of [] \<Rightarrow> 0 | AFetch i # _ \<Rightarrow> 2 * (length (asyncList q) - i) + 1 | ARun i # _ \<Rightarrow> 2 * (length (asyncList q) - i) + 2)"

lemma jobq_cases:
  assumes "jobq_inv q"
  obtains "executors q = []" "jobList q = []" | i job where "executors q = [(i, job)]" "i < length (jobList q)" "\<forall>x \<in> set (drop (Suc i) (jobList q)). x \<noteq> None"
  using assms by (auto simp: jobq_inv_def split: list.splits)

lemma asyncq_cases:
  assumes "asyncq_inv q"
  obtains "gos q = []" "asyncList q = []"
  | i where "gos q = [AFetch i]" "asyncList q \<noteq> []" "i \<le> length (asyncList q)"
  | i where "gos q = [ARun i]" "asyncList q \<noteq> []" "i \<le> length (asyncList q)"
proof (cases "gos q")
  case (Cons g gs)
  show thesis
  proof (cases gs)
    case Nil
    then show thesis using assms Cons that(2,3) by (cases g) (auto simp: asyncq_inv_def)
  qed (use assms Cons in \<open>cases g; simp add: asyncq_inv_def\<close>)
qed (use assms that(1) in \<open>auto simp: asyncq_inv_def\<close>)

interpretation conn_jobs: serial_executor MustExecute execute_next "\<lambda>q. length (executors q)" jobq_inv jobq_waiting jobq_work jobq0
proof unfold_locales
  show "jobq_inv jobq0" "jobq_waiting jobq0 = []" "length (executors jobq0) = 0"
    by (simp_all add: jobq_inv_def jobq_waiting_def jobq0_def)
next
  fix s j s' new assume "jobq_inv (s :: 'a jobq)" "MustExecute j s = (s', new)"
  then show "jobq_inv s' \<and> new @ jobq_waiting s' = jobq_waiting s @ [j]"
    by (elim jobq_cases) (auto simp: MustExecute_def jobq_inv_def jobq_waiting_def Let_def split: if_splits)
next
  fix s :: "'a jobq" and r s' new assume i: "jobq_inv s" and r: "r < length (executors s)" and e: "execute_next r s = (s', new)"
  from i r obtain i job where c: "executors s = [(i, job)]" "i < length (jobList s)" "\<forall>x \<in> set (drop (Suc i) (jobList s)). x \<noteq> None" and r0: "r = 0"
    by (elim jobq_cases) auto
  show "jobq_inv s' \<and> new @ jobq_waiting s' = jobq_waiting s \<and> jobq_work s' < jobq_work s"
  proof (cases "length (jobList s) = Suc i")
    case True
    then show ?thesis using e c r0 by (auto simp: execute_next_def jobq_inv_def jobq_waiting_def jobq_work_def Let_def)
  next
    case False
    then have d: "Suc i < length (jobList s)" "drop (Suc i) (jobList s) = jobList s ! Suc i # drop (Suc (Suc i)) (jobList s)"
      using c(2) by (auto simp: Cons_nth_drop_Suc)
    then obtain x where x: "jobList s ! Suc i = Some x" using c(3) by auto
    then have "s' = s\<lparr>jobList := (jobList s)[Suc i := None], executors := [(Suc i, x)]\<rparr>" "new = [x]"
      using e c(1) r0 False by (auto simp: execute_next_def Let_def)
    then show ?thesis using d x c by (auto simp: jobq_inv_def jobq_waiting_def jobq_work_def)
  qed
qed (auto elim: jobq_cases simp: jobq_waiting_def)

interpretation timer_async: serial_executor Async async_step "\<lambda>q. length (gos q)" asyncq_inv asyncq_waiting asyncq_work asyncq0
proof unfold_locales
  show "asyncq_inv asyncq0" "asyncq_waiting asyncq0 = []" "length (gos asyncq0) = 0"
    by (simp_all add: asyncq_inv_def asyncq_waiting_def asyncq0_def)
next
  fix s j s' new assume "asyncq_inv (s :: 'a asyncq)" "Async j s = (s', new)"
  then show "asyncq_inv s' \<and> new @ asyncq_waiting s' = asyncq_waiting s @ [j]"
    by (elim asyncq_cases) (auto simp: Async_def asyncq_inv_def asyncq_waiting_def Let_def split: if_splits)
next
  fix s :: "'a asyncq" and r s' new assume i: "asyncq_inv s" and r: "r < length (gos s)" and e: "async_step r s = (s', new)"
  from i show "asyncq_inv s' \<and> new @ asyncq_waiting s' = asyncq_waiting s \<and> asyncq_work s' < asyncq_work s"
  proof (cases rule: asyncq_cases)
    case (2 i)
    then show ?thesis using e r
      by (cases "i = length (asyncList s)") (auto simp: async_step_def asyncq_inv_def asyncq_waiting_def asyncq_work_def Cons_nth_drop_Suc)
  qed (use e r in \<open>auto simp: async_step_def asyncq_inv_def asyncq_waiting_def asyncq_work_def\<close>)
qed (auto elim: asyncq_cases simp: asyncq_waiting_def)

end
