(* ===== verification/TaskPool.thy ===== *)
theory TaskPool
  imports Prelude "HOL-Library.Multiset"
begin

text \<open>
  The goroutine pool of \<open>taskpool.go\<close> as a state machine. Every atomic addition and every channel
  operation is a step: \<open>acquire\<close> adds one and takes it back in a second operation when the sum is too
  high; a worker runs its task, polls the queue without blocking, and on leaving subtracts one and
  leaves a token for the dispatcher. A send on the queue is possible while there is room, or directly
  to a receiver when the queue is empty (which covers an unbuffered channel). Calls of \<open>Go\<close> in
  progress, workers and the dispatcher are the control points below; a panic in a task is recovered,
  so a task always ends.
\<close>

datatype 'j worker = WCall 'j | WSelect | WRelease | WSignal

datatype 'j caller = GAcquire 'j | GBack 'j | GPush 'j

datatype 'j dispatcher = DSelect | DAcquire 'j | DBack 'j | DWait 'j | DReturned

record 'j tpool =
  concurrent :: int
  chQqueue :: "'j list"
  chSlot :: bool
  chClose :: bool
  tp_workers :: "'j worker list"
  tp_callers :: "'j caller list"
  tp_dispatcher :: "'j dispatcher"
  tp_submitted :: "'j list"
  tp_called :: "'j list"
  tp_dropped :: "'j list"

definition NewPool :: "'j tpool" where
  "NewPool = \<lparr>concurrent = 0, chQqueue = [], chSlot = False, chClose = False, tp_workers = [], tp_callers = [],
     tp_dispatcher = DSelect, tp_submitted = [], tp_called = [], tp_dropped = []\<rparr>"

definition without :: "nat \<Rightarrow> 'a list \<Rightarrow> 'a list" where
  "without r xs = take r xs @ drop (Suc r) xs"

definition GoCall :: "'j \<Rightarrow> 'j tpool \<Rightarrow> 'j tpool" where
  "GoCall f s = s\<lparr>tp_callers := tp_callers s @ [GAcquire f], tp_submitted := tp_submitted s @ [f]\<rparr>"

text \<open>\<open>fork\<close> after a successful \<open>acquire\<close>: a worker that runs \<open>f\<close>.\<close>

definition spawn :: "'j \<Rightarrow> 'j tpool \<Rightarrow> 'j tpool" where
  "spawn f s = s\<lparr>tp_workers := tp_workers s @ [WCall f], tp_called := tp_called s @ [f]\<rparr>"

definition StopPool :: "int \<Rightarrow> 'j tpool \<Rightarrow> 'j tpool" where
  "StopPool maxConcurrent s = (if chClose s then s else s\<lparr>concurrent := concurrent s + maxConcurrent, chClose := True\<rparr>)"

inductive pool_caller :: "int \<Rightarrow> nat \<Rightarrow> 'j tpool \<Rightarrow> 'j tpool \<Rightarrow> bool" for maxConcurrent qsize where
  g_acquired: "r < length (tp_callers s) \<Longrightarrow> tp_callers s ! r = GAcquire f \<Longrightarrow> concurrent s + 1 \<le> maxConcurrent \<Longrightarrow>
    pool_caller maxConcurrent qsize s (spawn f (s\<lparr>concurrent := concurrent s + 1, tp_callers := without r (tp_callers s)\<rparr>))"
| g_full: "r < length (tp_callers s) \<Longrightarrow> tp_callers s ! r = GAcquire f \<Longrightarrow> \<not> concurrent s + 1 \<le> maxConcurrent \<Longrightarrow>
    pool_caller maxConcurrent qsize s (s\<lparr>concurrent := concurrent s + 1, tp_callers := (tp_callers s)[r := GBack f]\<rparr>)"
| g_back: "r < length (tp_callers s) \<Longrightarrow> tp_callers s ! r = GBack f \<Longrightarrow>
    pool_caller maxConcurrent qsize s (s\<lparr>concurrent := concurrent s - 1, tp_callers := (tp_callers s)[r := GPush f]\<rparr>)"
| g_push: "r < length (tp_callers s) \<Longrightarrow> tp_callers s ! r = GPush f \<Longrightarrow> length (chQqueue s) < qsize \<Longrightarrow>
    pool_caller maxConcurrent qsize s (s\<lparr>chQqueue := chQqueue s @ [f], tp_callers := without r (tp_callers s)\<rparr>)"
| g_closed: "r < length (tp_callers s) \<Longrightarrow> tp_callers s ! r = GPush f \<Longrightarrow> chClose s \<Longrightarrow>
    pool_caller maxConcurrent qsize s (s\<lparr>tp_callers := without r (tp_callers s), tp_dropped := tp_dropped s @ [f]\<rparr>)"

inductive pool_worker :: "'j tpool \<Rightarrow> 'j tpool \<Rightarrow> bool" where
  w_called: "w < length (tp_workers s) \<Longrightarrow> tp_workers s ! w = WCall f \<Longrightarrow>
    pool_worker s (s\<lparr>tp_workers := (tp_workers s)[w := WSelect]\<rparr>)"
| w_take: "w < length (tp_workers s) \<Longrightarrow> tp_workers s ! w = WSelect \<Longrightarrow> chQqueue s = f # fs \<Longrightarrow>
    pool_worker s (s\<lparr>tp_workers := (tp_workers s)[w := WCall f], chQqueue := fs, tp_called := tp_called s @ [f]\<rparr>)"
| w_direct: "w < length (tp_workers s) \<Longrightarrow> tp_workers s ! w = WSelect \<Longrightarrow> chQqueue s = [] \<Longrightarrow>
    r < length (tp_callers s) \<Longrightarrow> tp_callers s ! r = GPush f \<Longrightarrow>
    pool_worker s (s\<lparr>tp_workers := (tp_workers s)[w := WCall f], tp_callers := without r (tp_callers s), tp_called := tp_called s @ [f]\<rparr>)"
| w_default: "w < length (tp_workers s) \<Longrightarrow> tp_workers s ! w = WSelect \<Longrightarrow> chQqueue s = [] \<Longrightarrow>
    pool_worker s (s\<lparr>tp_workers := (tp_workers s)[w := WRelease]\<rparr>)"
| w_release: "w < length (tp_workers s) \<Longrightarrow> tp_workers s ! w = WRelease \<Longrightarrow>
    pool_worker s (s\<lparr>concurrent := concurrent s - 1, tp_workers := (tp_workers s)[w := WSignal]\<rparr>)"
| w_signal: "w < length (tp_workers s) \<Longrightarrow> tp_workers s ! w = WSignal \<Longrightarrow>
    pool_worker s (s\<lparr>chSlot := True, tp_workers := without w (tp_workers s)\<rparr>)"

inductive pool_dispatch :: "int \<Rightarrow> 'j tpool \<Rightarrow> 'j tpool \<Rightarrow> bool" for maxConcurrent where
  d_take: "tp_dispatcher s = DSelect \<Longrightarrow> chQqueue s = f # fs \<Longrightarrow>
    pool_dispatch maxConcurrent s (s\<lparr>chQqueue := fs, tp_dispatcher := DAcquire f\<rparr>)"
| d_direct: "tp_dispatcher s = DSelect \<Longrightarrow> chQqueue s = [] \<Longrightarrow> r < length (tp_callers s) \<Longrightarrow> tp_callers s ! r = GPush f \<Longrightarrow>
    pool_dispatch maxConcurrent s (s\<lparr>tp_callers := without r (tp_callers s), tp_dispatcher := DAcquire f\<rparr>)"
| d_acquired: "tp_dispatcher s = DAcquire f \<Longrightarrow> concurrent s + 1 \<le> maxConcurrent \<Longrightarrow>
    pool_dispatch maxConcurrent s (spawn f (s\<lparr>concurrent := concurrent s + 1, tp_dispatcher := DSelect\<rparr>))"
| d_full: "tp_dispatcher s = DAcquire f \<Longrightarrow> \<not> concurrent s + 1 \<le> maxConcurrent \<Longrightarrow>
    pool_dispatch maxConcurrent s (s\<lparr>concurrent := concurrent s + 1, tp_dispatcher := DBack f\<rparr>)"
| d_back: "tp_dispatcher s = DBack f \<Longrightarrow>
    pool_dispatch maxConcurrent s (s\<lparr>concurrent := concurrent s - 1, tp_dispatcher := DWait f\<rparr>)"
| d_slot: "tp_dispatcher s = DWait f \<Longrightarrow> chSlot s \<Longrightarrow>
    pool_dispatch maxConcurrent s (s\<lparr>chSlot := False, tp_dispatcher := DAcquire f\<rparr>)"
| d_close: "tp_dispatcher s = DSelect \<Longrightarrow> chClose s \<Longrightarrow>
    pool_dispatch maxConcurrent s (s\<lparr>tp_dispatcher := DReturned\<rparr>)"
| d_wait_close: "tp_dispatcher s = DWait f \<Longrightarrow> chClose s \<Longrightarrow>
    pool_dispatch maxConcurrent s (s\<lparr>tp_dispatcher := DReturned, tp_dropped := tp_dropped s @ [f]\<rparr>)"

definition pool_internal :: "int \<Rightarrow> nat \<Rightarrow> 'j tpool \<Rightarrow> 'j tpool \<Rightarrow> bool" where
  "pool_internal maxConcurrent qsize s s' \<longleftrightarrow> pool_caller maxConcurrent qsize s s' \<or> pool_worker s s' \<or> pool_dispatch maxConcurrent s s'"

inductive pool_reach :: "int \<Rightarrow> nat \<Rightarrow> 'j tpool \<Rightarrow> bool" for maxConcurrent qsize where
  pool_new: "pool_reach maxConcurrent qsize NewPool"
| pool_go: "pool_reach maxConcurrent qsize s \<Longrightarrow> pool_reach maxConcurrent qsize (GoCall f s)"
| pool_step: "pool_reach maxConcurrent qsize s \<Longrightarrow> pool_internal maxConcurrent qsize s s' \<Longrightarrow> pool_reach maxConcurrent qsize s'"
| pool_stop: "pool_reach maxConcurrent qsize s \<Longrightarrow> pool_reach maxConcurrent qsize (StopPool maxConcurrent s)"

text \<open>What the counter counts, and where a submitted task can be.\<close>

fun holds_slot :: "'j worker \<Rightarrow> bool" where
  "holds_slot WSignal = False"
| "holds_slot w = True"

fun going_back :: "'j caller \<Rightarrow> bool" where
  "going_back (GBack f) = True"
| "going_back c = False"

fun caller_job :: "'j caller \<Rightarrow> 'j" where
  "caller_job (GAcquire f) = f"
| "caller_job (GBack f) = f"
| "caller_job (GPush f) = f"

fun dispatcher_jobs :: "'j dispatcher \<Rightarrow> 'j list" where
  "dispatcher_jobs (DAcquire f) = [f]"
| "dispatcher_jobs (DBack f) = [f]"
| "dispatcher_jobs (DWait f) = [f]"
| "dispatcher_jobs d = []"

fun dispatcher_back :: "'j dispatcher \<Rightarrow> int" where
  "dispatcher_back (DBack f) = 1"
| "dispatcher_back d = 0"

definition busy :: "'j tpool \<Rightarrow> nat" where
  "busy s = length (filter holds_slot (tp_workers s))"

definition pool_inv :: "int \<Rightarrow> 'j tpool \<Rightarrow> bool" where
  "pool_inv maxConcurrent s \<longleftrightarrow>
     concurrent s = int (busy s) + int (length (filter going_back (tp_callers s))) + dispatcher_back (tp_dispatcher s) +
       (if chClose s then maxConcurrent else 0) \<and>
     int (busy s) \<le> maxConcurrent \<and>
     mset (tp_submitted s) = mset (tp_called s) + mset (chQqueue s) + mset (map caller_job (tp_callers s)) +
       mset (dispatcher_jobs (tp_dispatcher s)) + mset (tp_dropped s) \<and>
     (tp_dropped s \<noteq> [] \<longrightarrow> chClose s)"

lemma mset_without:
  assumes "r < length xs"
  shows "mset (map f xs) = add_mset (f (xs ! r)) (mset (map f (without r xs)))"
proof -
  have "xs = take r xs @ xs ! r # drop (Suc r) xs" using assms by (simp add: id_take_nth_drop)
  then have "mset (map f xs) = mset (map f (take r xs @ xs ! r # drop (Suc r) xs))" by simp
  then show ?thesis by (simp add: without_def)
qed

lemma mset_list_update:
  assumes "r < length xs" "f y = f (xs ! r)"
  shows "mset (map f (xs[r := y])) = mset (map f xs)"
  using assms by (metis list_update_id map_update)

lemma count_without:
  assumes "r < length xs"
  shows "length (filter P xs) = length (filter P (without r xs)) + (if P (xs ! r) then 1 else 0)"
proof -
  have "xs = take r xs @ xs ! r # drop (Suc r) xs" using assms by (simp add: id_take_nth_drop)
  then have "length (filter P xs) = length (filter P (take r xs @ xs ! r # drop (Suc r) xs))" by simp
  then show ?thesis by (simp add: without_def)
qed

lemma count_update:
  assumes "r < length xs"
  shows "int (length (filter P (xs[r := y]))) = int (length (filter P xs)) - (if P (xs ! r) then 1 else 0) + (if P y then 1 else 0)"
proof -
  have "xs[r := y] = take r xs @ y # drop (Suc r) xs" using assms by (simp add: upd_conv_take_nth_drop)
  moreover have "length (filter P xs) = length (filter P (without r xs)) + (if P (xs ! r) then 1 else 0)" by (rule count_without [OF assms])
  ultimately show ?thesis by (simp add: without_def)
qed

lemma dispatcher_back_nonneg: "0 \<le> dispatcher_back d"
  by (cases d) simp_all

text \<open>A successful \<open>acquire\<close> leaves room for one more worker.\<close>

lemma acquire_room:
  assumes "pool_inv m s" "concurrent s + 1 \<le> m"
  shows "int (busy s) + 1 \<le> m"
  using assms dispatcher_back_nonneg [of "tp_dispatcher s"] by (simp add: pool_inv_def split: if_splits)

lemma pool_caller_inv: "pool_caller m n s s' \<Longrightarrow> pool_inv m s \<Longrightarrow> pool_inv m s'"
proof (induction rule: pool_caller.induct)
  case (g_acquired r s f)
  then show ?case using acquire_room [OF g_acquired(4,3)] count_without [OF g_acquired(1), of going_back] mset_without [OF g_acquired(1), of caller_job]
    by (auto simp: pool_inv_def spawn_def busy_def)
next
  case (g_full r s f)
  then show ?case using count_update [OF g_full(1), of going_back "GBack f"] mset_list_update [OF g_full(1), of caller_job "GBack f"]
    by (auto simp: pool_inv_def busy_def)
next
  case (g_back r s f)
  then show ?case using count_update [OF g_back(1), of going_back "GPush f"] mset_list_update [OF g_back(1), of caller_job "GPush f"]
    by (auto simp: pool_inv_def busy_def)
next
  case (g_push r s f)
  then show ?case using count_without [OF g_push(1), of going_back] mset_without [OF g_push(1), of caller_job]
    by (auto simp: pool_inv_def busy_def)
next
  case (g_closed r s f)
  then show ?case using count_without [OF g_closed(1), of going_back] mset_without [OF g_closed(1), of caller_job]
    by (auto simp: pool_inv_def busy_def)
qed

lemma pool_worker_inv: "pool_worker s s' \<Longrightarrow> pool_inv m s \<Longrightarrow> pool_inv m s'"
proof (induction rule: pool_worker.induct)
  case (w_direct w s r f)
  then show ?case using count_update [OF w_direct(1), of holds_slot "WCall f"] count_without [OF w_direct(4), of going_back]
      mset_without [OF w_direct(4), of caller_job]
    by (auto simp: pool_inv_def busy_def)
next
  case (w_signal w s)
  then show ?case using count_without [OF w_signal(1), of holds_slot] by (auto simp: pool_inv_def busy_def)
qed (auto simp: pool_inv_def busy_def count_update)

lemma pool_dispatch_inv: "pool_dispatch m s s' \<Longrightarrow> pool_inv m s \<Longrightarrow> pool_inv m s'"
proof (induction rule: pool_dispatch.induct)
  case (d_direct s r f)
  then show ?case using count_without [OF d_direct(3), of going_back] mset_without [OF d_direct(3), of caller_job]
    by (auto simp: pool_inv_def busy_def)
next
  case (d_acquired s f)
  then show ?case using acquire_room [OF d_acquired(3,2)] by (auto simp: pool_inv_def busy_def spawn_def)
qed (auto simp: pool_inv_def busy_def)

lemma pool_reach_inv: "pool_reach m n s \<Longrightarrow> 0 < m \<Longrightarrow> pool_inv m s"
proof (induction rule: pool_reach.induct)
  case pool_new
  then show ?case by (simp add: pool_inv_def NewPool_def busy_def)
next
  case (pool_go s f)
  then show ?case by (simp add: pool_inv_def GoCall_def busy_def)
next
  case (pool_step s s')
  then show ?case using pool_caller_inv pool_worker_inv pool_dispatch_inv unfolding pool_internal_def by blast
next
  case (pool_stop s)
  then show ?case by (auto simp: pool_inv_def StopPool_def busy_def)
qed

end
