(* ===== verification/ExecProps.thy ===== *)
theory ExecProps
  imports JobQueue TaskPool
begin

text \<open>
  The properties of the serial executors and of the goroutine pool.
\<close>

definition pool_stuck :: "int tpool" where
  "pool_stuck = NewPool\<lparr>chQqueue := [3], tp_dispatcher := DWait 2, tp_submitted := [1, 2, 3], tp_called := [1]\<rparr>"

lemma pool_caller_step: "pool_reach m n s \<Longrightarrow> pool_caller m n s s' \<Longrightarrow> pool_reach m n s'"
  and pool_worker_step: "pool_reach m n s \<Longrightarrow> pool_worker s s' \<Longrightarrow> pool_reach m n s'"
  and pool_dispatch_step: "pool_reach m n s \<Longrightarrow> pool_dispatch m s s' \<Longrightarrow> pool_reach m n s'"
  by (auto intro: pool_step simp: pool_internal_def)



text \<open>
  Timer.Async runs functions one at a time and in order: the same contract, for the goroutine that fetches
  a function under the lock and runs it outside.
\<close>

theorem timer_async_serial:
  assumes "serial_run Async async_step (\<lambda>q. length (gos q)) asyncq0 ps st q"
  shows "length (gos q) \<le> 1 \<and> (\<exists>ws. ps = st @ ws) \<and> (gos q = [] \<longrightarrow> st = ps) \<and>
    (\<exists>q'. serial_run Async async_step (\<lambda>q. length (gos q)) asyncq0 ps ps q' \<and> gos q' = [])"
proof -
  note r = timer_async.run_serial [OF assms]
  have "gos q = [] \<longrightarrow> st = ps" "\<exists>ws. ps = st @ ws" using r by (blast intro: length_0_conv [THEN iffD2])+
  then show ?thesis using r timer_async.run_drains [OF assms] by (metis length_0_conv)
qed

theorem timer_async_serial_witness:
  "\<exists>q. serial_run Async async_step (\<lambda>q. length (gos q)) asyncq0 [7 :: nat] [7] q \<and> gos q = []"
proof -
  have "serial_run Async async_step (\<lambda>q. length (gos q)) asyncq0 ([] @ [7 :: nat]) ([] @ []) \<lparr>asyncList = [7], gos = [AFetch 0]\<rparr>"
    by (rule serial_push [OF serial_start]) (simp add: Async_def asyncq0_def)
  from timer_async_serial [OF this] show ?thesis by simp
qed

text \<open>
  C26: The goroutine pool keeps its bound and its tasks: in every interleaving of Go calls, workers, dispatcher and
  Stop, at the granularity of atomic operations, at most maxConcurrent goroutines run tasks, and every submitted
  task is called once, or is still held by a caller, the queue or the dispatcher, or was dropped after Stop.
\<close>

theorem taskpool_bounded:
  assumes "pool_reach maxConcurrent qsize s" "0 < maxConcurrent"
  shows "int (length (filter holds_slot (tp_workers s))) \<le> maxConcurrent \<and>
    mset (tp_submitted s) = mset (tp_called s) + mset (chQqueue s) + mset (map caller_job (tp_callers s)) +
       mset (dispatcher_jobs (tp_dispatcher s)) + mset (tp_dropped s) \<and>
    (\<not> chClose s \<longrightarrow> tp_dropped s = [])"
  using pool_reach_inv [OF assms] by (auto simp: pool_inv_def busy_def)

theorem taskpool_bounded_witness:
  "mset (tp_submitted (GoCall (1 :: int) NewPool)) = {#1#} \<and> tp_callers (GoCall (1 :: int) NewPool) = [GAcquire 1]"
  using taskpool_bounded [OF pool_go [OF pool_new [of 4 2]], of "1 :: int"] by (simp add: GoCall_def NewPool_def)

text \<open>A pool of one goroutine can stop with work left: the token of the last worker is used up by an
  attempt of the dispatcher that fails only because a caller has not yet taken its addition back. No
  step is possible then until the next call of \<open>Go\<close>.\<close>

theorem taskpool_lost_wakeup:
  "pool_reach 1 1 pool_stuck \<and> (\<forall>s'. \<not> pool_internal 1 1 pool_stuck s')"
proof
  note d = NewPool_def GoCall_def spawn_def without_def
  let ?s = "\<lambda>c q sl w g p sub call. \<lparr>concurrent = c, chQqueue = q, chSlot = sl, chClose = False, tp_workers = w, tp_callers = g,
     tp_dispatcher = p, tp_submitted = sub, tp_called = call, tp_dropped = []\<rparr> :: int tpool"
  have 1: "pool_reach 1 1 (?s 1 [] False [WCall 1] [] DSelect [1] [1])"
    using pool_caller_step [OF pool_go [OF pool_new, of 1 1 1] g_acquired [of 0 _ 1]] by (simp add: d)
  have 2: "pool_reach 1 1 (?s 2 [] False [WCall 1] [GBack 2] DSelect [1, 2] [1])"
    using pool_caller_step [OF pool_go [OF 1, of 2] g_full [of 0 _ 2]] by (simp add: d)
  have 3: "pool_reach 1 1 (?s 1 [2] False [WCall 1] [] DSelect [1, 2] [1])"
    using pool_caller_step [OF pool_caller_step [OF 2 g_back [of 0 _ 2]] g_push [of 0 _ 2]] by (simp add: d)
  have 4: "pool_reach 1 1 (?s 2 [] False [WCall 1] [] (DBack 2) [1, 2] [1])"
    using pool_dispatch_step [OF pool_dispatch_step [OF 3 d_take] d_full] by (simp add: d)
  have "pool_reach 1 1 (?s 1 [] False [WCall 1] [] (DWait 2) [1, 2] [1])"
    using pool_dispatch_step [OF 4 d_back] by simp
  note 4 = this
  have 5: "pool_reach 1 1 (?s 2 [] False [WCall 1] [GBack 3] (DWait 2) [1, 2, 3] [1])"
    using pool_caller_step [OF pool_go [OF 4, of 3] g_full [of 0 _ 3]] by (simp add: d)
  have 6: "pool_reach 1 1 (?s 2 [] False [WRelease] [GBack 3] (DWait 2) [1, 2, 3] [1])"
    using pool_worker_step [OF pool_worker_step [OF 5 w_called [of 0]] w_default [of 0]] by simp
  have 7: "pool_reach 1 1 (?s 1 [] True [] [GBack 3] (DWait 2) [1, 2, 3] [1])"
    using pool_worker_step [OF pool_worker_step [OF 6 w_release [of 0]] w_signal [of 0]] by (simp add: d)
  have 8: "pool_reach 1 1 (?s 1 [] False [] [GBack 3] (DWait 2) [1, 2, 3] [1])"
    using pool_dispatch_step [OF pool_dispatch_step [OF pool_dispatch_step [OF 7 d_slot] d_full] d_back] by simp
  have "pool_reach 1 1 (?s 0 [3] False [] [] (DWait 2) [1, 2, 3] [1])"
    using pool_caller_step [OF pool_caller_step [OF 8 g_back [of 0 _ 3]] g_push [of 0 _ 3]] by (simp add: d)
  then show "pool_reach 1 1 pool_stuck" by (simp add: pool_stuck_def NewPool_def)
  show "\<forall>s'. \<not> pool_internal 1 1 pool_stuck s'"
    by (auto simp: pool_internal_def pool_stuck_def NewPool_def elim: pool_caller.cases pool_worker.cases pool_dispatch.cases)
qed

end
