(* ===== verification/BodyReader.thy ===== *)
theory BodyReader
  imports Prelude
begin

text \<open>
  The HTTP body of \<open>body.go\<close>: a list of pooled buffers filled by the parser and read by the handler.
  A buffer is its contents, its capacity and a number that names the allocation; \<open>Malloc n\<close> of the
  allocator returns a buffer of length \<open>n\<close> whose capacity \<open>mcap n\<close> is a parameter, with
  \<open>n \<le> mcap n\<close> (\<open>Mempool\<close> shows this for the allocators of the repository). \<open>br_freed\<close> records the
  buffers given back.
\<close>

record bbuf =
  bb_data :: bytes
  bb_cap :: nat
  bb_id :: nat

record body =
  br_index :: nat
  br_left :: int
  br_buffers :: "bbuf list"
  br_closed :: bool
  br_freed :: "nat list"
  br_next :: nat

datatype body_err = BodyTooLong

definition NewBodyReader :: "nat \<Rightarrow> body" where
  "NewBodyReader nxt = \<lparr>br_index = 0, br_left = 0, br_buffers = [], br_closed = False, br_freed = [], br_next = nxt\<rparr>"

text \<open>Taking the exhausted head away.\<close>

definition drop_head :: "bbuf \<Rightarrow> bbuf list \<Rightarrow> body \<Rightarrow> body" where
  "drop_head b bs br = br\<lparr>br_buffers := bs, br_index := 0, br_freed := br_freed br @ [bb_id b]\<rparr>"

text \<open>The loop of \<open>Read\<close>: \<open>out\<close> are the bytes copied so far; the flag is \<open>io.EOF\<close>.\<close>

function br_read_loop :: "nat \<Rightarrow> bytes \<Rightarrow> body \<Rightarrow> body \<times> bytes \<times> bool" where
  "br_read_loop need out br =
     (if length out < need \<and> br_left br > 0 then
        (case br_buffers br of
           [] \<Rightarrow> (br\<lparr>br_left := 0\<rparr>, out, out = [])
         | b # bs \<Rightarrow>
             if br_index br \<ge> length (bb_data b) then br_read_loop need out (drop_head b bs br)
             else
               (let nc = min (need - length out) (length (bb_data b) - br_index br);
                    out' = out @ take nc (drop (br_index br) (bb_data b));
                    br' = (if nc + br_index br \<ge> length (bb_data b) then drop_head b bs br
                           else br\<lparr>br_index := br_index br + nc\<rparr>)
                in br_read_loop need out' (br'\<lparr>br_left := br_left br - int nc\<rparr>)))
      else (br, out, False))"
  by pat_completeness auto
termination
  by (relation "measure (\<lambda>(need, out, br). (need - length out) + length (br_buffers br))")
     (auto simp: drop_head_def min_def)

definition br_Read :: "nat \<Rightarrow> body \<Rightarrow> body \<times> bytes \<times> bool" where
  "br_Read need br =
     (if br_closed br then (br, [], True)
      else if br_left br \<le> 0 then (br, [], True)
      else br_read_loop need [] br)"

definition br_Close :: "body \<Rightarrow> body" where
  "br_Close br =
     (if br_closed br then br
      else br\<lparr>br_closed := True, br_freed := br_freed br @ map bb_id (br_buffers br), br_buffers := [], br_left := 0, br_index := 0\<rparr>)"

definition new_bbuf :: "(nat \<Rightarrow> nat) \<Rightarrow> bytes \<Rightarrow> body \<Rightarrow> body" where
  "new_bbuf mcap data br =
     br\<lparr>br_buffers := br_buffers br @ [\<lparr>bb_data = data, bb_cap = mcap (length data), bb_id = br_next br\<rparr>], br_next := Suc (br_next br)\<rparr>"

definition br_append :: "(nat \<Rightarrow> nat) \<Rightarrow> int \<Rightarrow> bytes \<Rightarrow> body \<Rightarrow> body \<times> body_err option" where
  "br_append mcap MaxHTTPBodySize data br =
     (if data = [] then (br, None)
      else if MaxHTTPBodySize > 0 \<and> int (length data) + br_left br > MaxHTTPBodySize then (br, Some BodyTooLong)
      else
        (let br = br\<lparr>br_left := br_left br + int (length data)\<rparr> in
         if br_buffers br = [] then (new_bbuf mcap data br, None)
         else
           (let b = last (br_buffers br); l = length (bb_data b); bLeft = bb_cap b - l; nc = min bLeft (length data);
                br = (if bLeft > 0
                      then br\<lparr>br_buffers := butlast (br_buffers br) @ [b\<lparr>bb_data := bb_data b @ take nc data\<rparr>]\<rparr> else br);
                data = (if bLeft > 0 then drop nc data else data)
            in (if data \<noteq> [] then new_bbuf mcap data br else br, None))))"

definition RawBodyBuffers :: "body \<Rightarrow> bytes list" where
  "RawBodyBuffers br = (case br_buffers br of [] \<Rightarrow> [] | b # bs \<Rightarrow> drop (br_index br) (bb_data b) # map bb_data bs)"

text \<open>The unread bytes, and the invariant.\<close>

definition unread :: "body \<Rightarrow> bytes" where
  "unread br = drop (br_index br) (concat (map bb_data (br_buffers br)))"

definition body_ok :: "body \<Rightarrow> bool" where
  "body_ok br \<longleftrightarrow>
     (case br_buffers br of [] \<Rightarrow> br_index br = 0 | b # _ \<Rightarrow> br_index br \<le> length (bb_data b)) \<and>
     br_left br = int (length (unread br)) \<and>
     distinct (br_freed br @ map bb_id (br_buffers br)) \<and>
     (\<forall>i \<in> set (br_freed br) \<union> set (map bb_id (br_buffers br)). i < br_next br)"

declare br_read_loop.simps [simp del]

lemma unread_Cons:
  "br_buffers br = b # bs \<Longrightarrow> br_index br \<le> length (bb_data b) \<Longrightarrow>
   unread br = drop (br_index br) (bb_data b) @ concat (map bb_data bs)"
  by (simp add: unread_def)

lemma RawBodyBuffers_unread: "body_ok br \<Longrightarrow> concat (RawBodyBuffers br) = unread br"
  by (auto simp: RawBodyBuffers_def body_ok_def unread_def split: list.splits)

lemma drop_head_ok:
  assumes "body_ok br" "br_buffers br = b # bs" "k = length (bb_data b) - br_index br"
  shows "body_ok ((drop_head b bs br)\<lparr>br_left := br_left br - int k\<rparr>)"
    "unread (drop_head b bs br) = drop k (unread br)"
proof -
  have i: "br_index br \<le> length (bb_data b)" using assms(1,2) by (simp add: body_ok_def)
  have u: "unread br = drop (br_index br) (bb_data b) @ concat (map bb_data bs)" by (rule unread_Cons [OF assms(2) i])
  have "unread (drop_head b bs br) = concat (map bb_data bs)" by (simp add: drop_head_def unread_def)
  then show e: "unread (drop_head b bs br) = drop k (unread br)" unfolding u using assms(3) by simp
  have "unread ((drop_head b bs br)\<lparr>br_left := br_left br - int k\<rparr>) = drop k (unread br)" using e by (simp add: unread_def)
  then show "body_ok ((drop_head b bs br)\<lparr>br_left := br_left br - int k\<rparr>)"
    using assms i u by (auto simp: body_ok_def drop_head_def split: list.split)
qed

lemma advance_ok:
  assumes "body_ok br" "br_buffers br = b # bs" "br_index br + k \<le> length (bb_data b)"
  shows "body_ok (br\<lparr>br_index := br_index br + k, br_left := br_left br - int k\<rparr>)"
    "unread (br\<lparr>br_index := br_index br + k, br_left := l\<rparr>) = drop k (unread br)"
proof -
  have i: "br_index br \<le> length (bb_data b)" using assms(3) by simp
  have u: "unread br = drop (br_index br) (bb_data b) @ concat (map bb_data bs)" by (rule unread_Cons [OF assms(2) i])
  show e: "unread (br\<lparr>br_index := br_index br + k, br_left := l\<rparr>) = drop k (unread br)" for l
    by (simp add: unread_def add.commute)
  show "body_ok (br\<lparr>br_index := br_index br + k, br_left := br_left br - int k\<rparr>)"
    using assms u e [of "br_left br - int k"] by (auto simp: body_ok_def)
qed

lemma br_read_loop_spec:
  "body_ok br \<Longrightarrow> length out \<le> need \<Longrightarrow> br_read_loop need out br = (br', res, eof) \<Longrightarrow>
   body_ok br' \<and> res = out @ take (need - length out) (unread br) \<and> unread br' = drop (need - length out) (unread br) \<and>
   \<not> eof \<and> br_closed br' = br_closed br \<and> br_next br' = br_next br \<and>
   br_freed br' @ map bb_id (br_buffers br') = br_freed br @ map bb_id (br_buffers br)"
proof (induction need out br arbitrary: br' res eof rule: br_read_loop.induct)
  case (1 need out br)
  show ?case
  proof (cases "length out < need \<and> br_left br > 0")
    case False
    then have "unread br = [] \<or> need = length out" using 1(3,4) by (auto simp: body_ok_def)
    moreover have "(br', res, eof) = (br, out, False)" using False 1(5) by (subst (asm) br_read_loop.simps) auto
    ultimately show ?thesis using 1(3,4) by auto
  next
    case True
    then obtain b bs where l: "br_buffers br = b # bs" using 1(3) by (cases "br_buffers br") (auto simp: body_ok_def unread_def)
    have i: "br_index br \<le> length (bb_data b)" using 1(3) l by (simp add: body_ok_def)
    have u: "unread br = drop (br_index br) (bb_data b) @ concat (map bb_data bs)" by (rule unread_Cons [OF l i])
    show ?thesis
    proof (cases "br_index br \<ge> length (bb_data b)")
      case e: True
      have r: "br_read_loop need out (drop_head b bs br) = (br', res, eof)" using 1(5) True l e by (subst (asm) br_read_loop.simps) simp
      have z: "(drop_head b bs br)\<lparr>br_left := br_left br - int 0\<rparr> = drop_head b bs br" by (simp add: drop_head_def)
      have "body_ok (drop_head b bs br)" using drop_head_ok(1) [OF 1(3) l, of 0] e z by simp
      from 1(1) [OF True l e this 1(4) r] show ?thesis
        using drop_head_ok(2) [OF 1(3) l, of 0] e l by (simp add: drop_head_def)
    next
      case ne: False
      define nc where "nc = min (need - length out) (length (bb_data b) - br_index br)"
      define out' where "out' = out @ take nc (drop (br_index br) (bb_data b))"
      define q where "q = (if nc + br_index br \<ge> length (bb_data b) then drop_head b bs br else br\<lparr>br_index := br_index br + nc\<rparr>)\<lparr>br_left := br_left br - int nc\<rparr>"
      have "br_read_loop need out br = br_read_loop need out' q"
        unfolding out'_def q_def nc_def
        by (subst br_read_loop.simps) (simp only: True l ne list.case if_True if_False Let_def simp_thms)
      then have r: "br_read_loop need out' q = (br', res, eof)" using 1(5) by simp
      have nc: "nc \<le> length (bb_data b) - br_index br" "nc \<le> need - length out" by (auto simp: nc_def)
      have lo: "length out' = length out + nc" using nc by (simp add: out'_def)
      have q: "body_ok q \<and> unread q = drop nc (unread br) \<and> br_closed q = br_closed br \<and> br_next q = br_next br \<and>
          br_freed q @ map bb_id (br_buffers q) = br_freed br @ map bb_id (br_buffers br)"
      proof (cases "nc + br_index br \<ge> length (bb_data b)")
        case full: True
        then have k: "nc = length (bb_data b) - br_index br" using nc by simp
        have "unread ((drop_head b bs br)\<lparr>br_left := br_left br - int nc\<rparr>) = unread (drop_head b bs br)" by (simp add: unread_def)
        then show ?thesis using full drop_head_ok [OF 1(3) l k] l by (simp add: q_def drop_head_def)
      next
        case False
        then show ?thesis using advance_ok [OF 1(3) l, of nc] by (simp add: q_def)
      qed
      have tk: "take nc (drop (br_index br) (bb_data b)) = take nc (unread br)" using nc u by simp
      have IH: "body_ok br' \<and> res = out' @ take (need - length out') (unread q) \<and> unread br' = drop (need - length out') (unread q) \<and>
          \<not> eof \<and> br_closed br' = br_closed q \<and> br_next br' = br_next q \<and>
          br_freed br' @ map bb_id (br_buffers br') = br_freed q @ map bb_id (br_buffers q)"
      proof -
        have bq: "body_ok q" "length out' \<le> need" using q lo nc True by auto
        show ?thesis by (rule 1(2) [OF True l ne nc_def out'_def refl, folded q_def, OF bq r])
      qed
      have "take nc (unread br) @ take (need - length out - nc) (drop nc (unread br)) = take (need - length out) (unread br)"
        using nc by (metis le_add_diff_inverse take_add)
      moreover have "need - (length out + nc) + nc = need - length out" using nc True by simp
      ultimately show ?thesis using IH q lo tk by (simp add: out'_def)
    qed
  qed
qed

lemma br_Read_spec:
  assumes "body_ok br" "\<not> br_closed br" "br_Read need br = (br', res, eof)"
  shows "body_ok br' \<and> \<not> br_closed br' \<and> res = take need (unread br) \<and> unread br' = drop need (unread br) \<and>
    (eof \<longleftrightarrow> unread br = []) \<and> br_next br' = br_next br \<and>
    br_freed br' @ map bb_id (br_buffers br') = br_freed br @ map bb_id (br_buffers br)"
proof (cases "br_left br \<le> 0")
  case True
  then have "unread br = []" using assms(1) by (simp add: body_ok_def)
  then show ?thesis using assms True by (auto simp: br_Read_def)
next
  case False
  then have r: "br_read_loop need [] br = (br', res, eof)" using assms(2,3) by (simp add: br_Read_def)
  have "unread br \<noteq> []" using False assms(1) by (auto simp: body_ok_def)
  then show ?thesis using br_read_loop_spec [OF assms(1) _ r] assms(2) by auto
qed

lemma new_bbuf_fields [simp]:
  "br_closed (new_bbuf mcap data br) = br_closed br" "br_freed (new_bbuf mcap data br) = br_freed br"
  "map bb_id (br_buffers (new_bbuf mcap data br)) = map bb_id (br_buffers br) @ [br_next br]"
  by (simp_all add: new_bbuf_def)

lemma new_bbuf_left: "br_left br = l \<Longrightarrow> (new_bbuf mcap data br)\<lparr>br_left := l\<rparr> = new_bbuf mcap data br"
  by (simp add: new_bbuf_def)

lemma new_bbuf_ok:
  assumes "body_ok (br\<lparr>br_left := l\<rparr>)"
  shows "body_ok ((new_bbuf mcap data br)\<lparr>br_left := l + int (length data)\<rparr>)" "unread (new_bbuf mcap data br) = unread br @ data"
proof -
  have k: "br_index br \<le> length (concat (map bb_data (br_buffers br)))" using assms by (auto simp: body_ok_def split: list.splits)
  show u: "unread (new_bbuf mcap data br) = unread br @ data" using k by (simp add: unread_def new_bbuf_def)
  have "unread ((new_bbuf mcap data br)\<lparr>br_left := l + int (length data)\<rparr>) = unread br @ data" using u by (simp add: unread_def)
  moreover have "unread (br\<lparr>br_left := l\<rparr>) = unread br" by (simp add: unread_def)
  ultimately show "body_ok ((new_bbuf mcap data br)\<lparr>br_left := l + int (length data)\<rparr>)"
    using assms by (auto simp: body_ok_def new_bbuf_def less_Suc_eq split: list.splits)
qed

lemma grow_last_ok:
  assumes "body_ok (br\<lparr>br_left := l\<rparr>)" "br_buffers br \<noteq> []"
    and "q = br\<lparr>br_buffers := butlast (br_buffers br) @ [(last (br_buffers br))\<lparr>bb_data := bb_data (last (br_buffers br)) @ x\<rparr>]\<rparr>"
  shows "body_ok (q\<lparr>br_left := l + int (length x)\<rparr>)" "unread q = unread br @ x"
    "map bb_id (br_buffers q) = map bb_id (br_buffers br)"
proof -
  obtain bs b where bs: "br_buffers br = bs @ [b]" using assms(2) by (cases "br_buffers br" rule: rev_cases) auto
  have k: "br_index br \<le> length (concat (map bb_data (br_buffers br)))" using assms(1) by (auto simp: body_ok_def split: list.splits)
  show u: "unread q = unread br @ x" using k bs by (simp add: unread_def assms(3))
  show ids: "map bb_id (br_buffers q) = map bb_id (br_buffers br)" using bs by (simp add: assms(3))
  have "unread (q\<lparr>br_left := l + int (length x)\<rparr>) = unread br @ x" using u by (simp add: unread_def)
  moreover have "unread (br\<lparr>br_left := l\<rparr>) = unread br" by (simp add: unread_def)
  ultimately show "body_ok (q\<lparr>br_left := l + int (length x)\<rparr>)"
    using assms bs by (cases bs) (auto simp: body_ok_def)
qed

lemma br_append_spec:
  assumes "body_ok br" "br_append mcap M data br = (br', e)"
  shows "body_ok br' \<and> br_closed br' = br_closed br \<and>
    (if data \<noteq> [] \<and> M > 0 \<and> int (length data) + int (length (unread br)) > M then br' = br \<and> e = Some BodyTooLong
     else e = None \<and> unread br' = unread br @ data) \<and>
    (M > 0 \<and> int (length (unread br)) \<le> M \<longrightarrow> int (length (unread br')) \<le> M) \<and>
    (\<exists>new. br_freed br' @ map bb_id (br_buffers br') = br_freed br @ map bb_id (br_buffers br) @ new)"
proof -
  have left: "br_left br = int (length (unread br))" using assms(1) by (simp add: body_ok_def)
  show ?thesis
  proof (cases "data = [] \<or> M > 0 \<and> int (length data) + br_left br > M")
    case True
    then show ?thesis using assms left by (auto simp: br_append_def)
  next
    case False
    define l where "l = br_left br"
    define q0 where "q0 = br\<lparr>br_left := br_left br + int (length data)\<rparr>"
    have ok0: "body_ok (q0\<lparr>br_left := l\<rparr>)" "unread q0 = unread br" "br_closed q0 = br_closed br" "br_freed q0 = br_freed br"
        "br_buffers q0 = br_buffers br" "br_left q0 = l + int (length data)"
      using assms(1) by (simp_all add: q0_def l_def unread_def)
    have main: "e = None \<and> body_ok br' \<and> unread br' = unread br @ data \<and> br_closed br' = br_closed br \<and>
        (\<exists>new. br_freed br' @ map bb_id (br_buffers br') = br_freed br @ map bb_id (br_buffers br) @ new)"
    proof (cases "br_buffers br = []")
      case True
      then have e: "br' = new_bbuf mcap data q0" "e = None" using assms(2) False by (auto simp: br_append_def Let_def q0_def)
      have "body_ok (new_bbuf mcap data q0)"
        using new_bbuf_ok(1) [OF ok0(1), where mcap = mcap and data = data] new_bbuf_left [OF ok0(6)] by metis
      then show ?thesis using new_bbuf_ok(2) [OF ok0(1), where mcap = mcap and data = data] ok0(2-5) e by simp
    next
      case ne: False
      define b where "b = last (br_buffers br)"
      define nc where "nc = min (bb_cap b - length (bb_data b)) (length data)"
      define q where "q = br\<lparr>br_left := br_left br + int (length data), br_buffers := butlast (br_buffers br) @ [b\<lparr>bb_data := bb_data b @ take nc data\<rparr>]\<rparr>"
      have q: "q = q0\<lparr>br_buffers := butlast (br_buffers q0) @ [(last (br_buffers q0))\<lparr>bb_data := bb_data (last (br_buffers q0)) @ take nc data\<rparr>]\<rparr>"
        using ok0(5) by (simp add: q_def q0_def b_def)
      have z: "bb_cap b - length (bb_data b) = 0 \<Longrightarrow> q = q0" using ne by (simp add: q_def q0_def nc_def b_def)
      have e: "br' = (if drop nc data \<noteq> [] then new_bbuf mcap (drop nc data) q else q)" "e = None"
        using assms(2) False ne z by (auto simp: br_append_def Let_def q_def q0_def b_def nc_def)
      have qq: "body_ok (q\<lparr>br_left := l + int (length (take nc data))\<rparr>)" "unread q = unread br @ take nc data" "map bb_id (br_buffers q) = map bb_id (br_buffers br)"
        using grow_last_ok [OF ok0(1) _ q] ne ok0(2,5) by auto
      have sum: "int (length (take nc data)) + int (length (drop nc data)) = int (length data)" by (simp add: nc_def)
      have ql: "q\<lparr>br_left := l + int (length data)\<rparr> = q" by (simp add: q_def l_def)
      show ?thesis
      proof (cases "drop nc data = []")
        case True
        then show ?thesis using e qq sum ql by (auto simp: q_def)
      next
        case False
        have "br_left q = l + int (length (take nc data)) + int (length (drop nc data))" using sum by (simp add: q_def l_def)
        then have "body_ok (new_bbuf mcap (drop nc data) q)"
          using new_bbuf_ok(1) [OF qq(1), where mcap = mcap and data = "drop nc data"] new_bbuf_left by metis
        moreover have "br_closed q = br_closed br" "br_freed q = br_freed br" by (simp_all add: q_def)
        ultimately show ?thesis using False e qq(2,3) new_bbuf_ok(2) [OF qq(1), where mcap = mcap and data = "drop nc data"] by simp
      qed
    qed
    then show ?thesis using False left by auto
  qed
qed

text \<open>
  A run of the three operations in any order: \<open>got\<close> are the bytes handed to the reader, \<open>given\<close> the bytes
  the parser appended with success.
\<close>

datatype body_call = BAppend bytes | BRead nat | BClose

fun body_op :: "(nat \<Rightarrow> nat) \<Rightarrow> int \<Rightarrow> body_call \<Rightarrow> body \<times> bytes \<times> bytes \<Rightarrow> body \<times> bytes \<times> bytes" where
  "body_op mcap M (BAppend d) (br, given, got) =
     (case br_append mcap M d br of (br', None) \<Rightarrow> (br', given @ d, got) | (br', Some _) \<Rightarrow> (br', given, got))"
| "body_op mcap M (BRead n) (br, given, got) = (let (br', out, eof) = br_Read n br in (br', given, got @ out))"
| "body_op mcap M BClose (br, given, got) = (br_Close br, given, got)"

definition body_run :: "(nat \<Rightarrow> nat) \<Rightarrow> int \<Rightarrow> body_call list \<Rightarrow> body \<times> bytes \<times> bytes" where
  "body_run mcap M ops = fold (body_op mcap M) ops (NewBodyReader 0, [], [])"

lemma NewBodyReader_ok: "body_ok (NewBodyReader n)" "unread (NewBodyReader n) = []"
  by (simp_all add: NewBodyReader_def body_ok_def unread_def)

lemma br_Close_ok: "body_ok br \<Longrightarrow> body_ok (br_Close br)"
  by (auto simp: br_Close_def body_ok_def unread_def)

lemma new_bbuf_next: "br_next (new_bbuf mcap d br) = Suc (br_next br)"
  by (simp add: new_bbuf_def)

text \<open>Every allocation is accounted for: it is in the list or it was given back.\<close>

definition all_known :: "body \<Rightarrow> bool" where
  "all_known br \<longleftrightarrow> set (br_freed br) \<union> set (map bb_id (br_buffers br)) = {..<br_next br}"

lemma all_known_new_bbuf:
  "all_known br \<Longrightarrow> all_known (new_bbuf mcap d br)"
  by (auto simp: all_known_def new_bbuf_def)

lemma all_known_append:
  assumes "all_known br"
  shows "all_known (fst (br_append mcap M d br))"
proof (cases "d = [] \<or> M > 0 \<and> int (length d) + br_left br > M")
  case True
  then show ?thesis using assms by (auto simp: br_append_def)
next
  case False
  have l: "all_known (br\<lparr>br_left := l\<rparr>)" for l using assms by (simp add: all_known_def)
  have b: "all_known (br\<lparr>br_left := l, br_buffers := butlast (br_buffers br) @ [(last (br_buffers br))\<lparr>bb_data := x\<rparr>]\<rparr>)"
    if "br_buffers br \<noteq> []" for l x
  proof -
    have "set (map bb_id (butlast (br_buffers br) @ [(last (br_buffers br))\<lparr>bb_data := x\<rparr>])) = set (map bb_id (br_buffers br))"
      using that by (cases "br_buffers br" rule: rev_cases) auto
    then show ?thesis using assms by (simp add: all_known_def)
  qed
  show ?thesis using False l b by (auto simp: br_append_def Let_def intro!: all_known_new_bbuf)
qed

lemma all_known_same:
  "br_freed br' @ map bb_id (br_buffers br') = br_freed br @ map bb_id (br_buffers br) \<Longrightarrow> br_next br' = br_next br \<Longrightarrow>
   all_known br \<Longrightarrow> all_known br'"
  unfolding all_known_def by (metis set_append)

lemma br_Read_closed: "br_closed br \<Longrightarrow> br_Read n br = (br, [], True)"
  by (simp add: br_Read_def)

lemma all_known_Close: "all_known br \<Longrightarrow> all_known (br_Close br)"
  by (auto simp: br_Close_def all_known_def)

lemma all_known_Read:
  assumes "body_ok br" "all_known br"
  shows "all_known (fst (br_Read n br))"
proof (cases "br_closed br")
  case True
  then show ?thesis using assms by (simp add: br_Read_closed)
next
  case False
  obtain br' out eof where r: "br_Read n br = (br', out, eof)" by (cases "br_Read n br") auto
  from br_Read_spec [OF assms(1) False r] show ?thesis using assms(2) r all_known_same by auto
qed

lemma br_Read_ok: "body_ok br \<Longrightarrow> body_ok (fst (br_Read n br))"
  by (cases "br_closed br"; cases "br_Read n br") (auto simp: br_Read_closed dest: br_Read_spec)

lemma body_op_safe:
  assumes "body_ok (fst s)" "all_known (fst s)"
  shows "body_ok (fst (body_op mcap M x s)) \<and> all_known (fst (body_op mcap M x s))"
proof (cases x)
  case (BAppend d)
  obtain br given got where s: "s = (br, given, got)" by (cases s) auto
  obtain br' e where a: "br_append mcap M d br = (br', e)" by (cases "br_append mcap M d br") auto
  have ok: "body_ok br" using assms s by simp
  have "body_ok br'" using br_append_spec [OF ok a] by blast
  moreover have "all_known br'" using all_known_append [where mcap = mcap and M = M and d = d] assms a s by (metis fst_conv)
  ultimately show ?thesis using BAppend s a by (cases e) auto
next
  case (BRead n)
  then show ?thesis using assms br_Read_ok [of "fst s" n] all_known_Read [of "fst s" n] by (cases s) (auto simp: case_prod_beta)
next
  case BClose
  then show ?thesis using assms br_Close_ok all_known_Close by (cases s) auto
qed

lemma fold_body_op_safe:
  "body_ok (fst s) \<Longrightarrow> all_known (fst s) \<Longrightarrow>
   body_ok (fst (fold (body_op mcap M) ops s)) \<and> all_known (fst (fold (body_op mcap M) ops s))"
  by (induction ops arbitrary: s) (use body_op_safe in auto)

lemma body_run_safe: "body_ok (fst (body_run mcap M ops)) \<and> all_known (fst (body_run mcap M ops))"
  unfolding body_run_def by (rule fold_body_op_safe) (simp_all add: NewBodyReader_ok, simp add: NewBodyReader_def all_known_def)

text \<open>The stream between the two ends, as long as the body is not closed.\<close>

definition body_stream :: "int \<Rightarrow> body \<times> bytes \<times> bytes \<Rightarrow> bool" where
  "body_stream M s = (case s of (br, given, got) \<Rightarrow>
     body_ok br \<and> \<not> br_closed br \<and> given = got @ unread br \<and> (M > 0 \<longrightarrow> int (length (unread br)) \<le> M))"

lemma body_op_stream:
  assumes "body_stream M s" "x \<noteq> BClose"
  shows "body_stream M (body_op mcap M x s)"
proof -
  obtain br given got where s: "s = (br, given, got)" by (cases s) auto
  have ok: "body_ok br" "\<not> br_closed br" "given = got @ unread br" "M > 0 \<longrightarrow> int (length (unread br)) \<le> M"
    using assms(1) s by (auto simp: body_stream_def)
  show ?thesis
  proof (cases x)
    case (BAppend d)
    obtain br' e where a: "br_append mcap M d br = (br', e)" by (cases "br_append mcap M d br") auto
    from br_append_spec [OF ok(1) a] show ?thesis using BAppend s a ok
      by (cases e) (auto simp: body_stream_def split: if_splits)
  next
    case (BRead n)
    obtain br' out eof where r: "br_Read n br = (br', out, eof)" by (cases "br_Read n br") auto
    from br_Read_spec [OF ok(1,2) r] show ?thesis using BRead s r ok by (auto simp: body_stream_def)
  next
    case BClose
    then show ?thesis using assms(2) by simp
  qed
qed

lemma fold_body_op_stream:
  "body_stream M s \<Longrightarrow> BClose \<notin> set ops \<Longrightarrow> body_stream M (fold (body_op mcap M) ops s)"
proof (induction ops arbitrary: s)
  case (Cons x ops)
  have "body_stream M (body_op mcap M x s)" using Cons(2,3) by (intro body_op_stream) auto
  from Cons(1) [OF this] show ?case using Cons(3) by simp
qed simp

lemma body_run_stream: "BClose \<notin> set ops \<Longrightarrow> body_stream M (body_run mcap M ops)"
  unfolding body_run_def by (rule fold_body_op_stream) (auto simp: body_stream_def NewBodyReader_ok, simp add: NewBodyReader_def)

text \<open>A closed body without buffers stays so while nothing is appended.\<close>

lemma body_op_closed:
  "br_closed (fst s) \<Longrightarrow> \<forall>d. x \<noteq> BAppend d \<Longrightarrow> body_op mcap M x s = s"
  by (cases x; cases s) (auto simp: br_Read_closed br_Close_def)

lemma fold_body_op_closed:
  "br_closed (fst s) \<Longrightarrow> \<forall>d. BAppend d \<notin> set ops \<Longrightarrow> fold (body_op mcap M) ops s = s"
proof (induction ops)
  case (Cons x ops)
  then have "body_op mcap M x s = s" by (intro body_op_closed) auto
  then show ?case using Cons by simp
qed simp

lemma br_Close_fields: "\<not> br_closed br \<Longrightarrow> br_closed (br_Close br) \<and> br_buffers (br_Close br) = [] \<and> br_next (br_Close br) = br_next br"
  by (simp add: br_Close_def)

end
