(* ===== verification/BodyProps.thy ===== *)
theory BodyProps
  imports BodyReader
begin

text \<open>The contract of the HTTP body: a byte queue with a limit, whose buffers go back to the allocator exactly once.\<close>

text \<open>
  C30: The body is a FIFO of bytes. Over any interleaving of appends by the parser and reads by the handler (of any
  sizes, with any capacities the allocator gives), the bytes read so far followed by the bytes still unread are exactly
  the bytes appended with success; \<open>Left\<close> is the number of unread bytes, \<open>RawBodyBuffers\<close> is the unread
  rest, the next \<open>Read\<close> of \<open>n\<close> bytes returns as many of them as exist, and it reports \<open>io.EOF\<close>
  exactly when there are none. With a positive \<open>MaxHTTPBodySize\<close> no more than that many bytes are ever held.
\<close>
theorem body_fifo:
  assumes "BClose \<notin> set ops" "body_run mcap M ops = (br, given, got)"
  shows "given = got @ concat (RawBodyBuffers br) \<and> br_left br = int (length given) - int (length got) \<and>
    fst (snd (br_Read n br)) = take n (drop (length got) given) \<and>
    (snd (snd (br_Read n br)) \<longleftrightarrow> got = given) \<and>
    (M > 0 \<longrightarrow> br_left br \<le> M)"
proof -
  have s: "body_ok br" "\<not> br_closed br" "given = got @ unread br" "M > 0 \<longrightarrow> int (length (unread br)) \<le> M"
    using body_run_stream [OF assms(1), where M = M and mcap = mcap] assms(2) by (auto simp: body_stream_def)
  have l: "br_left br = int (length (unread br))" using s(1) by (simp add: body_ok_def)
  obtain br' out eof where r: "br_Read n br = (br', out, eof)" by (cases "br_Read n br") auto
  from br_Read_spec [OF s(1,2) r] show ?thesis using s l r RawBodyBuffers_unread [OF s(1)] by auto
qed

theorem body_fifo_witness:
  "snd (snd (body_run (\<lambda>n. n + 2) 10 [BAppend ''abc'', BAppend ''def'', BRead 2])) = ''ab'' \<and>
   fst (snd (br_Read 9 (fst (body_run (\<lambda>n. n + 2) 10 [BAppend ''abc'', BAppend ''def'', BRead 2])))) = ''cdef''"
proof -
  define r where "r = body_run (\<lambda>n. n + 2) 10 [BAppend ''abc'', BAppend ''def'', BRead 2]"
  have g: "fst (snd r) = ''abcdef''" "snd (snd r) = ''ab''" unfolding r_def by code_simp+
  obtain br where e: "r = (br, ''abcdef'', ''ab'')" using g by (metis prod.collapse)
  have "fst (snd (br_Read 9 br)) = ''cdef''"
    using body_fifo [of "[BAppend ''abc'', BAppend ''def'', BRead 2]" "\<lambda>n. n + 2" 10 br "''abcdef''" "''ab''" 9] e
    unfolding r_def by simp
  then show ?thesis using g(2) e unfolding r_def by simp
qed

text \<open>
  C39: No buffer of a body leaks and none is freed twice. After any appends and reads, the first \<open>Close\<close>, and then any
  further reads and closes, every buffer the body ever took from the allocator was given back exactly once, and the body
  holds none; a \<open>Read\<close> then touches no buffer and reports \<open>io.EOF\<close>.
\<close>
theorem body_frees_once:
  assumes "BClose \<notin> set before" "\<forall>d. BAppend d \<notin> set later"
    and "body_run mcap M (before @ BClose # later) = (br, given, got)"
  shows "distinct (br_freed br) \<and> set (br_freed br) = {..<br_next br} \<and> br_buffers br = [] \<and> br_Read n br = (br, [], True)"
proof -
  let ?s = "body_run mcap M before"
  have "\<not> br_closed (fst ?s)" using body_run_stream [OF assms(1), where mcap = mcap and M = M] by (auto simp: body_stream_def)
  then have c: "br_closed (fst (body_op mcap M BClose ?s)) \<and> br_buffers (fst (body_op mcap M BClose ?s)) = []"
    using br_Close_fields by (cases ?s) auto
  have "body_run mcap M (before @ BClose # later) = fold (body_op mcap M) later (body_op mcap M BClose ?s)"
    by (simp add: body_run_def)
  then have "(br, given, got) = body_op mcap M BClose ?s" using assms(2,3) c fold_body_op_closed by metis
  then have cl: "br_closed br" "br_buffers br = []" using c by (metis fst_conv)+
  have "body_ok br" "all_known br" using body_run_safe [of mcap M "before @ BClose # later"] assms(3) by auto
  then show ?thesis using cl by (auto simp: body_ok_def all_known_def br_Read_closed)
qed

theorem body_frees_once_witness:
  "let br = fst (body_run (\<lambda>n. n) 0 ([BAppend ''ab'', BAppend ''cd'', BRead 3] @ BClose # [BRead 1, BClose])) in
   distinct (br_freed br) \<and> set (br_freed br) = {0, 1} \<and> br_buffers br = []"
proof -
  let ?r = "body_run (\<lambda>n. n) 0 ([BAppend ''ab'', BAppend ''cd'', BRead 3] @ BClose # [BRead 1, BClose])"
  have "br_next (fst ?r) = 2" by code_simp
  moreover have "{..<2} = {0, 1 :: nat}" by auto
  ultimately show ?thesis
    using body_frees_once [of "[BAppend ''ab'', BAppend ''cd'', BRead 3]" "[BRead 1, BClose]" "\<lambda>n. n" 0 "fst ?r" "fst (snd ?r)" "snd (snd ?r)"]
    by (simp add: Let_def)
qed

end
