(* ===== verification/ProcessorProtocol.thy ===== *)
theory ProcessorProtocol
  imports HttpStream
begin

text \<open>
  The contract between the parser and a \<open>Processor\<close> (\<open>nbhttp/processor.go\<close>), as a locale. A processor is
  \<open>resting\<close> between messages; the first callback of a message makes it \<open>started\<close>, its URL (or, on a client, its
  protocol) makes it \<open>inside\<close>, and \<open>OnComplete\<close> makes it resting again. The laws say what each callback needs and gives
  in these phases. The lemma proved here once for every processor is that the parser keeps the protocol on every
  input: the phase always fits the parser's state, so no callback is ever called out of order.
\<close>

definition request_line :: "pstate set" where
  "request_line = {stateMethodBefore, stateMethod, statePathBefore, statePath, stateProtoBefore, stateProto, stateProtoLF}"

definition status_line :: "pstate set" where
  "status_line = {stateClientProtoBefore, stateClientProto, stateStatusCodeBefore, stateStatusCode, stateStatusBefore, stateStatus, stateStatusLF}"

definition before_message :: "pstate set" where
  "before_message = {stateMethodBefore, stateMethod, stateClientProtoBefore, stateClientProto}"

definition before_url :: "pstate set" where
  "before_url = {statePathBefore, statePath}"

lemmas phase_defs = request_line_def status_line_def before_message_def before_url_def

locale processor_protocol =
  fixes E :: "('ps, 'u) penv"
    and client :: bool
    and resting started inside :: "'ps \<Rightarrow> bool"
  assumes OnMethod_starts: "\<not> client \<Longrightarrow> resting ps \<Longrightarrow> started (OnMethod E m ps)"
    and OnURL_ok: "\<not> client \<Longrightarrow> started ps \<Longrightarrow> OnURL E u ps = (ps', None) \<Longrightarrow> inside ps'"
    and OnURL_err: "\<not> client \<Longrightarrow> started ps \<Longrightarrow> OnURL E u ps = (ps', Some e) \<Longrightarrow> started ps'"
    and OnProto_ok: "(if client then resting ps else inside ps) \<Longrightarrow> OnProto E v ps = (ps', None) \<Longrightarrow> inside ps'"
    and OnProto_err: "(if client then resting ps else inside ps) \<Longrightarrow> OnProto E v ps = (ps', Some e) \<Longrightarrow> resting ps' \<or> inside ps'"
    and OnStatus_inside: "client \<Longrightarrow> inside ps \<Longrightarrow> inside (OnStatus E code text ps)"
    and OnHeader_inside: "inside ps \<Longrightarrow> inside (OnHeader E k x ps)"
    and OnContentLength_inside: "inside ps \<Longrightarrow> inside (OnContentLength E l ps)"
    and OnBody_inside: "inside ps \<Longrightarrow> inside (fst (OnBody E b ps))"
    and OnTrailerHeader_inside: "inside ps \<Longrightarrow> inside (OnTrailerHeader E k x ps)"
    and OnComplete_rests: "inside ps \<Longrightarrow> resting (fst (OnComplete E ps))"
    and Clean_rests: "resting ps \<or> started ps \<or> inside ps \<Longrightarrow> resting (Clean E ps)"
begin

definition in_phase :: "pstate \<Rightarrow> 'ps \<Rightarrow> bool" where
  "in_phase st ps \<longleftrightarrow> (if st \<in> before_message then resting ps else if st \<in> before_url then started ps else inside ps)"

definition some_phase :: "'ps \<Rightarrow> bool" where
  "some_phase ps \<longleftrightarrow> resting ps \<or> started ps \<or> inside ps"

definition own_side :: "('ps, 'u) parser \<Rightarrow> bool" where
  "own_side p \<longleftrightarrow> p_isClient p = client"

text \<open>The parser's state fits the processor's phase, and the parser is on its own side.\<close>

definition proto_inv :: "('ps, 'u) parser \<Rightarrow> bool" where
  "proto_inv p \<longleftrightarrow> own_side p \<and> p_state p \<noteq> stateClose \<and> p_state p \<notin> (if client then request_line else status_line) \<and>
     in_phase (p_state p) (p_Processor p)"

definition step_protocol :: "('ps, 'u) parser step \<Rightarrow> bool" where
  "step_protocol r = (case r of Next p s i \<Rightarrow> proto_inv p | Fail p e \<Rightarrow> some_phase (p_Processor p) | ExitLoop p s \<Rightarrow> proto_inv p)"

lemmas protocol_defs = proto_inv_def own_side_def in_phase_def step_protocol_def some_phase_def

lemma step_protocol_simps [simp]:
  "step_protocol (Next p s i) = proto_inv p" "step_protocol (Fail p e) = some_phase (p_Processor p)"
  "step_protocol (ExitLoop p s) = proto_inv p"
  by (simp_all add: step_protocol_def)

lemma own_side_cong: "p_isClient q = p_isClient p \<Longrightarrow> own_side q = own_side p"
  by (simp add: own_side_def)

lemma own_side_simps [simp]:
  "own_side (nextState p s) = own_side p" "own_side (p\<lparr>p_state := s\<rparr>) = own_side p"
  "own_side (p\<lparr>p_headerExists := b\<rparr>) = own_side p" "own_side (p\<lparr>p_Processor := ps\<rparr>) = own_side p"
  "own_side (p\<lparr>p_headerKey := k\<rparr>) = own_side p" "own_side (p\<lparr>p_headerValue := v\<rparr>) = own_side p"
  "own_side (p\<lparr>p_header := h\<rparr>) = own_side p"
  "own_side (p\<lparr>p_trailer := t\<rparr>) = own_side p" "own_side (p\<lparr>p_chunkSize := n\<rparr>) = own_side p"
  "own_side (finish_header E tok p) = own_side p"
  by (simp_all add: own_side_def nextState_def finish_header_def Let_def)

lemma some_phaseI: "in_phase st ps \<Longrightarrow> some_phase ps"
  by (auto simp: in_phase_def some_phase_def split: if_splits)

lemma proto_inv_some [intro]: "proto_inv p \<Longrightarrow> some_phase (p_Processor p)"
  by (auto simp: proto_inv_def intro: some_phaseI)

lemma proto_inv_handleMessage:
  assumes "own_side p" "p_state p \<noteq> stateClose" "inside (p_Processor p)"
  shows "proto_inv (handleMessage E p)"
proof -
  obtain ps up where c: "OnComplete E (p_Processor p) = (ps, up)" by (cases "OnComplete E (p_Processor p)") auto
  have "resting ps" using OnComplete_rests [OF assms(3)] c by simp
  then show ?thesis using assms(1,2) c
    by (simp add: handleMessage_def Let_def in_phase_def phase_defs nextState_def proto_inv_def own_side_def)
qed

lemma framing_protocol:
  "parseTransferEncoding p = (q, e) \<Longrightarrow> p_Processor q = p_Processor p \<and> own_side q = own_side p"
  "parseContentLength p = (q, e) \<Longrightarrow> p_Processor q = p_Processor p \<and> own_side q = own_side p"
  "parseTrailer p = (q, e) \<Longrightarrow> p_Processor q = p_Processor p \<and> own_side q = own_side p"
  by (auto simp: parseTransferEncoding_def parseContentLength_def parseTrailer_def Let_def own_side_def
      split: option.splits if_splits sum.splits)

lemma finish_headers_protocol:
  assumes "inside (p_Processor p)" "finish_headers E p = (p', e)"
  shows "inside (p_Processor p') \<and> own_side p' = own_side p"
proof -
  obtain p1 e1 where 1: "parseTransferEncoding p = (p1, e1)" by (cases "parseTransferEncoding p") auto
  obtain p2 e2 where 2: "parseContentLength p1 = (p2, e2)" by (cases "parseContentLength p1") auto
  define p3 where "p3 = p2\<lparr>p_Processor := OnContentLength E (p_contentLength p2) (p_Processor p2)\<rparr>"
  obtain p4 e4 where 4: "parseTrailer p3 = (p4, e4)" by (cases "parseTrailer p3") auto
  note fr = framing_protocol(1) [OF 1] framing_protocol(2) [OF 2] framing_protocol(3) [OF 4]
  have "p' \<in> {p1, p2, p4, nextState p4 stateHeaderOverLF}"
    using assms(2) 1 2 4 by (auto simp: finish_headers_def p3_def [symmetric] Let_def split: option.splits)
  moreover have "inside (p_Processor p3)" using fr(1,2) assms(1) OnContentLength_inside by (simp add: p3_def)
  moreover have "own_side p3 = own_side p2" by (simp add: p3_def)
  moreover have "p_Processor (nextState p4 stateHeaderOverLF) = p_Processor p4" by (simp add: nextState_def)
  ultimately show ?thesis using fr assms(1) by auto
qed

lemma step_request_protocol:
  assumes "proto_inv p" "p_state p \<in> request_line"
  shows "step_protocol (step_request E data i start p)"
proof -
  have c: "\<not> client" using assms by (auto simp: proto_inv_def)
  note laws = OnMethod_starts [OF c] OnURL_ok [OF c] OnURL_err [OF c]
  have proto: "inside ps \<Longrightarrow> OnProto E v ps = (ps', None) \<Longrightarrow> inside ps'"
    "inside ps \<Longrightarrow> OnProto E v ps = (ps', Some e) \<Longrightarrow> resting ps' \<or> inside ps'" for ps v ps' e
    using OnProto_ok OnProto_err c by auto
  show ?thesis using assms c unfolding protocol_defs
    by (cases "p_state p")
       (auto simp: step_request_def Let_def phase_defs nextState_def dest: laws proto intro: laws split: option.splits prod.splits)
qed

lemma step_status_protocol:
  assumes "proto_inv p" "p_state p \<in> status_line"
  shows "step_protocol (step_status E data i start p)"
proof -
  have c: "client" using assms by (auto simp: proto_inv_def split: if_splits)
  note laws = OnStatus_inside [OF c]
  have proto: "resting ps \<Longrightarrow> OnProto E v ps = (ps', None) \<Longrightarrow> inside ps'"
    "resting ps \<Longrightarrow> OnProto E v ps = (ps', Some e) \<Longrightarrow> resting ps' \<or> inside ps'" for ps v ps' e
    using OnProto_ok OnProto_err c by auto
  show ?thesis using assms c unfolding protocol_defs
    by (cases "p_state p")
       (auto simp: step_status_def Let_def phase_defs nextState_def dest: laws proto intro: laws split: option.splits prod.splits)
qed

lemma inside_state:
  "proto_inv p \<Longrightarrow> p_state p \<notin> request_line \<union> status_line \<Longrightarrow> inside (p_Processor p)"
  by (auto simp: proto_inv_def in_phase_def phase_defs split: if_splits)

lemma proto_inv_inside:
  "own_side p \<Longrightarrow> inside (p_Processor p) \<Longrightarrow> p_state p \<notin> insert stateClose (request_line \<union> status_line) \<Longrightarrow> proto_inv p"
  by (auto simp: proto_inv_def in_phase_def phase_defs)

lemma step_header_protocol:
  assumes "proto_inv p" "p_state p \<in> {stateHeaderValueLF, stateHeaderKeyBefore, stateHeaderKey, stateHeaderValueBefore, stateHeaderValue, stateHeaderOverLF}"
  shows "step_protocol (step_header E data i start p)"
proof -
  have p: "inside (p_Processor p)" "own_side p" using assms inside_state by (auto simp: proto_inv_def phase_defs)
  have fh: "proto_inv (finish_header E t p)" for t
    using p assms OnHeader_inside
    by (intro proto_inv_inside) (auto simp: finish_header_def Let_def nextState_def phase_defs)
  have fs: "(case finish_headers E p of (p1, Some e) \<Rightarrow> Fail p1 e | (p1, None) \<Rightarrow> Next p1 (Suc i) (Suc i)) = r \<Longrightarrow> step_protocol r" for r
    using finish_headers_protocol [OF p(1)] p(2) assms(2) p_state_finish_headers [of E p]
    by (auto simp: some_phase_def phase_defs intro!: proto_inv_inside split: prod.splits option.splits)
  have hm: "proto_inv (handleMessage E (p\<lparr>p_headerExists := False\<rparr>))" using p assms by (intro proto_inv_handleMessage) auto
  note st = assms(2)
  show ?thesis using p st fh fs hm assms(1)
    by (cases "p_state p") (auto simp: step_header_def Let_def nextState_def phase_defs some_phase_def intro!: proto_inv_inside)
qed

lemma step_body_protocol:
  assumes "proto_inv p" "p_state p \<in> {stateBodyContentLength, stateBodyChunkSizeBefore, stateBodyChunkSize,
    stateBodyChunkSizeLF, stateBodyChunkData, stateBodyChunkDataCR, stateBodyChunkDataLF}"
  shows "step_protocol (step_body E data i start p)"
proof -
  have p: "inside (p_Processor p)" "own_side p" using assms inside_state by (auto simp: proto_inv_def phase_defs)
  have body: "inside ps" if "OnBody E b (p_Processor p) = (ps, e)" for b ps e using OnBody_inside [OF p(1), of b] that by simp
  have hm: "proto_inv (handleMessage E (p\<lparr>p_Processor := ps\<rparr>))" if "inside ps" for ps
    using p assms that by (intro proto_inv_handleMessage) auto
  have rc: "p_Processor q = p_Processor p \<and> own_side q = own_side p \<and> p_state q = p_state p" if "read_chunk_size t p = Inr q" for t q
    using that by (auto simp: read_chunk_size_def split: if_splits sum.splits)
  have nx: "proto_inv (p\<lparr>p_Processor := ps, p_state := stateBodyChunkDataCR\<rparr>)" if "inside ps" for ps
    using p that by (intro proto_inv_inside) (auto simp: phase_defs)
  note st = assms(2)
  show ?thesis using p st hm assms(1)
    by (cases "p_state p")
       (auto simp: step_body_def Let_def nextState_def phase_defs some_phase_def dest!: rc dest: body intro: proto_inv_inside hm nx body
        split: option.splits prod.splits sum.splits)
qed

lemma step_trailer_protocol:
  assumes "proto_inv p" "p_state p \<in> {stateBodyTrailerHeaderValueLF, stateBodyTrailerHeaderKeyBefore, stateBodyTrailerHeaderKey,
    stateBodyTrailerHeaderValueBefore, stateBodyTrailerHeaderValue, stateTailCR, stateTailLF}"
  shows "step_protocol (step_trailer E data i start p)"
proof -
  have p: "inside (p_Processor p)" "own_side p" using assms inside_state by (auto simp: proto_inv_def phase_defs)
  have hm: "proto_inv (handleMessage E p)" using p assms by (intro proto_inv_handleMessage) auto
  note st = assms(2)
  show ?thesis using p st hm assms(1) OnTrailerHeader_inside
    by (cases "p_state p")
       (auto simp: step_trailer_def Let_def nextState_def phase_defs some_phase_def intro!: proto_inv_inside)
qed

lemma parse_step_protocol:
  assumes "proto_inv p"
  shows "step_protocol (parse_step E data i start p)"
proof -
  consider "p_state p \<in> request_line" | "p_state p \<in> status_line"
    | "p_state p \<in> {stateHeaderValueLF, stateHeaderKeyBefore, stateHeaderKey, stateHeaderValueBefore, stateHeaderValue, stateHeaderOverLF}"
    | "p_state p \<in> {stateBodyContentLength, stateBodyChunkSizeBefore, stateBodyChunkSize, stateBodyChunkSizeLF, stateBodyChunkData,
        stateBodyChunkDataCR, stateBodyChunkDataLF}"
    | "p_state p \<in> {stateBodyTrailerHeaderValueLF, stateBodyTrailerHeaderKeyBefore, stateBodyTrailerHeaderKey,
        stateBodyTrailerHeaderValueBefore, stateBodyTrailerHeaderValue, stateTailCR, stateTailLF}"
    using assms unfolding proto_inv_def phase_defs by (cases "p_state p") simp_all
  then show ?thesis
  proof cases
    case 1
    then show ?thesis using step_request_protocol [OF assms] by (auto simp: parse_step_def phase_defs)
  next
    case 2
    then show ?thesis using step_status_protocol [OF assms] by (auto simp: parse_step_def phase_defs)
  next
    case 3
    then show ?thesis using step_header_protocol [OF assms] by (auto simp: parse_step_def)
  next
    case 4
    then show ?thesis using step_body_protocol [OF assms] by (auto simp: parse_step_def)
  next
    case 5
    then show ?thesis using step_trailer_protocol [OF assms] by (auto simp: parse_step_def)
  qed
qed

definition loop_protocol :: "('ps, 'u) parser loop_result \<Rightarrow> bool" where
  "loop_protocol r = (case r of LExit p s \<Rightarrow> proto_inv p | LFail p e \<Rightarrow> some_phase (p_Processor p)
     | LUpgrade p s \<Rightarrow> p_ParserCloser p \<noteq> None \<and> resting (p_Processor p) | LStuck \<Rightarrow> True)"

lemma parse_loop_protocol: "proto_inv p \<Longrightarrow> loop_protocol (parse_loop E data i start p)"
proof (induction "length data - i" arbitrary: i start p rule: less_induct)
  case less
  show ?case
  proof (cases "i < length data")
    case False
    then show ?thesis using less by (subst parse_loop.simps) (simp add: loop_protocol_def)
  next
    case lt: True
    show ?thesis
    proof (cases "p_ParserCloser p")
      case (Some u)
      have "resting (Clean E (p_Processor p))" using Clean_rests proto_inv_some [OF less(2)] by (auto simp: some_phase_def)
      then show ?thesis using lt Some by (subst parse_loop.simps) (simp add: loop_protocol_def)
    next
      case None
      have st: "step_protocol (parse_step E data i start p)" by (rule parse_step_protocol [OF less(2)])
      show ?thesis
      proof (cases "parse_step E data i start p")
        case (Next q s' i')
        then show ?thesis using less(1) [of i' q s'] lt None st by (subst parse_loop.simps) (simp add: loop_protocol_def)
      qed (use lt None st in \<open>subst parse_loop.simps, simp add: loop_protocol_def\<close>)+
    qed
  qed
qed

text \<open>A call of \<open>Parse\<close>, and a sequence of them. After an error or an upgrade nothing more is parsed as HTTP.\<close>

definition parse_protocol :: "('ps, 'u) parser \<Rightarrow> bool" where
  "parse_protocol p \<longleftrightarrow> some_phase (p_Processor p) \<and> (p_ParserCloser p = None \<longrightarrow> proto_inv p)"

lemma proto_inv_cached [simp]: "proto_inv (p\<lparr>p_bytesCached := b\<rparr>) = proto_inv p"
  by (simp add: proto_inv_def own_side_def)

lemma proto_inv_deadline: "proto_inv p \<Longrightarrow> proto_inv (initReadDeadline E p)"
  by (simp add: initReadDeadline_def proto_inv_def own_side_def)

lemma proto_inv_cache_rest: "proto_inv p \<Longrightarrow> proto_inv (cache_rest data start p)"
  by (simp add: cache_rest_def)

lemma Parse_protocol:
  assumes "proto_inv p" "Parse E d p = Some (p', err)"
  shows "some_phase (p_Processor p') \<and> (err = None \<longrightarrow> p_ParserCloser p' = None \<longrightarrow> proto_inv p')"
proof -
  define q where "q = initReadDeadline E p"
  define data where "data = cached q @ d"
  define q1 where "q1 = (if length (cached q) > 0 then q\<lparr>p_bytesCached := Some data\<rparr> else q)"
  have q: "proto_inv q" "proto_inv q1" using proto_inv_deadline [OF assms(1)] by (auto simp: q_def q1_def)
  have ne: "p_state p \<noteq> stateClose" using assms(1) by (simp add: proto_inv_def)
  note lp = parse_loop_protocol [OF q(2), of data "length (cached q)" 0]
  have "Parse E d p = (if d = [] then Some (q, None)
      else if length (cached q) > 0 \<and> ReadLimit E > 0 \<and> int (length (cached q) + length d) > ReadLimit E then Some (q, Some ErrTooLong)
      else if p_ParserCloser q1 \<noteq> None then Some (upgrade_parse E data 0 q1)
      else case parse_loop E data (length (cached q)) 0 q1 of
        LExit p2 s \<Rightarrow> Some (cache_rest data s p2, None) | LFail p2 e \<Rightarrow> Some (p2, Some e)
      | LUpgrade p2 s \<Rightarrow> Some (upgrade_parse E data s p2) | LStuck \<Rightarrow> None)"
    unfolding Parse_def Let_def q1_def data_def cached_def q_def by (simp only: ne if_False)
  then consider "(p', err) = (q, None)" | "(p', err) = (q, Some ErrTooLong)" | "(p', err) = upgrade_parse E data 0 q1" "p_ParserCloser q1 \<noteq> None"
    | p2 s where "parse_loop E data (length (cached q)) 0 q1 = LExit p2 s" "(p', err) = (cache_rest data s p2, None)"
    | p2 e where "parse_loop E data (length (cached q)) 0 q1 = LFail p2 e" "(p', err) = (p2, Some e)"
    | p2 s where "parse_loop E data (length (cached q)) 0 q1 = LUpgrade p2 s" "(p', err) = upgrade_parse E data s p2"
    using assms(2) by (auto split: if_splits loop_result.splits)
  then show ?thesis
  proof cases
    case 3
    then show ?thesis using q(2) by (auto simp: upgrade_parse_def split: option.splits prod.splits)
  next
    case 4
    then show ?thesis using lp proto_inv_cache_rest by (auto simp: loop_protocol_def)
  next
    case 5
    then show ?thesis using lp by (auto simp: loop_protocol_def)
  next
    case 6
    then show ?thesis using lp by (auto simp: loop_protocol_def upgrade_parse_def some_phase_def split: option.splits prod.splits)
  qed (use q in auto)
qed

lemma Parse_upgraded:
  assumes "p_ParserCloser p \<noteq> None" "Parse E d p = Some (p', err)"
  shows "p_Processor p' = p_Processor p \<and> p_ParserCloser p' \<noteq> None"
  using assms by (auto simp: Parse_def Let_def initReadDeadline_def upgrade_parse_def split: if_splits option.splits prod.splits)

lemma Parse_keeps:
  assumes "parse_protocol p" "Parse E d p = Some (p', err)"
  shows "some_phase (p_Processor p')" "err = None \<Longrightarrow> parse_protocol p'"
  using assms Parse_protocol [of p d p' err] Parse_upgraded [of p d p' err]
  by (cases "p_ParserCloser p"; auto simp: parse_protocol_def)+

lemma Parse_all_keeps:
  "parse_protocol p \<Longrightarrow> Parse_all E ds p = Some (p', err) \<Longrightarrow> some_phase (p_Processor p') \<and> (err = None \<longrightarrow> parse_protocol p')"
proof (induction ds arbitrary: p)
  case Nil
  then show ?case by (simp add: Parse_all_def parse_protocol_def)
next
  case (Cons d ds)
  obtain q e where q: "Parse E d p = Some (q, e)" using Cons(3) by (auto simp: Parse_all_def split: option.splits)
  show ?case
  proof (cases e)
    case None
    then show ?thesis using Cons q Parse_keeps [OF Cons(2) q] by (simp add: Parse_all_def)
  next
    case (Some x)
    then show ?thesis using Cons(3) q Parse_keeps(1) [OF Cons(2) q] by (auto simp: Parse_all_def)
  qed
qed

lemma NewParser_protocol: "resting ps \<Longrightarrow> parse_protocol (NewParser ps client)"
  by (auto simp: NewParser_def parse_protocol_def proto_inv_def own_side_def in_phase_def some_phase_def phase_defs)

end

end
