(* ===== verification/HttpProcessor.thy ===== *)
theory HttpProcessor
  imports ProcessorProtocol HttpRoundtrip BodyReader
begin

text \<open>
  The processors of \<open>nbhttp/processor.go\<close>: \<open>ServerProcessor\<close> builds an \<open>http.Request\<close> from the parser's callbacks
  and hands it to the connection's job list with the handler; \<open>ClientProcessor\<close> builds an \<open>http.Response\<close> and
  hands it to the response handler; \<open>EmptyProcessor\<close> does nothing. Each is an instance of the parser's dictionary \<open>penv\<close>.

  \<open>url.ParseRequestURI\<close> is a parameter (None for an error), as is whether \<open>parser.Execute\<close> takes the n-th message (it
  refuses when the connection is closed). A dereference of a nil request or response is a step to a state with
  \<open>sp_panic\<close> (\<open>cp_panic\<close>) set, which is shown never to happen.
\<close>

record http_url =
  url_Scheme :: string
  url_Host :: string
  url_rest :: string

record http_request =
  Method :: string
  RequestURI :: string
  URL :: "http_url option"
  Proto :: string
  ProtoMajor :: int
  ProtoMinor :: int
  rHeader :: Header
  ContentLength :: int
  Body :: "body option"
  Trailer :: "Header option"
  RemoteAddr :: string
  Host :: string
  TransferEncoding :: "string list"
  rClose :: bool

definition emptyRequest :: http_request where
  "emptyRequest = \<lparr>Method = [], RequestURI = [], URL = None, Proto = [], ProtoMajor = 0, ProtoMinor = 0, rHeader = [], ContentLength = 0,
     Body = None, Trailer = None, RemoteAddr = [], Host = [], TransferEncoding = [], rClose = False\<rparr>"

record 'u senv =
  ParseRequestURI :: "string \<Rightarrow> http_url option"
  mcap :: "nat \<Rightarrow> nat"
  MaxHTTPBodySize :: int
  WriteTimeout :: int
  RetainHTTPBody :: bool
  ConnRemoteAddr :: string
  ExecuteAccepts :: "nat \<Rightarrow> bool"
  HandlerUpgrade :: "http_request \<Rightarrow> 'u option"
  UpgradedParse :: "bytes \<Rightarrow> 'u \<Rightarrow> 'u \<times> http_err option"
  sReadLimit :: int
  sKeepalive :: int

text \<open>\<open>sp_jobs\<close>: the requests whose handler was given to \<open>Execute\<close>, in order; \<open>sp_released\<close>: the requests given back to the
  pool without one.\<close>

record sproc =
  sp_request :: "http_request option"
  sp_completed :: nat
  sp_jobs :: "http_request list"
  sp_released :: "http_request list"
  sp_deadlines :: nat
  sp_panic :: bool

definition NewServerProcessor :: sproc where
  "NewServerProcessor = \<lparr>sp_request = None, sp_completed = 0, sp_jobs = [], sp_released = [], sp_deadlines = 0, sp_panic = False\<rparr>"

definition releaseRequest :: "bool \<Rightarrow> http_request \<Rightarrow> http_request" where
  "releaseRequest retain r = (if retain then r else r\<lparr>Body := map_option br_Close (Body r)\<rparr>)"

definition s_OnMethod :: "string \<Rightarrow> sproc \<Rightarrow> sproc" where
  "s_OnMethod m p =
     (case sp_request p of
        None \<Rightarrow> p\<lparr>sp_request := Some (emptyRequest\<lparr>Method := m, rHeader := []\<rparr>)\<rparr>
      | Some r \<Rightarrow> p\<lparr>sp_request := Some (r\<lparr>Method := m\<rparr>)\<rparr>)"

text \<open>A callback on the request of the processor.\<close>

definition on_request :: "(http_request \<Rightarrow> http_request \<times> http_err option) \<Rightarrow> sproc \<Rightarrow> sproc \<times> http_err option" where
  "on_request f p =
     (case sp_request p of
        None \<Rightarrow> (p\<lparr>sp_panic := True\<rparr>, None)
      | Some r \<Rightarrow> (case f r of (r', e) \<Rightarrow> (p\<lparr>sp_request := Some r'\<rparr>, e)))"

definition req_OnURL :: "'u senv \<Rightarrow> string \<Rightarrow> http_request \<Rightarrow> http_request \<times> http_err option" where
  "req_OnURL S rawurl r =
     (let r = r\<lparr>RequestURI := rawurl\<rparr>;
          justAuthority = (Method r = ''CONNECT'' \<and> take 1 rawurl \<noteq> ''/'');
          rawurl = (if justAuthority then ''http://'' @ rawurl else rawurl)
      in case ParseRequestURI S rawurl of
           None \<Rightarrow> (r, Some (ErrURL rawurl))
         | Some u \<Rightarrow> (r\<lparr>URL := Some (if justAuthority then u\<lparr>url_Scheme := []\<rparr> else u)\<rparr>, None))"

definition req_OnProto :: "string \<Rightarrow> http_request \<Rightarrow> http_request \<times> http_err option" where
  "req_OnProto proto r =
     (case ParseHTTPVersion proto of
        None \<Rightarrow> (r, Some (ErrMalformedVersion proto))
      | Some (major, minor) \<Rightarrow> (r\<lparr>Proto := proto, ProtoMajor := major, ProtoMinor := minor\<rparr>, None))"

text \<open>\<open>ParseHTTPVersion\<close> fails before the request is touched.\<close>

definition s_OnProto :: "string \<Rightarrow> sproc \<Rightarrow> sproc \<times> http_err option" where
  "s_OnProto proto p =
     (if ParseHTTPVersion proto = None then (p, Some (ErrMalformedVersion proto)) else on_request (req_OnProto proto) p)"

definition append_body :: "(nat \<Rightarrow> nat) \<Rightarrow> int \<Rightarrow> bytes \<Rightarrow> body option \<Rightarrow> body option \<times> http_err option" where
  "append_body cap M data b =
     (case br_append cap M data (case b of None \<Rightarrow> NewBodyReader 0 | Some br \<Rightarrow> br) of
        (br', None) \<Rightarrow> (Some br', None)
      | (br', Some BodyTooLong) \<Rightarrow> (Some br', Some ErrTooLong))"

definition req_OnBody :: "'u senv \<Rightarrow> bytes \<Rightarrow> http_request \<Rightarrow> http_request \<times> http_err option" where
  "req_OnBody S data r = (case append_body (mcap S) (MaxHTTPBodySize S) data (Body r) of (b, e) \<Rightarrow> (r\<lparr>Body := b\<rparr>, e))"

definition req_OnTrailerHeader :: "string \<Rightarrow> string \<Rightarrow> http_request \<Rightarrow> http_request" where
  "req_OnTrailerHeader k v r =
     r\<lparr>Trailer := Some (Header_Add (case Trailer r of None \<Rightarrow> [] | Some h \<Rightarrow> h) (CanonicalHeaderKey k) v)\<rparr>"

text \<open>The loop \<open>CONNECTION_VALUES\<close>: whether \<open>close\<close> was found, and \<open>keep-alive\<close> before it.\<close>

fun connection_values :: "string list \<Rightarrow> bool \<Rightarrow> bool \<times> bool" where
  "connection_values [] keepAlive = (False, keepAlive)"
| "connection_values (v # vs) keepAlive =
     (let t = ToLower (TrimSpaces v) in
      if t = ''close'' then (True, keepAlive)
      else if t = ''keep-alive'' then connection_values vs True
      else connection_values vs keepAlive)"

definition request_close :: "http_request \<Rightarrow> bool" where
  "request_close r =
     (if ProtoMajor r < 1 then True
      else (let (hasClose, keepAlive) = connection_values (Header_values (rHeader r) ''Connection'') False
            in if ProtoMajor r = 1 \<and> ProtoMinor r = 0 then hasClose \<or> \<not> keepAlive else hasClose))"

definition complete_request :: "'u senv \<Rightarrow> http_url \<Rightarrow> http_request \<Rightarrow> http_request" where
  "complete_request S u r0 =
     (let r = r0\<lparr>RemoteAddr := ConnRemoteAddr S\<rparr>;
          r = (if url_Host u = [] then r\<lparr>URL := Some (u\<lparr>url_Host := Header_Get (rHeader r) ''Host''\<rparr>), Host := Header_Get (rHeader r) ''Host''\<rparr> else r);
          r = r\<lparr>TransferEncoding := Header_values (rHeader r) transferEncodingHeader\<rparr>;
          r = r\<lparr>rClose := request_close r\<rparr>
      in r\<lparr>Body := Some (case Body r of None \<Rightarrow> NewBodyReader 0 | Some b \<Rightarrow> b)\<rparr>)"

definition s_OnComplete :: "'u senv \<Rightarrow> sproc \<Rightarrow> sproc \<times> 'u option" where
  "s_OnComplete S p0 =
     (let p = p0\<lparr>sp_request := None\<rparr> in
      case sp_request p0 of
        None \<Rightarrow> (p, None)
      | Some r0 \<Rightarrow>
          (case URL r0 of
             None \<Rightarrow> (p\<lparr>sp_panic := True\<rparr>, None)
           | Some u \<Rightarrow>
               (let p = (if WriteTimeout S > 0 then p\<lparr>sp_deadlines := Suc (sp_deadlines p)\<rparr> else p);
                    r = complete_request S u r0;
                    accepted = ExecuteAccepts S (sp_completed p);
                    p = p\<lparr>sp_completed := Suc (sp_completed p)\<rparr>
                in if accepted then (p\<lparr>sp_jobs := sp_jobs p @ [r]\<rparr>, HandlerUpgrade S r)
                   else (p\<lparr>sp_released := sp_released p @ [releaseRequest (RetainHTTPBody S) r]\<rparr>, None))))"

definition s_Clean :: "'u senv \<Rightarrow> sproc \<Rightarrow> sproc" where
  "s_Clean S p =
     (case sp_request p of
        None \<Rightarrow> p
      | Some r \<Rightarrow> p\<lparr>sp_released := sp_released p @ [releaseRequest (RetainHTTPBody S) r], sp_request := None\<rparr>)"

definition pure :: "('a \<Rightarrow> 'a) \<Rightarrow> 'a \<Rightarrow> 'a \<times> http_err option" where
  "pure f x = (f x, None)"

definition server_env :: "'u senv \<Rightarrow> (sproc, 'u) penv" where
  "server_env S = \<lparr>
     OnMethod = s_OnMethod,
     OnURL = (\<lambda>u. on_request (req_OnURL S u)),
     OnProto = s_OnProto,
     OnStatus = (\<lambda>code status p. p),
     OnHeader = (\<lambda>k v p. fst (on_request (pure (\<lambda>r. r\<lparr>rHeader := Header_Add (rHeader r) k v\<rparr>)) p)),
     OnContentLength = (\<lambda>n p. fst (on_request (pure (\<lambda>r. r\<lparr>ContentLength := n\<rparr>)) p)),
     OnBody = (\<lambda>b. on_request (req_OnBody S b)),
     OnTrailerHeader = (\<lambda>k v p. fst (on_request (pure (req_OnTrailerHeader k v)) p)),
     OnComplete = s_OnComplete S,
     ProcClose = (\<lambda>p e. s_Clean S p),
     Clean = s_Clean S,
     CloserParse = UpgradedParse S,
     ReadLimit = sReadLimit S,
     KeepaliveDeadline = sKeepalive S\<rparr>"

text \<open>The client: \<open>http.Response\<close> and its processor. The handler runs at once for a switch of protocols, else as a job.\<close>

record http_response =
  cProto :: string
  cProtoMajor :: int
  cProtoMinor :: int
  cStatusCode :: int
  cStatus :: string
  cHeader :: Header
  cContentLength :: int
  cBody :: "body option"
  cTrailer :: "Header option"

definition emptyClientResponse :: http_response where
  "emptyClientResponse = \<lparr>cProto = [], cProtoMajor = 0, cProtoMinor = 0, cStatusCode = 0, cStatus = [], cHeader = [], cContentLength = 0,
     cBody = None, cTrailer = None\<rparr>"

record cproc =
  cp_response :: "http_response option"
  cp_completed :: nat
  cp_handled :: "(http_response \<times> bool) list"
  cp_released :: "http_response list"
  cp_closed :: "http_err option list"
  cp_panic :: bool

definition NewClientProcessor :: cproc where
  "NewClientProcessor = \<lparr>cp_response = None, cp_completed = 0, cp_handled = [], cp_released = [], cp_closed = [], cp_panic = False\<rparr>"

definition on_response :: "(http_response \<Rightarrow> http_response \<times> http_err option) \<Rightarrow> cproc \<Rightarrow> cproc \<times> http_err option" where
  "on_response f p =
     (case cp_response p of
        None \<Rightarrow> (p\<lparr>cp_panic := True\<rparr>, None)
      | Some r \<Rightarrow> (case f r of (r', e) \<Rightarrow> (p\<lparr>cp_response := Some r'\<rparr>, e)))"

definition c_OnProto :: "string \<Rightarrow> cproc \<Rightarrow> cproc \<times> http_err option" where
  "c_OnProto proto p =
     (case ParseHTTPVersion proto of
        None \<Rightarrow> (p, Some (ErrMalformedVersion proto))
      | Some (major, minor) \<Rightarrow>
          (let r = (case cp_response p of
                      None \<Rightarrow> emptyClientResponse\<lparr>cProto := proto, cHeader := []\<rparr>
                    | Some r \<Rightarrow> r\<lparr>cProto := proto\<rparr>)
           in (p\<lparr>cp_response := Some (r\<lparr>cProtoMajor := major, cProtoMinor := minor\<rparr>)\<rparr>, None)))"

definition res_OnBody :: "'u senv \<Rightarrow> bytes \<Rightarrow> http_response \<Rightarrow> http_response \<times> http_err option" where
  "res_OnBody S data r = (case append_body (mcap S) (MaxHTTPBodySize S) data (cBody r) of (b, e) \<Rightarrow> (r\<lparr>cBody := b\<rparr>, e))"

definition releaseClientResponse :: "http_response \<Rightarrow> http_response" where
  "releaseClientResponse r = r\<lparr>cBody := map_option br_Close (cBody r)\<rparr>"

definition c_OnComplete :: "'u senv \<Rightarrow> (http_response \<Rightarrow> 'u option) \<Rightarrow> cproc \<Rightarrow> cproc \<times> 'u option" where
  "c_OnComplete S handler p0 =
     (let p = p0\<lparr>cp_response := None\<rparr> in
      case cp_response p0 of
        None \<Rightarrow> (p\<lparr>cp_panic := True\<rparr>, None)
      | Some r \<Rightarrow>
          (let accepted = ExecuteAccepts S (cp_completed p);
               handled = p\<lparr>cp_handled := cp_handled p @ [(r, cStatusCode r = 101)], cp_released := cp_released p @ [releaseClientResponse r]\<rparr>
           in if cStatusCode r = 101 then (handled, handler r)
              else if accepted then (handled\<lparr>cp_completed := Suc (cp_completed p)\<rparr>, None)
              else (p\<lparr>cp_released := cp_released p @ [releaseClientResponse r], cp_completed := Suc (cp_completed p)\<rparr>, None)))"

definition c_Clean :: "cproc \<Rightarrow> cproc" where
  "c_Clean p =
     (case cp_response p of
        None \<Rightarrow> p
      | Some r \<Rightarrow> p\<lparr>cp_released := cp_released p @ [releaseClientResponse r], cp_response := None\<rparr>)"

definition c_Close :: "http_err option \<Rightarrow> cproc \<Rightarrow> cproc" where
  "c_Close e p = c_Clean (p\<lparr>cp_closed := cp_closed p @ [e]\<rparr>)"

definition client_env :: "'u senv \<Rightarrow> (http_response \<Rightarrow> 'u option) \<Rightarrow> (cproc, 'u) penv" where
  "client_env S handler = \<lparr>
     OnMethod = (\<lambda>m p. p),
     OnURL = (\<lambda>u p. (p, None)),
     OnProto = c_OnProto,
     OnStatus = (\<lambda>code status p. fst (on_response (pure (\<lambda>r. r\<lparr>cStatusCode := code, cStatus := status\<rparr>)) p)),
     OnHeader = (\<lambda>k v p. fst (on_response (pure (\<lambda>r. r\<lparr>cHeader := Header_Add (cHeader r) (CanonicalHeaderKey k) v\<rparr>)) p)),
     OnContentLength = (\<lambda>n p. fst (on_response (pure (\<lambda>r. r\<lparr>cContentLength := n\<rparr>)) p)),
     OnBody = (\<lambda>b. on_response (res_OnBody S b)),
     OnTrailerHeader = (\<lambda>k v p. fst (on_response
       (pure (\<lambda>r. r\<lparr>cTrailer := Some (Header_Add (case cTrailer r of None \<Rightarrow> [] | Some h \<Rightarrow> h) (CanonicalHeaderKey k) v)\<rparr>)) p)),
     OnComplete = c_OnComplete S handler,
     ProcClose = (\<lambda>p e. c_Close e p),
     Clean = c_Clean,
     CloserParse = UpgradedParse S,
     ReadLimit = sReadLimit S,
     KeepaliveDeadline = sKeepalive S\<rparr>"

text \<open>Both keep the protocol of \<open>ProcessorProtocol\<close>.\<close>

definition s_resting :: "sproc \<Rightarrow> bool" where
  "s_resting p \<longleftrightarrow> \<not> sp_panic p \<and> sp_request p = None"

definition s_started :: "sproc \<Rightarrow> bool" where
  "s_started p \<longleftrightarrow> \<not> sp_panic p \<and> sp_request p \<noteq> None"

definition s_inside :: "sproc \<Rightarrow> bool" where
  "s_inside p \<longleftrightarrow> \<not> sp_panic p \<and> (\<exists>r u. sp_request p = Some r \<and> URL r = Some u)"

definition c_resting :: "cproc \<Rightarrow> bool" where
  "c_resting p \<longleftrightarrow> \<not> cp_panic p \<and> cp_response p = None"

definition c_inside :: "cproc \<Rightarrow> bool" where
  "c_inside p \<longleftrightarrow> \<not> cp_panic p \<and> cp_response p \<noteq> None"

lemmas phase_simps = s_resting_def s_started_def s_inside_def on_request_def pure_def server_env_def
lemmas client_phase_simps = c_resting_def c_inside_def on_response_def pure_def client_env_def

interpretation server: processor_protocol "server_env S" False s_resting s_started s_inside for S
proof unfold_locales
  show "s_started (OnMethod (server_env S) m ps)" if "s_resting ps" for ps m
    using that by (simp add: phase_simps s_OnMethod_def)
  show "s_inside ps'" if "s_started ps" "OnURL (server_env S) u ps = (ps', None)" for ps u ps'
    using that by (auto simp: phase_simps req_OnURL_def Let_def split: option.splits)
  show "s_started ps'" if "s_started ps" "OnURL (server_env S) u ps = (ps', Some e)" for ps u ps' e
    using that by (auto simp: phase_simps req_OnURL_def Let_def split: option.splits)
  show "s_inside ps'" if "if False then s_resting ps else s_inside ps" "OnProto (server_env S) v ps = (ps', None)" for ps v ps'
    using that by (auto simp: phase_simps s_OnProto_def req_OnProto_def split: option.splits if_splits)
  show "s_resting ps' \<or> s_inside ps'" if "if False then s_resting ps else s_inside ps" "OnProto (server_env S) v ps = (ps', Some e)" for ps v ps' e
    using that by (auto simp: phase_simps s_OnProto_def req_OnProto_def split: option.splits if_splits)
  show "s_inside (fst (OnBody (server_env S) b ps))" if "s_inside ps" for ps b
    using that by (auto simp: phase_simps req_OnBody_def split: prod.splits)
  show "s_resting (fst (OnComplete (server_env S) ps))" if "s_inside ps" for ps
    using that by (auto simp: phase_simps s_OnComplete_def Let_def split: if_splits)
  show "s_resting (Clean (server_env S) ps)" if "s_resting ps \<or> s_started ps \<or> s_inside ps" for ps
    using that by (auto simp: phase_simps s_Clean_def)
qed (auto simp: phase_simps req_OnTrailerHeader_def)

interpretation client: processor_protocol "client_env S h" True c_resting c_inside c_inside for S h
proof unfold_locales
  show "c_inside ps'" if "if True then c_resting ps else c_inside ps" "OnProto (client_env S h) v ps = (ps', None)" for ps v ps'
    using that by (auto simp: client_phase_simps c_OnProto_def Let_def split: option.splits)
  show "c_resting ps' \<or> c_inside ps'" if "if True then c_resting ps else c_inside ps" "OnProto (client_env S h) v ps = (ps', Some e)" for ps v ps' e
    using that by (auto simp: client_phase_simps c_OnProto_def Let_def split: option.splits)
  show "c_inside (fst (OnBody (client_env S h) b ps))" if "c_inside ps" for ps b
    using that by (auto simp: client_phase_simps res_OnBody_def split: prod.splits)
  show "c_resting (fst (OnComplete (client_env S h) ps))" if "c_inside ps" for ps
    using that by (auto simp: client_phase_simps c_OnComplete_def Let_def split: if_splits)
  show "c_resting (Clean (client_env S h) ps)" if "c_resting ps \<or> c_inside ps \<or> c_inside ps" for ps
    using that by (auto simp: client_phase_simps c_Clean_def split: option.splits)
qed (auto simp: client_phase_simps)

end
