(* ===== verification/HttpServer.thy ===== *)
theory HttpServer
  imports HttpProcessor
begin

text \<open>
  Parser, processor and body together: what the handler of a server sees of the requests on the wire.
  \<open>request_matches\<close> relates a request of the grammar of \<open>HttpRoundtrip\<close> to the \<open>http.Request\<close> the handler is given.
\<close>

fun body_bytes :: "msg_body \<Rightarrow> bytes" where
  "body_bytes NoBody = []"
| "body_bytes (Fixed b) = b"
| "body_bytes (Chunked cs) = concat cs"

definition sent_headers :: "request \<Rightarrow> (string \<times> string) list" where
  "sent_headers r = rq_headers r @ framing_headers (rq_body r)"

definition sent_values :: "request \<Rightarrow> string \<Rightarrow> string list" where
  "sent_values r k = map snd (filter (\<lambda>h. CanonicalHeaderKey (fst h) = k) (sent_headers r))"

definition readable :: "body option \<Rightarrow> bool" where
  "readable b = (case b of None \<Rightarrow> True | Some br \<Rightarrow> body_ok br \<and> \<not> br_closed br)"

definition unread_opt :: "body option \<Rightarrow> bytes" where
  "unread_opt b = (case b of None \<Rightarrow> [] | Some br \<Rightarrow> unread br)"

definition request_matches :: "request \<Rightarrow> http_request \<Rightarrow> bool" where
  "request_matches r j \<longleftrightarrow>
     Method j = rq_method r \<and> RequestURI j = rq_path r \<and> Proto j = rq_proto r \<and>
     Some (ProtoMajor j, ProtoMinor j) = ParseHTTPVersion (rq_proto r) \<and>
     (\<forall>k. Header_values (rHeader j) k = sent_values r k) \<and>
     ContentLength j = body_length (rq_body r) \<and>
     TransferEncoding j = sent_values r transferEncodingHeader \<and>
     (\<exists>b. Body j = Some b \<and> body_ok b \<and> \<not> br_closed b \<and> unread b = body_bytes (rq_body r)) \<and>
     (ProtoMajor j = 1 \<and> ProtoMinor j = 1 \<longrightarrow>
        rClose j = (\<exists>v \<in> set (sent_values r ''Connection''). ToLower (TrimSpaces v) = ''close''))"

text \<open>What the server needs of a request to take it.\<close>

definition acceptable :: "'u senv \<Rightarrow> request \<Rightarrow> bool" where
  "acceptable S r \<longleftrightarrow>
     snd (req_OnURL S (rq_path r) (emptyRequest\<lparr>Method := rq_method r\<rparr>)) = None \<and>
     ParseHTTPVersion (rq_proto r) \<noteq> None \<and>
     (MaxHTTPBodySize S > 0 \<longrightarrow> int (length (body_bytes (rq_body r))) \<le> MaxHTTPBodySize S)"

lemma on_request_Some: "on_request f (p\<lparr>sp_request := Some q\<rparr>) = (p\<lparr>sp_request := Some (fst (f q))\<rparr>, snd (f q))"
  by (simp add: on_request_def case_prod_beta)

lemma append_body_ok:
  assumes "readable b" "M > 0 \<longrightarrow> int (length (unread_opt b) + length d) \<le> M"
  shows "\<exists>b'. append_body cap M d b = (b', None) \<and> readable b' \<and> unread_opt b' = unread_opt b @ d"
proof -
  let ?br = "case b of None \<Rightarrow> NewBodyReader 0 | Some br \<Rightarrow> br"
  have ok: "body_ok ?br" "unread ?br = unread_opt b" "\<not> br_closed ?br"
    using assms(1) NewBodyReader_ok [of 0] by (auto simp: readable_def unread_opt_def NewBodyReader_def split: option.splits)
  obtain br' e where a: "br_append cap M d ?br = (br', e)" by (cases "br_append cap M d ?br") auto
  from br_append_spec [OF ok(1) a] show ?thesis using assms(2) ok(2,3) a
    by (auto simp: append_body_def readable_def unread_opt_def split: if_splits)
qed

text \<open>A processor that appends body data to the message it builds, \<open>put b\<close> the processor with that message's body.\<close>

lemma deliver_chunks_append:
  assumes ob: "\<And>c b. OnBody E c (put b) = (case append_body cap M c b of (b', e) \<Rightarrow> (put b', e))"
    and "readable b" "M > 0 \<longrightarrow> int (length (unread_opt b) + length (concat cs)) \<le> M"
  shows "\<exists>b'. deliver_chunks E cs (put b) = Some (put b') \<and> readable b' \<and> unread_opt b' = unread_opt b @ concat cs"
  using assms(2,3)
proof (induction cs arbitrary: b)
  case (Cons c cs)
  obtain b' where b: "append_body cap M c b = (b', None)" "readable b'" "unread_opt b' = unread_opt b @ c"
    using append_body_ok [of b M c cap] Cons(2,3) by auto
  then show ?case using Cons(1) [of b'] Cons(3) ob [of c b] by (simp add: add.assoc)
qed auto

lemma deliver_body_append:
  assumes ob: "\<And>c n b. OnBody E c (put n b) = (case append_body cap M c b of (b', e) \<Rightarrow> (put n b', e))"
    and cl: "\<And>n. OnContentLength E n ps = put n None" and M: "M > 0 \<longrightarrow> int (length (body_bytes m)) \<le> M"
  shows "\<exists>b. deliver_body E m ps = Some (put (body_length m) b) \<and> readable b \<and> unread_opt b = body_bytes m"
proof -
  have ch: "concat cs = body_bytes m \<Longrightarrow> \<exists>b. deliver_chunks E cs (put n None) = Some (put n b) \<and> readable b \<and> unread_opt b = body_bytes m" for cs n
    using deliver_chunks_append [where E = E and put = "put n" and cap = cap and M = M and b = None and cs = cs, OF ob] M
    by (auto simp: readable_def unread_opt_def)
  show ?thesis
  proof (cases m)
    case NoBody
    then show ?thesis using cl by (intro exI [of _ None]) (simp add: unread_opt_def readable_def)
  next
    case (Fixed b)
    then show ?thesis using cl ch [of "if b = [] then [] else [b]" "int (length b)"] by simp
  next
    case (Chunked cs)
    then show ?thesis using cl ch [of cs "-1"] by simp
  qed
qed

definition add_header :: "string \<times> string \<Rightarrow> Header \<Rightarrow> Header" where
  "add_header h hs = Header_Add hs (CanonicalHeaderKey (fst h)) (snd h)"

lemma fold_headers_server:
  "fold (deliver_header (server_env S)) hs (p\<lparr>sp_request := Some q\<rparr>) = p\<lparr>sp_request := Some (q\<lparr>rHeader := fold add_header hs (rHeader q)\<rparr>)\<rparr>"
  by (induction hs arbitrary: q) (simp_all add: deliver_header_def server_env_def on_request_Some pure_def add_header_def)

lemma Header_values_fold:
  "Header_values (fold add_header hs h) k = Header_values h k @ map snd (filter (\<lambda>x. CanonicalHeaderKey (fst x) = k) hs)"
  by (induction hs arbitrary: h) (auto simp: add_header_def)

lemma deliver_body_server:
  assumes "Body q = None" "MaxHTTPBodySize S > 0 \<longrightarrow> int (length (body_bytes m)) \<le> MaxHTTPBodySize S"
  shows "\<exists>b. deliver_body (server_env S) m (p\<lparr>sp_request := Some q\<rparr>) =
      Some (p\<lparr>sp_request := Some (q\<lparr>ContentLength := body_length m, Body := b\<rparr>)\<rparr>) \<and> readable b \<and> unread_opt b = body_bytes m"
proof (rule deliver_body_append [where put = "\<lambda>n b. p\<lparr>sp_request := Some (q\<lparr>ContentLength := n, Body := b\<rparr>)\<rparr>" and cap = "mcap S"])
  show "OnContentLength (server_env S) n (p\<lparr>sp_request := Some q\<rparr>) = p\<lparr>sp_request := Some (q\<lparr>ContentLength := n, Body := None\<rparr>)\<rparr>" for n
    using assms(1) by (simp add: server_env_def on_request_Some pure_def)
qed (use assms(2) in \<open>simp_all add: server_env_def on_request_Some req_OnBody_def split: prod.split\<close>)

lemma connection_values_close: "fst (connection_values vs k) = (\<exists>v \<in> set vs. ToLower (TrimSpaces v) = ''close'')"
  by (induction vs k rule: connection_values.induct) (auto simp: Let_def)

lemma deliver_server:
  assumes "acceptable S r" "s_resting p" "\<forall>n. ExecuteAccepts S n"
  shows "\<exists>p' j. deliver (server_env S) r p = Some p' \<and> s_resting p' \<and> sp_jobs p' = sp_jobs p @ [j] \<and> sp_released p' = sp_released p \<and>
    request_matches r j"
proof -
  define q0 where "q0 = emptyRequest\<lparr>Method := rq_method r\<rparr>"
  obtain u where url: "req_OnURL S (rq_path r) q0 = (q0\<lparr>RequestURI := rq_path r, URL := Some u\<rparr>, None)"
    using assms(1) by (auto simp: acceptable_def q0_def req_OnURL_def Let_def split: option.splits)
  obtain major minor where v: "ParseHTTPVersion (rq_proto r) = Some (major, minor)" using assms(1) by (auto simp: acceptable_def)
  define q1 where "q1 = q0\<lparr>RequestURI := rq_path r, URL := Some u, Proto := rq_proto r, ProtoMajor := major, ProtoMinor := minor\<rparr>"
  define q2 where "q2 = q1\<lparr>rHeader := fold add_header (sent_headers r) (rHeader q1)\<rparr>"
  have m: "OnMethod (server_env S) (rq_method r) p = p\<lparr>sp_request := Some q0\<rparr>"
    using assms(2) by (simp add: server_env_def s_OnMethod_def s_resting_def q0_def emptyRequest_def)
  have ou: "OnURL (server_env S) (rq_path r) (p\<lparr>sp_request := Some q0\<rparr>) = (p\<lparr>sp_request := Some (q0\<lparr>RequestURI := rq_path r, URL := Some u\<rparr>)\<rparr>, None)"
    by (simp add: server_env_def on_request_Some url)
  have op: "OnProto (server_env S) (rq_proto r) (p\<lparr>sp_request := Some (q0\<lparr>RequestURI := rq_path r, URL := Some u\<rparr>)\<rparr>) = (p\<lparr>sp_request := Some q1\<rparr>, None)"
    by (simp add: server_env_def s_OnProto_def on_request_Some req_OnProto_def v q1_def)
  have bn: "Body q2 = None" "readable (Body q2)" by (simp_all add: q2_def q1_def q0_def emptyRequest_def readable_def)
  obtain b where b: "deliver_body (server_env S) (rq_body r) (p\<lparr>sp_request := Some q2\<rparr>) =
      Some (p\<lparr>sp_request := Some (q2\<lparr>ContentLength := body_length (rq_body r), Body := b\<rparr>)\<rparr>)" "readable b" "unread_opt b = body_bytes (rq_body r)"
    using deliver_body_server [OF bn(1), of S "rq_body r" p] assms(1) by (auto simp: acceptable_def)
  define q3 where "q3 = q2\<lparr>ContentLength := body_length (rq_body r), Body := b\<rparr>"
  have d: "deliver (server_env S) r p = Some (fst (s_OnComplete S (p\<lparr>sp_request := Some q3\<rparr>)))"
    using m ou op b(1) fold_headers_server [where S = S and hs = "sent_headers r" and p = p and q = q1]
    by (simp add: deliver_def sent_headers_def q2_def q3_def) (simp add: server_env_def)
  have hv: "Header_values (rHeader q3) k = sent_values r k" for k
    by (simp add: q3_def q2_def q1_def q0_def emptyRequest_def Header_values_fold sent_values_def)
  have q3: "URL q3 = Some u" "Method q3 = rq_method r" "RequestURI q3 = rq_path r" "Proto q3 = rq_proto r" "ProtoMajor q3 = major" "ProtoMinor q3 = minor"
      "ContentLength q3 = body_length (rq_body r)" "Body q3 = b"
    by (simp_all add: q3_def q2_def q1_def q0_def)
  have "request_matches r (complete_request S u q3)"
    using q3 hv v b(2,3) NewBodyReader_ok [of 0] connection_values_close [of "sent_values r ''Connection''" False]
    by (auto simp: request_matches_def complete_request_def Let_def request_close_def case_prod_beta readable_def unread_opt_def
        NewBodyReader_def split: option.splits)
  then show ?thesis using d assms(2,3) q3(1) by (auto simp: s_OnComplete_def Let_def s_resting_def)
qed

lemma deliver_all_server:
  assumes "list_all (acceptable S) rs" "s_resting p" "\<forall>n. ExecuteAccepts S n"
  shows "\<exists>p' js. deliver_all (server_env S) rs p = Some p' \<and> s_resting p' \<and> sp_jobs p' = sp_jobs p @ js \<and> list_all2 request_matches rs js"
  using assms(1,2)
proof (induction rs arbitrary: p)
  case (Cons r rs)
  obtain p1 j where 1: "deliver (server_env S) r p = Some p1" "s_resting p1" "sp_jobs p1 = sp_jobs p @ [j]" "request_matches r j"
    using deliver_server [of S r p] Cons assms(3) by auto
  obtain p2 js where "deliver_all (server_env S) rs p1 = Some p2" "s_resting p2" "sp_jobs p2 = sp_jobs p1 @ js" "list_all2 request_matches rs js"
    using Cons(1) [of p1] Cons(2) 1(2) by auto
  then show ?case using 1 by (intro exI [of _ p2] exI [of _ "j # js"]) simp
qed simp

end
