(* ===== verification/ServerProps.thy ===== *)
theory ServerProps
  imports HttpServer HttpProps
begin

text \<open>Properties of the HTTP processors together with the parser and the body.\<close>

lemma Parse_all_returns: "pinv p \<Longrightarrow> \<exists>q e. Parse_all E ds p = Some (q, e)"
proof (induction ds arbitrary: p)
  case (Cons d ds)
  obtain q e where q: "Parse E d p = Some (q, e)" "e = None \<longrightarrow> pinv q" using Parse_result [OF Cons(2), of E d] by blast
  show ?case
  proof (cases e)
    case None
    then show ?thesis using Cons(1) [of q] q by (simp add: Parse_all_def)
  next
    case (Some x)
    then show ?thesis using q by (simp add: Parse_all_def)
  qed
qed (simp add: Parse_all_def)

definition env_demo :: "unit senv" where
  "env_demo = \<lparr>ParseRequestURI = (\<lambda>u. Some \<lparr>url_Scheme = [], url_Host = [], url_rest = u\<rparr>), mcap = (\<lambda>n. n), MaxHTTPBodySize = 10, WriteTimeout = 1,
     RetainHTTPBody = False, ConnRemoteAddr = ''peer'', ExecuteAccepts = (\<lambda>n. True), HandlerUpgrade = (\<lambda>r. None), UpgradedParse = (\<lambda>b u. (u, None)),
     sReadLimit = 0, sKeepalive = 0\<rparr>"

definition get_demo :: request where
  "get_demo = \<lparr>rq_method = ''GET'', rq_path = ''/a'', rq_proto = ''HTTP/1.1'', rq_headers = [(''host'', ''x''), (''Connection'', ''Close'')], rq_body = NoBody\<rparr>"

definition post_demo :: request where
  "post_demo = \<lparr>rq_method = ''POST'', rq_path = ''/b'', rq_proto = ''HTTP/1.1'', rq_headers = [], rq_body = Chunked [''hello'', ''!'']\<rparr>"

text \<open>
  C3: What a server's handlers see. For pipelined requests the server can take (the URL parses, the version is known and
  the body is within \<open>MaxHTTPBodySize\<close>), cut into reads in any way, the handler jobs handed to the connection are one
  per request, in order, and each request carries what was sent: method, target, version, for every canonical header name
  the list of its values in order, the content length, a body from which exactly the sent bytes (chunks joined) can be
  read, and, for HTTP/1.1, \<open>Close\<close> exactly when a \<open>Connection\<close> value says close.
\<close>
theorem server_requests:
  assumes "list_all wf_request rs" "list_all (acceptable S) rs" "\<forall>n. ExecuteAccepts S n" "\<forall>r. HandlerUpgrade S r = None"
    and "sReadLimit S \<le> 0 \<or> int (length (concat reads)) \<le> sReadLimit S"
    and "concat reads = concat (map print_request rs)" "reads \<noteq> []"
  shows "\<exists>q. Parse_all (server_env S) reads (NewParser NewServerProcessor False) = Some (q, None) \<and> boundary q \<and>
    list_all2 request_matches rs (sp_jobs (p_Processor q))"
proof -
  have rest: "s_resting NewServerProcessor" by (simp add: s_resting_def NewServerProcessor_def)
  obtain p' js where d: "deliver_all (server_env S) rs NewServerProcessor = Some p'" "sp_jobs p' = js" "list_all2 request_matches rs js"
    using deliver_all_server [OF assms(2) rest assms(3)] by (auto simp: NewServerProcessor_def)
  have up: "no_upgrade (server_env S)" using assms(4)
    by (auto simp: no_upgrade_def server_env_def s_OnComplete_def Let_def split: option.splits)
  have "\<exists>q. Parse_all (server_env S) reads (NewParser NewServerProcessor False) = Some (q, None) \<and> boundary q \<and> p_Processor q = p'"
  proof (rule pipelined [OF up _ assms(1)])
    show "deliver_all (server_env S) rs (p_Processor (NewParser NewServerProcessor False)) = Some p'" using d by (simp add: NewParser_def)
    show "within_limit (server_env S) (length (concat reads))" using assms(5) by (simp add: within_limit_def server_env_def)
  qed (use assms(6,7) in \<open>simp_all add: at_boundary_def idle_def NewParser_def\<close>)
  then show ?thesis using d by auto
qed

theorem server_requests_witness:
  "\<exists>q. Parse_all (server_env env_demo) [print_request get_demo @ take 9 (print_request post_demo), drop 9 (print_request post_demo)]
      (NewParser NewServerProcessor False) = Some (q, None) \<and> boundary q \<and>
    list_all2 request_matches [get_demo, post_demo] (sp_jobs (p_Processor q))"
proof (rule server_requests)
  show "list_all wf_request [get_demo, post_demo]" by code_simp
  show "list_all (acceptable env_demo) [get_demo, post_demo]" by code_simp
qed (simp_all add: env_demo_def)

lemma server_inv_request: "server.proto_inv p \<Longrightarrow> sp_request (p_Processor p) = None \<longleftrightarrow> p_state p \<in> before_message"
  unfolding server.proto_inv_def server.in_phase_def s_resting_def s_started_def s_inside_def
  by (cases "p_state p \<in> before_message"; cases "p_state p \<in> before_url") auto

lemma client_inv_response: "client.proto_inv p \<Longrightarrow> cp_response (p_Processor p) = None \<longleftrightarrow> p_state p \<in> before_message"
  unfolding client.proto_inv_def client.in_phase_def c_resting_def c_inside_def
  by (cases "p_state p \<in> before_message"; cases "p_state p \<in> before_url") auto

lemma server_some_phase: "server.some_phase ps \<Longrightarrow> \<not> sp_panic ps"
  by (auto simp: server.some_phase_def s_resting_def s_started_def s_inside_def)

lemma client_some_phase: "client.some_phase ps \<Longrightarrow> \<not> cp_panic ps"
  by (auto simp: client.some_phase_def c_resting_def c_inside_def)

text \<open>
  C31: A server's processor is never called out of order, whatever arrives. For every sequence of reads and any handlers, the
  parser returns and no callback dereferences a missing request or URL; and while the connection goes on as HTTP, a
  request is being built exactly when the parser is past the method of a message.
\<close>
theorem server_phases:
  "\<exists>q e. Parse_all (server_env S) reads (NewParser NewServerProcessor False) = Some (q, e) \<and> \<not> sp_panic (p_Processor q) \<and>
     (e = None \<and> p_ParserCloser q = None \<longrightarrow> (sp_request (p_Processor q) = None \<longleftrightarrow> p_state q \<in> before_message))"
proof -
  let ?p = "NewParser NewServerProcessor False :: (sproc, 'a) parser"
  obtain q e where q: "Parse_all (server_env S) reads ?p = Some (q, e)" using Parse_all_returns [OF pinv_NewParser, of "server_env S" reads NewServerProcessor False] by auto
  have "server.parse_protocol ?p" by (rule server.NewParser_protocol) (simp add: s_resting_def NewServerProcessor_def)
  note k = server.Parse_all_keeps [OF this q]
  show ?thesis
  proof (intro exI conjI impI)
    show "\<not> sp_panic (p_Processor q)" using k server_some_phase by blast
    assume "e = None \<and> p_ParserCloser q = None"
    then have "server.proto_inv q" using k unfolding server.parse_protocol_def by blast
    then show "(sp_request (p_Processor q) = None) = (p_state q \<in> before_message)" by (rule server_inv_request)
  qed (rule q)
qed

theorem server_phases_witness:
  "\<exists>q e. Parse_all (server_env env_demo) [''GET /x HTTP/1.1'' @ [CR, LF, CR]] (NewParser NewServerProcessor False) = Some (q, e) \<and>
     \<not> sp_panic (p_Processor q) \<and>
     (e = None \<and> p_ParserCloser q = None \<longrightarrow> (sp_request (p_Processor q) = None \<longleftrightarrow> p_state q \<in> before_message))"
  by (rule server_phases)

text \<open>
  The same for a client connection: for every sequence of reads from the peer, the parser returns and no callback
  dereferences a missing response, and a response is being built exactly when the parser is past the version of a
  status line.
\<close>
theorem client_phases:
  "\<exists>q e. Parse_all (client_env S h) reads (NewParser NewClientProcessor True) = Some (q, e) \<and> \<not> cp_panic (p_Processor q) \<and>
     (e = None \<and> p_ParserCloser q = None \<longrightarrow> (cp_response (p_Processor q) = None \<longleftrightarrow> p_state q \<in> before_message))"
proof -
  let ?p = "NewParser NewClientProcessor True :: (cproc, 'a) parser"
  obtain q e where q: "Parse_all (client_env S h) reads ?p = Some (q, e)" using Parse_all_returns [OF pinv_NewParser, of "client_env S h" reads NewClientProcessor True] by auto
  have "client.parse_protocol ?p" by (rule client.NewParser_protocol) (simp add: c_resting_def NewClientProcessor_def)
  note k = client.Parse_all_keeps [OF this q]
  show ?thesis
  proof (intro exI conjI impI)
    show "\<not> cp_panic (p_Processor q)" using k client_some_phase by blast
    assume "e = None \<and> p_ParserCloser q = None"
    then have "client.proto_inv q" using k unfolding client.parse_protocol_def by blast
    then show "(cp_response (p_Processor q) = None) = (p_state q \<in> before_message)" by (rule client_inv_response)
  qed (rule q)
qed

theorem client_phases_witness:
  "\<exists>q e. Parse_all (client_env env_demo (\<lambda>r. None)) [''HTTP/1.1 20'', ''0 OK'' @ [CR, LF, CR, LF]] (NewParser NewClientProcessor True) = Some (q, e) \<and>
     \<not> cp_panic (p_Processor q) \<and>
     (e = None \<and> p_ParserCloser q = None \<longrightarrow> (cp_response (p_Processor q) = None \<longleftrightarrow> p_state q \<in> before_message))"
  by (rule client_phases)

end
