(* ===== verification/HttpResponse.thy ===== *)
theory HttpResponse
  imports HttpProcessor
begin

text \<open>
  The server side of a response, \<open>nbhttp/response.go\<close>, with \<open>flushResponse\<close> of \<open>processor.go\<close>. A buffer is its contents;
  \<open>mempool.Malloc n\<close> returns \<open>n\<close> bytes of whatever was there before (\<open>stale n\<close>). The code gives one buffer
  back to the pool and goes on using it; \<open>rs_uaf\<close> records that this happened, and nothing is claimed of the bytes
  afterwards. Whether the connection takes a write is a function of what it took before; \<open>rs_sent\<close> is what it took.
  The order in which Go ranges over a map is the order of the association list, so every order is covered.
  \<open>http.StatusText\<close> and the clock are parameters.
\<close>

datatype resp_err = RsConnWrite | RsErrContentLength | RsErrParse | RsNilBuffer

record clock =
  t_weekday :: nat
  t_year :: nat
  t_month :: nat
  t_day :: nat
  t_hour :: nat
  t_min :: nat
  t_sec :: nat

record resp_env =
  StatusText :: "int \<Rightarrow> string"
  connTakes :: "bytes list \<Rightarrow> bytes \<Rightarrow> bool"
  stale :: "nat \<Rightarrow> bytes"
  now :: clock
  hasConn :: bool
  KeepaliveTime :: int

record response =
  rs_request :: http_request
  rs_status :: string
  rs_statusCode :: int
  rs_header :: Header
  rs_trailer :: "(string \<times> string) list"
  rs_trailerSize :: nat
  rs_buffer :: "bytes option"
  rs_bodyBuffer :: "bytes option"
  rs_contentLen :: int
  rs_bodyWritten :: int
  rs_chunked :: bool
  rs_chunkChecked :: bool
  rs_headEncoded :: bool
  rs_hasBody :: bool
  rs_hijacked :: bool
  rs_sent :: "bytes list"
  rs_uaf :: bool

definition maxPacketSize :: nat where
  "maxPacketSize = 65536"

definition NewResponse :: "http_request \<Rightarrow> response" where
  "NewResponse req = \<lparr>rs_request = req, rs_status = [], rs_statusCode = 0, rs_header = [], rs_trailer = [], rs_trailerSize = 0,
     rs_buffer = None, rs_bodyBuffer = None, rs_contentLen = 0, rs_bodyWritten = 0, rs_chunked = False, rs_chunkChecked = False,
     rs_headEncoded = False, rs_hasBody = False, rs_hijacked = False, rs_sent = [], rs_uaf = False\<rparr>"

definition opt_bytes :: "bytes option \<Rightarrow> bytes" where
  "opt_bytes b = (case b of None \<Rightarrow> [] | Some x \<Rightarrow> x)"

text \<open>\<open>conn.Write\<close>: the flag is success.\<close>

definition conn_write :: "resp_env \<Rightarrow> bytes \<Rightarrow> response \<Rightarrow> response \<times> bool" where
  "conn_write E b res =
     (if connTakes E (rs_sent res) b then (res\<lparr>rs_sent := rs_sent res @ [b]\<rparr>, True) else (res, False))"

definition Hijack :: "response \<Rightarrow> response" where
  "Hijack res = res\<lparr>rs_hijacked := True\<rparr>"

definition WriteHeader :: "resp_env \<Rightarrow> int \<Rightarrow> response \<Rightarrow> response" where
  "WriteHeader E statusCode res0 =
     (if \<not> rs_hijacked res0 \<and> rs_statusCode res0 = 0 \<and> rs_statusCode res0 \<noteq> statusCode then
        (let status = StatusText E statusCode;
             res = (if status \<noteq> [] then res0\<lparr>rs_status := status, rs_statusCode := statusCode\<rparr> else res0);
             cl = Header_Get (rs_header res) contentLengthHeader
         in if cl \<noteq> [] then
              (case ParseInt 10 64 cl of
                 Some v \<Rightarrow> if v \<ge> 0 then res else res\<lparr>rs_header := Header_Del (rs_header res) contentLengthHeader\<rparr>
               | None \<Rightarrow> res\<lparr>rs_header := Header_Del (rs_header res) contentLengthHeader\<rparr>)
            else res)
      else res0)"

definition ProtoAtLeast11 :: "http_request \<Rightarrow> bool" where
  "ProtoAtLeast11 r \<longleftrightarrow> ProtoMajor r > 1 \<or> ProtoMajor r = 1 \<and> ProtoMinor r \<ge> 1"

definition checkChunked :: "response \<Rightarrow> response" where
  "checkChunked res0 =
     (if rs_chunkChecked res0 then res0
      else
        (let res = res0\<lparr>rs_chunkChecked := True\<rparr> in
         if ''chunked'' \<in> set (Header_values (rs_header res) transferEncodingHeader)
         then res\<lparr>rs_chunked := True, rs_header := Header_Del (rs_header res) contentLengthHeader\<rparr>
         else
           (let res = (if ProtoAtLeast11 (rs_request res) \<and> Header_Get (rs_header res) contentLengthHeader = [] \<and>
                          rs_statusCode res \<noteq> 204 \<and> rs_statusCode res \<noteq> 304
                       then res\<lparr>rs_chunked := True\<rparr> else res);
                res = (if \<not> rs_chunked res \<and> Header_values (rs_header res) trailerHeader \<noteq> [] then res\<lparr>rs_chunked := True\<rparr> else res)
            in if rs_chunked res
               then res\<lparr>rs_header := Header_Del (Header_Set (rs_header res) transferEncodingHeader ''chunked'') contentLengthHeader\<rparr>
               else res)))"

definition CRLF :: bytes where
  "CRLF = [CR, LF]"

definition dig :: "nat \<Rightarrow> char" where
  "dig n = char_of (48 + n)"

definition days :: string where
  "days = ''SunMonTueWedThuFriSat''"

definition months :: string where
  "months = ''JanFebMarAprMayJunJulAugSepOctNovDec''"

definition date_line :: "clock \<Rightarrow> bytes" where
  "date_line t = ''Date: '' @ go_slice days (3 * t_weekday t) (3 * t_weekday t + 3) @ '', '' @ [dig (t_day t div 10), dig (t_day t mod 10), SP] @
     go_slice months (3 * (t_month t - 1)) (3 * (t_month t - 1) + 3) @
     [SP, dig (t_year t div 1000), dig (t_year t div 100 mod 10), dig (t_year t div 10 mod 10), dig (t_year t mod 10), SP,
      dig (t_hour t div 10), dig (t_hour t mod 10), CHR '':'', dig (t_min t div 10), dig (t_min t mod 10), CHR '':'',
      dig (t_sec t div 10), dig (t_sec t mod 10), SP] @ ''GMT'' @ CRLF"

definition status_line_bytes :: "response \<Rightarrow> bytes" where
  "status_line_bytes res =
     (let c = nat (rs_statusCode res)
      in Proto (rs_request res) @ [SP, dig (c div 100), dig (c mod 100 div 10), dig (c mod 10), SP] @ rs_status res @ CRLF)"

definition header_lines :: "string \<times> string list \<Rightarrow> bytes" where
  "header_lines h = concat (map (\<lambda>v. fst h @ '': '' @ v @ CRLF) (snd h))"

text \<open>The keys announced as trailers, and the two branches of the loop over the header.\<close>

definition trailer_keys :: "Header \<Rightarrow> (string \<times> string) list" where
  "trailer_keys h = fold (\<lambda>k. AList.update k []) (Header_values h trailerHeader) []"

definition trailer_values :: "Header \<Rightarrow> (string \<times> string) list" where
  "trailer_values h =
     fold (\<lambda>(k, vv) t. if k \<in> fst ` set t \<and> vv \<noteq> [] then AList.update k (Header_Get h (CanonicalHeaderKey k)) t else t) h (trailer_keys h)"

definition announced :: "Header \<Rightarrow> string \<Rightarrow> bool" where
  "announced h k \<longleftrightarrow> k \<in> set (Header_values h trailerHeader)"

definition trailer_size :: "Header \<Rightarrow> nat" where
  "trailer_size h = sum_list (map (\<lambda>(k, vv). length k + length (Header_Get h (CanonicalHeaderKey k)) + 4)
     (filter (\<lambda>(k, vv). announced h k \<and> vv \<noteq> []) h))"

definition head_bytes :: "resp_env \<Rightarrow> response \<Rightarrow> bytes" where
  "head_bytes E res =
     (let h = rs_header res in
      status_line_bytes res @
      (if rs_hasBody res \<and> Header_values h ''Content-Type'' = [] then ''Content-Type: text/plain; charset=utf-8'' @ CRLF else []) @
      (if \<not> rs_chunked res \<and> Header_values h contentLengthHeader = [] then
         ''Content-Length: '' @
         (if \<not> rs_hasBody res then ''0''
          else (let l = length (opt_bytes (rs_bodyBuffer res)) in if l > 0 then FormatInt 10 l else ''0'')) @ CRLF
       else []) @
      (if rClose (rs_request res) \<and> Header_values h ''Connection'' = [] then ''Connection: close'' @ CRLF else []) @
      (if Header_values h ''Date'' = [] then date_line (now E) else []) @
      concat (map header_lines (filter (\<lambda>(k, vv). \<not> announced h k) h)) @ CRLF)"

definition eoncodeHead :: "resp_env \<Rightarrow> response \<Rightarrow> response" where
  "eoncodeHead E res =
     (if rs_headEncoded res then res
      else res\<lparr>rs_headEncoded := True, rs_trailer := trailer_values (rs_header res),
               rs_trailerSize := rs_trailerSize res + trailer_size (rs_header res), rs_buffer := Some (head_bytes E res)\<rparr>)"

text \<open>\<open>formatInt\<close>: digits are written from the end of a buffer of ten bytes.\<close>

definition numMap :: string where
  "numMap = ''0123456789abcdef''"

function formatInt_loop :: "nat \<Rightarrow> nat \<Rightarrow> string \<Rightarrow> string" where
  "formatInt_loop base n acc =
     (let acc = numMap ! (n mod base) # acc; n' = n div base
      in if n' = 0 \<or> base < 2 then acc else formatInt_loop base n' acc)"
  by pat_completeness auto
termination
  by (relation "measure (\<lambda>(base, n, acc). n)") (auto intro!: div_less_dividend gr0I simp: not_less)

declare formatInt_loop.simps [simp del]

definition formatInt :: "nat \<Rightarrow> nat \<Rightarrow> string" where
  "formatInt n base = (if n > 0x7FFFFFFF then [] else formatInt_loop base n [])"

definition writeChunk :: "resp_env \<Rightarrow> bytes \<Rightarrow> response \<Rightarrow> response \<times> nat \<times> resp_err option" where
  "writeChunk E data res0 =
     (let l = length data;
          res = eoncodeHead E res0;
          pbuf = rs_buffer res;
          res = res\<lparr>rs_buffer := None\<rparr>;
          lenStr = formatInt l 16;
          totalSize = length lenStr + l + 4 + length (opt_bytes pbuf)
      in if totalSize < maxPacketSize then
           (let b = (case pbuf of None \<Rightarrow> stale E totalSize | Some b \<Rightarrow> b)
            in (res\<lparr>rs_buffer := Some (b @ lenStr @ CRLF @ data @ CRLF)\<rparr>, l, None))
         else
           (let (res, ok, b) =
              (case pbuf of
                 Some b \<Rightarrow> (case conn_write E (b @ lenStr @ CRLF) res of (res, ok) \<Rightarrow> (if ok then res\<lparr>rs_uaf := True\<rparr> else res, ok, []))
               | None \<Rightarrow> (res, True, lenStr @ CRLF))
            in if \<not> ok then (res, 0, Some RsConnWrite)
               else
                 (let b = b @ data @ CRLF in
                  if length b < maxPacketSize then (res\<lparr>rs_buffer := Some b\<rparr>, l, None)
                  else case conn_write E b res of (res, ok) \<Rightarrow> if ok then (res, l, None) else (res, 0, Some RsConnWrite))))"

definition contentLength :: "response \<Rightarrow> response \<times> (resp_err + int)" where
  "contentLength res =
     (if rs_contentLen res > 0 then (res, Inr (rs_contentLen res))
      else
        (let cl = Header_Get (rs_header res) contentLengthHeader in
         if cl = [] then (res, Inr 0)
         else case ParseInt 10 64 cl of
                None \<Rightarrow> (res, Inl RsErrParse)
              | Some v \<Rightarrow> (res\<lparr>rs_contentLen := v\<rparr>, Inr v)))"

text \<open>\<open>conn.Write(data)\<close> as the last thing \<open>Write\<close> does.\<close>

definition send_direct :: "resp_env \<Rightarrow> bytes \<Rightarrow> response \<Rightarrow> response \<times> nat \<times> resp_err option" where
  "send_direct E data res = (case conn_write E data res of (res, ok) \<Rightarrow> if ok then (res, length data, None) else (res, 0, Some RsConnWrite))"

text \<open>The end of \<open>Write\<close>: the data is appended to the body buffer \<open>bb\<close>.\<close>

definition append_cached :: "resp_env \<Rightarrow> int \<Rightarrow> bytes \<Rightarrow> bytes \<Rightarrow> response \<Rightarrow> response \<times> nat \<times> resp_err option" where
  "append_cached E cl data bb res0 =
     (let res = res0\<lparr>rs_bodyWritten := rs_bodyWritten res0 + int (length data), rs_bodyBuffer := Some (bb @ data)\<rparr> in
      if cl > 0 \<and> length (bb @ data) \<ge> maxPacketSize then
        (case conn_write E (bb @ data) res of
           (res, True) \<Rightarrow> (res\<lparr>rs_bodyBuffer := Some []\<rparr>, length (bb @ data), None)
         | (res, False) \<Rightarrow> (res\<lparr>rs_bodyBuffer := None\<rparr>, 0, Some RsConnWrite))
      else (res, length data, None))"

text \<open>\<open>Write\<close> from the label \<open>APPEND_BODY\<close> on.\<close>

definition append_response_body :: "resp_env \<Rightarrow> int \<Rightarrow> bytes \<Rightarrow> response \<Rightarrow> response \<times> nat \<times> resp_err option" where
  "append_response_body E cl data res =
     (let l = length data in
      case rs_bodyBuffer res of
        None \<Rightarrow>
          if cl > 0 \<and> l \<ge> maxPacketSize
          then send_direct E data (res\<lparr>rs_bodyWritten := rs_bodyWritten res + int l\<rparr>)
          else append_cached E cl data [] res
      | Some bb \<Rightarrow>
          if cl > 0 \<and> length bb + l > maxPacketSize then
            (case (if length bb > 0 then conn_write E bb res else (res, True)) of
               (res, False) \<Rightarrow> (res\<lparr>rs_bodyBuffer := None\<rparr>, 0, Some RsConnWrite)
             | (res, True) \<Rightarrow>
                 if l \<ge> maxPacketSize
                 then send_direct E data (res\<lparr>rs_bodyWritten := rs_bodyWritten res + int l, rs_bodyBuffer := None\<rparr>)
                 else append_cached E cl data [] res)
          else append_cached E cl data bb res)"

definition Response_Write :: "resp_env \<Rightarrow> bytes \<Rightarrow> response \<Rightarrow> response \<times> nat \<times> resp_err option" where
  "Response_Write E data res0 =
     (let l = length data in
      if l = 0 \<or> \<not> hasConn E then (res0, 0, None)
      else
        (let res = (checkChunked (WriteHeader E 200 res0))\<lparr>rs_hasBody := True\<rparr> in
         if rs_chunked res then writeChunk E data res
         else case contentLength res of
           (res, Inl e) \<Rightarrow> (res, 0, Some e)
         | (res, Inr cl) \<Rightarrow>
             if cl > 0 \<and> rs_bodyWritten res + int l > cl then (res, 0, Some RsErrContentLength)
             else if cl > 0 then
               (let res = eoncodeHead E res; pbuf = rs_buffer res; res = res\<lparr>rs_buffer := None\<rparr> in
                case pbuf of
                  None \<Rightarrow> append_response_body E cl data res
                | Some b \<Rightarrow>
                    if length b + l < maxPacketSize then append_response_body E cl data (res\<lparr>rs_bodyBuffer := Some b\<rparr>)
                    else (case conn_write E b res of
                            (res, False) \<Rightarrow> (res, 0, Some RsConnWrite)
                          | (res, True) \<Rightarrow> append_response_body E cl data res))
             else append_response_body E cl data res))"

text \<open>\<open>ReadFrom\<close>: the reader is its remaining contents and the bound of an \<open>io.LimitedReader\<close> around it, if there is
  one. \<open>Sendfile\<close> and \<open>io.Copy\<close> both deliver the contents up to that bound to the connection; without a bound,
  \<open>Sendfile\<close> sends the rest of the file. \<open>RsNilBuffer\<close> is the dereference of a nil buffer.\<close>

record body_source =
  src_limit :: "int option"
  src_file :: bool
  src_contents :: bytes

definition src_bytes :: "body_source \<Rightarrow> bytes" where
  "src_bytes s = (case src_limit s of None \<Rightarrow> src_contents s | Some n \<Rightarrow> take (nat n) (src_contents s))"

definition ReadFrom :: "resp_env \<Rightarrow> bool \<Rightarrow> body_source \<Rightarrow> response \<Rightarrow> response \<times> nat \<times> resp_err option" where
  "ReadFrom E DisableSendfile s res0 =
     (if \<not> hasConn E then (res0, 0, None)
      else
        (let res = eoncodeHead E (res0\<lparr>rs_hasBody := True\<rparr>) in
         case rs_buffer res of
           None \<Rightarrow> (res, 0, Some RsNilBuffer)
         | Some b \<Rightarrow>
             (case conn_write E b res of (res, ok) \<Rightarrow>
                (let res = res\<lparr>rs_buffer := None\<rparr> in
                 if \<not> ok then (res, 0, Some RsConnWrite)
                 else if \<not> DisableSendfile \<and> (case src_limit s of None \<Rightarrow> False | Some n \<Rightarrow> n \<le> 0) then (res, 0, None)
                 else (case conn_write E (src_bytes s) res of
                         (res, True) \<Rightarrow> (res, length (src_bytes s), None)
                       | (res, False) \<Rightarrow> (res, 0, Some RsConnWrite))))))"

definition flush_part :: "resp_env \<Rightarrow> bytes option \<Rightarrow> (bytes option \<Rightarrow> response \<Rightarrow> response) \<Rightarrow> response \<Rightarrow> response" where
  "flush_part E buf put res =
     (case buf of
        Some (x # xs) \<Rightarrow> (case conn_write E (x # xs) res of (res, True) \<Rightarrow> put (Some []) res | (res, False) \<Rightarrow> put None res)
      | _ \<Rightarrow> res)"

definition Response_Flush :: "resp_env \<Rightarrow> response \<Rightarrow> response" where
  "Response_Flush E res0 =
     (if rs_hijacked res0 \<or> \<not> hasConn E then res0
      else
        (let res = eoncodeHead E (checkChunked (WriteHeader E 200 res0));
             res = flush_part E (rs_buffer res) (\<lambda>b r. r\<lparr>rs_buffer := b\<rparr>) res
         in flush_part E (rs_bodyBuffer res) (\<lambda>b r. r\<lparr>rs_bodyBuffer := b\<rparr>) res))"

definition trailer_lines :: "(string \<times> string) list \<Rightarrow> bytes" where
  "trailer_lines t = concat (map (\<lambda>(k, v). k @ '': '' @ v @ CRLF) t)"

text \<open>\<open>flush\<close> at the end of a request; the flag is success.\<close>

definition flush_plain :: "resp_env \<Rightarrow> response \<Rightarrow> response \<times> bool" where
  "flush_plain E res =
     (let body_last = (\<lambda>res. if rs_bodyBuffer res \<noteq> None \<and> opt_bytes (rs_bodyBuffer res) \<noteq> []
                             then (case conn_write E (opt_bytes (rs_bodyBuffer res)) res of (res, ok) \<Rightarrow> (res\<lparr>rs_bodyBuffer := None\<rparr>, ok))
                             else (res, True));
          send_buffer = (\<lambda>b res. case conn_write E b (res\<lparr>rs_buffer := None\<rparr>) of
                           (res, False) \<Rightarrow> (res, False) | (res, True) \<Rightarrow> body_last res)
      in case rs_buffer res of
           None \<Rightarrow> body_last res
         | Some b \<Rightarrow>
             (if rs_bodyBuffer res \<noteq> None \<and> opt_bytes (rs_bodyBuffer res) \<noteq> [] then
                (let bb = opt_bytes (rs_bodyBuffer res) in
                 if length b + length bb > maxPacketSize then
                   (case conn_write E b (res\<lparr>rs_buffer := None\<rparr>) of
                      (res, False) \<Rightarrow> (res\<lparr>rs_bodyBuffer := None\<rparr>, False)
                    | (res, True) \<Rightarrow> send_buffer bb (res\<lparr>rs_bodyBuffer := None\<rparr>))
                 else send_buffer (b @ bb) (res\<lparr>rs_bodyBuffer := None\<rparr>))
              else send_buffer b res))"

definition flush_chunked :: "resp_env \<Rightarrow> response \<Rightarrow> response \<times> bool" where
  "flush_chunked E res =
     (let b = opt_bytes (rs_buffer res); res = res\<lparr>rs_buffer := None\<rparr> in
      conn_write E (if rs_trailer res = [] then b @ ''0'' @ CRLF @ CRLF else b @ ''0'' @ CRLF @ trailer_lines (rs_trailer res) @ CRLF) res)"

definition response_flush :: "resp_env \<Rightarrow> response \<Rightarrow> response \<times> bool" where
  "response_flush E res = (if \<not> rs_chunked res then flush_plain E res else flush_chunked E res)"

text \<open>\<open>flushResponse\<close> of \<open>processor.go\<close>: what becomes of the connection afterwards.\<close>

datatype after_response = ConnClosed | KeepAlive int | LeftAlone

definition flushResponse :: "resp_env \<Rightarrow> bool \<Rightarrow> response \<Rightarrow> response \<times> after_response" where
  "flushResponse E upgraded res0 =
     (if \<not> hasConn E \<or> rs_hijacked res0 then (res0, LeftAlone)
      else
        (case response_flush E (eoncodeHead E (checkChunked (WriteHeader E 200 res0))) of
           (res, False) \<Rightarrow> (res, ConnClosed)
         | (res, True) \<Rightarrow>
             (res, if rClose (rs_request res) then ConnClosed else if \<not> upgraded then KeepAlive (KeepaliveTime E) else LeftAlone)))"

text \<open>What a handler does with the response.\<close>

datatype handler_call = HWrite bytes | HFlush

definition handler_step :: "resp_env \<Rightarrow> handler_call \<Rightarrow> response \<Rightarrow> response" where
  "handler_step E c res = (case c of HWrite d \<Rightarrow> fst (Response_Write E d res) | HFlush \<Rightarrow> Response_Flush E res)"

definition serve :: "resp_env \<Rightarrow> handler_call list \<Rightarrow> response \<Rightarrow> response \<times> after_response" where
  "serve E cs res = flushResponse E False (fold (handler_step E) cs res)"

end
