(* ===== verification/ResponseInv.thy ===== *)
theory ResponseInv
  imports HttpResponse
begin

text \<open>
  What a handler's calls put on the wire. \<open>prepared\<close> states are those on which \<open>WriteHeader(200)\<close> and \<open>checkChunked\<close>, which
  every call repeats, change nothing more; \<open>length_inv\<close> and \<open>chunk_inv\<close> are the invariants of the two framings.
\<close>

definition prep :: "resp_env \<Rightarrow> response \<Rightarrow> response" where
  "prep E r = checkChunked (WriteHeader E 200 r)"

definition prepared :: "resp_env \<Rightarrow> response \<Rightarrow> bool" where
  "prepared E r \<longleftrightarrow> WriteHeader E 200 r = r \<and> rs_chunkChecked r"

text \<open>A response as the handler gets it, with the header and the status it may have set.\<close>

definition fresh_response :: "response \<Rightarrow> bool" where
  "fresh_response r \<longleftrightarrow> r = (NewResponse (rs_request r))\<lparr>rs_header := rs_header r, rs_status := rs_status r, rs_statusCode := rs_statusCode r\<rparr>"

fun handler_bytes :: "handler_call list \<Rightarrow> bytes" where
  "handler_bytes [] = []"
| "handler_bytes (HWrite d # cs) = d @ handler_bytes cs"
| "handler_bytes (HFlush # cs) = handler_bytes cs"

fun handler_chunks :: "handler_call list \<Rightarrow> bytes list" where
  "handler_chunks [] = []"
| "handler_chunks (HWrite d # cs) = (if d = [] then handler_chunks cs else d # handler_chunks cs)"
| "handler_chunks (HFlush # cs) = handler_chunks cs"

text \<open>Whether the head is encoded by a write (so that it may carry a default content type).\<close>

fun starts_with_body :: "handler_call list \<Rightarrow> bool" where
  "starts_with_body [] = False"
| "starts_with_body (HWrite d # cs) = (if d = [] then starts_with_body cs else True)"
| "starts_with_body (HFlush # cs) = False"

definition encoded :: "resp_env \<Rightarrow> bool \<Rightarrow> response \<Rightarrow> response" where
  "encoded E body r = eoncodeHead E ((prep E r)\<lparr>rs_hasBody := body\<rparr>)"

lemma WriteHeader_fields [simp]:
  "rs_request (WriteHeader E c r) = rs_request r" "rs_trailer (WriteHeader E c r) = rs_trailer r" "rs_buffer (WriteHeader E c r) = rs_buffer r"
  "rs_bodyBuffer (WriteHeader E c r) = rs_bodyBuffer r" "rs_contentLen (WriteHeader E c r) = rs_contentLen r"
  "rs_bodyWritten (WriteHeader E c r) = rs_bodyWritten r" "rs_chunked (WriteHeader E c r) = rs_chunked r"
  "rs_chunkChecked (WriteHeader E c r) = rs_chunkChecked r" "rs_headEncoded (WriteHeader E c r) = rs_headEncoded r"
  "rs_hasBody (WriteHeader E c r) = rs_hasBody r" "rs_hijacked (WriteHeader E c r) = rs_hijacked r"
  "rs_sent (WriteHeader E c r) = rs_sent r" "rs_uaf (WriteHeader E c r) = rs_uaf r"
  by (simp_all add: WriteHeader_def Let_def split: option.split)

lemma checkChunked_fields [simp]:
  "rs_request (checkChunked r) = rs_request r" "rs_status (checkChunked r) = rs_status r" "rs_statusCode (checkChunked r) = rs_statusCode r"
  "rs_trailer (checkChunked r) = rs_trailer r" "rs_buffer (checkChunked r) = rs_buffer r" "rs_bodyBuffer (checkChunked r) = rs_bodyBuffer r"
  "rs_contentLen (checkChunked r) = rs_contentLen r" "rs_bodyWritten (checkChunked r) = rs_bodyWritten r"
  "rs_chunkChecked (checkChunked r)" "rs_headEncoded (checkChunked r) = rs_headEncoded r" "rs_hasBody (checkChunked r) = rs_hasBody r"
  "rs_hijacked (checkChunked r) = rs_hijacked r" "rs_sent (checkChunked r) = rs_sent r" "rs_uaf (checkChunked r) = rs_uaf r"
  by (simp_all add: checkChunked_def Let_def)

lemma checkChunked_again [simp]: "rs_chunkChecked r \<Longrightarrow> checkChunked r = r"
  by (simp add: checkChunked_def)

lemma Header_Get_Del: "Header_Get (Header_Del h k) k = []"
  by (simp add: Header_Get_def)

lemma WriteHeader_again: "WriteHeader E c (WriteHeader E c r) = WriteHeader E c r"
proof (cases "\<not> rs_hijacked r \<and> rs_statusCode r = 0 \<and> 0 \<noteq> c")
  case True
  then show ?thesis by (auto simp: WriteHeader_def Let_def Header_Get_Del split: option.split)
next
  case False
  then show ?thesis by (auto simp: WriteHeader_def)
qed

definition header_settled :: "resp_env \<Rightarrow> response \<Rightarrow> bool" where
  "header_settled E r \<longleftrightarrow> (\<not> rs_hijacked r \<and> rs_statusCode r = 0 \<longrightarrow>
     StatusText E 200 = [] \<and> (Header_Get (rs_header r) contentLengthHeader = [] \<or>
       (\<exists>v \<ge> 0. ParseInt 10 64 (Header_Get (rs_header r) contentLengthHeader) = Some v)))"

lemma Header_Del_ne: "Header_Get h k \<noteq> [] \<Longrightarrow> Header_Del h k \<noteq> h"
  using Header_Get_Del by metis

lemma WriteHeader_settled: "WriteHeader E 200 r = r \<longleftrightarrow> header_settled E r"
proof (cases "\<not> rs_hijacked r \<and> rs_statusCode r = 0")
  case True
  let ?cl = "Header_Get (rs_header r) contentLengthHeader"
  have code: "rs_statusCode (WriteHeader E 200 r) = (if StatusText E 200 = [] then 0 else 200)"
    using True by (simp add: WriteHeader_def Let_def split: option.split)
  have hdr: "rs_header (WriteHeader E 200 r) = (if ?cl \<noteq> [] \<and> \<not> (\<exists>v \<ge> 0. ParseInt 10 64 ?cl = Some v) then Header_Del (rs_header r) contentLengthHeader else rs_header r)"
    using True by (auto simp: WriteHeader_def Let_def split: option.split)
  show ?thesis
  proof (cases "header_settled E r")
    case settled: True
    then have "WriteHeader E 200 r = r" using True by (auto simp: WriteHeader_def Let_def header_settled_def)
    then show ?thesis using settled by simp
  next
    case False
    then have "rs_statusCode (WriteHeader E 200 r) \<noteq> rs_statusCode r \<or> rs_header (WriteHeader E 200 r) \<noteq> rs_header r"
      using True code hdr Header_Del_ne [of "rs_header r" contentLengthHeader] by (auto simp: header_settled_def)
    then show ?thesis using False by metis
  qed
next
  case False
  then show ?thesis by (auto simp: WriteHeader_def header_settled_def)
qed

lemma checkChunked_length:
  "Header_Get (rs_header (checkChunked r)) contentLengthHeader \<in> {[], Header_Get (rs_header r) contentLengthHeader}"
  by (simp add: checkChunked_def Let_def Header_Get_Del)

lemma settled_checkChunked: "header_settled E r \<Longrightarrow> header_settled E (checkChunked r)"
  using checkChunked_length [of r] by (auto simp: header_settled_def)

lemma prep_prepared: "prepared E (prep E r)"
proof -
  have "header_settled E (WriteHeader E 200 r)" using WriteHeader_again [of E 200 r] WriteHeader_settled by blast
  then show ?thesis by (simp add: prep_def prepared_def WriteHeader_settled settled_checkChunked)
qed

lemma prepared_updates [simp]:
  "prepared E (r\<lparr>rs_buffer := b\<rparr>) = prepared E r" "prepared E (r\<lparr>rs_bodyBuffer := b\<rparr>) = prepared E r" "prepared E (r\<lparr>rs_sent := s\<rparr>) = prepared E r"
  "prepared E (r\<lparr>rs_uaf := x\<rparr>) = prepared E r" "prepared E (r\<lparr>rs_hasBody := x\<rparr>) = prepared E r" "prepared E (r\<lparr>rs_bodyWritten := i\<rparr>) = prepared E r" "prepared E (r\<lparr>rs_contentLen := i\<rparr>) = prepared E r"
  "prepared E (r\<lparr>rs_headEncoded := x\<rparr>) = prepared E r" "prepared E (r\<lparr>rs_trailer := t\<rparr>) = prepared E r" "prepared E (r\<lparr>rs_trailerSize := n\<rparr>) = prepared E r"
  by (simp_all add: prepared_def WriteHeader_settled header_settled_def)

lemma prepared_prep: "prepared E r \<Longrightarrow> checkChunked (WriteHeader E 200 r) = r"
  by (simp add: prepared_def)

lemma eoncodeHead_again [simp]: "rs_headEncoded r \<Longrightarrow> eoncodeHead E r = r"
  by (simp add: eoncodeHead_def)

lemma eoncodeHead_encoded [simp]: "rs_headEncoded (eoncodeHead E r)"
  by (simp add: eoncodeHead_def)

lemma eoncodeHead_fields [simp]:
  "rs_hijacked (eoncodeHead E r) = rs_hijacked r" "rs_chunked (eoncodeHead E r) = rs_chunked r" "rs_header (eoncodeHead E r) = rs_header r"
  "rs_bodyBuffer (eoncodeHead E r) = rs_bodyBuffer r" "rs_contentLen (eoncodeHead E r) = rs_contentLen r" "rs_request (eoncodeHead E r) = rs_request r"
  "rs_bodyWritten (eoncodeHead E r) = rs_bodyWritten r" "rs_sent (eoncodeHead E r) = rs_sent r" "rs_uaf (eoncodeHead E r) = rs_uaf r"
  "rs_hasBody (eoncodeHead E r) = rs_hasBody r" "prepared E' (eoncodeHead E r) = prepared E' r"
  by (simp_all add: eoncodeHead_def)

text \<open>A connection that takes everything.\<close>

definition takes_all :: "resp_env \<Rightarrow> bool" where
  "takes_all E \<longleftrightarrow> hasConn E \<and> (\<forall>s b. connTakes E s b)"

lemma conn_write_ok: "takes_all E \<Longrightarrow> conn_write E b r = (r\<lparr>rs_sent := rs_sent r @ [b]\<rparr>, True)"
  by (simp add: conn_write_def takes_all_def)

definition wire :: "response \<Rightarrow> bytes" where
  "wire r = concat (rs_sent r) @ opt_bytes (rs_buffer r) @ opt_bytes (rs_bodyBuffer r)"

lemma opt_bytes_simps [simp]: "opt_bytes None = []" "opt_bytes (Some x) = x"
  by (simp_all add: opt_bytes_def)

text \<open>The framing by length: the head is encoded, and the wire with what is cached is the head and the data.\<close>

definition length_inv :: "resp_env \<Rightarrow> int \<Rightarrow> bytes \<Rightarrow> bytes \<Rightarrow> response \<Rightarrow> bool" where
  "length_inv E n head data r \<longleftrightarrow> prepared E r \<and> \<not> rs_hijacked r \<and> \<not> rs_chunked r \<and> rs_headEncoded r \<and>
     ParseInt 10 64 (Header_Get (rs_header r) contentLengthHeader) = Some n \<and> rs_contentLen r \<in> {0, n} \<and>
     rs_bodyWritten r = int (length data) \<and> (rs_buffer r \<noteq> None \<longrightarrow> rs_bodyBuffer r = None) \<and> wire r = head @ data"

lemma append_cached_length:
  assumes "takes_all E" "length_inv E n head data (r\<lparr>rs_bodyBuffer := Some bb\<rparr>)" "rs_buffer r = None"
  shows "length_inv E n head (data @ d) (fst (append_cached E n d bb r))"
  using assms by (auto simp: append_cached_def Let_def conn_write_ok length_inv_def wire_def)

lemma send_direct_length:
  assumes "takes_all E" "length_inv E n head data r" "rs_buffer r = None" "rs_bodyBuffer r = None"
  shows "length_inv E n head (data @ d) (fst (send_direct E d (r\<lparr>rs_bodyWritten := rs_bodyWritten r + int (length d)\<rparr>)))"
  using assms by (auto simp: send_direct_def conn_write_ok length_inv_def wire_def)

lemma append_response_body_length:
  assumes "takes_all E" "length_inv E n head data r" "rs_buffer r = None"
  shows "length_inv E n head (data @ d) (fst (append_response_body E n d r))"
proof (cases "rs_bodyBuffer r")
  case None
  then have "length_inv E n head data (r\<lparr>rs_bodyBuffer := Some []\<rparr>)" using assms(2,3) by (auto simp: length_inv_def wire_def)
  then show ?thesis using append_cached_length [OF assms(1) _ assms(3), of n head data "[]" d] send_direct_length [OF assms None, of d] None
    by (simp add: append_response_body_def Let_def)
next
  case (Some bb)
  let ?r = "r\<lparr>rs_sent := rs_sent r @ (if bb = [] then [] else [bb])\<rparr>"
  have sent: "(if 0 < length bb then conn_write E bb r else (r, True)) = (?r, True)" using assms(1) by (simp add: conn_write_ok)
  have "length_inv E n head data (?r\<lparr>rs_bodyBuffer := Some []\<rparr>)" using assms(2,3) Some by (auto simp: length_inv_def wire_def)
  then have 1: "length_inv E n head (data @ d) (fst (append_cached E n d [] ?r))"
    by (rule append_cached_length [OF assms(1)]) (simp add: assms(3))
  have "length_inv E n head data (?r\<lparr>rs_bodyBuffer := None\<rparr>)" using assms(2,3) Some by (auto simp: length_inv_def wire_def)
  then have 2: "length_inv E n head (data @ d) (fst (send_direct E d (?r\<lparr>rs_bodyWritten := rs_bodyWritten r + int (length d), rs_bodyBuffer := None\<rparr>)))"
  proof -
    have c: "?r\<lparr>rs_bodyBuffer := None, rs_bodyWritten := x\<rparr> = ?r\<lparr>rs_bodyWritten := x, rs_bodyBuffer := None\<rparr>" for x by simp
    assume "length_inv E n head data (?r\<lparr>rs_bodyBuffer := None\<rparr>)"
    from send_direct_length [OF assms(1) this, of d] assms(3) show ?thesis unfolding c by simp
  qed
  have "length_inv E n head data (r\<lparr>rs_bodyBuffer := Some bb\<rparr>)" using assms(2) Some by (auto simp: length_inv_def wire_def)
  then have 3: "length_inv E n head (data @ d) (fst (append_cached E n d bb r))" by (rule append_cached_length [OF assms(1) _ assms(3)])
  show ?thesis using 1 2 3 Some sent by (simp add: append_response_body_def Let_def)
qed

lemma contentLength_inv:
  assumes "length_inv E n head data r" "n > 0"
  shows "contentLength r = (r\<lparr>rs_contentLen := n\<rparr>, Inr n)"
proof -
  have "rs_contentLen r = n \<Longrightarrow> r\<lparr>rs_contentLen := n\<rparr> = r" by simp
  moreover have "Header_Get (rs_header r) contentLengthHeader \<noteq> []" using assms by (auto simp: length_inv_def ParseInt_def parse_unsigned_def)
  ultimately show ?thesis using assms by (auto simp: contentLength_def length_inv_def)
qed

lemma Write_length_inv:
  assumes "takes_all E" "length_inv E n head data r" "n > 0" "int (length data + length d) \<le> n" "d \<noteq> []"
  shows "length_inv E n head (data @ d) (fst (Response_Write E d r))"
proof -
  let ?q = "r\<lparr>rs_hasBody := True, rs_contentLen := n\<rparr>"
  have p: "checkChunked (WriteHeader E 200 r) = r" using assms(2) by (simp add: length_inv_def prepared_prep)
  have h: "length_inv E n head data (r\<lparr>rs_hasBody := True\<rparr>)" using assms(2) by (auto simp: length_inv_def wire_def)
  have q: "length_inv E n head data ?q" using assms(2) by (auto simp: length_inv_def wire_def)
  have e: "eoncodeHead E ?q = ?q" "\<not> rs_chunked r" "\<not> rs_bodyWritten r + int (length d) > n" "hasConn E"
    using assms by (auto simp: length_inv_def takes_all_def)
  show ?thesis
  proof (cases "rs_buffer r")
    case None
    have "length_inv E n head data (?q\<lparr>rs_buffer := None\<rparr>)" using q None by (auto simp: length_inv_def wire_def)
    from append_response_body_length [OF assms(1) this, of d] show ?thesis
      using p e contentLength_inv [OF h assms(3)] None assms(3,5) by (simp add: Response_Write_def Let_def)
  next
    case (Some b)
    let ?q1 = "?q\<lparr>rs_buffer := None, rs_bodyBuffer := Some b\<rparr>"
    let ?q2 = "?q\<lparr>rs_buffer := None, rs_sent := rs_sent r @ [b]\<rparr>"
    have bn: "rs_bodyBuffer r = None" using assms(2) Some by (simp add: length_inv_def)
    have "length_inv E n head data ?q1" "length_inv E n head data ?q2" using q Some bn by (auto simp: length_inv_def wire_def)
    then have "length_inv E n head (data @ d) (fst (append_response_body E n d ?q1))" "length_inv E n head (data @ d) (fst (append_response_body E n d ?q2))"
      by (auto intro!: append_response_body_length [OF assms(1)])
    then show ?thesis
      using p e contentLength_inv [OF h assms(3)] Some assms(1,3,5) by (simp add: Response_Write_def Let_def conn_write_ok)
  qed
qed

lemma flush_part_ok:
  "takes_all E \<Longrightarrow> flush_part E buf put r =
     (if opt_bytes buf = [] then r else put (Some []) (r\<lparr>rs_sent := rs_sent r @ [opt_bytes buf]\<rparr>))"
  by (auto simp: flush_part_def conn_write_ok split: option.split list.split)

lemma Flush_length_inv:
  assumes "takes_all E" "length_inv E n head data r"
  shows "length_inv E n head data (Response_Flush E r)"
proof -
  have p: "checkChunked (WriteHeader E 200 r) = r" "eoncodeHead E r = r" "\<not> rs_hijacked r" "hasConn E"
    using assms by (auto simp: length_inv_def prepared_prep takes_all_def)
  show ?thesis using assms p
    by (auto simp: Response_Flush_def Let_def flush_part_ok length_inv_def wire_def)
qed

lemma flush_plain_wire:
  assumes "takes_all E"
  shows "concat (rs_sent (fst (flush_plain E r))) = wire r" "snd (flush_plain E r)"
  using assms by (auto simp: flush_plain_def Let_def conn_write_ok wire_def split: option.split)

lemma flushResponse_prepared:
  assumes "prepared E r" "rs_headEncoded r" "\<not> rs_hijacked r" "takes_all E" "\<not> rs_chunked r"
  shows "concat (rs_sent (fst (flushResponse E u r))) = wire r"
  using assms flush_plain_wire [OF assms(4), of r]
  by (auto simp: flushResponse_def prepared_prep response_flush_def takes_all_def split: prod.splits bool.splits)

text \<open>The first call that matters finds the head not encoded yet; it acts as on the response with the head encoded.\<close>

lemma head_bytes_contentLen: "head_bytes E (r\<lparr>rs_contentLen := n\<rparr>) = head_bytes E r"
  by (simp add: head_bytes_def status_line_bytes_def Let_def)

lemma eoncodeHead_contentLen: "eoncodeHead E (r\<lparr>rs_contentLen := n\<rparr>) = (eoncodeHead E r)\<lparr>rs_contentLen := n\<rparr>"
  by (simp add: eoncodeHead_def head_bytes_contentLen)

lemma prep_fields [simp]:
  "rs_hijacked (prep E r) = rs_hijacked r" "rs_headEncoded (prep E r) = rs_headEncoded r" "rs_buffer (prep E r) = rs_buffer r"
  "rs_bodyBuffer (prep E r) = rs_bodyBuffer r" "rs_sent (prep E r) = rs_sent r" "rs_contentLen (prep E r) = rs_contentLen r"
  "rs_bodyWritten (prep E r) = rs_bodyWritten r" "rs_uaf (prep E r) = rs_uaf r" "rs_hasBody (prep E r) = rs_hasBody r"
  "rs_request (prep E r) = rs_request r" "rs_trailer (prep E r) = rs_trailer r"
  by (simp_all add: prep_def)

lemma encoded_prep: "prep E (encoded E b r) = encoded E b r" "(encoded E b r)\<lparr>rs_hasBody := b\<rparr> = encoded E b r"
proof -
  have "prepared E (encoded E b r)" by (simp add: encoded_def prep_prepared)
  then show "prep E (encoded E b r) = encoded E b r" unfolding prep_def by (rule prepared_prep)
  show "(encoded E b r)\<lparr>rs_hasBody := b\<rparr> = encoded E b r" by (simp add: encoded_def)
qed

lemma writeChunk_encodes: "writeChunk E d r = writeChunk E d (eoncodeHead E r)"
  by (simp add: writeChunk_def)

lemma Write_encoded_chunked:
  assumes "d \<noteq> []" "hasConn E" "rs_chunked (prep E r)"
  shows "Response_Write E d r = Response_Write E d (encoded E True r)"
proof -
  have "rs_chunked (encoded E True r)" using assms(3) by (simp add: encoded_def)
  then show ?thesis using assms encoded_prep [where E = E and b = True and r = r] writeChunk_encodes [of E d "(prep E r)\<lparr>rs_hasBody := True\<rparr>"]
    by (simp add: Response_Write_def Let_def prep_def [symmetric] encoded_def [symmetric])
qed

lemma Write_encoded_length:
  assumes "d \<noteq> []" "hasConn E" "\<not> rs_chunked (prep E r)" "rs_contentLen r = 0"
    and "ParseInt 10 64 (Header_Get (rs_header (prep E r)) contentLengthHeader) = Some n" "n > 0"
  shows "Response_Write E d r = Response_Write E d (encoded E True r) \<or> rs_bodyWritten r + int (length d) > n"
proof -
  have ne: "Header_Get (rs_header (prep E r)) contentLengthHeader \<noteq> []" using assms(5) by (auto simp: ParseInt_def parse_unsigned_def)
  have c1: "contentLength ((prep E r)\<lparr>rs_hasBody := True\<rparr>) = ((prep E r)\<lparr>rs_hasBody := True, rs_contentLen := n\<rparr>, Inr n)"
    using assms ne by (simp add: contentLength_def)
  have c2: "contentLength (encoded E True r) = ((encoded E True r)\<lparr>rs_contentLen := n\<rparr>, Inr n)"
    using assms ne by (simp add: contentLength_def encoded_def)
  have ch: "\<not> rs_chunked (encoded E True r)" "rs_headEncoded (encoded E True r)" "rs_bodyWritten (encoded E True r) = rs_bodyWritten r" using assms(3) by (simp_all add: encoded_def)
  have e: "eoncodeHead E ((prep E r)\<lparr>rs_hasBody := True, rs_contentLen := n\<rparr>) = (encoded E True r)\<lparr>rs_contentLen := n\<rparr>"
    by (simp add: encoded_def eoncodeHead_contentLen)
  show ?thesis using assms(1,2,3,6) ch encoded_prep [where E = E and b = True and r = r] c1 c2 e
    by (simp add: Response_Write_def Let_def prep_def [symmetric])
qed

lemma handler_step_simps [simp]:
  "handler_step E (HWrite d) r = fst (Response_Write E d r)" "handler_step E HFlush r = Response_Flush E r"
  by (simp_all add: handler_step_def)

lemma Write_Nil [simp]: "Response_Write E [] r = (r, 0, None)"
  by (simp add: Response_Write_def)

lemma prep_hasBody: "(prep E r)\<lparr>rs_hasBody := rs_hasBody r\<rparr> = prep E r"
proof -
  have "(prep E r)\<lparr>rs_hasBody := rs_hasBody (prep E r)\<rparr> = prep E r" by (rule response.equality) simp_all
  then show ?thesis by simp
qed

lemma encoded_same: "eoncodeHead E (prep E r) = encoded E (rs_hasBody r) r"
  by (simp add: encoded_def prep_hasBody)

lemma Flush_encoded: "\<not> rs_hijacked r \<Longrightarrow> hasConn E \<Longrightarrow> Response_Flush E r = Response_Flush E (encoded E (rs_hasBody r) r)"
  unfolding Response_Flush_def prep_def [symmetric] encoded_same encoded_prep(1) by (simp add: encoded_def)

lemma flushResponse_encoded:
  "\<not> rs_hijacked r \<Longrightarrow> hasConn E \<Longrightarrow> flushResponse E u r = flushResponse E u (encoded E (rs_hasBody r) r)"
  unfolding flushResponse_def prep_def [symmetric] encoded_same encoded_prep(1) by (simp add: encoded_def)

lemma fresh_fields:
  assumes "fresh_response r"
  shows "\<not> rs_hijacked r" "rs_buffer r = None" "rs_bodyBuffer r = None" "rs_sent r = []" "rs_contentLen r = 0" "rs_bodyWritten r = 0"
    "\<not> rs_hasBody r" "\<not> rs_headEncoded r" "\<not> rs_chunkChecked r" "\<not> rs_chunked r" "\<not> rs_uaf r" "rs_trailer r = []"
  using assms unfolding fresh_response_def NewResponse_def by (metis response.select_convs response.update_convs)+

lemma encoded_wire:
  assumes "fresh_response r"
  shows "wire (encoded E b r) = head_bytes E ((prep E r)\<lparr>rs_hasBody := b\<rparr>)" "rs_buffer (encoded E b r) \<noteq> None"
  using fresh_fields [OF assms] by (simp_all add: encoded_def eoncodeHead_def wire_def)

definition length_framed :: "int \<Rightarrow> response \<Rightarrow> bool" where
  "length_framed n r \<longleftrightarrow> fresh_response r \<and> n > 0 \<and> ParseInt 10 64 (Header_Get (rs_header r) contentLengthHeader) = Some n \<and>
     ''chunked'' \<notin> set (Header_values (rs_header r) transferEncodingHeader) \<and> Header_values (rs_header r) trailerHeader = []"

lemma length_framed_prep:
  assumes "length_framed n r"
  shows "rs_header (prep E r) = rs_header r" "\<not> rs_chunked (prep E r)"
proof -
  have ne: "Header_Get (rs_header r) contentLengthHeader \<noteq> []" using assms by (auto simp: length_framed_def ParseInt_def parse_unsigned_def)
  have h: "rs_header (WriteHeader E 200 r) = rs_header r" using assms by (auto simp: WriteHeader_def Let_def length_framed_def)
  have f: "\<not> rs_chunkChecked r" "\<not> rs_chunked r" using assms fresh_fields by (auto simp: length_framed_def)
  show "rs_header (prep E r) = rs_header r" "\<not> rs_chunked (prep E r)"
    using h f ne assms by (simp_all add: prep_def checkChunked_def Let_def length_framed_def)
qed

lemma length_start:
  assumes "length_framed n r"
  shows "length_inv E n (head_bytes E ((prep E r)\<lparr>rs_hasBody := b\<rparr>)) [] (encoded E b r)"
proof -
  have f: "fresh_response r" using assms by (simp add: length_framed_def)
  show ?thesis using fresh_fields [OF f] encoded_wire [OF f] length_framed_prep [OF assms, of E] assms
    by (simp add: length_inv_def encoded_def prep_prepared length_framed_def)
qed

lemma run_length:
  "takes_all E \<Longrightarrow> n > 0 \<Longrightarrow> length_inv E n head data r \<Longrightarrow> int (length data + length (handler_bytes cs)) \<le> n \<Longrightarrow>
   length_inv E n head (data @ handler_bytes cs) (fold (handler_step E) cs r)"
proof (induction cs arbitrary: data r rule: handler_bytes.induct)
  case (2 d cs)
  have "length_inv E n head (data @ d) (handler_step E (HWrite d) r)"
  proof (cases "d = []")
    case True
    then show ?thesis using 2(4) by simp
  next
    case False
    then show ?thesis using Write_length_inv [OF 2(2,4,3)] 2(5) by simp
  qed
  from 2(1) [OF 2(2,3) this] 2(5) show ?case by simp
next
  case (3 cs)
  have "length_inv E n head data (handler_step E HFlush r)" using Flush_length_inv [OF 3(2,4)] by simp
  from 3(1) [OF 3(2,3) this] 3(5) show ?case by simp
qed simp

text \<open>After the handler's calls: still untouched, or within the invariant.\<close>

lemma length_run_state:
  assumes "takes_all E" "length_framed n r" "int (length (handler_bytes cs)) \<le> n"
  shows "fold (handler_step E) cs r = r \<and> handler_bytes cs = [] \<and> \<not> starts_with_body cs \<or>
    length_inv E n (head_bytes E ((prep E r)\<lparr>rs_hasBody := starts_with_body cs\<rparr>)) (handler_bytes cs) (fold (handler_step E) cs r)"
  using assms(3)
proof (induction cs rule: starts_with_body.induct)
  case (2 d cs)
  show ?case
  proof (cases "d = []")
    case True
    then show ?thesis using 2 by simp
  next
    case False
    have f: "fresh_response r" and c: "hasConn E" using assms by (simp_all add: length_framed_def takes_all_def)
    have n: "n > 0" "ParseInt 10 64 (Header_Get (rs_header (prep E r)) contentLengthHeader) = Some n"
      using assms(2) length_framed_prep [OF assms(2)] by (auto simp: length_framed_def)
    have "\<not> rs_bodyWritten r + int (length d) > n" using 2(2) fresh_fields(6) [OF f] by simp
    then have w: "Response_Write E d r = Response_Write E d (encoded E True r)"
      using Write_encoded_length [OF False c length_framed_prep(2) [OF assms(2)] fresh_fields(5) [OF f] n(2,1)] by blast
    have "length_inv E n (head_bytes E ((prep E r)\<lparr>rs_hasBody := True\<rparr>)) (handler_bytes (HWrite d # cs)) (fold (handler_step E) (HWrite d # cs) (encoded E True r))"
      using run_length [OF assms(1) n(1) length_start [OF assms(2), where b = True], where cs = "HWrite d # cs"] 2(2) by simp
    then show ?thesis using w False by simp
  qed
next
  case (3 cs)
  have f: "fresh_response r" and c: "hasConn E" and n: "n > 0" using assms by (simp_all add: length_framed_def takes_all_def)
  have "length_inv E n (head_bytes E ((prep E r)\<lparr>rs_hasBody := False\<rparr>)) (handler_bytes cs) (fold (handler_step E) (HFlush # cs) (encoded E False r))"
    using run_length [OF assms(1) n length_start [OF assms(2), where b = False], where cs = "HFlush # cs"] 3 by simp
  then show ?case using Flush_encoded [OF fresh_fields(1) [OF f] c] fresh_fields(7) [OF f] by simp
qed simp

lemma run_length_fresh:
  assumes "takes_all E" "length_framed n r" "int (length (handler_bytes cs)) \<le> n"
  shows "concat (rs_sent (fst (serve E cs r))) = head_bytes E ((prep E r)\<lparr>rs_hasBody := starts_with_body cs\<rparr>) @ handler_bytes cs"
proof -
  note fl = flushResponse_prepared [OF _ _ _ assms(1)]
  have f: "fresh_response r" and c: "hasConn E" using assms by (simp_all add: length_framed_def takes_all_def)
  show ?thesis using length_run_state [OF assms]
  proof
    assume a: "fold (handler_step E) cs r = r \<and> handler_bytes cs = [] \<and> \<not> starts_with_body cs"
    have "concat (rs_sent (fst (flushResponse E False (encoded E False r)))) = head_bytes E ((prep E r)\<lparr>rs_hasBody := False\<rparr>)"
      using fl length_start [OF assms(2), of E False] by (auto simp: length_inv_def)
    then show ?thesis using a flushResponse_encoded [OF fresh_fields(1) [OF f] c] fresh_fields(7) [OF f] by (simp add: serve_def)
  next
    assume "length_inv E n (head_bytes E ((prep E r)\<lparr>rs_hasBody := starts_with_body cs\<rparr>)) (handler_bytes cs) (fold (handler_step E) cs r)"
    then show ?thesis using fl unfolding serve_def length_inv_def by metis
  qed
qed

lemma Write_too_long:
  assumes "hasConn E" "d \<noteq> []" "\<not> rs_chunked (prep E r)" "contentLength ((prep E r)\<lparr>rs_hasBody := True\<rparr>) = (q, Inr n)" "n > 0"
    and "rs_bodyWritten q + int (length d) > n"
  shows "Response_Write E d r = (q, 0, Some RsErrContentLength)"
  using assms by (simp add: Response_Write_def prep_def [symmetric])

lemma run_too_long:
  assumes "takes_all E" "length_framed n r" "int (length (handler_bytes cs)) \<le> n" "int (length (handler_bytes cs) + length d) > n" "d \<noteq> []"
  shows "\<exists>q. Response_Write E d (fold (handler_step E) cs r) = (q, 0, Some RsErrContentLength) \<and> wire q = wire (fold (handler_step E) cs r)"
proof -
  let ?r = "fold (handler_step E) cs r"
  have f: "fresh_response r" and c: "hasConn E" and n: "n > 0" using assms by (simp_all add: length_framed_def takes_all_def)
  have "\<not> rs_chunked (prep E ?r) \<and> contentLength ((prep E ?r)\<lparr>rs_hasBody := True\<rparr>) = ((prep E ?r)\<lparr>rs_hasBody := True, rs_contentLen := n\<rparr>, Inr n) \<and>
      rs_bodyWritten ?r = int (length (handler_bytes cs))"
    using length_run_state [OF assms(1-3)]
  proof
    assume a: "?r = r \<and> handler_bytes cs = [] \<and> \<not> starts_with_body cs"
    have h: "ParseInt 10 64 (Header_Get (rs_header (prep E r)) contentLengthHeader) = Some n" "Header_Get (rs_header (prep E r)) contentLengthHeader \<noteq> []"
      using assms(2) length_framed_prep(1) [OF assms(2), of E] by (auto simp: length_framed_def ParseInt_def parse_unsigned_def)
    show ?thesis using a h fresh_fields [OF f] length_framed_prep(2) [OF assms(2), of E] by (simp add: contentLength_def)
  next
    assume i: "length_inv E n (head_bytes E ((prep E r)\<lparr>rs_hasBody := starts_with_body cs\<rparr>)) (handler_bytes cs) ?r"
    then have p: "prep E ?r = ?r" by (simp add: length_inv_def prep_def prepared_prep)
    have "length_inv E n (head_bytes E ((prep E r)\<lparr>rs_hasBody := starts_with_body cs\<rparr>)) (handler_bytes cs) (?r\<lparr>rs_hasBody := True\<rparr>)"
      using i by (auto simp: length_inv_def wire_def)
    from contentLength_inv [OF this n] show ?thesis using i p by (simp add: length_inv_def)
  qed
  then show ?thesis using Write_too_long [OF c assms(5), of ?r] n assms(4) by (simp add: wire_def)
qed

text \<open>A body copied from a reader follows the head; a limit that is used up sends nothing.\<close>

lemma ReadFrom_wire:
  assumes "takes_all E" "fresh_response r"
  shows "concat (rs_sent (fst (ReadFrom E ds s r))) = head_bytes E (r\<lparr>rs_hasBody := True\<rparr>) @ src_bytes s"
    "snd (ReadFrom E ds s r) = (length (src_bytes s), None)"
proof -
  have c: "hasConn E" using assms(1) by (simp add: takes_all_def)
  have z: "src_limit s = Some n \<Longrightarrow> n \<le> 0 \<Longrightarrow> src_bytes s = []" for n by (simp add: src_bytes_def)
  have b: "eoncodeHead E (r\<lparr>rs_hasBody := True\<rparr>) = (r\<lparr>rs_hasBody := True, rs_headEncoded := True, rs_trailer := trailer_values (rs_header r),
      rs_trailerSize := rs_trailerSize r + trailer_size (rs_header r), rs_buffer := Some (head_bytes E (r\<lparr>rs_hasBody := True\<rparr>))\<rparr>)"
    using fresh_fields(8) [OF assms(2)] by (simp add: eoncodeHead_def)
  show "concat (rs_sent (fst (ReadFrom E ds s r))) = head_bytes E (r\<lparr>rs_hasBody := True\<rparr>) @ src_bytes s"
    "snd (ReadFrom E ds s r) = (length (src_bytes s), None)"
    using b c z fresh_fields(4) [OF assms(2)] by (auto simp: ReadFrom_def Let_def conn_write_ok [OF assms(1)] split: option.split)
qed

text \<open>The framing by chunks, while everything fits into one packet.\<close>

lemma numMap_digit: "d < 16 \<Longrightarrow> numMap ! d = digit_char d"
proof -
  assume "d < 16"
  then have "d \<in> set [0..<16]" by simp
  moreover have "list_all (\<lambda>d. numMap ! d = digit_char d) [0..<16]" by code_simp
  ultimately show ?thesis by (simp add: list_all_iff)
qed

lemma formatInt_loop_FormatInt: "2 \<le> base \<Longrightarrow> base \<le> 16 \<Longrightarrow> formatInt_loop base n acc = FormatInt base n @ acc"
proof (induction base n acc rule: formatInt_loop.induct)
  case (1 base n acc)
  have "n mod base < base" using 1(2) by simp
  then have m: "numMap ! (n mod base) = digit_char (n mod base)" using 1(3) by (intro numMap_digit) simp
  show ?case
  proof (cases "n div base = 0")
    case True
    then have "n < base" using 1(2) by (simp add: div_eq_0_iff)
    then show ?thesis using m True by (subst formatInt_loop.simps, subst FormatInt.simps) simp
  next
    case False
    then have "\<not> n < base" by auto
    then show ?thesis using m False 1(1) [OF refl refl] 1(2,3)
      by (subst formatInt_loop.simps, subst FormatInt.simps) simp
  qed
qed

lemma formatInt_FormatInt: "n \<le> 0x7FFFFFFF \<Longrightarrow> formatInt n 16 = FormatInt 16 n"
  by (simp add: formatInt_def formatInt_loop_FormatInt)

definition chunk_inv :: "resp_env \<Rightarrow> bytes \<Rightarrow> bytes list \<Rightarrow> response \<Rightarrow> bool" where
  "chunk_inv E head chunks r \<longleftrightarrow> prepared E r \<and> \<not> rs_hijacked r \<and> rs_chunked r \<and> rs_headEncoded r \<and> rs_trailer r = [] \<and>
     rs_buffer r \<noteq> None \<and> rs_bodyBuffer r = None \<and> \<not> rs_uaf r \<and> wire r = head @ concat (map print_chunk chunks)"

lemma length_print_chunk: "length (print_chunk d) = length (FormatInt 16 (length d)) + length d + 4"
  by (simp add: print_chunk_def)

lemma Write_chunk_inv:
  assumes "takes_all E" "chunk_inv E head chunks r" "d \<noteq> []"
    and "length head + length (concat (map print_chunk (chunks @ [d]))) < maxPacketSize"
  shows "chunk_inv E head (chunks @ [d]) (fst (Response_Write E d r))"
proof -
  have p: "checkChunked (WriteHeader E 200 r) = r" "rs_chunked r" "hasConn E" "rs_headEncoded r"
    using assms(1,2) by (auto simp: chunk_inv_def prepared_prep takes_all_def)
  obtain b where b: "rs_buffer r = Some b" using assms(2) by (auto simp: chunk_inv_def)
  have "length (wire r) = length head + length (concat (map print_chunk chunks))" using assms(2) by (simp add: chunk_inv_def)
  then have fits: "length b + length (print_chunk d) < maxPacketSize" using assms(4) b by (simp add: wire_def)
  then have small: "length d \<le> 0x7FFFFFFF" by (simp add: length_print_chunk maxPacketSize_def)
  have len: "length (formatInt (length d) 16) + length d + 4 + length b < maxPacketSize"
    using fits by (simp add: length_print_chunk formatInt_FormatInt [OF small])
  have "fst (Response_Write E d r) = r\<lparr>rs_hasBody := True, rs_buffer := Some (b @ print_chunk d)\<rparr>"
    using p b len assms(3) by (simp add: Response_Write_def Let_def writeChunk_def print_chunk_def formatInt_FormatInt [OF small] CRLF_def)
  then show ?thesis using assms(2) b by (auto simp: chunk_inv_def wire_def)
qed

lemma Flush_chunk_inv:
  assumes "takes_all E" "chunk_inv E head chunks r"
  shows "chunk_inv E head chunks (Response_Flush E r)"
proof -
  have p: "checkChunked (WriteHeader E 200 r) = r" "eoncodeHead E r = r" "\<not> rs_hijacked r" "hasConn E"
    using assms by (auto simp: chunk_inv_def prepared_prep takes_all_def)
  show ?thesis using assms p by (auto simp: Response_Flush_def Let_def flush_part_ok chunk_inv_def wire_def)
qed

lemma flushResponse_chunked:
  assumes "takes_all E" "chunk_inv E head chunks r"
  shows "concat (rs_sent (fst (flushResponse E u r))) = head @ print_chunks chunks \<and> \<not> rs_uaf (fst (flushResponse E u r))"
proof -
  have p: "checkChunked (WriteHeader E 200 r) = r" "eoncodeHead E r = r" "\<not> rs_hijacked r" "hasConn E" "rs_chunked r" "rs_trailer r = []"
      "rs_bodyBuffer r = None" "concat (rs_sent r) @ opt_bytes (rs_buffer r) = head @ concat (map print_chunk chunks)" "\<not> rs_uaf r"
    using assms by (auto simp: chunk_inv_def prepared_prep takes_all_def wire_def)
  have z: "FormatInt 16 0 = ''0''" by code_simp
  have "concat (rs_sent r) @ opt_bytes (rs_buffer r) @ x = head @ concat (map print_chunk chunks) @ x" for x
    using p(8) by (metis append.assoc)
  then show ?thesis using p z assms(1)
    by (simp add: flushResponse_def response_flush_def flush_chunked_def Let_def conn_write_ok print_chunks_def CRLF_def)
qed

definition chunk_framed :: "resp_env \<Rightarrow> response \<Rightarrow> bool" where
  "chunk_framed E r \<longleftrightarrow> fresh_response r \<and> Header_values (rs_header r) trailerHeader = [] \<and> rs_chunked (prep E r)"

lemma prep_trailer_values: "Header_values (rs_header (prep E r)) trailerHeader = Header_values (rs_header r) trailerHeader"
proof -
  have n: "trailerHeader \<noteq> contentLengthHeader" "trailerHeader \<noteq> transferEncodingHeader"
    by (simp_all add: trailerHeader_def contentLengthHeader_def transferEncodingHeader_def)
  have "Header_values (rs_header (WriteHeader E 200 r)) trailerHeader = Header_values (rs_header r) trailerHeader"
    using n by (auto simp: WriteHeader_def Let_def split: option.split)
  then show ?thesis using n by (simp add: prep_def checkChunked_def Let_def)
qed

lemma trailer_values_Nil: "Header_values h trailerHeader = [] \<Longrightarrow> trailer_values h = []"
proof -
  have "fold (\<lambda>(k, vv) t. if k \<in> fst ` set t \<and> vv \<noteq> [] then AList.update k (Header_Get h' (CanonicalHeaderKey k)) t else t) xs [] = []" for xs h'
    by (induction xs) auto
  then show "Header_values h trailerHeader = [] \<Longrightarrow> trailer_values h = []" by (simp add: trailer_values_def trailer_keys_def)
qed

lemma chunk_start:
  assumes "chunk_framed E r"
  shows "chunk_inv E (head_bytes E ((prep E r)\<lparr>rs_hasBody := b\<rparr>)) [] (encoded E b r)"
proof -
  have f: "fresh_response r" and t: "trailer_values (rs_header (prep E r)) = []"
    using assms prep_trailer_values by (auto simp: chunk_framed_def intro!: trailer_values_Nil)
  have "rs_trailer (encoded E b r) = []" using t fresh_fields(8) [OF f] by (simp add: encoded_def eoncodeHead_def)
  then show ?thesis using fresh_fields [OF f] encoded_wire [OF f] assms
    by (simp add: chunk_inv_def chunk_framed_def) (simp add: encoded_def prep_prepared)
qed

lemma run_chunk:
  "takes_all E \<Longrightarrow> chunk_inv E head chunks r \<Longrightarrow>
   length head + length (concat (map print_chunk (chunks @ handler_chunks cs))) < maxPacketSize \<Longrightarrow>
   chunk_inv E head (chunks @ handler_chunks cs) (fold (handler_step E) cs r)"
proof (induction cs arbitrary: chunks r rule: handler_chunks.induct)
  case (2 d cs)
  show ?case
  proof (cases "d = []")
    case True
    then show ?thesis using 2(1) [of chunks r] 2(3,4,5) by simp
  next
    case False
    have "chunk_inv E head (chunks @ [d]) (handler_step E (HWrite d) r)"
      using Write_chunk_inv [OF 2(3,4) False] 2(5) False by simp
    from 2(2) [OF False 2(3) this] 2(5) False show ?thesis by simp
  qed
next
  case (3 cs)
  have "chunk_inv E head chunks (handler_step E HFlush r)" using Flush_chunk_inv [OF 3(2,3)] by simp
  from 3(1) [OF 3(2) this] 3(4) show ?case by simp
qed simp

lemma run_chunk_fresh:
  assumes "takes_all E" "chunk_framed E r"
    and "length (head_bytes E ((prep E r)\<lparr>rs_hasBody := starts_with_body cs\<rparr>)) + length (concat (map print_chunk (handler_chunks cs))) < maxPacketSize"
  shows "concat (rs_sent (fst (serve E cs r))) = head_bytes E ((prep E r)\<lparr>rs_hasBody := starts_with_body cs\<rparr>) @ print_chunks (handler_chunks cs) \<and>
    \<not> rs_uaf (fst (serve E cs r))"
  using assms(3)
proof (induction cs rule: starts_with_body.induct)
  case 1
  have f: "fresh_response r" and c: "hasConn E" using assms by (simp_all add: chunk_framed_def takes_all_def)
  from flushResponse_chunked [OF assms(1) chunk_start [OF assms(2), where b = False], of False] show ?case
    using flushResponse_encoded [OF fresh_fields(1) [OF f] c] fresh_fields(7) [OF f] by (simp add: serve_def)
next
  case (2 d cs)
  show ?case
  proof (cases "d = []")
    case True
    then show ?thesis using 2 by (simp add: serve_def)
  next
    case False
    have c: "hasConn E" and ch: "rs_chunked (prep E r)" using assms by (simp_all add: chunk_framed_def takes_all_def)
    have w: "Response_Write E d r = Response_Write E d (encoded E True r)" by (rule Write_encoded_chunked [OF False c ch])
    from flushResponse_chunked [OF assms(1) run_chunk [OF assms(1) chunk_start [OF assms(2), where b = True], where cs = "HWrite d # cs"], of False]
    show ?thesis using 2(2) False w by (simp add: serve_def)
  qed
next
  case (3 cs)
  have f: "fresh_response r" and c: "hasConn E" using assms by (simp_all add: chunk_framed_def takes_all_def)
  from flushResponse_chunked [OF assms(1) run_chunk [OF assms(1) chunk_start [OF assms(2), where b = False], where cs = "HFlush # cs"], of False]
  show ?case using 3 Flush_encoded [OF fresh_fields(1) [OF f] c] fresh_fields(7) [OF f] by (simp add: serve_def)
qed

end
