(* ===== verification/ResponseProps.thy ===== *)
theory ResponseProps
  imports ResponseInv
begin

text \<open>What a handler's response is on the wire.\<close>

definition clock_demo :: clock where
  "clock_demo = \<lparr>t_weekday = 1, t_year = 2024, t_month = 2, t_day = 5, t_hour = 7, t_min = 8, t_sec = 9\<rparr>"

definition resp_demo :: resp_env where
  "resp_demo = \<lparr>StatusText = (\<lambda>c. if c = 200 then ''OK'' else []), connTakes = (\<lambda>s b. True), stale = (\<lambda>n. replicate n (CHR ''?'')), now = clock_demo,
     hasConn = True, KeepaliveTime = 120\<rparr>"

definition req_demo :: http_request where
  "req_demo = emptyRequest\<lparr>Proto := ''HTTP/1.1'', ProtoMajor := 1, ProtoMinor := 1\<rparr>"

definition hello_demo :: response where
  "hello_demo = (NewResponse req_demo)\<lparr>rs_header := [(contentLengthHeader, [''5''])]\<rparr>"

text \<open>
  C10: A response with a content length. For a handler that announced \<open>n\<close> bytes and writes at most \<open>n\<close>, in any pieces (also
  pieces larger than a packet) and with any flushes in between, on a connection that takes what it is given, the connection
  gets the encoded head and then exactly the written bytes, in order and once; the head carries the announced
  length, and no buffer is used after it was given back.
\<close>
theorem response_with_length:
  assumes "takes_all E" "length_framed n r" "int (length (handler_bytes cs)) \<le> n"
  shows "concat (rs_sent (fst (serve E cs r))) = head_bytes E ((prep E r)\<lparr>rs_hasBody := starts_with_body cs\<rparr>) @ handler_bytes cs \<and>
    Header_values (rs_header (prep E r)) contentLengthHeader = Header_values (rs_header r) contentLengthHeader"
  using run_length_fresh [OF assms] length_framed_prep [OF assms(2)] by simp

theorem response_with_length_witness:
  "concat (rs_sent (fst (serve resp_demo [HWrite ''he'', HFlush, HWrite ''llo''] hello_demo))) =
   ''HTTP/1.1 200 OK'' @ CRLF @ ''Content-Type: text/plain; charset=utf-8'' @ CRLF @ ''Date: Mon, 05 Feb 2024 07:08:09 GMT'' @ CRLF @
   ''Content-Length: 5'' @ CRLF @ CRLF @ ''hello''"
proof -
  have "takes_all resp_demo" by (simp add: takes_all_def resp_demo_def)
  moreover have "length_framed 5 hello_demo" by code_simp
  moreover have "int (length (handler_bytes [HWrite ''he'', HFlush, HWrite ''llo''])) \<le> 5" by code_simp
  moreover have "head_bytes resp_demo ((prep resp_demo hello_demo)\<lparr>rs_hasBody := starts_with_body [HWrite ''he'', HFlush, HWrite ''llo'']\<rparr>) =
      ''HTTP/1.1 200 OK'' @ CRLF @ ''Content-Type: text/plain; charset=utf-8'' @ CRLF @ ''Date: Mon, 05 Feb 2024 07:08:09 GMT'' @ CRLF @
      ''Content-Length: 5'' @ CRLF @ CRLF" by code_simp
  moreover have "handler_bytes [HWrite ''he'', HFlush, HWrite ''llo''] = ''hello''" by simp
  ultimately show ?thesis using response_with_length [of resp_demo 5 hello_demo "[HWrite ''he'', HFlush, HWrite ''llo'']"] by simp
qed

text \<open>
  C18: A response in chunks. For a handler that announced no length to an HTTP/1.1 client (or asked for chunks), and whose
  output fits into one packet, the connection gets the encoded head and then the chunked encoding of RFC 7230 of the
  pieces written, one chunk per non-empty write, closed by the empty chunk: the same encoding that the parser of this
  repository decodes; flushes in between change nothing, and no buffer is used after it was given back.
\<close>
theorem response_chunked:
  assumes "takes_all E" "chunk_framed E r"
    and "length (head_bytes E ((prep E r)\<lparr>rs_hasBody := starts_with_body cs\<rparr>)) + length (concat (map print_chunk (handler_chunks cs))) < maxPacketSize"
  shows "concat (rs_sent (fst (serve E cs r))) = head_bytes E ((prep E r)\<lparr>rs_hasBody := starts_with_body cs\<rparr>) @ print_chunks (handler_chunks cs) \<and>
    \<not> rs_uaf (fst (serve E cs r))"
  using assms by (rule run_chunk_fresh)

theorem response_chunked_witness:
  "concat (rs_sent (fst (serve resp_demo [HFlush, HWrite ''hello'', HWrite ''!''] (NewResponse req_demo)))) =
   ''HTTP/1.1 200 OK'' @ CRLF @ ''Date: Mon, 05 Feb 2024 07:08:09 GMT'' @ CRLF @ ''Transfer-Encoding: chunked'' @ CRLF @ CRLF @
   ''5'' @ CRLF @ ''hello'' @ CRLF @ ''1'' @ CRLF @ ''!'' @ CRLF @ ''0'' @ CRLF @ CRLF"
proof -
  let ?cs = "[HFlush, HWrite ''hello'', HWrite ''!'']"
  have t: "takes_all resp_demo" by (simp add: takes_all_def resp_demo_def)
  have f: "chunk_framed resp_demo (NewResponse req_demo)" by code_simp
  have h: "head_bytes resp_demo ((prep resp_demo (NewResponse req_demo))\<lparr>rs_hasBody := starts_with_body ?cs\<rparr>) =
      ''HTTP/1.1 200 OK'' @ CRLF @ ''Date: Mon, 05 Feb 2024 07:08:09 GMT'' @ CRLF @ ''Transfer-Encoding: chunked'' @ CRLF @ CRLF" by code_simp
  have c: "print_chunks (handler_chunks ?cs) = ''5'' @ CRLF @ ''hello'' @ CRLF @ ''1'' @ CRLF @ ''!'' @ CRLF @ ''0'' @ CRLF @ CRLF" by code_simp
  have l: "length (head_bytes resp_demo ((prep resp_demo (NewResponse req_demo))\<lparr>rs_hasBody := starts_with_body ?cs\<rparr>)) +
      length (concat (map print_chunk (handler_chunks ?cs))) < maxPacketSize" unfolding h by code_simp
  from response_chunked [OF t f l] show ?thesis unfolding h c by simp
qed



text \<open>
  The head and a chunk larger than a packet are sent with two writes, the second of which leaves no buffer behind; the next
  small chunk is then appended to a new buffer that was not cut to length zero, so the client gets whatever bytes that
  memory held in front of the chunk. On the way the first buffer is used after it was given back.
\<close>
theorem response_stale_bytes:
  assumes "takes_all E" "chunk_framed E r" "maxPacketSize \<le> length big" "length big \<le> 0x7FFFFFFF"
    and "small \<noteq> []" "length (print_chunk small) < maxPacketSize"
  shows "concat (rs_sent (fst (serve E [HWrite big, HWrite small] r))) =
      head_bytes E ((prep E r)\<lparr>rs_hasBody := True\<rparr>) @ print_chunk big @ stale E (length (print_chunk small)) @ print_chunks [small] \<and>
    rs_uaf (fst (serve E [HWrite big, HWrite small] r))"
proof -
  let ?h = "head_bytes E ((prep E r)\<lparr>rs_hasBody := True\<rparr>)"
  let ?e = "encoded E True r"
  have ne: "big \<noteq> []" using assms(3) by (auto simp: maxPacketSize_def)
  have c: "hasConn E" and ch: "rs_chunked (prep E r)" and f: "fresh_response r" using assms(1,2) by (simp_all add: chunk_framed_def takes_all_def)
  have i: "chunk_inv E ?h [] ?e" by (rule chunk_start [OF assms(2)])
  have p: "checkChunked (WriteHeader E 200 ?e) = ?e" "rs_chunked ?e" "rs_headEncoded ?e" "rs_hasBody ?e" "\<not> rs_hijacked ?e" "rs_trailer ?e = []" "rs_bodyBuffer ?e = None"
    using i by (auto simp: chunk_inv_def prepared_prep) (simp add: encoded_def)
  have b: "rs_buffer ?e = Some ?h" "rs_sent ?e = []" using fresh_fields [OF f] by (simp_all add: encoded_def eoncodeHead_def)
  have sm: "length small \<le> 0x7FFFFFFF" using assms(6) by (simp add: length_print_chunk maxPacketSize_def)
  let ?r1 = "?e\<lparr>rs_buffer := None, rs_sent := [?h @ formatInt (length big) 16 @ CRLF, big @ CRLF], rs_uaf := True\<rparr>"
  have w1: "handler_step E (HWrite big) r = ?r1"
    using p b assms(1,3) c ne Write_encoded_chunked [OF ne c ch]
    by (simp add: Response_Write_def Let_def writeChunk_def conn_write_ok)
  let ?r2 = "?r1\<lparr>rs_buffer := Some (stale E (length (print_chunk small)) @ print_chunk small)\<rparr>"
  have pr: "prepared E ?r1" using i by (simp add: chunk_inv_def prepared_def WriteHeader_settled header_settled_def)
  have pc: "FormatInt 16 (length small) @ CRLF @ small @ CRLF = print_chunk small" by (simp add: print_chunk_def CRLF_def)
  have len: "length (FormatInt 16 (length small)) + length small + 4 = length (print_chunk small)" by (simp add: length_print_chunk)
  have hb: "?r1\<lparr>rs_hasBody := True\<rparr> = ?r1" using p(4) by (intro response.equality) simp_all
  have w2: "handler_step E (HWrite small) ?r1 = ?r2"
  proof -
    have "fst (writeChunk E small ?r1) = ?r2"
      using p(3) assms(6) by (simp add: writeChunk_def Let_def formatInt_FormatInt [OF sm] pc len)
    then show ?thesis using p(2) assms(5) c hb prepared_prep [OF pr] by (simp add: Response_Write_def Let_def)
  qed
  have z: "FormatInt 16 0 = ''0''" by code_simp
  have "prepared E ?r2" using pr by simp
  then have "serve E [HWrite big, HWrite small] r = flushResponse E False ?r2" "checkChunked (WriteHeader E 200 ?r2) = ?r2"
    using w1 w2 prepared_prep by (simp_all add: serve_def del: handler_step_simps)
  then show ?thesis using p(2,3,5,6,7) c assms(1) z
    by (simp add: flushResponse_def response_flush_def flush_chunked_def Let_def conn_write_ok print_chunks_def print_chunk_def CRLF_def
        formatInt_FormatInt [OF assms(4)])
qed

end
