(* ===== verification/HttpReply.thy ===== *)
theory HttpReply
  imports HttpRoundtrip
begin

text \<open>
  The client's side of the parser: \<open>print_reply\<close> writes a response the way RFC 7230 frames it, \<open>deliver_reply\<close> is the sequence
  of callbacks it calls for. The parser keeps only the first word of the reason phrase.
\<close>

record reply =
  rp_proto :: string
  rp_code :: nat
  rp_reason :: string
  rp_headers :: "(string \<times> string) list"
  rp_body :: msg_body

definition print_status :: "reply \<Rightarrow> bytes" where
  "print_status r = rp_proto r @ [SP] @ FormatInt 10 (rp_code r) @ [SP] @ rp_reason r @ [CR, LF]"

definition print_reply :: "reply \<Rightarrow> bytes" where
  "print_reply r = print_status r @ concat (map print_header (rp_headers r)) @ [CR, LF] @ print_body (rp_body r)"

definition first_word :: "string \<Rightarrow> string" where
  "first_word s = takeWhile (\<lambda>c. c \<noteq> SP) s"

text \<open>The header lines that frame the body; they may stand anywhere among the others.\<close>

definition framing_lines :: "(string \<times> string) list \<Rightarrow> (string \<times> string) list" where
  "framing_lines hs = map (\<lambda>h. (CanonicalHeaderKey (fst h), snd h)) (filter (\<lambda>h. CanonicalHeaderKey (fst h) \<in> framing) hs)"

definition wf_reply :: "reply \<Rightarrow> bool" where
  "wf_reply r \<longleftrightarrow> rp_proto r \<noteq> [] \<and> hd (rp_proto r) = CHR ''H'' \<and> SP \<notin> set (rp_proto r) \<and>
     int (rp_code r) < 2 ^ 62 \<and> rp_reason r \<noteq> [] \<and> isAlpha (hd (rp_reason r)) \<and> CR \<notin> set (rp_reason r) \<and>
     list_all wf_header (rp_headers r) \<and> framing_lines (rp_headers r) = framing_headers (rp_body r) \<and> wf_body (rp_body r)"

definition deliver_reply_head :: "('ps, 'u) penv \<Rightarrow> reply \<Rightarrow> 'ps \<Rightarrow> 'ps option" where
  "deliver_reply_head E r ps =
     (case OnProto E (rp_proto r) ps of
        (ps1, None) \<Rightarrow> deliver_body E (rp_body r)
          (fold (deliver_header E) (rp_headers r) (OnStatus E (int (rp_code r)) (first_word (rp_reason r)) ps1))
      | _ \<Rightarrow> None)"

definition deliver_reply :: "('ps, 'u) penv \<Rightarrow> reply \<Rightarrow> 'ps \<Rightarrow> 'ps option" where
  "deliver_reply E r ps = map_option (\<lambda>ps'. fst (OnComplete E ps')) (deliver_reply_head E r ps)"

fun deliver_replies :: "('ps, 'u) penv \<Rightarrow> reply list \<Rightarrow> 'ps \<Rightarrow> 'ps option" where
  "deliver_replies E [] ps = Some ps"
| "deliver_replies E (r # rs) ps = (case deliver_reply E r ps of None \<Rightarrow> None | Some ps' \<Rightarrow> deliver_replies E rs ps')"

lemma digit_isNum: "d < 10 \<Longrightarrow> isNum (digit_char d) \<and> digit_char d \<noteq> SP"
proof -
  have sp: "\<not> is_digit SP" by code_simp
  assume "d < 10"
  then have "is_digit (digit_char d)" by (auto simp: digit_char_def is_digit_def)
  then show ?thesis using sp by (auto simp: isNum_iff)
qed

lemma FormatInt_isNum: "c \<in> set (FormatInt 10 n) \<Longrightarrow> isNum c \<and> c \<noteq> SP"
  using FormatInt_digits [of 10 c n] digit_isNum by auto

lemma isAlpha_neq: "isAlpha c \<Longrightarrow> c \<noteq> SP \<and> c \<noteq> CR"
proof -
  have "\<not> isAlpha SP" "\<not> isAlpha CR" by code_simp+
  then show "isAlpha c \<Longrightarrow> c \<noteq> SP \<and> c \<noteq> CR" by auto
qed

text \<open>The version, up to and including the space.\<close>

lemma client_proto_loop:
  assumes "p_state p = stateClientProtoBefore" "p_ParserCloser p = None" "p_proto p = []"
    and "v \<noteq> []" "hd v = CHR ''H''" "SP \<notin> set v" "OnProto E v (p_Processor p) = (ps, None)"
  shows "parse_loop E (v @ SP # tl_d) 0 0 p = parse_loop E (v @ SP # tl_d) (Suc (length v)) 0 (p\<lparr>p_Processor := ps, p_state := stateStatusCodeBefore\<rparr>)"
proof -
  let ?d = "v @ SP # tl_d" let ?p = "p\<lparr>p_state := stateClientProto\<rparr>"
  have "parse_loop E ?d 0 0 p = parse_loop E ?d 1 0 ?p"
    using assms by (intro parse_loop_next) (auto simp: parse_step_def step_status_def nextState_def hd_conv_nth nth_append Let_def)
  also have "\<dots> = parse_loop E ?d (length v) 0 ?p"
    using assms by (intro parse_loop_scan) (auto simp: parse_step_def step_status_def nth_append Let_def Suc_le_eq in_set_conv_nth)
  also have "\<dots> = parse_loop E ?d (Suc (length v)) 0 (p\<lparr>p_Processor := ps, p_state := stateStatusCodeBefore\<rparr>)"
    using assms by (intro parse_loop_next) (auto simp: parse_step_def step_status_def nth_append Let_def nextState_def)
  finally show ?thesis .
qed

text \<open>The code, from anywhere in the data.\<close>

lemma status_code_loop:
  fixes pre n tl_d defines "d \<equiv> pre @ FormatInt 10 n @ SP # tl_d"
  assumes "p_state p = stateStatusCodeBefore" "p_ParserCloser p = None" "int n < 2 ^ 62"
  shows "parse_loop E d (length pre) s p =
    parse_loop E d (length pre + Suc (length (FormatInt 10 n))) (length pre) (p\<lparr>p_statusCode := int n, p_state := stateStatusBefore\<rparr>)"
proof -
  let ?c = "FormatInt 10 n" let ?p = "p\<lparr>p_state := stateStatusCode\<rparr>"
  have dig: "j < length ?c \<Longrightarrow> d ! (length pre + j) = ?c ! j \<and> isNum (?c ! j) \<and> ?c ! j \<noteq> SP" for j
    using FormatInt_isNum [of "?c ! j" n] by (auto simp: d_def nth_append)
  have len: "length d > length pre + length ?c" "0 < length ?c" by (simp_all add: d_def)
  have sp: "d ! (length pre + length ?c) = SP" by (simp add: d_def nth_append)
  have tok: "go_slice d (length pre) (length pre + length ?c) = ?c" by (simp add: d_def go_slice_def)
  have pi: "ParseInt 10 64 ?c = Some (int n)" using assms(4) by (intro ParseInt_FormatInt) auto
  have "parse_loop E d (length pre) s p = parse_loop E d (Suc (length pre)) (length pre) ?p"
    using assms dig [of 0] len by (intro parse_loop_next) (auto simp: parse_step_def step_status_def nextState_def Let_def)
  also have "\<dots> = parse_loop E d (length pre + length ?c) (length pre) ?p"
  proof (rule parse_loop_scan)
    fix j assume "Suc (length pre) \<le> j" "j < length pre + length ?c"
    then show "parse_step E d j (length pre) ?p = Next ?p (length pre) (Suc j)"
      using dig [of "j - length pre"] by (auto simp: parse_step_def step_status_def Let_def)
  qed (use assms len in \<open>auto simp: Suc_le_eq\<close>)
  also have "\<dots> = parse_loop E d (length pre + Suc (length ?c)) (length pre) (p\<lparr>p_statusCode := int n, p_state := stateStatusBefore\<rparr>)"
    using assms len sp tok pi by (intro parse_loop_next) (auto simp: parse_step_def step_status_def Let_def nextState_def)
  finally show ?thesis .
qed

text \<open>The reason phrase and the end of the line.\<close>

lemma reason_loop:
  fixes pre w tl_d defines "d \<equiv> pre @ w @ CR # LF # tl_d"
  assumes "p_state p = stateStatusBefore" "p_ParserCloser p = None" "p_status p = []" "w \<noteq> []" "isAlpha (hd w)" "CR \<notin> set w"
  shows "parse_loop E d (length pre) s p = parse_loop E d (length pre + length w + 2) (length pre)
    (p\<lparr>p_Processor := OnStatus E (p_statusCode p) (first_word w) (p_Processor p), p_statusCode := 0, p_state := stateHeaderKeyBefore\<rparr>)"
proof -
  let ?n = "length pre"
  let ?p = "p\<lparr>p_state := stateStatus\<rparr>" let ?p1 = "?p\<lparr>p_status := first_word w\<rparr>"
  let ?q = "p\<lparr>p_Processor := OnStatus E (p_statusCode p) (first_word w) (p_Processor p), p_statusCode := 0, p_state := stateStatusLF\<rparr>"
  have len: "length d \<ge> ?n + length w + 2" "0 < length w" using assms(5) by (simp_all add: d_def)
  have nth: "j < length w \<Longrightarrow> d ! (?n + j) = w ! j" for j by (simp add: d_def nth_append)
  have cr: "d ! (?n + length w) = CR" "d ! Suc (?n + length w) = LF" by (simp_all add: d_def nth_append)
  have nocr: "j < length w \<Longrightarrow> w ! j \<noteq> CR" for j using assms(7) by (auto simp: in_set_conv_nth)
  have h: "w ! 0 \<noteq> SP" "isAlpha (w ! 0)" using assms(5,6) isAlpha_neq by (auto simp: hd_conv_nth)
  have fw: "first_word w \<noteq> []" using assms(5) h by (cases w) (auto simp: first_word_def)
  let ?k = "length (first_word w)"
  have k: "?k \<le> length w" "?k < length w \<Longrightarrow> w ! ?k = SP" "take ?k w = first_word w"
    unfolding first_word_def by (auto simp: length_takeWhile_le takeWhile_eq_take [symmetric] dest: nth_length_takeWhile)
  have k2: "w ! j \<noteq> SP" if "j < ?k" for j
    using that set_takeWhileD [of "first_word w ! j" "\<lambda>c. c \<noteq> SP" w] takeWhile_nth [of j "\<lambda>c. c \<noteq> SP" w] nth_mem [of j "first_word w"]
    by (auto simp: first_word_def)
  have "parse_loop E d ?n s p = parse_loop E d (Suc ?n) ?n ?p"
    using assms len h nth [of 0] by (intro parse_loop_next) (auto simp: parse_step_def step_status_def nextState_def Let_def)
  also have "\<dots> = parse_loop E d (?n + ?k) ?n ?p"
  proof (rule parse_loop_scan)
    fix j assume j: "Suc ?n \<le> j" "j < ?n + ?k"
    then show "parse_step E d j ?n ?p = Next ?p ?n (Suc j)"
      using nth [of "j - ?n"] nocr [of "j - ?n"] k(1) k2 [of "j - ?n"] by (auto simp: parse_step_def step_status_def Let_def)
  qed (use assms len k fw in \<open>auto simp: Suc_le_eq\<close>)
  also have "\<dots> = parse_loop E d (Suc (?n + length w)) ?n ?q"
  proof (cases "?k < length w")
    case False
    then have "?k = length w" "first_word w = w" using k by auto
    moreover have "go_slice d ?n (?n + length w) = w" by (simp add: d_def go_slice_def)
    ultimately show ?thesis
      using assms len cr by (intro parse_loop_next) (auto simp: parse_step_def step_status_def nextState_def Let_def)
  next
    case True
    have tok: "go_slice d ?n (?n + ?k) = first_word w" using k by (simp add: d_def go_slice_def)
    have "parse_loop E d (?n + ?k) ?n ?p = parse_loop E d (Suc (?n + ?k)) ?n ?p1"
      using assms len tok True nth [of ?k] k(2) by (intro parse_loop_next) (auto simp: parse_step_def step_status_def nextState_def Let_def)
    also have "\<dots> = parse_loop E d (?n + length w) ?n ?p1"
    proof (rule parse_loop_scan)
      fix j assume j: "Suc (?n + ?k) \<le> j" "j < ?n + length w"
      then show "parse_step E d j ?n ?p1 = Next ?p1 ?n (Suc j)"
        using nth [of "j - ?n"] nocr [of "j - ?n"] fw by (auto simp: parse_step_def step_status_def Let_def)
    qed (use assms len True in auto)
    also have "\<dots> = parse_loop E d (Suc (?n + length w)) ?n ?q"
      using assms len cr fw by (intro parse_loop_next) (auto simp: parse_step_def step_status_def nextState_def Let_def)
    finally show ?thesis .
  qed
  also have "\<dots> = parse_loop E d (?n + length w + 2) ?n (?q\<lparr>p_state := stateHeaderKeyBefore\<rparr>)"
    using assms len cr by (intro parse_loop_next) (auto simp: parse_step_def step_status_def nextState_def Let_def)
  finally show ?thesis by simp
qed

text \<open>At the start of a header line the token start does not matter.\<close>

lemma header_start:
  "p_state p = stateHeaderKeyBefore \<Longrightarrow> p_ParserCloser p = None \<Longrightarrow> i < length d \<Longrightarrow> d ! i \<noteq> SP \<Longrightarrow> parse_loop E d i s p = parse_loop E d i t p"
  by (subst (1 2) parse_loop.simps) (simp add: parse_step_def step_header_def Let_def)

lemma consumes_status:
  assumes p: "p_state p = stateClientProtoBefore" "p_ParserCloser p = None" "p_proto p = []" "p_status p = []" and wf: "wf_reply r"
    and op: "OnProto E (rp_proto r) (p_Processor p) = (ps, None)"
    and c: "consumes E d (p\<lparr>p_Processor := OnStatus E (int (rp_code r)) (first_word (rp_reason r)) ps, p_statusCode := 0, p_state := stateHeaderKeyBefore\<rparr>) q"
    and d: "d \<noteq> []" "hd d \<noteq> SP"
  shows "consumes E (print_status r @ d) p q"
proof -
  let ?v = "rp_proto r" let ?c = "FormatInt 10 (rp_code r)" let ?w = "rp_reason r" let ?D = "print_status r @ d"
  let ?p1 = "p\<lparr>p_Processor := ps, p_state := stateStatusCodeBefore\<rparr>"
  let ?p2 = "?p1\<lparr>p_statusCode := int (rp_code r), p_state := stateStatusBefore\<rparr>"
  let ?p3 = "p\<lparr>p_Processor := OnStatus E (int (rp_code r)) (first_word ?w) ps, p_statusCode := 0, p_state := stateHeaderKeyBefore\<rparr>"
  let ?a = "?v @ [SP]" let ?b = "?v @ [SP] @ ?c @ [SP]"
  have D: "?D = ?v @ SP # (?c @ SP # ?w @ CR # LF # d)" "?D = ?a @ ?c @ SP # (?w @ CR # LF # d)" "?D = ?b @ ?w @ CR # LF # d"
    by (simp_all add: print_status_def)
  have w: "?v \<noteq> []" "hd ?v = CHR ''H''" "SP \<notin> set ?v" "int (rp_code r) < 2 ^ 62" "?w \<noteq> []" "isAlpha (hd ?w)" "CR \<notin> set ?w"
    using wf by (auto simp: wf_reply_def)
  have 1: "parse_loop E ?D 0 0 p = parse_loop E ?D (length ?a) 0 ?p1"
    unfolding D(1) using client_proto_loop [OF p(1-3) w(1-3) op] by simp
  have 2: "parse_loop E ?D (length ?a) 0 ?p1 = parse_loop E ?D (length ?b) (length ?a) ?p2"
    unfolding D(2) using status_code_loop [of ?p1 "rp_code r" E ?a _ 0] p(2) w(4) by simp
  have 3: "parse_loop E ?D (length ?b) (length ?a) ?p2 = parse_loop E ?D (length ?b + length ?w + 2) (length ?b) ?p3"
    unfolding D(3) using reason_loop [of ?p2 ?w E ?b] p(2,4) w(5-7) by simp
  have l: "length ?b + length ?w + 2 = length (print_status r)" by (simp add: print_status_def)
  have "?D ! length (print_status r) = hd d" using d(1) by (simp add: nth_append hd_conv_nth)
  then have 4: "parse_loop E ?D (length (print_status r)) (length ?b) ?p3 = parse_loop E ?D (length (print_status r)) (length (print_status r)) ?p3"
    using d p(2) by (intro header_start) auto
  have "parse_loop E ?D 0 0 p = parse_loop E ?D (length (print_status r)) (length (print_status r)) ?p3" using 1 2 3 4 l by simp
  also have "\<dots> = map_loop id ((+) (length (print_status r))) (parse_loop E d 0 0 ?p3)"
    using parse_loop_shift [of E ?D "length (print_status r)" 0 0 ?p3] by simp
  finally show ?thesis using c p(1) by (simp add: consumes_def body_len_def)
qed

lemma reply_lines:
  assumes "wf_reply r"
  shows "\<forall>h \<in> set (rp_headers r). wf_header h"
    "x \<noteq> [] \<Longrightarrow> hd x \<noteq> SP \<Longrightarrow> concat (map print_header (rp_headers r)) @ x \<noteq> [] \<and>
       hd (concat (map print_header (rp_headers r)) @ x) \<noteq> SP"
proof -
  show wf: "\<forall>h \<in> set (rp_headers r). wf_header h"
    using assms by (auto simp: wf_reply_def list_all_iff)
  have "\<forall>h \<in> set hs. wf_header h \<Longrightarrow> x \<noteq> [] \<Longrightarrow> hd x \<noteq> SP \<Longrightarrow> concat (map print_header hs) @ x \<noteq> [] \<and> hd (concat (map print_header hs) @ x) \<noteq> SP" for hs
    using isToken_neq by (cases hs) (auto simp: print_header_def wf_header_def list_all_iff hd_append neq_Nil_conv)
  with wf show "x \<noteq> [] \<Longrightarrow> hd x \<noteq> SP \<Longrightarrow> concat (map print_header (rp_headers r)) @ x \<noteq> [] \<and>
       hd (concat (map print_header (rp_headers r)) @ x) \<noteq> SP" by blast
qed

lemma fold_framing:
  assumes "framing_lines hs = framing_headers b"
  shows "fold (\<lambda>h hd. if CanonicalHeaderKey (fst h) \<in> framing
        then Header_Add hd (CanonicalHeaderKey (fst h)) (snd h) else hd) hs [] = body_header b"
proof -
  have "fold (\<lambda>h hd. if CanonicalHeaderKey (fst h) \<in> framing then Header_Add hd (CanonicalHeaderKey (fst h)) (snd h) else hd) hs a =
      fold (\<lambda>h hd. Header_Add hd (fst h) (snd h)) (framing_lines hs) a" for a
    by (induction hs arbitrary: a) (simp_all add: framing_lines_def)
  then show ?thesis using assms by (cases b) (simp_all add: Header_Add_def)
qed

text \<open>Everything up to the blank line, which is where a message without a body completes.\<close>

lemma consumes_reply_headers:
  assumes p: "at_boundary True p" and wf: "wf_reply r" and op: "OnProto E (rp_proto r) (p_Processor p) = (ps, None)"
    and d: "d \<noteq> []" "hd d \<noteq> SP"
    and c: "\<And>q. idle True q \<Longrightarrow> p_state q = stateHeaderKeyBefore \<Longrightarrow> p_header q = body_header (rp_body r) \<Longrightarrow> \<not> p_chunked q \<Longrightarrow>
      p_Processor q = fold (deliver_header E) (rp_headers r)
        (OnStatus E (int (rp_code r)) (first_word (rp_reason r)) ps) \<Longrightarrow> \<exists>q'. consumes E d q q' \<and> P q'"
  shows "\<exists>q'. consumes E (print_status r @ concat (map print_header (rp_headers r)) @ d) p q' \<and> P q'"
proof -
  let ?p = "p\<lparr>p_Processor := OnStatus E (int (rp_code r)) (first_word (rp_reason r)) ps, p_statusCode := 0, p_state := stateHeaderKeyBefore\<rparr>"
  have i: "p_state p = stateClientProtoBefore" "p_ParserCloser p = None" "p_proto p = []" "p_status p = []" "idle True ?p" "p_header p = []" "\<not> p_chunked p"
    using p by (auto simp: at_boundary_def idle_def)
  obtain q where h: "consumes E (concat (map print_header (rp_headers r))) ?p q"
    and q: "idle True q" "p_state q = stateHeaderKeyBefore" "p_header q = body_header (rp_body r)" "\<not> p_chunked q"
      "p_Processor q = fold (deliver_header E) (rp_headers r) (OnStatus E (int (rp_code r)) (first_word (rp_reason r)) ps)"
    using consumes_headers [OF i(5) _ reply_lines(1) [OF wf], of E] fold_framing [of "rp_headers r" "rp_body r"] i(6,7) wf
    by (auto simp: wf_reply_def)
  obtain q' where q': "consumes E d q q'" "P q'" using c [OF q] by blast
  have "consumes E (concat (map print_header (rp_headers r)) @ d) ?p q'" by (rule consumes_append [OF h q'(1)])
  from consumes_status [OF i(1-4) wf op this] reply_lines(2) [OF wf d] show ?thesis using q'(2) by blast
qed

lemma consumes_reply:
  assumes nu: "no_upgrade E" and p: "at_boundary True p" and wf: "wf_reply r" and d: "deliver_reply E r (p_Processor p) = Some ps'"
  shows "\<exists>q. consumes E (print_reply r) p q \<and> at_boundary True q \<and> p_Processor q = ps'"
proof -
  obtain ps ps1 where op: "OnProto E (rp_proto r) (p_Processor p) = (ps, None)" and db: "deliver_body E (rp_body r)
      (fold (deliver_header E) (rp_headers r) (OnStatus E (int (rp_code r)) (first_word (rp_reason r)) ps)) = Some ps1"
    and ps': "ps' = fst (OnComplete E ps1)"
    using d by (auto simp: deliver_reply_def deliver_reply_head_def split: prod.splits option.splits)
  have wb: "wf_body (rp_body r)" using wf by (simp add: wf_reply_def)
  show ?thesis unfolding print_reply_def
  proof (rule consumes_reply_headers [OF p wf op])
    show "\<exists>q'. consumes E ([CR, LF] @ print_body (rp_body r)) q q' \<and> at_boundary True q' \<and> p_Processor q' = ps'"
      if q: "idle True q" "p_state q = stateHeaderKeyBefore" "p_header q = body_header (rp_body r)" "\<not> p_chunked q"
        "p_Processor q = fold (deliver_header E) (rp_headers r) (OnStatus E (int (rp_code r)) (first_word (rp_reason r)) ps)" for q
      using consumes_rest [OF nu q(1-4) wb, of ps1] db ps' q(5) by simp
  qed simp_all
qed

lemma consumes_replies:
  "no_upgrade E \<Longrightarrow> at_boundary True p \<Longrightarrow> list_all wf_reply rs \<Longrightarrow> deliver_replies E rs (p_Processor p) = Some ps' \<Longrightarrow>
   \<exists>q. consumes E (concat (map print_reply rs)) p q \<and> at_boundary True q \<and> p_Processor q = ps'"
proof (induction rs arbitrary: p)
  case Nil
  then show ?case by (auto simp: at_boundary_def body_len_def)
next
  case (Cons r rs)
  then obtain ps1 where d: "deliver_reply E r (p_Processor p) = Some ps1" "deliver_replies E rs ps1 = Some ps'" by (auto split: option.splits)
  obtain q1 where q1: "consumes E (print_reply r) p q1" "at_boundary True q1" "p_Processor q1 = ps1"
    using consumes_reply [OF Cons.prems(1,2) _ d(1)] Cons.prems by auto
  obtain q where "consumes E (concat (map print_reply rs)) q1 q" "at_boundary True q" "p_Processor q = ps'"
    using Cons.IH [OF Cons.prems(1) q1(2)] Cons.prems d q1 by auto
  then show ?case using consumes_append [OF q1(1)] by auto
qed

lemma pipelined_replies:
  assumes "no_upgrade E" "at_boundary True p" "list_all wf_reply rs" "deliver_replies E rs (p_Processor p) = Some ps'"
    and "within_limit E (length (concat ds))" "concat ds = concat (map print_reply rs)" "ds \<noteq> []"
  shows "\<exists>q. Parse_all E ds p = Some (q, None) \<and> at_boundary True q \<and> p_Processor q = ps'"
proof (rule consumed_reads [OF assms(1,2) _ assms(5,7)])
  show "\<exists>q. consumes E (concat ds) p' q \<and> at_boundary True q \<and> p_Processor q = ps'" if "at_boundary True p'" "p_Processor p' = p_Processor p" for p'
    using consumes_replies [OF assms(1) that(1) assms(3)] assms(4,6) that(2) by simp
qed

end
