(* ===== verification/HttpClient.thy ===== *)
theory HttpClient
  imports HttpServer HttpReply
begin

text \<open>
  Parser, client processor and body together: what the response handler of a client sees of the replies on the wire.
\<close>

definition reply_values :: "reply \<Rightarrow> string \<Rightarrow> string list" where
  "reply_values r k = map snd (filter (\<lambda>h. CanonicalHeaderKey (fst h) = k) (rp_headers r))"

definition reply_matches :: "reply \<Rightarrow> http_response \<Rightarrow> bool" where
  "reply_matches r j \<longleftrightarrow>
     cProto j = rp_proto r \<and> Some (cProtoMajor j, cProtoMinor j) = ParseHTTPVersion (rp_proto r) \<and>
     cStatusCode j = int (rp_code r) \<and> cStatus j = first_word (rp_reason r) \<and>
     (\<forall>k. Header_values (cHeader j) k = reply_values r k) \<and> cContentLength j = body_length (rp_body r) \<and>
     readable (cBody j) \<and> unread_opt (cBody j) = body_bytes (rp_body r)"

text \<open>What the client needs of a reply to take it.\<close>

definition takeable :: "'u senv \<Rightarrow> reply \<Rightarrow> bool" where
  "takeable S r \<longleftrightarrow> ParseHTTPVersion (rp_proto r) \<noteq> None \<and>
     (MaxHTTPBodySize S > 0 \<longrightarrow> int (length (body_bytes (rp_body r))) \<le> MaxHTTPBodySize S)"

lemma on_response_Some: "on_response f (p\<lparr>cp_response := Some q\<rparr>) = (p\<lparr>cp_response := Some (fst (f q))\<rparr>, snd (f q))"
  by (simp add: on_response_def case_prod_beta)

text \<open>Keys are made canonical twice, by the parser and by \<open>Header.Add\<close>.\<close>

lemma byte_eq_iff: "c = d \<longleftrightarrow> byte_val c = byte_val d"
  by (simp add: byte_val_def of_char_eq_iff)

lemma byte_val_up: "byte_val (up c) = (if is_lower c then byte_val c - 32 else byte_val c)"
  using byte_val_less [of c] less_imp_diff_less [of "byte_val c" 256 32] by (simp add: up_def)

lemma byte_val_low: "byte_val (low c) = (if is_upper c then byte_val c + 32 else byte_val c)"
  using byte_val_less [of c] by (simp add: low_def is_upper_def)

lemmas case_bytes = byte_eq_iff byte_val_up byte_val_low is_upper_def is_lower_def

lemma case_idem: "up (up c) = up c" "low (low c) = low c"
  by (auto simp: case_bytes)

lemma case_hyphen: "(up c = CHR ''-'') = (c = CHR ''-'')" "(low c = CHR ''-'') = (c = CHR ''-'')"
proof -
  have "byte_val (CHR ''-'') = 45" by code_simp
  then show "(up c = CHR ''-'') = (c = CHR ''-'')" "(low c = CHR ''-'') = (c = CHR ''-'')" by (auto simp: case_bytes)
qed

lemma case_valid: "valid_header_byte c \<Longrightarrow> valid_header_byte (up c)" "valid_header_byte c \<Longrightarrow> valid_header_byte (low c)"
proof -
  have "is_lower c \<Longrightarrow> is_upper (up c)" "is_upper c \<Longrightarrow> is_lower (low c)"
    by (simp_all add: byte_val_up byte_val_low is_upper_def is_lower_def, arith?)
  then show "valid_header_byte c \<Longrightarrow> valid_header_byte (up c)" "valid_header_byte c \<Longrightarrow> valid_header_byte (low c)"
    by (cases "is_lower c"; cases "is_upper c"; simp add: valid_header_byte_def up_def low_def)+
qed

lemma canon_case_idem: "canon_case u (canon_case u s) = canon_case u s"
  by (induction u s rule: canon_case.induct) (simp_all add: case_idem case_hyphen)

lemma canon_case_valid: "list_all valid_header_byte s \<Longrightarrow> list_all valid_header_byte (canon_case u s)"
  by (induction u s rule: canon_case.induct) (simp_all add: case_valid)

lemma CanonicalHeaderKey_idem [simp]: "CanonicalHeaderKey (CanonicalHeaderKey k) = CanonicalHeaderKey k"
  by (simp add: CanonicalHeaderKey_def canon_case_valid canon_case_idem)

lemma fold_headers_client:
  "fold (deliver_header (client_env S H)) hs (p\<lparr>cp_response := Some q\<rparr>) = p\<lparr>cp_response := Some (q\<lparr>cHeader := fold add_header hs (cHeader q)\<rparr>)\<rparr>"
  by (induction hs arbitrary: q) (simp_all add: deliver_header_def client_env_def on_response_Some pure_def add_header_def)

lemma deliver_body_client:
  assumes "cBody q = None" "MaxHTTPBodySize S > 0 \<longrightarrow> int (length (body_bytes m)) \<le> MaxHTTPBodySize S"
  shows "\<exists>b. deliver_body (client_env S H) m (p\<lparr>cp_response := Some q\<rparr>) =
      Some (p\<lparr>cp_response := Some (q\<lparr>cContentLength := body_length m, cBody := b\<rparr>)\<rparr>) \<and> readable b \<and> unread_opt b = body_bytes m"
proof (rule deliver_body_append [where put = "\<lambda>n b. p\<lparr>cp_response := Some (q\<lparr>cContentLength := n, cBody := b\<rparr>)\<rparr>" and cap = "mcap S"])
  show "OnContentLength (client_env S H) n (p\<lparr>cp_response := Some q\<rparr>) = p\<lparr>cp_response := Some (q\<lparr>cContentLength := n, cBody := None\<rparr>)\<rparr>" for n
    using assms(1) by (simp add: client_env_def on_response_Some pure_def)
qed (use assms(2) in \<open>simp_all add: client_env_def on_response_Some res_OnBody_def split: prod.split\<close>)


lemma deliver_head_client:
  assumes "takeable S r" "c_resting p"
  shows "\<exists>j. deliver_reply_head (client_env S H) r p = Some (p\<lparr>cp_response := Some j\<rparr>) \<and> reply_matches r j"
proof -
  obtain major minor where v: "ParseHTTPVersion (rp_proto r) = Some (major, minor)" using assms(1) by (auto simp: takeable_def)
  define q0 where "q0 = emptyClientResponse\<lparr>cProto := rp_proto r, cProtoMajor := major, cProtoMinor := minor\<rparr>"
  define q1 where "q1 = q0\<lparr>cStatusCode := int (rp_code r), cStatus := first_word (rp_reason r)\<rparr>"
  define q2 where "q2 = q1\<lparr>cHeader := fold add_header (rp_headers r) (cHeader q1)\<rparr>"
  have op: "OnProto (client_env S H) (rp_proto r) p = (p\<lparr>cp_response := Some q0\<rparr>, None)"
    using assms(2) v by (simp add: client_env_def c_OnProto_def c_resting_def q0_def emptyClientResponse_def)
  have st: "OnStatus (client_env S H) (int (rp_code r)) (first_word (rp_reason r)) (p\<lparr>cp_response := Some q0\<rparr>) = p\<lparr>cp_response := Some q1\<rparr>"
    by (simp add: client_env_def on_response_Some pure_def q1_def)
  have "cBody q2 = None" by (simp add: q2_def q1_def q0_def emptyClientResponse_def)
  then obtain b where b: "deliver_body (client_env S H) (rp_body r) (p\<lparr>cp_response := Some q2\<rparr>) =
      Some (p\<lparr>cp_response := Some (q2\<lparr>cContentLength := body_length (rp_body r), cBody := b\<rparr>)\<rparr>)" "readable b" "unread_opt b = body_bytes (rp_body r)"
    using deliver_body_client [of q2 S "rp_body r" H p] assms(1) by (auto simp: takeable_def)
  define q3 where "q3 = q2\<lparr>cContentLength := body_length (rp_body r), cBody := b\<rparr>"
  have d: "deliver_reply_head (client_env S H) r p = Some (p\<lparr>cp_response := Some q3\<rparr>)"
    using op st b(1) fold_headers_client [where S = S and H = H and hs = "rp_headers r" and p = p and q = q1]
    by (simp add: deliver_reply_head_def q2_def q3_def)
  have "Header_values (cHeader q3) k = reply_values r k" for k
    by (simp add: q3_def q2_def q1_def q0_def emptyClientResponse_def Header_values_fold reply_values_def)
  then have "reply_matches r q3" using v b(2,3)
    by (simp add: reply_matches_def) (simp add: q3_def q2_def q1_def q0_def)
  then show ?thesis using d by blast
qed

lemma deliver_client:
  assumes "takeable S r" "c_resting p" "\<forall>n. ExecuteAccepts S n"
  shows "\<exists>p' j. deliver_reply (client_env S H) r p = Some p' \<and> c_resting p' \<and> cp_handled p' = cp_handled p @ [(j, rp_code r = 101)] \<and>
    reply_matches r j"
proof -
  obtain j where j: "deliver_reply_head (client_env S H) r p = Some (p\<lparr>cp_response := Some j\<rparr>)" "reply_matches r j"
    using deliver_head_client [OF assms(1,2)] by blast
  then have "deliver_reply (client_env S H) r p = Some (fst (c_OnComplete S H (p\<lparr>cp_response := Some j\<rparr>)))"
    by (simp add: deliver_reply_def) (simp add: client_env_def)
  moreover have "cStatusCode j = int (rp_code r)" using j(2) by (simp add: reply_matches_def)
  ultimately show ?thesis using j(2) assms(2,3) by (auto simp: c_OnComplete_def Let_def c_resting_def)
qed

lemma deliver_replies_client:
  assumes "list_all (takeable S) rs" "c_resting p" "\<forall>n. ExecuteAccepts S n"
  shows "\<exists>p' js. deliver_replies (client_env S H) rs p = Some p' \<and> c_resting p' \<and>
    cp_handled p' = cp_handled p @ zip js (map (\<lambda>r. rp_code r = 101) rs) \<and> list_all2 reply_matches rs js"
  using assms(1,2)
proof (induction rs arbitrary: p)
  case (Cons r rs)
  obtain p1 j where 1: "deliver_reply (client_env S H) r p = Some p1" "c_resting p1" "cp_handled p1 = cp_handled p @ [(j, rp_code r = 101)]" "reply_matches r j"
    using deliver_client [of S r p H] Cons assms(3) by auto
  obtain p2 js where "deliver_replies (client_env S H) rs p1 = Some p2" "c_resting p2"
      "cp_handled p2 = cp_handled p1 @ zip js (map (\<lambda>r. rp_code r = 101) rs)" "list_all2 reply_matches rs js"
    using Cons(1) [of p1] Cons(2) 1(2) by auto
  then show ?case using 1 by (intro exI [of _ p2] exI [of _ "j # js"]) simp
qed simp

text \<open>Replies on the wire, cut into reads in any way, reach the response handler as they were sent.\<close>

lemma client_replies:
  assumes "list_all wf_reply rs" "list_all (takeable S) rs" "\<forall>n. ExecuteAccepts S n" "\<forall>r. H r = None"
    and "sReadLimit S \<le> 0 \<or> int (length (concat reads)) \<le> sReadLimit S"
    and "concat reads = concat (map print_reply rs)" "reads \<noteq> []"
  shows "\<exists>q. Parse_all (client_env S H) reads (NewParser NewClientProcessor True) = Some (q, None) \<and> at_boundary True q \<and>
    list_all2 reply_matches rs (map fst (cp_handled (p_Processor q)))"
proof -
  have rest: "c_resting NewClientProcessor" by (simp add: c_resting_def NewClientProcessor_def)
  obtain p' js where d: "deliver_replies (client_env S H) rs NewClientProcessor = Some p'"
      "cp_handled p' = zip js (map (\<lambda>r. rp_code r = 101) rs)" "list_all2 reply_matches rs js"
    using deliver_replies_client [OF assms(2) rest assms(3), of H] by (auto simp: NewClientProcessor_def)
  then have m: "list_all2 reply_matches rs (map fst (cp_handled p'))" by (simp add: list_all2_lengthD)
  have up: "no_upgrade (client_env S H)" using assms(4)
    by (auto simp: no_upgrade_def client_env_def c_OnComplete_def Let_def split: option.splits)
  have "\<exists>q. Parse_all (client_env S H) reads (NewParser NewClientProcessor True) = Some (q, None) \<and> at_boundary True q \<and> p_Processor q = p'"
  proof (rule pipelined_replies [OF up _ assms(1)])
    show "deliver_replies (client_env S H) rs (p_Processor (NewParser NewClientProcessor True)) = Some p'" using d by (simp add: NewParser_def)
    show "within_limit (client_env S H) (length (concat reads))" using assms(5) by (simp add: within_limit_def client_env_def)
  qed (use assms(6,7) in \<open>simp_all add: at_boundary_def idle_def NewParser_def\<close>)
  then show ?thesis using m by auto
qed

end
