(* ===== verification/ResponseReply.thy ===== *)
theory ResponseReply
  imports ResponseInv HttpClient
begin

text \<open>
  What a handler's response is in the grammar of \<open>HttpReply\<close>: the bytes the server puts on the wire are a printed reply, so
  that the client's parser and processor can be put behind them.
\<close>

definition header_pairs :: "Header \<Rightarrow> (string \<times> string) list" where
  "header_pairs h = concat (map (\<lambda>(k, vv). map (Pair k) vv) h)"

definition date_value :: "clock \<Rightarrow> string" where
  "date_value t = go_slice days (3 * t_weekday t) (3 * t_weekday t + 3) @ '', '' @ [dig (t_day t div 10), dig (t_day t mod 10), SP] @
     go_slice months (3 * (t_month t - 1)) (3 * (t_month t - 1) + 3) @
     [SP, dig (t_year t div 1000), dig (t_year t div 100 mod 10), dig (t_year t div 10 mod 10), dig (t_year t mod 10), SP,
      dig (t_hour t div 10), dig (t_hour t mod 10), CHR '':'', dig (t_min t div 10), dig (t_min t mod 10), CHR '':'',
      dig (t_sec t div 10), dig (t_sec t mod 10), SP] @ ''GMT''"

text \<open>The lines \<open>eoncodeHead\<close> adds, then the handler's, when the body is framed by a header of the response.\<close>

definition added_lines :: "resp_env \<Rightarrow> response \<Rightarrow> (string \<times> string) list" where
  "added_lines E res =
     (if rs_hasBody res \<and> Header_values (rs_header res) ''Content-Type'' = [] then [(''Content-Type'', ''text/plain; charset=utf-8'')] else []) @
     (if rClose (rs_request res) \<and> Header_values (rs_header res) ''Connection'' = [] then [(''Connection'', ''close'')] else []) @
     (if Header_values (rs_header res) ''Date'' = [] then [(''Date'', date_value (now E))] else [])"

definition reply_of :: "resp_env \<Rightarrow> response \<Rightarrow> msg_body \<Rightarrow> reply" where
  "reply_of E res m = \<lparr>rp_proto = Proto (rs_request res), rp_code = nat (rs_statusCode res), rp_reason = rs_status res,
     rp_headers = added_lines E res @ header_pairs (rs_header res), rp_body = m\<rparr>"

lemma dig_digit: "n < 10 \<Longrightarrow> dig n = digit_char n"
  by (simp add: dig_def digit_char_def)

lemma FormatInt_three:
  assumes "100 \<le> c" "c < 1000"
  shows "FormatInt 10 c = [dig (c div 100), dig (c mod 100 div 10), dig (c mod 10)]"
proof -
  have d: "c div 10 div 10 = c div 100" "c div 10 mod 10 = c mod 100 div 10" "c div 100 < 10" "c mod 100 div 10 < 10" "\<not> c div 10 < 10"
    using assms mod_mult2_eq [of c 10 10] by (simp_all add: div_mult2_eq [symmetric] less_mult_imp_div_less less_eq_div_iff_mult_less_eq not_less)
  have "FormatInt 10 (c div 100) = [digit_char (c div 100)]" using d(3) by (subst FormatInt.simps) simp
  then have "FormatInt 10 (c div 10) = [digit_char (c div 100), digit_char (c mod 100 div 10)]" using d by (subst FormatInt.simps) simp
  then show ?thesis using assms d by (subst FormatInt.simps) (simp add: dig_digit)
qed

lemma print_header_pairs: "concat (map print_header (header_pairs h)) = concat (map header_lines h)"
  by (induction h) (auto simp: header_pairs_def header_lines_def print_header_def CRLF_def comp_def)

lemma date_line_value: "date_line t = print_header (''Date'', date_value t)"
  by (simp add: date_line_def date_value_def print_header_def CRLF_def)

lemma head_bytes_reply:
  assumes "100 \<le> rs_statusCode res" "rs_statusCode res < 1000" "Header_values (rs_header res) trailerHeader = []"
    and "rs_chunked res \<or> Header_values (rs_header res) contentLengthHeader \<noteq> []"
  shows "head_bytes E res @ print_body m = print_reply (reply_of E res m)"
proof -
  have f: "filter (\<lambda>(k, vv). \<not> announced (rs_header res) k) (rs_header res) = rs_header res" using assms(3) by (simp add: announced_def filter_id_conv)
  have c: "FormatInt 10 (nat (rs_statusCode res)) = [dig (nat (rs_statusCode res) div 100), dig (nat (rs_statusCode res) mod 100 div 10), dig (nat (rs_statusCode res) mod 10)]"
    using assms(1,2) by (intro FormatInt_three) auto
  show ?thesis using assms(4) f
    by (auto simp: head_bytes_def print_reply_def print_status_def status_line_bytes_def reply_of_def added_lines_def Let_def c date_line_value
        print_header_pairs print_header_def [of "(''Content-Type'', x)" for x] print_header_def [of "(''Connection'', x)" for x] CRLF_def)
qed


text \<open>What is asked of the handler and the clock, so that the head is well formed.\<close>

definition valid_clock :: "clock \<Rightarrow> bool" where
  "valid_clock t \<longleftrightarrow> t_weekday t < 7 \<and> t_day t < 32 \<and> t_month t \<in> {1..12} \<and> t_year t < 10000 \<and> t_hour t < 24 \<and> t_min t < 60 \<and> t_sec t < 61"

definition status_of :: "resp_env \<Rightarrow> response \<Rightarrow> int \<times> string" where
  "status_of E r = (if rs_statusCode r = 0 then (200, StatusText E 200) else (rs_statusCode r, rs_status r))"

definition plain_headers :: "Header \<Rightarrow> bool" where
  "plain_headers h \<longleftrightarrow> list_all (\<lambda>(k, vv). CanonicalHeaderKey k \<notin> framing \<and> list_all (\<lambda>v. wf_header (k, v)) vv) h"

definition sound_head :: "resp_env \<Rightarrow> response \<Rightarrow> bool" where
  "sound_head E r \<longleftrightarrow> fresh_response r \<and> valid_clock (now E) \<and>
     take 1 (Proto (rs_request r)) = ''H'' \<and> SP \<notin> set (Proto (rs_request r)) \<and>
     (case status_of E r of (code, reason) \<Rightarrow> 100 \<le> code \<and> code < 1000 \<and> reason \<noteq> [] \<and> isAlpha (hd reason) \<and> CR \<notin> set reason)"

text \<open>The two framings: the handler sets no framing header for an HTTP/1.1 client (chunks), or announces the length of what it
  writes.\<close>

fun framed_as :: "resp_env \<Rightarrow> response \<Rightarrow> handler_call list \<Rightarrow> msg_body \<Rightarrow> bool" where
  "framed_as E r cs NoBody = False"
| "framed_as E r cs (Chunked chunks) = (chunks = handler_chunks cs \<and> plain_headers (rs_header r) \<and> ProtoAtLeast11 (rs_request r) \<and>
     fst (status_of E r) \<notin> {204, 304} \<and>
     length (head_bytes E ((prep E r)\<lparr>rs_hasBody := starts_with_body cs\<rparr>)) + length (concat (map print_chunk chunks)) < maxPacketSize)"
| "framed_as E r cs (Fixed b) = (b = handler_bytes cs \<and> b \<noteq> [] \<and> int (length b) < 2 ^ 62 \<and>
     list_all (\<lambda>(k, vv). if k = contentLengthHeader then vv = [FormatInt 10 (length b)] else plain_headers [(k, vv)]) (rs_header r) \<and>
     length (filter (\<lambda>x. fst x = contentLengthHeader) (rs_header r)) = 1)"

lemma canonical_framing: "CanonicalHeaderKey transferEncodingHeader = transferEncodingHeader" "CanonicalHeaderKey trailerHeader = trailerHeader"
  "CanonicalHeaderKey contentLengthHeader = contentLengthHeader"
  by code_simp+

lemma plain_headers_values: "plain_headers h \<Longrightarrow> k \<in> framing \<Longrightarrow> CanonicalHeaderKey k = k \<Longrightarrow> map_of h k = None"
  by (auto simp: plain_headers_def list_all_iff map_of_eq_None_iff)

lemma framing_lines_Cons [simp]:
  "framing_lines (h # hs) = (if CanonicalHeaderKey (fst h) \<in> framing then (CanonicalHeaderKey (fst h), snd h) # framing_lines hs else framing_lines hs)"
  by (simp add: framing_lines_def)

lemma framing_lines_append [simp]: "framing_lines (a @ b) = framing_lines a @ framing_lines b"
  by (simp add: framing_lines_def)

lemma plain_pairs: "plain_headers h \<Longrightarrow> framing_lines (header_pairs h) = [] \<and> list_all wf_header (header_pairs h)"
  by (induction h) (auto simp: plain_headers_def header_pairs_def framing_lines_def list_all_iff)

definition plain_text :: "string \<Rightarrow> bool" where
  "plain_text s \<longleftrightarrow> CR \<notin> set s \<and> LF \<notin> set s"

lemma dig_plain: "n < 10 \<Longrightarrow> dig n \<noteq> CR \<and> dig n \<noteq> LF \<and> dig n \<noteq> SP"
proof -
  have "\<not> is_digit CR" "\<not> is_digit LF" "\<not> is_digit SP" by code_simp+
  moreover assume "n < 10"
  then have "is_digit (dig n)" by (auto simp: dig_def is_digit_def)
  ultimately show ?thesis by auto
qed

lemma days_plain: "w < 7 \<Longrightarrow> plain_text (go_slice days (3 * w) (3 * w + 3)) \<and> take 1 (go_slice days (3 * w) (3 * w + 3)) \<notin> {[], [SP]}"
proof -
  have "list_all (\<lambda>w. plain_text (go_slice days (3 * w) (3 * w + 3)) \<and> take 1 (go_slice days (3 * w) (3 * w + 3)) \<notin> {[], [SP]}) [0..<7]" by code_simp
  then show "w < 7 \<Longrightarrow> ?thesis" by (simp add: list_all_iff)
qed

lemma months_plain: "m \<in> {1..12} \<Longrightarrow> plain_text (go_slice months (3 * (m - 1)) (3 * (m - 1) + 3))"
proof -
  have "list_all (\<lambda>m. plain_text (go_slice months (3 * (m - 1)) (3 * (m - 1) + 3))) [1..<13]" by code_simp
  then show "m \<in> {1..12} \<Longrightarrow> ?thesis" by (auto simp: list_all_iff)
qed

lemma wf_date:
  assumes "valid_clock t"
  shows "wf_header (''Date'', date_value t)"
proof -
  have t: "t_weekday t < 7" "t_month t \<in> {1..12}" using assms by (simp_all add: valid_clock_def)
  have d: "t_day t div 10 < 10" "t_day t mod 10 < 10" "t_year t div 1000 < 10" "t_year t div 100 mod 10 < 10" "t_year t div 10 mod 10 < 10" "t_year t mod 10 < 10"
      "t_hour t div 10 < 10" "t_hour t mod 10 < 10" "t_min t div 10 < 10" "t_min t mod 10 < 10" "t_sec t div 10 < 10" "t_sec t mod 10 < 10"
    using assms by (auto simp: valid_clock_def less_mult_imp_div_less)
  note days_plain [OF t(1)] months_plain [OF t(2)] d [THEN dig_plain]
  moreover have "plain_text ''GMT''" "plain_text '', ''" "plain_text [SP, CHR '':'']" "list_all isToken ''Date''" by code_simp+
  ultimately show ?thesis by (cases "go_slice days (3 * t_weekday t) (3 * t_weekday t + 3)") (auto simp: wf_header_def date_value_def plain_text_def)
qed

lemma added_lines_ok:
  assumes "valid_clock (now E)"
  shows "framing_lines (added_lines E res) = []" "list_all wf_header (added_lines E res)"
proof -
  have "CanonicalHeaderKey ''Content-Type'' \<notin> framing" "CanonicalHeaderKey ''Connection'' \<notin> framing" "CanonicalHeaderKey ''Date'' \<notin> framing"
    unfolding framing_def by code_simp+
  then show "framing_lines (added_lines E res) = []" by (simp add: framing_lines_def added_lines_def)
  have "wf_header (''Content-Type'', ''text/plain; charset=utf-8'')" "wf_header (''Connection'', ''close'')" by code_simp+
  then show "list_all wf_header (added_lines E res)" using wf_date [OF assms] by (simp add: added_lines_def)
qed


lemma prep_status:
  assumes "sound_head E r"
  shows "rs_statusCode (prep E r) = fst (status_of E r)" "rs_status (prep E r) = snd (status_of E r)"
proof -
  have "\<not> rs_hijacked r" using assms fresh_fields(1) by (auto simp: sound_head_def)
  moreover have "snd (status_of E r) \<noteq> []" using assms by (auto simp: sound_head_def)
  ultimately show "rs_statusCode (prep E r) = fst (status_of E r)" "rs_status (prep E r) = snd (status_of E r)"
    by (auto simp: prep_def WriteHeader_def Let_def status_of_def split: option.splits if_splits)
qed

lemma wf_reply_of:
  assumes "sound_head E r" "framing_lines (header_pairs (rs_header (prep E r))) = framing_headers m"
    and "list_all wf_header (header_pairs (rs_header (prep E r)))" "wf_body m"
  shows "wf_reply (reply_of E ((prep E r)\<lparr>rs_hasBody := b\<rparr>) m)"
proof -
  have c: "valid_clock (now E)" "Proto (rs_request r) \<noteq> []" "hd (Proto (rs_request r)) = CHR ''H''"
    using assms(1) by (cases "Proto (rs_request r)"; simp add: sound_head_def)+
  show ?thesis using assms c prep_status [OF assms(1)] added_lines_ok [OF c(1)]
    by (auto simp: wf_reply_def reply_of_def sound_head_def split: prod.splits)
qed

lemma AList_update_new: "k \<notin> fst ` set h \<Longrightarrow> AList.update k v h = h @ [(k, v)]"
  by (induction h) auto

lemma AList_delete_absent: "k \<notin> fst ` set h \<Longrightarrow> AList.delete k h = h"
  by (induction h) auto

lemma framing_names: "transferEncodingHeader \<in> framing" "trailerHeader \<in> framing" "contentLengthHeader \<in> framing"
  "transferEncodingHeader \<noteq> contentLengthHeader" "trailerHeader \<noteq> contentLengthHeader" "trailerHeader \<noteq> transferEncodingHeader"
  by (simp_all add: framing_def trailerHeader_def contentLengthHeader_def transferEncodingHeader_def)

lemma prep_chunks:
  assumes "sound_head E r" "plain_headers (rs_header r)" "ProtoAtLeast11 (rs_request r)" "fst (status_of E r) \<notin> {204, 304}"
  shows "rs_chunked (prep E r)" "rs_header (prep E r) = rs_header r @ [(transferEncodingHeader, [''chunked''])]"
proof -
  note f = fresh_fields [OF assms(1) [unfolded sound_head_def, THEN conjunct1]]
  have no: "k \<in> {transferEncodingHeader, trailerHeader, contentLengthHeader} \<Longrightarrow> map_of (rs_header r) k = None" for k
    using plain_headers_values [OF assms(2), of k] canonical_framing by (auto simp: framing_def)
  then have v: "Header_values (rs_header r) transferEncodingHeader = []" "Header_values (rs_header r) trailerHeader = []" "Header_values (rs_header r) contentLengthHeader = []"
    by (simp_all add: Header_values_def)
  have w: "rs_header (WriteHeader E 200 r) = rs_header r" using v(3) by (auto simp: WriteHeader_def Let_def Header_Get_def)
  have st: "rs_statusCode (WriteHeader E 200 r) = fst (status_of E r)" using prep_status(1) [OF assms(1)] by (simp add: prep_def)
  have nk: "transferEncodingHeader \<notin> fst ` set (rs_header r)" "contentLengthHeader \<notin> fst ` set (rs_header r)"
    using no by (simp_all add: map_of_eq_None_iff)
  have d: "Header_Del (Header_Set (rs_header r) transferEncodingHeader ''chunked'') contentLengthHeader = rs_header r @ [(transferEncodingHeader, [''chunked''])]"
    unfolding Header_Set_def AList_update_new [OF nk(1)] Header_Del_def using nk(2) framing_names(4) by (intro AList_delete_absent) auto
  show "rs_chunked (prep E r)" "rs_header (prep E r) = rs_header r @ [(transferEncodingHeader, [''chunked''])]"
    using v w st d f assms(3,4) by (simp_all add: prep_def checkChunked_def Let_def Header_Get_def)
qed


lemma handler_chunks_nonempty: "c \<in> set (handler_chunks cs) \<Longrightarrow> c \<noteq> []"
  by (induction cs rule: handler_chunks.induct) (auto split: if_splits)

lemma chunk_size: "c \<in> set cs \<Longrightarrow> length c \<le> length (concat (map print_chunk cs))"
  by (induction cs) (auto simp: print_chunk_def)

lemma served_chunks:
  assumes "takes_all E" "sound_head E r" "framed_as E r cs (Chunked chunks)"
  defines "res \<equiv> (prep E r)\<lparr>rs_hasBody := starts_with_body cs\<rparr>"
  shows "concat (rs_sent (fst (serve E cs r))) = print_reply (reply_of E res (Chunked chunks)) \<and> wf_reply (reply_of E res (Chunked chunks))"
proof -
  have a: "chunks = handler_chunks cs" "plain_headers (rs_header r)"
      "length (head_bytes E res) + length (concat (map print_chunk chunks)) < maxPacketSize"
    using assms(3) by (auto simp: res_def)
  note p = prep_chunks [OF assms(2) a(2)]
  have c: "rs_chunked (prep E r)" "rs_header (prep E r) = rs_header r @ [(transferEncodingHeader, [''chunked''])]"
    using p assms(3) by auto
  have t: "Header_values (rs_header r) trailerHeader = []" "map_of (rs_header r) trailerHeader = None"
    using plain_headers_values [OF a(2) framing_names(2)] canonical_framing by (simp_all add: Header_values_def)
  have "fresh_response r" using assms(2) by (simp add: sound_head_def)
  then have "chunk_framed E r" using c t by (simp add: chunk_framed_def)
  from run_chunk_fresh [OF assms(1) this, of cs] a
  have w: "concat (rs_sent (fst (serve E cs r))) = head_bytes E res @ print_body (Chunked chunks)" by (simp add: res_def)
  have small: "length x < 2 ^ 62" if "x \<in> set chunks" for x
    using chunk_size [OF that] a(3) by (simp add: maxPacketSize_def)
  have "wf_reply (reply_of E res (Chunked chunks))" unfolding res_def
  proof (rule wf_reply_of [OF assms(2)])
    show "framing_lines (header_pairs (rs_header (prep E r))) = framing_headers (Chunked chunks)"
      using plain_pairs [OF a(2)] canonical_framing framing_names by (simp add: c(2) header_pairs_def framing_lines_def)
    have "wf_header (transferEncodingHeader, ''chunked'')" by code_simp
    then show "list_all wf_header (header_pairs (rs_header (prep E r)))" using plain_pairs [OF a(2)] by (simp add: c(2) header_pairs_def)
    show "wf_body (Chunked chunks)" using small handler_chunks_nonempty a(1) by (fastforce simp: list_all_iff)
  qed
  moreover have "head_bytes E res @ print_body (Chunked chunks) = print_reply (reply_of E res (Chunked chunks))"
  proof (rule head_bytes_reply)
    show "100 \<le> rs_statusCode res" "rs_statusCode res < 1000" using prep_status [OF assms(2)] assms(2)
      by (auto simp: res_def sound_head_def split: prod.splits)
  qed (use c t framing_names in \<open>simp_all add: res_def Header_values_def map_add_Some_iff split: option.split\<close>)
  ultimately show ?thesis using w by simp
qed

lemma length_pairs:
  "list_all (\<lambda>(k, vv). if k = contentLengthHeader then vv = [s] else plain_headers [(k, vv)]) h \<Longrightarrow> wf_header (contentLengthHeader, s) \<Longrightarrow>
   framing_lines (header_pairs h) = replicate (length (filter (\<lambda>x. fst x = contentLengthHeader) h)) (contentLengthHeader, s) \<and>
   list_all wf_header (header_pairs h)"
proof (induction h)
  case (Cons x h)
  obtain k vv where x: "x = (k, vv)" by fastforce
  have e: "header_pairs ((k, vv) # h) = map (Pair k) vv @ header_pairs h" "header_pairs [(k, vv)] = map (Pair k) vv" for k vv by (simp_all add: header_pairs_def)
  show ?case
  proof (cases "k = contentLengthHeader")
    case True
    then show ?thesis using Cons x canonical_framing framing_names by (simp add: e)
  next
    case False
    then show ?thesis using Cons x plain_pairs [of "[(k, vv)]"] by (simp add: e)
  qed
qed (simp add: header_pairs_def framing_lines_def)


lemma framed_length:
  assumes "sound_head E r" "framed_as E r cs (Fixed b)"
  shows "length_framed (int (length b)) r" "Header_values (rs_header r) contentLengthHeader = [FormatInt 10 (length b)]"
    "Header_values (rs_header r) trailerHeader = []"
proof -
  let ?s = "FormatInt 10 (length b)"
  have b: "b \<noteq> []" "int (length b) < 2 ^ 62"
    and h: "list_all (\<lambda>(k, vv). if k = contentLengthHeader then vv = [?s] else plain_headers [(k, vv)]) (rs_header r)"
      "length (filter (\<lambda>x. fst x = contentLengthHeader) (rs_header r)) = 1"
    using assms(2) by auto
  have "filter (\<lambda>x. fst x = contentLengthHeader) (rs_header r) \<noteq> []" using h(2) by fastforce
  then have "contentLengthHeader \<in> fst ` set (rs_header r)" by (force simp: filter_empty_conv)
  then obtain vv where vv: "map_of (rs_header r) contentLengthHeader = Some vv" by (metis map_of_eq_None_iff not_None_eq)
  then have "vv = [?s]" using h(1) map_of_SomeD by (fastforce simp: list_all_iff)
  then show cl: "Header_values (rs_header r) contentLengthHeader = [?s]" using vv by (simp add: Header_values_def)
  have other: "Header_values (rs_header r) k = []" if "k \<in> {trailerHeader, transferEncodingHeader}" for k
  proof -
    have "k \<in> framing" "CanonicalHeaderKey k = k" "k \<noteq> contentLengthHeader" using that framing_names canonical_framing by auto
    then have "k \<notin> fst ` set (rs_header r)" using h(1) by (fastforce simp: list_all_iff plain_headers_def)
    then show ?thesis by (simp add: Header_values_def map_of_eq_None_iff [THEN iffD2])
  qed
  then show "Header_values (rs_header r) trailerHeader = []" by simp
  have "ParseInt 10 64 ?s = Some (int (length b))" using b(2) by (intro ParseInt_FormatInt) auto
  moreover have "fresh_response r" using assms(1) by (simp add: sound_head_def)
  ultimately show "length_framed (int (length b)) r" using cl other b(1) by (simp add: length_framed_def Header_Get_def)
qed

lemma served_length:
  assumes "takes_all E" "sound_head E r" "framed_as E r cs (Fixed b)"
  defines "res \<equiv> (prep E r)\<lparr>rs_hasBody := starts_with_body cs\<rparr>"
  shows "concat (rs_sent (fst (serve E cs r))) = print_reply (reply_of E res (Fixed b)) \<and> wf_reply (reply_of E res (Fixed b))"
proof -
  let ?s = "FormatInt 10 (length b)"
  have b: "b = handler_bytes cs" "int (length b) < 2 ^ 62"
    and h: "list_all (\<lambda>(k, vv). if k = contentLengthHeader then vv = [?s] else plain_headers [(k, vv)]) (rs_header r)"
      "length (filter (\<lambda>x. fst x = contentLengthHeader) (rs_header r)) = 1"
    using assms(3) by auto
  have wfs: "wf_header (contentLengthHeader, ?s)" using wf_framing_headers [of "Fixed b"] b(2) by simp
  note lf = framed_length [OF assms(2,3)]
  note p = length_framed_prep [OF lf(1), of E]
  have w: "concat (rs_sent (fst (serve E cs r))) = head_bytes E res @ print_body (Fixed b)"
    using run_length_fresh [OF assms(1) lf(1), of cs] b(1) by (simp add: res_def)
  have "wf_reply (reply_of E res (Fixed b))" unfolding res_def
    using length_pairs [OF h(1) wfs] h(2) b(2) p by (intro wf_reply_of [OF assms(2)]) simp_all
  moreover have "head_bytes E res @ print_body (Fixed b) = print_reply (reply_of E res (Fixed b))"
  proof (rule head_bytes_reply)
    show "100 \<le> rs_statusCode res" "rs_statusCode res < 1000" using prep_status [OF assms(2)] assms(2)
      by (auto simp: res_def sound_head_def split: prod.splits)
  qed (use p lf in \<open>simp_all add: res_def\<close>)
  ultimately show ?thesis using w by simp
qed

text \<open>The reply of a handler's calls, for either framing.\<close>

definition handler_reply :: "resp_env \<Rightarrow> response \<Rightarrow> handler_call list \<Rightarrow> msg_body \<Rightarrow> reply" where
  "handler_reply E r cs m = reply_of E ((prep E r)\<lparr>rs_hasBody := starts_with_body cs\<rparr>) m"

lemma served_reply:
  assumes "takes_all E" "sound_head E r" "framed_as E r cs m"
  shows "concat (rs_sent (fst (serve E cs r))) = print_reply (handler_reply E r cs m)" "wf_reply (handler_reply E r cs m)"
  using assms served_chunks [of E r cs] served_length [of E r cs] by (cases m; simp add: handler_reply_def)+

lemma concat_handler_chunks: "concat (handler_chunks cs) = handler_bytes cs"
  by (induction cs rule: handler_chunks.induct) auto

lemma framed_bytes: "framed_as E r cs m \<Longrightarrow> body_bytes m = handler_bytes cs"
  by (cases m) (simp_all add: concat_handler_chunks)


text \<open>What the client's handler should see of the handler's calls on the server.\<close>

definition header_values_sent :: "Header \<Rightarrow> string \<Rightarrow> string list" where
  "header_values_sent h k = map snd (filter (\<lambda>x. CanonicalHeaderKey (fst x) = k) (header_pairs h))"

definition default_headers :: "string list" where
  "default_headers = [''Content-Type'', ''Connection'', ''Date'']"

definition response_arrived :: "resp_env \<Rightarrow> response \<Rightarrow> handler_call list \<Rightarrow> http_response \<Rightarrow> bool" where
  "response_arrived E r cs j \<longleftrightarrow>
     cStatusCode j = fst (status_of E r) \<and> cStatus j = first_word (snd (status_of E r)) \<and>
     cProto j = Proto (rs_request r) \<and> readable (cBody j) \<and> unread_opt (cBody j) = handler_bytes cs \<and>
     (\<forall>k. k \<notin> framing \<longrightarrow> (\<exists>added. Header_values (cHeader j) k = added @ header_values_sent (rs_header r) k \<and>
        (k \<notin> set default_headers \<longrightarrow> added = [])))"

lemma prep_pairs:
  assumes "sound_head E r" "framed_as E r cs m" "k \<notin> framing"
  shows "header_values_sent (rs_header (prep E r)) k = header_values_sent (rs_header r) k"
proof (cases m)
  case (Fixed b)
  then have "framed_as E r cs (Fixed b)" using assms(2) by (simp only:)
  from length_framed_prep(1) [OF framed_length(1) [OF assms(1) this]] show ?thesis by (simp only:)
next
  case (Chunked chunks)
  have "rs_header (prep E r) = rs_header r @ [(transferEncodingHeader, [''chunked''])]"
    using prep_chunks(2) [OF assms(1)] assms(2) Chunked by auto
  moreover have "transferEncodingHeader \<noteq> k" using framing_names assms(3) by auto
  ultimately show ?thesis using canonical_framing by (simp add: header_values_sent_def header_pairs_def)
qed (use assms(2) in simp)

lemma reply_arrived:
  assumes "sound_head E r" "framed_as E r cs m" "reply_matches (handler_reply E r cs m) j"
  shows "response_arrived E r cs j"
proof -
  let ?q = "(prep E r)\<lparr>rs_hasBody := starts_with_body cs\<rparr>"
  have c: "0 \<le> fst (status_of E r)" using assms(1) by (auto simp: sound_head_def split: prod.splits)
  have "CanonicalHeaderKey ''Content-Type'' = ''Content-Type''" "CanonicalHeaderKey ''Connection'' = ''Connection''" "CanonicalHeaderKey ''Date'' = ''Date''"
    by code_simp+
  then have a: "k \<notin> set default_headers \<Longrightarrow> filter (\<lambda>h. CanonicalHeaderKey (fst h) = k) (added_lines E ?q) = []" for k
    by (auto simp: added_lines_def default_headers_def)
  have v: "Header_values (cHeader j) k = map snd (filter (\<lambda>h. CanonicalHeaderKey (fst h) = k) (added_lines E ?q)) @ header_values_sent (rs_header r) k"
    if "k \<notin> framing" for k
    using prep_pairs [OF assms(1,2) that] assms(3)
    by (simp add: reply_matches_def handler_reply_def reply_of_def reply_values_def header_values_sent_def)
  have "\<exists>added. Header_values (cHeader j) k = added @ header_values_sent (rs_header r) k \<and> (k \<notin> set default_headers \<longrightarrow> added = [])"
    if "k \<notin> framing" for k
    using v [OF that] a [of k] by (intro exI [of _ "map snd (filter (\<lambda>h. CanonicalHeaderKey (fst h) = k) (added_lines E ?q))"]) auto
  then show ?thesis using assms(3) framed_bytes [OF assms(2)] prep_status [OF assms(1)] c
    by (simp add: response_arrived_def reply_matches_def) (simp add: handler_reply_def reply_of_def)
qed

end
