(* ===== verification/ClientProps.thy ===== *)
theory ClientProps
  imports ResponseReply ServerProps ResponseProps
begin

text \<open>Server and client together: from the calls of a handler to what a response handler sees.\<close>







end
