(* ===== verification/WsTokens.thy ===== *)
theory WsTokens
  imports GoStd
begin

text \<open>
  The scanning of handshake headers in \<open>nbhttp/websocket/upgrader.go\<close>: tokens, quoted strings, the comma-separated lists of
  \<open>Connection\<close> and \<open>Upgrade\<close>, and the list of extensions with their parameters; with \<open>utf8.DecodeRuneInString\<close> and
  \<open>strings.TrimSpace\<close> as the code uses them.
\<close>

abbreviation COMMA :: char where "COMMA \<equiv> CHR '',''"
abbreviation SEMI :: char where "SEMI \<equiv> CHR '';''"
abbreviation DQUOTE :: char where "DQUOTE \<equiv> CHR 0x22"
abbreviation BSLASH :: char where "BSLASH \<equiv> CHR 0x5C"

definition isTokenOctet :: "char \<Rightarrow> bool" where
  "isTokenOctet c \<longleftrightarrow> c \<in> set (''!#$%&'' @ [CHR 0x27] @ ''*+-.0123456789ABCDEFGHIJKLMNOPQRSTUWVXYZ^_'' @ [CHR 0x60] @ ''abcdefghijklmnopqrstuvwxyz|~'')"

definition skipSpace :: "string \<Rightarrow> string" where
  "skipSpace s = dropWhile (\<lambda>b. b = SP \<or> b = HTAB) s"

definition nextToken :: "string \<Rightarrow> string \<times> string" where
  "nextToken s = (takeWhile isTokenOctet s, dropWhile isTokenOctet s)"

text \<open>After the first backslash of a quoted string, and before it.\<close>

fun quoted_escaped :: "string \<Rightarrow> bool \<Rightarrow> string \<Rightarrow> string \<times> string" where
  "quoted_escaped p escape [] = ([], [])"
| "quoted_escaped p escape (b # s) =
     (if escape then quoted_escaped (p @ [b]) False s
      else if b = BSLASH then quoted_escaped p True s
      else if b = DQUOTE then (p, s)
      else quoted_escaped (p @ [b]) False s)"

fun quoted :: "string \<Rightarrow> string \<Rightarrow> string \<times> string" where
  "quoted p [] = ([], [])"
| "quoted p (b # s) =
     (if b = DQUOTE then (p, s)
      else if b = BSLASH then quoted_escaped p True s
      else quoted (p @ [b]) s)"

definition nextTokenOrQuoted :: "string \<Rightarrow> string \<times> string" where
  "nextTokenOrQuoted s = (if take 1 s \<noteq> [DQUOTE] then nextToken s else quoted [] (tl s))"

text \<open>\<open>utf8.DecodeRuneInString\<close> of a string that is not empty: the rune and its width; a byte that starts no valid
  encoding is U+FFFD of width 1.\<close>

definition rune_byte :: "string \<Rightarrow> nat \<Rightarrow> int" where
  "rune_byte s i = of_char (s ! i)"

definition cont_byte :: "int \<Rightarrow> int \<Rightarrow> string \<Rightarrow> nat \<Rightarrow> bool" where
  "cont_byte lo hi s i \<longleftrightarrow> i < length s \<and> lo \<le> rune_byte s i \<and> rune_byte s i \<le> hi"

definition DecodeRune :: "string \<Rightarrow> int \<times> nat" where
  "DecodeRune s =
     (let b0 = rune_byte s 0; c = (\<lambda>i. rune_byte s i mod 64);
          lo = (if b0 = 0xE0 then 0xA0 else if b0 = 0xF0 then 0x90 else 0x80);
          hi = (if b0 = 0xED then 0x9F else if b0 = 0xF4 then 0x8F else 0xBF)
      in if b0 < 0x80 then (b0, 1)
         else if 0xC2 \<le> b0 \<and> b0 \<le> 0xDF \<and> cont_byte lo hi s 1 then (b0 mod 32 * 64 + c 1, 2)
         else if 0xE0 \<le> b0 \<and> b0 \<le> 0xEF \<and> cont_byte lo hi s 1 \<and> cont_byte 0x80 0xBF s 2 then ((b0 mod 16 * 64 + c 1) * 64 + c 2, 3)
         else if 0xF0 \<le> b0 \<and> b0 \<le> 0xF4 \<and> cont_byte lo hi s 1 \<and> cont_byte 0x80 0xBF s 2 \<and> cont_byte 0x80 0xBF s 3
              then (((b0 mod 8 * 64 + c 1) * 64 + c 2) * 64 + c 3, 4)
         else (0xFFFD, 1))"

lemma DecodeRune_width: "0 < snd (DecodeRune s)"
  by (simp add: DecodeRune_def Let_def)

definition fold_rune :: "int \<Rightarrow> int" where
  "fold_rune r = (if 65 \<le> r \<and> r \<le> 90 then r + 97 - 65 else r)"

function equalASCIIFold :: "string \<Rightarrow> string \<Rightarrow> bool" where
  "equalASCIIFold s t =
     (if s \<noteq> [] \<and> t \<noteq> [] then
        (if fst (DecodeRune s) \<noteq> fst (DecodeRune t) \<and> fold_rune (fst (DecodeRune s)) \<noteq> fold_rune (fst (DecodeRune t)) then False
         else equalASCIIFold (drop (snd (DecodeRune s)) s) (drop (snd (DecodeRune t)) t))
      else s = t)"
  by pat_completeness auto
termination
  by (relation "measure (\<lambda>(s, t). length s)") (simp_all add: DecodeRune_width)

declare equalASCIIFold.simps [simp del]

lemma skipSpace_length: "length (skipSpace s) \<le> length s"
  by (simp add: skipSpace_def length_dropWhile_le)

lemma nextToken_length: "fst (nextToken s) \<noteq> [] \<Longrightarrow> length (snd (nextToken s)) < length s" "length (snd (nextToken s)) \<le> length s"
proof -
  have "length s = length (takeWhile isTokenOctet s) + length (dropWhile isTokenOctet s)"
    by (metis length_append takeWhile_dropWhile_id)
  then show "fst (nextToken s) \<noteq> [] \<Longrightarrow> length (snd (nextToken s)) < length s" "length (snd (nextToken s)) \<le> length s"
    by (auto simp: nextToken_def)
qed

lemma quoted_escaped_length: "length (snd (quoted_escaped p e s)) \<le> length s"
  by (induction p e s rule: quoted_escaped.induct) (simp_all add: le_SucI)

lemma quoted_length: "length (snd (quoted p s)) \<le> length s"
  by (induction p s rule: quoted.induct) (simp_all add: le_SucI quoted_escaped_length)

lemma nextTokenOrQuoted_length: "length (snd (nextTokenOrQuoted s)) \<le> length s"
  using quoted_length [of "[]" "tl s"] nextToken_length(2) [of s] by (auto simp: nextTokenOrQuoted_def)

text \<open>One value of the header in \<open>headerContains\<close>; False is \<open>continue headers\<close>.\<close>

function value_contains :: "string \<Rightarrow> string \<Rightarrow> bool" where
  "value_contains want s =
     (let t = fst (nextToken (skipSpace s)); s2 = skipSpace (snd (nextToken (skipSpace s))) in
      if t = [] then False
      else if s2 \<noteq> [] \<and> hd s2 \<noteq> COMMA then False
      else if equalASCIIFold t want then True
      else if s2 = [] then False
      else value_contains want (tl s2))"
  by pat_completeness auto
termination
proof (relation "measure (\<lambda>(want, s). length s)")
  fix want s t s2
  assume x: "t = fst (nextToken (skipSpace s))" "s2 = skipSpace (snd (nextToken (skipSpace s)))" "t \<noteq> []" "s2 \<noteq> []"
  have "length s2 \<le> length (snd (nextToken (skipSpace s)))" using x(2) skipSpace_length by simp
  also have "\<dots> < length (skipSpace s)" using nextToken_length(1) x(1,3) by simp
  also have "\<dots> \<le> length s" by (rule skipSpace_length)
  finally show "((want, tl s2), want, s) \<in> measure (\<lambda>(want, s). length s)" by simp
qed simp

declare value_contains.simps [simp del]

definition headerContains :: "Header \<Rightarrow> string \<Rightarrow> string \<Rightarrow> bool" where
  "headerContains h name want = list_ex (value_contains want) (Header_values h name)"

text \<open>The value of a parameter, if there is one, and what follows.\<close>

definition ext_value :: "string \<Rightarrow> string \<times> string" where
  "ext_value s =
     (if take 1 s = ''='' then (case nextTokenOrQuoted (skipSpace (tl s)) of (v, s') \<Rightarrow> (v, skipSpace s')) else ([], s))"

lemma ext_value_length: "length (snd (ext_value s)) \<le> length s"
proof -
  have "length (skipSpace (snd (nextTokenOrQuoted (skipSpace (tl s))))) \<le> length (snd (nextTokenOrQuoted (skipSpace (tl s))))" by (rule skipSpace_length)
  also have "\<dots> \<le> length (skipSpace (tl s))" by (rule nextTokenOrQuoted_length)
  also have "\<dots> \<le> length (tl s)" by (rule skipSpace_length)
  finally show ?thesis by (auto simp: ext_value_def split: prod.split)
qed

text \<open>The parameters of one extension; None is \<open>continue headers\<close>.\<close>

function ext_params :: "string \<Rightarrow> (string \<times> string) list \<Rightarrow> ((string \<times> string) list \<times> string) option" where
  "ext_params s0 ext =
     (let s = skipSpace s0 in
      if take 1 s \<noteq> [SEMI] then Some (ext, s)
      else
        (let k = fst (nextToken (skipSpace (tl s)));
             vs = ext_value (skipSpace (snd (nextToken (skipSpace (tl s)))))
         in if k = [] then None
            else if snd vs \<noteq> [] \<and> hd (snd vs) \<noteq> COMMA \<and> hd (snd vs) \<noteq> SEMI then None
            else ext_params (snd vs) (AList.update k (fst vs) ext)))"
  by pat_completeness auto
termination
proof (relation "measure (\<lambda>(s, ext). length s)")
  fix s0 s k vs and ext :: "(string \<times> string) list"
  assume x: "s = skipSpace s0" "k = fst (nextToken (skipSpace (tl s)))" "vs = ext_value (skipSpace (snd (nextToken (skipSpace (tl s)))))" "k \<noteq> []"
  have "length (snd vs) \<le> length (skipSpace (snd (nextToken (skipSpace (tl s)))))" using x(3) ext_value_length by simp
  also have "\<dots> \<le> length (snd (nextToken (skipSpace (tl s))))" by (rule skipSpace_length)
  also have "\<dots> < length (skipSpace (tl s))" using nextToken_length(1) x(2,4) by simp
  also have "\<dots> \<le> length (tl s)" by (rule skipSpace_length)
  also have "\<dots> \<le> length s0" using skipSpace_length [of s0] x(1) by simp
  finally show "((snd vs, AList.update k (fst vs) ext), s0, ext) \<in> measure (\<lambda>(s, ext). length s)" by simp
qed simp

declare ext_params.simps [simp del]

lemma ext_rest_length: "length (snd (ext_value (skipSpace (snd (nextToken (skipSpace (tl (skipSpace s)))))))) \<le> length s"
proof -
  have "length (snd (ext_value (skipSpace (snd (nextToken (skipSpace (tl (skipSpace s)))))))) \<le> length (skipSpace (snd (nextToken (skipSpace (tl (skipSpace s))))))"
    by (rule ext_value_length)
  also have "\<dots> \<le> length (snd (nextToken (skipSpace (tl (skipSpace s)))))" by (rule skipSpace_length)
  also have "\<dots> \<le> length (skipSpace (tl (skipSpace s)))" by (rule nextToken_length(2))
  also have "\<dots> \<le> length (tl (skipSpace s))" by (rule skipSpace_length)
  also have "\<dots> \<le> length s" using skipSpace_length [of s] by simp
  finally show ?thesis .
qed

lemma ext_params_length: "ext_params s ext = Some (ext', s') \<Longrightarrow> length s' \<le> length s"
proof (induction s ext rule: ext_params.induct)
  case (1 s0 ext)
  let ?vs = "ext_value (skipSpace (snd (nextToken (skipSpace (tl (skipSpace s0))))))"
  note e = "1.prems" [unfolded ext_params.simps [of s0 ext] Let_def]
  show ?case
  proof (cases "take 1 (skipSpace s0) \<noteq> [SEMI]")
    case True
    then show ?thesis using e skipSpace_length [of s0] by auto
  next
    case False
    then have "length s' \<le> length (snd ?vs)" using e by (intro "1.IH") (simp_all split: if_splits)
    then show ?thesis using ext_rest_length [of s0] by simp
  qed
qed

text \<open>One value of the header.\<close>

function ext_list :: "string \<Rightarrow> (string \<times> string) list list" where
  "ext_list s =
     (let t = fst (nextToken (skipSpace s)) in
      if t = [] then []
      else
        (case ext_params (snd (nextToken (skipSpace s))) [([], t)] of
           None \<Rightarrow> []
         | Some (ext, s2) \<Rightarrow>
             if s2 \<noteq> [] \<and> hd s2 \<noteq> COMMA then []
             else ext # (if s2 = [] then [] else ext_list (tl s2))))"
  by pat_completeness auto
termination
proof (relation "measure length")
  fix s t x ext s2
  assume x: "t = fst (nextToken (skipSpace s))" "t \<noteq> []" "ext_params (snd (nextToken (skipSpace s))) [([], t)] = Some x" "(ext, s2) = x" "s2 \<noteq> []"
  have "length s2 \<le> length (snd (nextToken (skipSpace s)))" using x ext_params_length by metis
  also have "\<dots> < length (skipSpace s)" using nextToken_length(1) x(1,2) by simp
  also have "\<dots> \<le> length s" by (rule skipSpace_length)
  finally show "(tl s2, s) \<in> measure length" by simp
qed simp

declare ext_list.simps [simp del]

definition parseExtensions :: "Header \<Rightarrow> (string \<times> string) list list" where
  "parseExtensions h = concat (map ext_list (Header_values h ''Sec-Websocket-Extensions''))"

text \<open>\<open>strings.TrimSpace\<close>: the encodings of the white space of Unicode are cut off at both ends.\<close>

definition space_encodings :: "string list" where
  "space_encodings = [[HTAB], [LF], [CHR 0x0B], [CHR 0x0C], [CR], [SP], [CHR 0xC2, CHR 0x85], [CHR 0xC2, CHR 0xA0], [CHR 0xE1, CHR 0x9A, CHR 0x80]] @
     map (\<lambda>i. [CHR 0xE2, CHR 0x80, char_of (0x80 + i)]) ([0..<11] @ [0x28, 0x29, 0x2F]) @
     [[CHR 0xE2, CHR 0x81, CHR 0x9F], [CHR 0xE3, CHR 0x80, CHR 0x80]]"

function trim_left :: "string list \<Rightarrow> string \<Rightarrow> string" where
  "trim_left encs s =
     (case find (\<lambda>e. e \<noteq> [] \<and> take (length e) s = e) encs of None \<Rightarrow> s | Some e \<Rightarrow> trim_left encs (drop (length e) s))"
  by pat_completeness auto
termination
proof (relation "measure (\<lambda>(encs, s). length s)")
  fix encs s e
  assume "find (\<lambda>e. e \<noteq> [] \<and> take (length e) s = e) encs = Some e"
  then have "e \<noteq> []" "take (length e) s = e" by (auto simp: find_Some_iff)
  then have "s \<noteq> []" "length e > 0" by auto
  then show "((encs, drop (length e) s), encs, s) \<in> measure (\<lambda>(encs, s). length s)" by simp
qed simp

declare trim_left.simps [simp del]

definition TrimSpace :: "string \<Rightarrow> string" where
  "TrimSpace s = rev (trim_left (map rev space_encodings) (rev (trim_left space_encodings s)))"

end
