(* ===== verification/WsHandshake.thy ===== *)
theory WsHandshake
  imports WsTokens HttpResponse
begin

text \<open>
  The WebSocket opening handshake: the server's checks and response (\<open>commCheck\<close> and \<open>commResponse\<close> of
  \<open>nbhttp/websocket/upgrader.go\<close>), and the dialer's request and its check of the response
  (\<open>DialContext\<close> of \<open>nbhttp/websocket/dialer.go\<close>), with SHA-1 and base64 for the accept key. \<open>url.Parse\<close> is a parameter (None for
  an error), and the dialer's random key an argument.
\<close>

unbundle bit_operations_syntax

text \<open>\<open>crypto/sha1\<close>.\<close>

type_synonym word32 = "32 word"

definition to_octets :: "string \<Rightarrow> octets" where
  "to_octets s = map (\<lambda>c. of_nat (byte_val c)) s"

definition rotl32 :: "nat \<Rightarrow> word32 \<Rightarrow> word32" where
  "rotl32 n x = push_bit n x OR drop_bit (32 - n) x"

definition sha1_pad :: "octets \<Rightarrow> octets" where
  "sha1_pad m = m @ [0x80] @ replicate ((119 - length m mod 64) mod 64) 0 @ map (\<lambda>i. of_int (8 * int (length m) div 256 ^ (7 - i))) [0..<8]"

definition be32 :: "octets \<Rightarrow> word32" where
  "be32 bs = foldl (\<lambda>a b. push_bit 8 a OR ucast b) 0 bs"

fun sha1_words :: "octets \<Rightarrow> word32 list" where
  "sha1_words (a # b # c # d # bs) = be32 [a, b, c, d] # sha1_words bs"
| "sha1_words _ = []"

fun sha1_schedule :: "nat \<Rightarrow> word32 list \<Rightarrow> word32 list" where
  "sha1_schedule 0 w = w"
| "sha1_schedule (Suc n) w =
     (let t = length w in sha1_schedule n (w @ [rotl32 1 (w ! (t - 3) XOR w ! (t - 8) XOR w ! (t - 14) XOR w ! (t - 16))]))"

definition sha1_f :: "nat \<Rightarrow> word32 \<Rightarrow> word32 \<Rightarrow> word32 \<Rightarrow> word32" where
  "sha1_f t b c d =
     (if t < 20 then (b AND c) OR (NOT b AND d) else if t < 40 then b XOR c XOR d
      else if t < 60 then (b AND c) OR (b AND d) OR (c AND d) else b XOR c XOR d)"

definition sha1_k :: "nat \<Rightarrow> word32" where
  "sha1_k t = (if t < 20 then 0x5A827999 else if t < 40 then 0x6ED9EBA1 else if t < 60 then 0x8F1BBCDC else 0xCA62C1D6)"

type_synonym sha1_state = "word32 \<times> word32 \<times> word32 \<times> word32 \<times> word32"

fun sha1_round :: "sha1_state \<Rightarrow> nat \<times> word32 \<Rightarrow> sha1_state" where
  "sha1_round (a, b, c, d, e) (t, w) = (rotl32 5 a + sha1_f t b c d + e + w + sha1_k t, a, rotl32 30 b, c, d)"

fun sha1_block :: "sha1_state \<Rightarrow> word32 list \<Rightarrow> sha1_state" where
  "sha1_block (h0, h1, h2, h3, h4) w =
     (case foldl sha1_round (h0, h1, h2, h3, h4) (zip [0..<80] (sha1_schedule 64 w)) of
        (a, b, c, d, e) \<Rightarrow> (h0 + a, h1 + b, h2 + c, h3 + d, h4 + e))"

function sha1_blocks :: "sha1_state \<Rightarrow> word32 list \<Rightarrow> sha1_state" where
  "sha1_blocks h w = (if length w < 16 then h else sha1_blocks (sha1_block h (take 16 w)) (drop 16 w))"
  by pat_completeness auto
termination
  by (relation "measure (\<lambda>(h, w). length w)") auto

declare sha1_blocks.simps [simp del]

definition word_octets :: "word32 \<Rightarrow> octets" where
  "word_octets x = [ucast (drop_bit 24 x), ucast (drop_bit 16 x), ucast (drop_bit 8 x), ucast x]"

definition sha1_sum :: "octets \<Rightarrow> octets" where
  "sha1_sum m =
     (case sha1_blocks (0x67452301, 0xEFCDAB89, 0x98BADCFE, 0x10325476, 0xC3D2E1F0) (sha1_words (sha1_pad m)) of
        (a, b, c, d, e) \<Rightarrow> concat (map word_octets [a, b, c, d, e]))"

text \<open>\<open>base64.StdEncoding\<close>.\<close>

definition base64_chars :: string where
  "base64_chars = ''ABCDEFGHIJKLMNOPQRSTUVWXYZabcdefghijklmnopqrstuvwxyz0123456789+/''"

definition base64_char :: "int \<Rightarrow> char" where
  "base64_char n = base64_chars ! nat (n mod 64)"

fun base64_encode :: "octets \<Rightarrow> string" where
  "base64_encode [] = []"
| "base64_encode [a] = (let n = uint a * 65536 in [base64_char (n div 262144), base64_char (n div 4096), CHR ''='', CHR ''=''])"
| "base64_encode [a, b] =
     (let n = uint a * 65536 + uint b * 256 in [base64_char (n div 262144), base64_char (n div 4096), base64_char (n div 64), CHR ''=''])"
| "base64_encode (a # b # c # s) =
     (let n = uint a * 65536 + uint b * 256 + uint c
      in [base64_char (n div 262144), base64_char (n div 4096), base64_char (n div 64), base64_char n] @ base64_encode s)"

definition keyGUID :: string where
  "keyGUID = ''258EAFA5-E914-47DA-95CA-C5AB0DC85B11''"

definition acceptKeyString :: "string \<Rightarrow> string" where
  "acceptKeyString challengeKey = base64_encode (sha1_sum (to_octets (challengeKey @ keyGUID)))"

definition acceptKeyBytes :: "string \<Rightarrow> bytes" where
  "acceptKeyBytes challengeKey =
     (let h = to_octets challengeKey; h = h @ to_octets keyGUID; sum = sha1_sum h in base64_encode sum)"

text \<open>The random bytes of a key, None when the source of randomness fails.\<close>

definition challengeKey :: "octets option \<Rightarrow> string option" where
  "challengeKey p = map_option base64_encode p"

datatype hs_err = HsTokenNotFound | HsMethodIsGet | HsInvalidWebsocketVersion | HsUnsupportedExtensions | HsOriginNotAllowed
  | HsMissingWebsocketKey | HsNotHijacker | HsHijack | HsWriteConn | HsInvalidOptions | HsChallengeKey | HsURLParse | HsMalformedURL
  | HsDuplicateHeader string | HsBadHandshake | HsInvalidCompression | HsStatus500 | HsNBConn | HsAddConn | HsClient

record upgrader =
  u_enableCompression :: bool
  u_Subprotocols :: "string list option"
  u_CheckOrigin :: "(http_request \<Rightarrow> bool) option"
  u_HandshakeTimeout :: int

definition checkSameOrigin :: "(string \<Rightarrow> http_url option) \<Rightarrow> http_request \<Rightarrow> bool" where
  "checkSameOrigin urlParse r =
     (case Header_values (rHeader r) ''Origin'' of
        [] \<Rightarrow> True
      | o1 # _ \<Rightarrow> (case urlParse o1 of None \<Rightarrow> False | Some u \<Rightarrow> equalASCIIFold (url_Host u) (Host r)))"

definition subprotocols :: "http_request \<Rightarrow> string list" where
  "subprotocols r =
     (let h = TrimSpace (Header_Get (rHeader r) ''Sec-Websocket-Protocol'')
      in if h = [] then [] else map TrimSpace (split_on COMMA h))"

text \<open>A nil response header is None.\<close>

definition selectSubprotocol :: "upgrader \<Rightarrow> http_request \<Rightarrow> Header option \<Rightarrow> string" where
  "selectSubprotocol u r responseHeader =
     (case u_Subprotocols u of
        Some ps \<Rightarrow> (case find (\<lambda>p. p \<in> set (subprotocols r)) ps of None \<Rightarrow> [] | Some p \<Rightarrow> p)
      | None \<Rightarrow> (case responseHeader of None \<Rightarrow> [] | Some h \<Rightarrow> Header_Get h ''Sec-Websocket-Protocol''))"

text \<open>\<open>http.Error\<close> on an \<open>nbhttp.Response\<close>, and \<open>returnError\<close>.\<close>

definition http_Error :: "resp_env \<Rightarrow> string \<Rightarrow> int \<Rightarrow> response \<Rightarrow> response" where
  "http_Error E text code w =
     (let h = Header_Set (Header_Set (rs_header w) ''Content-Type'' ''text/plain; charset=utf-8'') ''X-Content-Type-Options'' ''nosniff''
      in fst (Response_Write E (text @ [LF]) (WriteHeader E code (w\<lparr>rs_header := h\<rparr>))))"

definition returnError :: "resp_env \<Rightarrow> int \<Rightarrow> 'e \<Rightarrow> response \<Rightarrow> response \<times> ('e + 'a)" where
  "returnError E status err w =
     (http_Error E (StatusText E status) status (w\<lparr>rs_header := Header_Set (rs_header w) ''Sec-Websocket-Version'' ''13''\<rparr>), Inl err)"

text \<open>Negotiation of compression: the first extension named \<open>permessage-deflate\<close>.\<close>

definition ext_name :: "(string \<times> string) list \<Rightarrow> string" where
  "ext_name ext = (case map_of ext [] of None \<Rightarrow> [] | Some t \<Rightarrow> t)"

definition deflate :: string where
  "deflate = ''permessage-deflate''"

definition commCheck ::
  "(string \<Rightarrow> http_url option) \<Rightarrow> resp_env \<Rightarrow> upgrader \<Rightarrow> http_request \<Rightarrow> Header option \<Rightarrow> response \<Rightarrow> response \<times> (hs_err + string \<times> string \<times> bool)" where
  "commCheck urlParse E u r responseHeader w =
     (if \<not> headerContains (rHeader r) ''Connection'' ''upgrade'' then returnError E 400 HsTokenNotFound w
      else if \<not> headerContains (rHeader r) ''Upgrade'' ''websocket'' then returnError E 400 HsTokenNotFound w
      else if Method r \<noteq> ''GET'' then returnError E 405 HsMethodIsGet w
      else if \<not> headerContains (rHeader r) ''Sec-Websocket-Version'' ''13'' then returnError E 400 HsInvalidWebsocketVersion w
      else if (case responseHeader of None \<Rightarrow> False | Some h \<Rightarrow> map_of h ''Sec-Websocket-Extensions'' \<noteq> None) then returnError E 500 HsUnsupportedExtensions w
      else if \<not> (case u_CheckOrigin u of None \<Rightarrow> checkSameOrigin urlParse r | Some f \<Rightarrow> f r) then returnError E 403 HsOriginNotAllowed w
      else
        (let key = Header_Get (rHeader r) ''Sec-Websocket-Key'' in
         if key = [] then returnError E 400 HsMissingWebsocketKey w
         else
           (let compress = (u_enableCompression u \<and> list_ex (\<lambda>ext. ext_name ext = deflate) (parseExtensions (rHeader r)))
            in (w, Inr (key, selectSubprotocol u r responseHeader, compress)))))"

text \<open>\<open>commResponse\<close>: control characters of the caller's header values become spaces.\<close>

definition response_value :: "string \<Rightarrow> string" where
  "response_value v = map (\<lambda>b. if byte_val b \<le> 31 then SP else b) v"

definition response_header_lines :: "Header \<Rightarrow> bytes" where
  "response_header_lines h =
     concat (map (\<lambda>(k, vs). concat (map (\<lambda>v. k @ '': '' @ response_value v @ CRLF) vs)) (filter (\<lambda>(k, vs). k \<noteq> ''Sec-Websocket-Protocol'') h))"

definition deflate_offer :: string where
  "deflate_offer = ''permessage-deflate; server_no_context_takeover; client_no_context_takeover''"

definition handshake_bytes :: "Header option \<Rightarrow> string \<Rightarrow> string \<Rightarrow> bool \<Rightarrow> bytes" where
  "handshake_bytes responseHeader key subprotocol compress =
     ''HTTP/1.1 101 Switching Protocols'' @ CRLF @ ''Upgrade: websocket'' @ CRLF @ ''Connection: Upgrade'' @ CRLF @
     ''Sec-WebSocket-Accept: '' @ acceptKeyBytes key @ CRLF @
     (if subprotocol \<noteq> [] then ''Sec-WebSocket-Protocol: '' @ subprotocol @ CRLF else []) @
     (if compress then ''Sec-WebSocket-Extensions: '' @ deflate_offer @ CRLF else []) @
     (case responseHeader of None \<Rightarrow> [] | Some h \<Rightarrow> response_header_lines h) @ CRLF"

text \<open>The connection of the handshake: what it took, whether it was closed, whether a write deadline was set. \<open>takes\<close> is whether
  it takes the write.\<close>

record hs_conn =
  hc_sent :: bytes
  hc_closed :: bool
  hc_writeDeadline :: bool

definition commResponse :: "bool \<Rightarrow> upgrader \<Rightarrow> Header option \<Rightarrow> string \<Rightarrow> string \<Rightarrow> bool \<Rightarrow> hs_conn \<Rightarrow> hs_conn \<times> hs_err option" where
  "commResponse takes u responseHeader key subprotocol compress c0 =
     (let c = (if u_HandshakeTimeout u > 0 then c0\<lparr>hc_writeDeadline := True\<rparr> else c0) in
      if takes then (c\<lparr>hc_sent := hc_sent c @ handshake_bytes responseHeader key subprotocol compress\<rparr>, None)
      else (c\<lparr>hc_closed := True\<rparr>, Some HsWriteConn))"

text \<open>The dialer. \<open>d_Cookies\<close> is what the jar has for the URL, as a \<open>Cookie\<close> header value.\<close>

record dialer =
  d_Options :: "upgrader option"
  d_Upgrader :: "upgrader option"
  d_Cookies :: "string option"
  d_Subprotocols :: "string list"

fun join_with :: "string \<Rightarrow> string list \<Rightarrow> string" where
  "join_with sep [] = []"
| "join_with sep [s] = s"
| "join_with sep (s # t # ss) = s @ sep @ join_with sep (t # ss)"

definition reserved_headers :: "string list" where
  "reserved_headers = [''Upgrade'', ''Connection'', ''Sec-Websocket-Key'', ''Sec-Websocket-Version'', ''Sec-Websocket-Extensions'']"

text \<open>The loop over the caller's header.\<close>

fun caller_headers :: "string list \<Rightarrow> Header \<Rightarrow> Header \<times> string \<Rightarrow> hs_err + (Header \<times> string)" where
  "caller_headers subs [] hh = Inr hh"
| "caller_headers subs ((k, vs) # hs) (h, host) =
     (if k = ''Host'' then caller_headers subs hs (h, case vs of [] \<Rightarrow> host | v # _ \<Rightarrow> v)
      else if k \<in> set reserved_headers \<or> k = ''Sec-Websocket-Protocol'' \<and> subs \<noteq> [] then Inl (HsDuplicateHeader k)
      else caller_headers subs hs (AList.update k vs h, host))"

definition handshake_headers :: "dialer \<Rightarrow> string \<Rightarrow> Header" where
  "handshake_headers d key =
     (let h = (case d_Cookies d of None \<Rightarrow> [] | Some c \<Rightarrow> [(''Cookie'', [c])]);
          h = AList.update ''Upgrade'' [''websocket''] h;
          h = AList.update ''Connection'' [''Upgrade''] h;
          h = AList.update ''Sec-Websocket-Key'' [key] h;
          h = AList.update ''Sec-Websocket-Version'' [''13''] h
      in if d_Subprotocols d \<noteq> [] then AList.update ''Sec-Websocket-Protocol'' [join_with '', '' (d_Subprotocols d)] h else h)"

definition dial_options :: "dialer \<Rightarrow> upgrader option" where
  "dial_options d = (case d_Options d of None \<Rightarrow> d_Upgrader d | Some o1 \<Rightarrow> Some o1)"

text \<open>\<open>DialContext\<close> up to \<open>cliConn.Do\<close>: the request. The parsed URL comes with whether it has user information.\<close>

definition dial_request ::
  "(string \<Rightarrow> (http_url \<times> bool) option) \<Rightarrow> dialer \<Rightarrow> string \<Rightarrow> Header \<Rightarrow> octets option \<Rightarrow> hs_err + (string \<times> http_request)" where
  "dial_request urlParse d urlStr requestHeader random =
     (case dial_options d of
        None \<Rightarrow> Inl HsInvalidOptions
      | Some options \<Rightarrow>
          (case challengeKey random of
             None \<Rightarrow> Inl HsChallengeKey
           | Some key \<Rightarrow>
               (case urlParse urlStr of
                  None \<Rightarrow> Inl HsURLParse
                | Some (u, user) \<Rightarrow>
                    if url_Scheme u \<noteq> ''ws'' \<and> url_Scheme u \<noteq> ''wss'' \<or> user then Inl HsMalformedURL
                    else
                      (let u = u\<lparr>url_Scheme := (if url_Scheme u = ''ws'' then ''http'' else ''https'')\<rparr> in
                       case caller_headers (d_Subprotocols d) requestHeader (handshake_headers d key, url_Host u) of
                         Inl e \<Rightarrow> Inl e
                       | Inr (h, host) \<Rightarrow>
                           Inr (key, emptyRequest\<lparr>Method := ''GET'', URL := Some u, Proto := ''HTTP/1.1'', ProtoMajor := 1, ProtoMinor := 1,
                             rHeader := (if u_enableCompression options then AList.update ''Sec-Websocket-Extensions'' [deflate_offer] h else h),
                             Host := host\<rparr>)))))"

text \<open>What \<open>cliConn.Do\<close> hands to the callback: the type of the connection, with whether its session is a parser.\<close>

datatype dial_conn = DNbio bool | DTlsNbio bool | DTlsOther | DNbhttpOther | DOther

fun dial_parser :: "dial_conn \<Rightarrow> hs_err option" where
  "dial_parser (DNbio ok) = (if ok then None else Some HsStatus500)"
| "dial_parser (DTlsNbio ok) = (if ok then None else Some HsStatus500)"
| "dial_parser DTlsOther = Some HsStatus500"
| "dial_parser DNbhttpOther = Some HsBadHandshake"
| "dial_parser DOther = Some HsBadHandshake"

fun dial_extensions :: "(string \<times> string) list list \<Rightarrow> hs_err + bool" where
  "dial_extensions [] = Inr False"
| "dial_extensions (ext # exts) =
     (if ext_name ext \<noteq> deflate then dial_extensions exts
      else if map_of ext ''server_no_context_takeover'' = None \<or> map_of ext ''client_no_context_takeover'' = None then Inl HsInvalidCompression
      else Inr True)"

text \<open>The callback: the subprotocol and the compression of the new WebSocket connection.\<close>

definition dial_response :: "bool \<Rightarrow> dial_conn \<Rightarrow> string \<Rightarrow> http_response \<Rightarrow> hs_err + (string \<times> bool)" where
  "dial_response clientErr conn key resp =
     (if clientErr then Inl HsClient
      else
        (case dial_parser conn of
           Some e \<Rightarrow> Inl e
         | None \<Rightarrow>
             if cStatusCode resp \<noteq> 101 \<or> \<not> headerContains (cHeader resp) ''Upgrade'' ''websocket'' \<or>
                \<not> headerContains (cHeader resp) ''Connection'' ''upgrade'' \<or>
                Header_Get (cHeader resp) ''Sec-Websocket-Accept'' \<noteq> acceptKeyString key
             then Inl HsBadHandshake
             else (case dial_extensions (parseExtensions (cHeader resp)) of
                     Inl e \<Rightarrow> Inl e
                   | Inr compress \<Rightarrow> Inr (Header_Get (cHeader resp) ''Sec-Websocket-Protocol'', compress))))"


text \<open>As the response handler of the client's processor: \<open>NewClientConn\<close> is called with the outcome and becomes the parser's closer.\<close>

definition dial_handler :: "(string \<Rightarrow> bool \<Rightarrow> 'u) \<Rightarrow> dial_conn \<Rightarrow> string \<Rightarrow> http_response \<Rightarrow> 'u option" where
  "dial_handler newClientConn conn key resp =
     (case dial_response False conn key resp of Inl e \<Rightarrow> None | Inr (sub, compress) \<Rightarrow> Some (newClientConn sub compress))"

end
