(* ===== verification/WsAgreement.thy ===== *)
theory WsAgreement
  imports WsHandshake HttpClient
begin

text \<open>Facts on the handshake: the subprotocols a dialer offers are read back as they were, the caller's header cannot change the
  handshake's own lines, and the server's response is a reply in the grammar of \<open>HttpReply\<close> that the dialer accepts.\<close>

definition wf_token :: "string \<Rightarrow> bool" where
  "wf_token p \<longleftrightarrow> p \<noteq> [] \<and> list_all isTokenOctet p"

lemma token_chars: "isTokenOctet c \<Longrightarrow> c \<noteq> COMMA \<and> c \<noteq> CR \<and> c \<noteq> LF \<and> c \<noteq> SP \<and> c \<noteq> HTAB"
proof -
  have "\<not> isTokenOctet COMMA" "\<not> isTokenOctet CR" "\<not> isTokenOctet LF" "\<not> isTokenOctet SP" "\<not> isTokenOctet HTAB" by code_simp+
  then show "isTokenOctet c \<Longrightarrow> c \<noteq> COMMA \<and> c \<noteq> CR \<and> c \<noteq> LF \<and> c \<noteq> SP \<and> c \<noteq> HTAB" by auto
qed

text \<open>No token character begins or ends the encoding of a white space.\<close>

lemma space_ends: "list_all (\<lambda>e. e \<noteq> [] \<and> \<not> isTokenOctet (hd e) \<and> \<not> isTokenOctet (last e)) space_encodings"
  by code_simp

lemma find_none: "\<forall>x \<in> set xs. \<not> P x \<Longrightarrow> find P xs = None"
  by (simp add: find_None_iff)

lemma trim_left_token:
  assumes "\<forall>e \<in> set encs. e \<noteq> [] \<and> hd e \<noteq> hd s" "s \<noteq> []"
  shows "trim_left encs s = s"
proof -
  have "\<not> (e \<noteq> [] \<and> take (length e) s = e)" if "e \<in> set encs" for e
    using assms that by (cases e; cases s) auto
  then have "find (\<lambda>e. e \<noteq> [] \<and> take (length e) s = e) encs = None" by (intro find_none) blast
  then show ?thesis by (simp add: trim_left.simps [of encs s])
qed

lemma trim_left_SP: "trim_left space_encodings (SP # s) = trim_left space_encodings s"
proof -
  have "find (\<lambda>e. e \<noteq> [] \<and> take (length e) (SP # s) = e) space_encodings = Some [SP]"
    by (simp add: space_encodings_def)
  then show ?thesis by (subst trim_left.simps) simp
qed

lemma TrimSpace_id:
  assumes "s \<noteq> []" "isTokenOctet (hd s)" "isTokenOctet (last s)"
  shows "TrimSpace s = s" "TrimSpace (SP # s) = s"
proof -
  have e: "\<forall>e \<in> set space_encodings. e \<noteq> [] \<and> hd e \<noteq> hd s" "\<forall>e \<in> set (map rev space_encodings). e \<noteq> [] \<and> hd e \<noteq> hd (rev s)"
    using space_ends assms by (auto simp: list_all_iff hd_rev)
  have "trim_left space_encodings s = s" "trim_left (map rev space_encodings) (rev s) = rev s"
    using trim_left_token [OF e(1)] trim_left_token [OF e(2)] assms(1) by simp_all
  then show "TrimSpace s = s" "TrimSpace (SP # s) = s" by (simp_all add: TrimSpace_def trim_left_SP)
qed

lemma wf_token_ends: "wf_token p \<Longrightarrow> p \<noteq> [] \<and> isTokenOctet (hd p) \<and> isTokenOctet (last p) \<and> COMMA \<notin> set p"
  using token_chars by (auto simp: wf_token_def list_all_iff)

lemma split_on_append: "COMMA \<notin> set p \<Longrightarrow> split_on COMMA (p @ COMMA # s) = p # split_on COMMA s" "COMMA \<notin> set p \<Longrightarrow> split_on COMMA p = [p]"
  by (induction p) auto

lemma split_on_ne [simp]: "split_on sep s \<noteq> []"
  by (induction s) (auto split: list.split)

lemma split_SP: "split_on COMMA (SP # s) = (SP # hd (split_on COMMA s)) # tl (split_on COMMA s)"
  using split_on_ne [of COMMA s] by (cases "split_on COMMA s") auto

lemma split_join:
  "list_all wf_token ps \<Longrightarrow> ps \<noteq> [] \<Longrightarrow> split_on COMMA (join_with '', '' ps) = hd ps # map ((#) SP) (tl ps)"
proof (induction "'', ''" ps rule: join_with.induct)
  case (2 s)
  then show ?case using wf_token_ends by (simp add: split_on_append)
next
  case (3 s t ss)
  then show ?case using wf_token_ends [of s] by (simp add: split_on_append split_SP)
qed simp

lemma join_ends: "list_all wf_token ps \<Longrightarrow> ps \<noteq> [] \<Longrightarrow> join_with '', '' ps \<noteq> [] \<and> isTokenOctet (hd (join_with '', '' ps)) \<and> isTokenOctet (last (join_with '', '' ps))"
proof (induction "'', ''" ps rule: join_with.induct)
  case (3 s t ss)
  then show ?case using wf_token_ends [of s] by (simp add: hd_append)
qed (simp_all add: wf_token_ends)

lemma subprotocols_join:
  assumes "list_all wf_token ps" "ps \<noteq> []" "Header_Get (rHeader r) ''Sec-Websocket-Protocol'' = join_with '', '' ps"
  shows "subprotocols r = ps"
proof -
  have j: "TrimSpace (join_with '', '' ps) = join_with '', '' ps" using join_ends [OF assms(1,2)] by (intro TrimSpace_id) auto
  have t: "TrimSpace p = p" "TrimSpace (SP # p) = p" if "wf_token p" for p
    using wf_token_ends [OF that] by (auto intro: TrimSpace_id)
  obtain q qs where q: "ps = q # qs" using assms(2) by (cases ps) auto
  have "map (\<lambda>p. TrimSpace (SP # p)) qs = map (\<lambda>p. p) qs" using assms(1) t(2) by (intro map_cong) (auto simp: q list_all_iff)
  then have "map TrimSpace (hd ps # map ((#) SP) (tl ps)) = ps" using assms(1) t(1) by (simp add: q comp_def)
  then show ?thesis using j join_ends [OF assms(1,2)] split_join [OF assms(1,2)] by (simp add: subprotocols_def Let_def assms(3))
qed

text \<open>The dialer's request.\<close>

lemma caller_headers_keep:
  "caller_headers subs hs (h, host) = Inr (h', host') \<Longrightarrow> k \<in> set reserved_headers \<or> k = ''Sec-Websocket-Protocol'' \<and> (subs \<noteq> [] \<or> map_of hs k = None) \<Longrightarrow>
   map_of h' k = map_of h k"
proof (induction subs hs "(h, host)" arbitrary: h host rule: caller_headers.induct)
  case (2 subs k' vs hs h host)
  show ?case
  proof (cases "k' = ''Host''")
    case True
    have "k \<noteq> ''Host''" using 2(4) by (auto simp: reserved_headers_def)
    then show ?thesis using 2(1) [OF True] 2(3,4) True by (auto split: if_splits)
  next
    case False
    then have n: "\<not> (k' \<in> set reserved_headers \<or> k' = ''Sec-Websocket-Protocol'' \<and> subs \<noteq> [])" using 2(3) by (auto split: if_splits)
    then have "k \<noteq> k'" using 2(4) by auto
    then show ?thesis using 2(2) [OF False n] 2(3,4) False n by (auto simp: update_conv')
  qed
qed simp


lemma Header_values_map_of: "map_of h k = map_of h' k \<Longrightarrow> Header_values h k = Header_values h' k"
  by (simp add: Header_values_def)

lemma dial_request_headers:
  assumes "dial_request urlParse d urlStr rh random = Inr (key, req)" "dial_options d = Some opts"
    and "d_Subprotocols d \<noteq> [] \<or> map_of rh ''Sec-Websocket-Protocol'' = None"
  shows "challengeKey random = Some key" "Method req = ''GET''"
    "Header_values (rHeader req) ''Upgrade'' = [''websocket'']" "Header_values (rHeader req) ''Connection'' = [''Upgrade'']"
    "Header_values (rHeader req) ''Sec-Websocket-Key'' = [key]" "Header_values (rHeader req) ''Sec-Websocket-Version'' = [''13'']"
    "Header_values (rHeader req) ''Sec-Websocket-Extensions'' = (if u_enableCompression opts then [deflate_offer] else [])"
    "Header_values (rHeader req) ''Sec-Websocket-Protocol'' = (if d_Subprotocols d \<noteq> [] then [join_with '', '' (d_Subprotocols d)] else [])"
proof -
  obtain h host host0 where key: "challengeKey random = Some key"
    and c: "caller_headers (d_Subprotocols d) rh (handshake_headers d key, host0) = Inr (h, host)"
    and req: "Method req = ''GET''"
      "rHeader req = (if u_enableCompression opts then AList.update ''Sec-Websocket-Extensions'' [deflate_offer] h else h)"
    using assms(1,2) by (auto simp: dial_request_def Let_def split: option.splits sum.splits if_splits)
  show "challengeKey random = Some key" "Method req = ''GET''" by fact+
  have h: "map_of h k = map_of (handshake_headers d key) k" if "k \<in> set (''Sec-Websocket-Protocol'' # reserved_headers)" for k
    using caller_headers_keep [OF c, of k] that assms(3) by auto
  then have v: "Header_values h k = Header_values (handshake_headers d key) k" if "k \<in> set (''Sec-Websocket-Protocol'' # reserved_headers)" for k
    using that by (intro Header_values_map_of) blast
  have hd: "Header_values (handshake_headers d key) ''Upgrade'' = [''websocket'']" "Header_values (handshake_headers d key) ''Connection'' = [''Upgrade'']"
      "Header_values (handshake_headers d key) ''Sec-Websocket-Key'' = [key]" "Header_values (handshake_headers d key) ''Sec-Websocket-Version'' = [''13'']"
      "Header_values (handshake_headers d key) ''Sec-Websocket-Extensions'' = []"
      "Header_values (handshake_headers d key) ''Sec-Websocket-Protocol'' = (if d_Subprotocols d \<noteq> [] then [join_with '', '' (d_Subprotocols d)] else [])"
    by (simp_all add: handshake_headers_def Let_def Header_values_def update_conv' split: option.split)
  have e: "k \<noteq> ''Sec-Websocket-Extensions'' \<Longrightarrow> Header_values (rHeader req) k = Header_values h k"
    "Header_values (rHeader req) ''Sec-Websocket-Extensions'' = (if u_enableCompression opts then [deflate_offer] else Header_values h ''Sec-Websocket-Extensions'')" for k
    by (simp_all add: req(2) Header_values_def update_conv')
  show "Header_values (rHeader req) ''Upgrade'' = [''websocket'']" "Header_values (rHeader req) ''Connection'' = [''Upgrade'']"
    "Header_values (rHeader req) ''Sec-Websocket-Key'' = [key]" "Header_values (rHeader req) ''Sec-Websocket-Version'' = [''13'']"
    "Header_values (rHeader req) ''Sec-Websocket-Extensions'' = (if u_enableCompression opts then [deflate_offer] else [])"
    "Header_values (rHeader req) ''Sec-Websocket-Protocol'' = (if d_Subprotocols d \<noteq> [] then [join_with '', '' (d_Subprotocols d)] else [])"
    using hd v by (simp_all add: e reserved_headers_def)
qed

text \<open>The server's side: what it sees of that request, and what it decides.\<close>

definition handshake_names :: "string list" where
  "handshake_names = ''Sec-Websocket-Protocol'' # reserved_headers"

definition same_handshake :: "http_request \<Rightarrow> http_request \<Rightarrow> bool" where
  "same_handshake req r \<longleftrightarrow> Method r = Method req \<and> list_all (\<lambda>k. Header_values (rHeader r) k = Header_values (rHeader req) k) handshake_names"

definition origin_allowed :: "(string \<Rightarrow> http_url option) \<Rightarrow> upgrader \<Rightarrow> http_request \<Rightarrow> bool" where
  "origin_allowed urlParse u r = (case u_CheckOrigin u of None \<Rightarrow> checkSameOrigin urlParse r | Some f \<Rightarrow> f r)"

definition agreed_protocol :: "string list \<Rightarrow> string list \<Rightarrow> string" where
  "agreed_protocol server client = (case find (\<lambda>p. p \<in> set client) server of None \<Rightarrow> [] | Some p \<Rightarrow> p)"

lemma handshake_values:
  "value_contains ''upgrade'' ''Upgrade''" "value_contains ''websocket'' ''websocket''" "value_contains ''13'' ''13''"
  "ext_list deflate_offer = [[([], ''permessage-deflate''), (''server_no_context_takeover'', []), (''client_no_context_takeover'', [])]]"
  by code_simp+

lemma offered_extension: "ext_name [([], ''permessage-deflate''), (''server_no_context_takeover'', []), (''client_no_context_takeover'', [])] = deflate"
  by (simp add: ext_name_def deflate_def)

lemma server_accepts:
  assumes dial: "dial_request urlParse d urlStr rh random = Inr (key, req)" "dial_options d = Some opts"
      "d_Subprotocols d \<noteq> [] \<or> map_of rh ''Sec-Websocket-Protocol'' = None" "list_all wf_token (d_Subprotocols d)" "key \<noteq> []"
    and seen: "same_handshake req r" "origin_allowed urlParse' u r" "u_Subprotocols u = Some ps"
    and rsp: "\<forall>h. responseHeader = Some h \<longrightarrow> map_of h ''Sec-Websocket-Extensions'' = None"
  shows "commCheck urlParse' E u r responseHeader w =
    (w, Inr (key, agreed_protocol ps (d_Subprotocols d), u_enableCompression u \<and> u_enableCompression opts))"
proof -
  note q = dial_request_headers [OF dial(1-3)]
  have r: "Method r = ''GET''" "Header_values (rHeader r) ''Upgrade'' = [''websocket'']" "Header_values (rHeader r) ''Connection'' = [''Upgrade'']"
      "Header_values (rHeader r) ''Sec-Websocket-Key'' = [key]" "Header_values (rHeader r) ''Sec-Websocket-Version'' = [''13'']"
      "Header_values (rHeader r) ''Sec-Websocket-Extensions'' = (if u_enableCompression opts then [deflate_offer] else [])"
      "Header_values (rHeader r) ''Sec-Websocket-Protocol'' = (if d_Subprotocols d \<noteq> [] then [join_with '', '' (d_Subprotocols d)] else [])"
    using seen(1) q by (simp_all add: same_handshake_def handshake_names_def reserved_headers_def)
  have "subprotocols r = d_Subprotocols d"
  proof (cases "d_Subprotocols d = []")
    case True
    have "TrimSpace [] = []" by code_simp
    then show ?thesis using True r(7) by (simp add: subprotocols_def Header_Get_def Let_def)
  next
    case False
    then show ?thesis using r(7) by (intro subprotocols_join [OF dial(4)]) (simp_all add: Header_Get_def)
  qed
  then have "selectSubprotocol u r responseHeader = agreed_protocol ps (d_Subprotocols d)"
    by (simp add: selectSubprotocol_def seen(3) agreed_protocol_def)
  moreover have "list_ex (\<lambda>ext. ext_name ext = deflate) (parseExtensions (rHeader r)) = u_enableCompression opts"
    by (simp add: parseExtensions_def r(6) handshake_values(4) offered_extension)
  ultimately show ?thesis using r handshake_values(1-3) seen(2) rsp dial(5)
    by (auto simp: commCheck_def headerContains_def Header_Get_def origin_allowed_def Let_def split: option.splits)
qed


text \<open>The server's response as a reply.\<close>

definition caller_pairs :: "Header option \<Rightarrow> (string \<times> string) list" where
  "caller_pairs responseHeader = (case responseHeader of None \<Rightarrow> []
     | Some h \<Rightarrow> concat (map (\<lambda>(k, vs). map (\<lambda>v. (k, response_value v)) vs) (filter (\<lambda>(k, vs). k \<noteq> ''Sec-Websocket-Protocol'') h)))"

definition handshake_reply :: "Header option \<Rightarrow> string \<Rightarrow> string \<Rightarrow> bool \<Rightarrow> reply" where
  "handshake_reply responseHeader key sub compress = \<lparr>rp_proto = ''HTTP/1.1'', rp_code = 101, rp_reason = ''Switching Protocols'',
     rp_headers = [(''Upgrade'', ''websocket''), (''Connection'', ''Upgrade''), (''Sec-WebSocket-Accept'', acceptKeyBytes key)] @
       (if sub \<noteq> [] then [(''Sec-WebSocket-Protocol'', sub)] else []) @
       (if compress then [(''Sec-WebSocket-Extensions'', deflate_offer)] else []) @ caller_pairs responseHeader,
     rp_body = NoBody\<rparr>"

text \<open>The caller's own header lines are well formed and do not touch the handshake or the framing.\<close>

definition reply_names :: "string list" where
  "reply_names = [''Upgrade'', ''Connection'', ''Sec-Websocket-Accept'', ''Sec-Websocket-Protocol'', ''Sec-Websocket-Extensions'',
     transferEncodingHeader, trailerHeader, contentLengthHeader]"

definition quiet_header :: "Header option \<Rightarrow> bool" where
  "quiet_header responseHeader \<longleftrightarrow> list_all (\<lambda>x. wf_header x \<and> CanonicalHeaderKey (fst x) \<notin> set reply_names) (caller_pairs responseHeader)"

lemma print_caller_pairs:
  "concat (map print_header (caller_pairs responseHeader)) = (case responseHeader of None \<Rightarrow> [] | Some h \<Rightarrow> response_header_lines h)"
proof (cases responseHeader)
  case (Some h)
  have "concat (map print_header (concat (map (\<lambda>(k, vs). map (\<lambda>v. (k, response_value v)) vs) xs))) =
      concat (map (\<lambda>(k, vs). concat (map (\<lambda>v. k @ '': '' @ response_value v @ CRLF) vs)) xs)" for xs
    by (induction xs) (auto simp: print_header_def CRLF_def comp_def)
  then show ?thesis by (simp add: Some caller_pairs_def response_header_lines_def)
qed (simp add: caller_pairs_def)

lemma handshake_bytes_reply: "handshake_bytes responseHeader key sub compress = print_reply (handshake_reply responseHeader key sub compress)"
proof -
  have "FormatInt 10 101 = ''101''" by code_simp
  then show ?thesis
    by (simp add: handshake_bytes_def print_reply_def print_status_def handshake_reply_def print_caller_pairs print_header_def CRLF_def)
qed

lemma base64_encode_chars: "c \<in> set (base64_encode s) \<Longrightarrow> c \<in> set (CHR ''='' # base64_chars)"
proof -
  have l: "length base64_chars = 64" by (simp add: base64_chars_def)
  have b: "base64_char n \<in> set base64_chars" for n
    unfolding base64_char_def by (rule nth_mem) (simp add: l nat_less_iff)
  show "c \<in> set (base64_encode s) \<Longrightarrow> ?thesis"
    by (induction s rule: base64_encode.induct) (use b in \<open>auto simp: Let_def\<close>)
qed

lemma base64_encode_ne: "s \<noteq> [] \<Longrightarrow> base64_encode s \<noteq> []"
  by (cases s rule: base64_encode.cases) (simp_all add: Let_def)

lemma acceptKey_wf: "wf_header (''Sec-WebSocket-Accept'', acceptKeyBytes key)"
proof -
  have "sha1_sum m \<noteq> []" for m by (simp add: sha1_sum_def word_octets_def split: prod.split)
  then have ne: "acceptKeyBytes key \<noteq> []" by (simp add: acceptKeyBytes_def Let_def base64_encode_ne)
  have "SP \<notin> set (CHR ''='' # base64_chars)" "CR \<notin> set (CHR ''='' # base64_chars)" "LF \<notin> set (CHR ''='' # base64_chars)" by code_simp+
  then have "c \<noteq> SP \<and> c \<noteq> CR \<and> c \<noteq> LF" if "c \<in> set (acceptKeyBytes key)" for c
    using base64_encode_chars that unfolding acceptKeyBytes_def Let_def by blast
  moreover have "list_all isToken ''Sec-WebSocket-Accept''" by code_simp
  ultimately show ?thesis using ne hd_in_set by (auto simp: wf_header_def)
qed

lemma acceptKey_same: "acceptKeyBytes key = acceptKeyString key"
  by (simp add: acceptKeyBytes_def acceptKeyString_def to_octets_def)

lemma wf_handshake_reply:
  assumes "quiet_header responseHeader" "sub = [] \<or> wf_token sub"
  shows "wf_reply (handshake_reply responseHeader key sub compress)"
proof -
  have k: "CanonicalHeaderKey ''Upgrade'' \<notin> framing" "CanonicalHeaderKey ''Connection'' \<notin> framing" "CanonicalHeaderKey ''Sec-WebSocket-Accept'' \<notin> framing"
      "CanonicalHeaderKey ''Sec-WebSocket-Protocol'' \<notin> framing" "CanonicalHeaderKey ''Sec-WebSocket-Extensions'' \<notin> framing"
    unfolding framing_def by code_simp+
  have w: "wf_header (''Upgrade'', ''websocket'')" "wf_header (''Connection'', ''Upgrade'')" "wf_header (''Sec-WebSocket-Extensions'', deflate_offer)" by code_simp+
  have "list_all isToken ''Sec-WebSocket-Protocol''" by code_simp
  then have p: "wf_header (''Sec-WebSocket-Protocol'', sub)" if "sub \<noteq> []"
    using assms(2) that token_chars by (fastforce simp: wf_header_def wf_token_def list_all_iff)
  have c: "list_all wf_header (caller_pairs responseHeader)" "framing_lines (caller_pairs responseHeader) = []"
    using assms(1) by (auto simp: quiet_header_def list_all_iff framing_lines_def filter_empty_conv framing_def reply_names_def)
  have "isAlpha (CHR ''S'')" by code_simp
  then show ?thesis using k w p c acceptKey_wf [of key] by (simp add: wf_reply_def handshake_reply_def framing_lines_def)
qed

lemma dialer_accepts:
  assumes "quiet_header responseHeader" "reply_matches (handshake_reply responseHeader key sub compress) j" "dial_parser conn = None"
  shows "dial_response False conn key j = Inr (sub, compress)"
proof -
  have k: "CanonicalHeaderKey ''Upgrade'' = ''Upgrade''" "CanonicalHeaderKey ''Connection'' = ''Connection''"
      "CanonicalHeaderKey ''Sec-WebSocket-Accept'' = ''Sec-Websocket-Accept''" "CanonicalHeaderKey ''Sec-WebSocket-Protocol'' = ''Sec-Websocket-Protocol''"
      "CanonicalHeaderKey ''Sec-WebSocket-Extensions'' = ''Sec-Websocket-Extensions''" by code_simp+
  have c: "filter (\<lambda>x. CanonicalHeaderKey (fst x) = n) (caller_pairs responseHeader) = []" if "n \<in> set reply_names" for n
    using assms(1) that by (auto simp: quiet_header_def list_all_iff filter_empty_conv)
  have v: "Header_values (cHeader j) n = reply_values (handshake_reply responseHeader key sub compress) n" for n
    using assms(2) by (simp add: reply_matches_def)
  have h: "Header_values (cHeader j) ''Upgrade'' = [''websocket'']" "Header_values (cHeader j) ''Connection'' = [''Upgrade'']"
      "Header_values (cHeader j) ''Sec-Websocket-Accept'' = [acceptKeyBytes key]"
      "Header_values (cHeader j) ''Sec-Websocket-Protocol'' = (if sub \<noteq> [] then [sub] else [])"
      "Header_values (cHeader j) ''Sec-Websocket-Extensions'' = (if compress then [deflate_offer] else [])"
    using c by (simp_all add: v reply_values_def handshake_reply_def k reply_names_def)
  have "dial_extensions (parseExtensions (cHeader j)) = Inr compress"
    by (simp add: parseExtensions_def h(5) handshake_values(4) offered_extension)
  moreover have "cStatusCode j = 101" using assms(2) by (simp add: reply_matches_def handshake_reply_def)
  ultimately show ?thesis using h handshake_values(1,2) assms(3) acceptKey_same
    by (simp add: dial_response_def headerContains_def Header_Get_def)
qed


text \<open>A reply without a body whose handler takes the connection over: what follows it goes to the new owner.\<close>

lemma consumes_upgrade:
  assumes p: "at_boundary True p" and wf: "wf_reply r" "rp_body r = NoBody"
    and d: "deliver_reply_head E r (p_Processor p) = Some ps" "OnComplete E ps = (ps', Some u)"
  shows "\<exists>q. consumes E (print_reply r) p q \<and> p_ParserCloser q = Some u \<and> p_Processor q = ps' \<and> p_bytesCached q = None"
proof -
  obtain ps0 where op: "OnProto E (rp_proto r) (p_Processor p) = (ps0, None)"
    and ps: "ps = OnContentLength E (-1) (fold (deliver_header E) (rp_headers r) (OnStatus E (int (rp_code r)) (first_word (rp_reason r)) ps0))"
    using d(1) wf(2) by (auto simp: deliver_reply_head_def split: prod.splits option.splits)
  have "\<exists>q'. consumes E [CR, LF] q q' \<and> p_ParserCloser q' = Some u \<and> p_Processor q' = ps' \<and> p_bytesCached q' = None"
    if q: "idle True q" "p_state q = stateHeaderKeyBefore" "p_header q = body_header (rp_body r)" "\<not> p_chunked q"
      "p_Processor q = fold (deliver_header E) (rp_headers r) (OnStatus E (int (rp_code r)) (first_word (rp_reason r)) ps0)" for q
  proof -
    obtain h where fh: "finish_headers E q = (q\<lparr>p_header := h, p_chunked := False, p_contentLength := -1, p_Processor := ps, p_state := stateHeaderOverLF\<rparr>, None)"
      using finish_headers_body [OF q(3,4) _ q(2), of E] wf ps q(5) by (auto simp: wf_reply_def)
    have c: "p_ParserCloser q = None" "p_bytesCached q = None" using q(1) by (simp_all add: idle_def)
    let ?q = "q\<lparr>p_header := h, p_chunked := False, p_contentLength := -1, p_Processor := ps, p_state := stateHeaderOverLF, p_headerExists := False\<rparr>"
    have "consumes E [CR, LF] q (handleMessage E ?q)" using consumes_headers_end [OF q(2) c(1) fh] c by simp
    then show ?thesis using c d(2) by (intro exI [of _ "handleMessage E ?q"]) (simp add: handleMessage_def nextState_def)
  qed
  note end_ok = this
  have "\<exists>q'. consumes E (print_status r @ concat (map print_header (rp_headers r)) @ [CR, LF]) p q' \<and>
      (p_ParserCloser q' = Some u \<and> p_Processor q' = ps' \<and> p_bytesCached q' = None)"
    by (rule consumes_reply_headers [OF p wf(1) op]) (simp_all only: end_ok list.distinct list.sel not_False_eq_True char.inject, simp)
  then show ?thesis by (simp add: print_reply_def wf(2))
qed

lemma Parse_upgrade:
  assumes "at_boundary True p" "wf_reply r" "rp_body r = NoBody"
    and "deliver_reply_head E r (p_Processor p) = Some ps" "OnComplete E ps = (ps', Some u)"
  shows "\<exists>q. Parse E (print_reply r @ extra) p = Some (q, if extra = [] then None else snd (CloserParse E extra u)) \<and>
    p_ParserCloser q = Some (if extra = [] then u else fst (CloserParse E extra u)) \<and> p_Processor q = (if extra = [] then ps' else Clean E ps')"
proof -
  let ?p = "initReadDeadline E p" let ?d = "print_reply r"
  have "at_boundary True ?p" using assms(1) by simp
  then have b: "at_boundary True ?p" "p_bytesCached p = None" "p_bytesCached ?p = None" "p_ParserCloser ?p = None" "p_state p \<noteq> stateClose" "?d \<noteq> []"
    using assms(1) by (simp, simp_all add: at_boundary_def idle_def print_reply_def print_status_def)
  obtain q where q: "consumes E ?d ?p q" "p_ParserCloser q = Some u" "p_Processor q = ps'" "p_bytesCached q = None"
    using consumes_upgrade [OF b(1) assms(2,3), of E ps ps' u] assms(4,5) by auto
  have "loop_inv ?d 0 0 ?p" using q(1) by (auto simp: consumes_def loop_inv_def)
  then have "parse_loop E (?d @ extra) 0 0 ?p = parse_loop E (?d @ extra) (length ?d) (length ?d) q"
    using q(1) by (simp add: parse_loop_append consumes_def)
  also have "\<dots> = (if extra = [] then LExit q (length ?d) else LUpgrade (q\<lparr>p_Processor := Clean E (p_Processor q)\<rparr>) (length ?d))"
    using q(2) by (subst parse_loop.simps) simp
  finally have l: "parse_loop E (?d @ extra) 0 0 ?p = \<dots>" .
  show ?thesis using b l q(2-4)
    by (cases "CloserParse E extra u") (auto simp: Parse_def Let_def cache_rest_def upgrade_parse_def)
qed

lemma dialed:
  fixes newConn :: "string \<Rightarrow> bool \<Rightarrow> 'u"
  assumes "quiet_header responseHeader" "sub = [] \<or> wf_token sub" "dial_parser conn = None"
  shows "\<exists>q. Parse (client_env S (dial_handler newConn conn key)) (handshake_bytes responseHeader key sub compress @ extra)
      (NewParser NewClientProcessor True) = Some (q, if extra = [] then None else snd (UpgradedParse S extra (newConn sub compress))) \<and>
    p_ParserCloser q = Some (if extra = [] then newConn sub compress else fst (UpgradedParse S extra (newConn sub compress)))"
proof -
  let ?E = "client_env S (dial_handler newConn conn key)" let ?r = "handshake_reply responseHeader key sub compress"
  let ?p = "NewParser NewClientProcessor True :: (cproc, 'u) parser"
  have b: "at_boundary True ?p" by (simp add: at_boundary_def idle_def NewParser_def)
  have v: "ParseHTTPVersion ''HTTP/1.1'' \<noteq> None" by code_simp
  have "takeable S ?r" using v by (simp add: takeable_def handshake_reply_def)
  moreover have "c_resting NewClientProcessor" by (simp add: c_resting_def NewClientProcessor_def)
  ultimately obtain ps j where d: "deliver_reply_head ?E ?r NewClientProcessor = Some ps" "cp_response ps = Some j" "reply_matches ?r j"
    using deliver_head_client [of S ?r NewClientProcessor "dial_handler newConn conn key"] by auto
  have "dial_handler newConn conn key j = Some (newConn sub compress)"
    using dialer_accepts [OF assms(1) d(3) assms(3)] by (simp add: dial_handler_def)
  moreover have "cStatusCode j = 101" using d(3) by (simp add: reply_matches_def handshake_reply_def)
  ultimately obtain ps' where "OnComplete ?E ps = (ps', Some (newConn sub compress))"
    using d(2) by (simp add: client_env_def c_OnComplete_def Let_def)
  moreover have "deliver_reply_head ?E ?r (p_Processor ?p) = Some ps" using d(1) by (simp add: NewParser_def)
  moreover have "rp_body ?r = NoBody" by (simp add: handshake_reply_def)
  moreover have "CloserParse ?E = UpgradedParse S" by (simp add: client_env_def)
  ultimately show ?thesis
    using Parse_upgrade [OF b wf_handshake_reply [OF assms(1,2)], of key compress ?E ps ps' "newConn sub compress" extra]
    by (auto simp: handshake_bytes_reply)
qed

end
