(* ===== verification/WsUpgrade.thy ===== *)
theory WsUpgrade
  imports WsHandshake StreamReader
begin

text \<open>
  \<open>Upgrader.Upgrade\<close> of \<open>nbhttp/websocket/upgrader.go\<close>: after the handshake check the connection is taken from its HTTP owner
  and given to one of three readers, by the type of the connection: a poller that finds the WebSocket connection as the session, the
  HTTP parser of a blocking read loop that finds it as its closer, or a goroutine of the WebSocket connection. The world
  records what the function touches; the operations of other packages it calls (\<open>NBConn\<close>, \<open>AddTransferredConn\<close>, the write of the
  response) are inputs that say whether they succeed.
\<close>

datatype session = SNil | SParser | SWs | SOther

text \<open>The type of the connection under the hijacked one, with its session where it belongs to a poller.\<close>

datatype under_conn = UNbio session | UTlsNbio session | UTlsBlocking | UTcp | UUnknown

datatype executor = ExNil | ExParser | ExNbc | ExSync

datatype ws_engine = EngUpgrader | EngParser

datatype conn_ref = CHijacked | CTls | CNbc

datatype data_handler = DataNone | DataWs | DataTlsWs

text \<open>\<open>ui_nbhttp\<close>: the hijacked connection is an \<open>nbhttp.Conn\<close>, with its parser set or not; \<open>ui_writerParser\<close>: the response writer is an
  \<open>nbhttp.Response\<close>, with its parser set or not; \<open>ui_args\<close>: the extra arguments, None for one that is no bool.\<close>

record up_in =
  ui_hijacker :: bool
  ui_hijackOk :: bool
  ui_nbhttp :: "bool option"
  ui_writerParser :: "bool option"
  ui_under :: under_conn
  ui_nbConnOk :: bool
  ui_addOk :: bool
  ui_writeOk :: bool
  ui_args :: "bool option list"

record up_config = upgrader +
  uc_transfer :: bool
  uc_asyncWrite :: bool
  uc_handleRead :: bool
  uc_keepalive :: int
  uc_releasePayload :: bool
  uc_openHandler :: bool
  uc_etOneshot :: bool
  uc_engineRelease :: "ws_engine \<Rightarrow> bool"

record ws_new =
  wn_conn :: conn_ref
  wn_subprotocol :: string
  wn_compress :: bool
  wn_async :: bool
  wn_engine :: ws_engine
  wn_execute :: executor
  wn_blocking :: bool
  wn_readingByParser :: bool
  wn_releasePayload :: bool

record up_world =
  uw_response :: response
  uw_session :: session
  uw_parserCloser :: bool
  uw_nbhttpParser :: bool
  uw_transferred :: bool
  uw_onData :: data_handler
  uw_polled :: bool
  uw_conn :: hs_conn
  uw_readDeadline :: "bool option"
  uw_opened :: bool
  uw_handleRead :: bool

datatype upgrade_result = Upgraded ws_new | Refused hs_err | NilNil

definition NewServerConn :: "conn_ref \<Rightarrow> string \<Rightarrow> bool \<Rightarrow> bool \<Rightarrow> ws_new" where
  "NewServerConn c subprotocol compress asyncWrite = \<lparr>wn_conn = c, wn_subprotocol = subprotocol, wn_compress = compress, wn_async = asyncWrite,
     wn_engine = EngUpgrader, wn_execute = ExNil, wn_blocking = False, wn_readingByParser = False, wn_releasePayload = False\<rparr>"

definition arg_or :: "bool option list \<Rightarrow> nat \<Rightarrow> bool \<Rightarrow> bool" where
  "arg_or args i dflt = (if length args > i then args ! i = Some True else dflt)"

definition drop_nbhttp_parser :: "up_in \<Rightarrow> up_world \<Rightarrow> up_world" where
  "drop_nbhttp_parser I w = (if ui_nbhttp I \<noteq> None then w\<lparr>uw_nbhttpParser := False\<rparr> else w)"

text \<open>\<open>returnError\<close> with status 500 in the world; the error is what the variable \<open>err\<close> holds, nil (None) where a type assertion failed.\<close>

definition refuse :: "resp_env \<Rightarrow> hs_err option \<Rightarrow> up_world \<Rightarrow> up_world \<times> (upgrade_result + ws_new)" where
  "refuse E err w = (w\<lparr>uw_response := fst (returnError E 500 () (uw_response w) :: response \<times> (unit + unit))\<rparr>,
     Inl (case err of None \<Rightarrow> NilNil | Some e \<Rightarrow> Refused e))"

definition clear_session :: "up_world \<Rightarrow> up_world" where
  "clear_session w = (if uw_session w = SWs then w\<lparr>uw_session := SNil\<rparr> else w)"

text \<open>Scenarios 1 and 2.2: the connection is already in a poller.\<close>

definition from_poller :: "resp_env \<Rightarrow> up_in \<Rightarrow> session \<Rightarrow> string \<Rightarrow> bool \<Rightarrow> up_world \<Rightarrow> up_world \<times> (upgrade_result + ws_new)" where
  "from_poller E I s subprotocol compress w =
     (if s \<noteq> SParser then refuse E None w
      else (drop_nbhttp_parser I (w\<lparr>uw_session := SWs\<rparr>),
            Inr ((NewServerConn CHijacked subprotocol compress False)\<lparr>wn_engine := EngParser, wn_execute := ExParser\<rparr>)))"

text \<open>Scenarios 2.1.1 and 3.1: a blocking connection is made non-blocking and put into the upgrader's engine.\<close>

definition transfer_conn :: "resp_env \<Rightarrow> 'u up_config_scheme \<Rightarrow> up_in \<Rightarrow> conn_ref \<Rightarrow> data_handler \<Rightarrow> string \<Rightarrow> bool \<Rightarrow> up_world \<Rightarrow> up_world \<times> (upgrade_result + ws_new)" where
  "transfer_conn E u I c onData subprotocol compress w0 =
     (if \<not> ui_nbConnOk I then refuse E (Some HsNBConn) w0
      else
        (let w = (if ui_nbhttp I \<noteq> None then w0\<lparr>uw_transferred := True\<rparr> else w0);
             ws = (NewServerConn c subprotocol compress False)\<lparr>wn_engine := EngUpgrader, wn_execute := (if uc_etOneshot u then ExSync else ExNbc)\<rparr>;
             w = (drop_nbhttp_parser I w)\<lparr>uw_session := SWs, uw_onData := onData\<rparr>
         in if ui_addOk I then (w\<lparr>uw_polled := True\<rparr>, Inr ws)
            else refuse E (Some HsAddConn) (clear_session w)))"

text \<open>The data handler of a connection transferred under TLS (without TLS it is \<open>wsc.Parse\<close>): the decrypted records come as a sequence
  of reads, each with its plaintext and whether it failed, ended by an empty one; \<open>parse\<close> is \<open>wsc.Parse\<close>, and an error is what
  the connection is closed with.\<close>

fun on_data_tls :: "(bytes \<Rightarrow> 'ws \<Rightarrow> ('ws \<times> 'e option) option) \<Rightarrow> (bytes \<times> 'e option) list \<Rightarrow> 'ws \<Rightarrow> ('ws \<times> 'e option) option" where
  "on_data_tls parse [] ws = Some (ws, None)"
| "on_data_tls parse ((plain, errRead) # reads) ws =
     (case (if plain \<noteq> [] then parse plain ws else Some (ws, None)) of
        None \<Rightarrow> None
      | Some (ws, Some e) \<Rightarrow> Some (ws, Some e)
      | Some (ws, None) \<Rightarrow>
          if errRead \<noteq> None then Some (ws, errRead) else if plain = [] then Some (ws, None) else on_data_tls parse reads ws)"

lemma on_data_tls_feed:
  assumes "\<forall>p \<in> set plains. p \<noteq> []"
  shows "on_data_tls parse (map (\<lambda>p. (p, None)) plains @ [([], err)]) ws =
    (case feed_all parse plains ws of Some (ws', None) \<Rightarrow> Some (ws', err) | r \<Rightarrow> r)"
  using assms by (induction plains arbitrary: ws) (auto split: option.split)

text \<open>Scenarios 2.1.2, 3.2 and 4: the connection stays blocking. \<open>parser\<close> is that of the hijacked connection, or the response writer's.\<close>

definition blocking_parser :: "up_in \<Rightarrow> bool" where
  "blocking_parser I = (case ui_writerParser I of Some p \<Rightarrow> p | None \<Rightarrow> ui_nbhttp I = Some True)"

definition stay_blocking :: "'u up_config_scheme \<Rightarrow> up_in \<Rightarrow> string \<Rightarrow> bool \<Rightarrow> up_world \<Rightarrow> up_world \<times> (upgrade_result + ws_new)" where
  "stay_blocking u I subprotocol compress w =
     (let ws = (NewServerConn CHijacked subprotocol compress (uc_asyncWrite u))\<lparr>wn_blocking := True\<rparr> in
      if blocking_parser I then (drop_nbhttp_parser I (w\<lparr>uw_parserCloser := True\<rparr>), Inr (ws\<lparr>wn_execute := ExParser\<rparr>))
      else (w, Inr ws))"

definition take_conn :: "resp_env \<Rightarrow> 'u up_config_scheme \<Rightarrow> up_in \<Rightarrow> bool \<Rightarrow> string \<Rightarrow> bool \<Rightarrow> up_world \<Rightarrow> up_world \<times> (upgrade_result + ws_new)" where
  "take_conn E u I transferConn subprotocol compress w =
     (case ui_under I of
        UNbio s \<Rightarrow> from_poller E I s subprotocol compress w
      | UTlsNbio s \<Rightarrow> from_poller E I s subprotocol compress w
      | UTlsBlocking \<Rightarrow>
          if transferConn then transfer_conn E u I CTls DataTlsWs subprotocol compress w else stay_blocking u I subprotocol compress w
      | UTcp \<Rightarrow> if transferConn then transfer_conn E u I CNbc DataWs subprotocol compress w else stay_blocking u I subprotocol compress w
      | UUnknown \<Rightarrow> stay_blocking u I subprotocol compress w)"

text \<open>The end of \<open>Upgrade\<close>, after the response was sent.\<close>

definition finish_upgrade :: "'u up_config_scheme \<Rightarrow> up_in \<Rightarrow> ws_new \<Rightarrow> up_world \<Rightarrow> up_world \<times> upgrade_result" where
  "finish_upgrade u I ws0 w0 =
     (let w = w0\<lparr>uw_readDeadline := Some (uc_keepalive u > 0), uw_opened := uc_openHandler u\<rparr>;
          ws = ws0\<lparr>wn_readingByParser := (ui_nbhttp I \<noteq> None)\<rparr>;
          w = (if wn_blocking ws \<and> \<not> wn_readingByParser ws \<and> arg_or (ui_args I) 1 (uc_handleRead u) then w\<lparr>uw_handleRead := True\<rparr> else w)
      in (w, Upgraded (ws\<lparr>wn_releasePayload := uc_releasePayload u \<or> uc_engineRelease u (wn_engine ws)\<rparr>)))"

definition Upgrade ::
  "(string \<Rightarrow> http_url option) \<Rightarrow> resp_env \<Rightarrow> up_config \<Rightarrow> up_in \<Rightarrow> http_request \<Rightarrow> Header option \<Rightarrow> up_world \<Rightarrow> up_world \<times> upgrade_result" where
  "Upgrade urlParse E u I r responseHeader w0 =
     (case commCheck urlParse E (upgrader.truncate u) r responseHeader (uw_response w0) of
        (res, Inl e) \<Rightarrow> (w0\<lparr>uw_response := res\<rparr>, Refused e)
      | (res, Inr (key, subprotocol, compress)) \<Rightarrow>
          (let w = w0\<lparr>uw_response := res\<rparr> in
           if \<not> ui_hijacker I then (case refuse E (Some HsNotHijacker) w of (w, r) \<Rightarrow> (w, projl r))
           else if \<not> ui_hijackOk I then (case refuse E (Some HsHijack) w of (w, r) \<Rightarrow> (w, projl r))
           else
             (case take_conn E u I (arg_or (ui_args I) 0 (uc_transfer u)) subprotocol compress (w\<lparr>uw_response := Hijack (uw_response w)\<rparr>) of
                (w, Inl r) \<Rightarrow> (w, r)
              | (w, Inr ws) \<Rightarrow>
                  (case commResponse (ui_writeOk I) (upgrader.truncate u) responseHeader key subprotocol compress (uw_conn w) of
                     (c, Some e) \<Rightarrow> (clear_session (w\<lparr>uw_conn := c\<rparr>), Refused e)
                   | (c, None) \<Rightarrow> finish_upgrade u I ws (w\<lparr>uw_conn := c\<rparr>)))))"

text \<open>What a caller starts from: the session is that of the connection, and nothing else has happened.\<close>

fun under_session :: "under_conn \<Rightarrow> session" where
  "under_session (UNbio s) = s"
| "under_session (UTlsNbio s) = s"
| "under_session _ = SNil"

definition before_upgrade :: "up_in \<Rightarrow> up_world \<Rightarrow> bool" where
  "before_upgrade I w \<longleftrightarrow> uw_session w = under_session (ui_under I) \<and> uw_session w \<noteq> SWs \<and> \<not> uw_parserCloser w \<and> \<not> uw_transferred w \<and>
     uw_onData w = DataNone \<and> \<not> uw_polled w \<and> \<not> uw_opened w \<and> \<not> uw_handleRead w"


definition UpgradeAndTransferConnToPoller ::
  "(string \<Rightarrow> http_url option) \<Rightarrow> resp_env \<Rightarrow> up_config \<Rightarrow> up_in \<Rightarrow> http_request \<Rightarrow> Header option \<Rightarrow> up_world \<Rightarrow> up_world \<times> upgrade_result" where
  "UpgradeAndTransferConnToPoller urlParse E u I = Upgrade urlParse E u (I\<lparr>ui_args := [Some True]\<rparr>)"

definition UpgradeWithoutHandlingReadForConnFromSTDServer ::
  "(string \<Rightarrow> http_url option) \<Rightarrow> resp_env \<Rightarrow> up_config \<Rightarrow> up_in \<Rightarrow> http_request \<Rightarrow> Header option \<Rightarrow> up_world \<Rightarrow> up_world \<times> upgrade_result" where
  "UpgradeWithoutHandlingReadForConnFromSTDServer urlParse E u I = Upgrade urlParse E u (I\<lparr>ui_args := [Some False, Some False]\<rparr>)"

end
