(* ===== verification/HandshakeProps.thy ===== *)
theory HandshakeProps
  imports WsAgreement WsUpgrade ResponseProps
begin

text \<open>Properties of the WebSocket opening handshake.\<close>

lemma agreed_token: "list_all wf_token qs \<Longrightarrow> agreed_protocol ps qs = [] \<or> wf_token (agreed_protocol ps qs)"
  by (auto simp: agreed_protocol_def list_all_iff find_Some_iff split: option.split)

definition server_demo :: upgrader where
  "server_demo = \<lparr>u_enableCompression = True, u_Subprotocols = Some [''superchat'', ''chat''], u_CheckOrigin = None, u_HandshakeTimeout = 0\<rparr>"

definition dialer_demo :: dialer where
  "dialer_demo = \<lparr>d_Options = Some server_demo, d_Upgrader = None, d_Cookies = None, d_Subprotocols = [''mqtt'', ''chat'']\<rparr>"

definition url_demo :: "string \<Rightarrow> (http_url \<times> bool) option" where
  "url_demo s = Some (\<lparr>url_Scheme = ''ws'', url_Host = ''example.com'', url_rest = ''/ws''\<rparr>, False)"

definition dial_demo :: "hs_err + (string \<times> http_request)" where
  "dial_demo = dial_request url_demo dialer_demo ''ws://example.com/ws'' [(''X-Trace'', [''1''])] (Some (map of_nat [0..<16]))"

definition ws_demo :: "(string \<times> bool) senv" where
  "ws_demo = \<lparr>ParseRequestURI = (\<lambda>u. None), mcap = (\<lambda>n. n), MaxHTTPBodySize = 10, WriteTimeout = 1, RetainHTTPBody = False, ConnRemoteAddr = ''peer'',
     ExecuteAccepts = (\<lambda>n. True), HandlerUpgrade = (\<lambda>r. None), UpgradedParse = (\<lambda>b u. (u, None)), sReadLimit = 0, sKeepalive = 0\<rparr>"

text \<open>
  C8: Dialer and server agree. Let a dialer that offers subprotocols (tokens) have built its request for a random key, and let
  the server see the handshake headers of that request, with an origin it allows. Then its check succeeds without
  writing to the response and returns the dialer's key, the first of its own subprotocols that the dialer offered (none if there is
  none), and compression exactly when both sides enable it; and the response it then sends, with any well-formed headers of its
  own, is accepted by the dialer: its client's parser hands the connection to a WebSocket connection with exactly that
  subprotocol and that compression, together with whatever bytes arrived behind the response.
\<close>
theorem handshake_agreement:
  fixes newClientConn :: "string \<Rightarrow> bool \<Rightarrow> 'u"
  assumes "dial_request urlParse d urlStr requestHeader (Some random) = Inr (key, req)" "random \<noteq> []" "dial_options d = Some options"
    and "d_Subprotocols d \<noteq> [] \<or> map_of requestHeader ''Sec-Websocket-Protocol'' = None" "list_all wf_token (d_Subprotocols d)"
    and "same_handshake req r" "origin_allowed urlParse' u r" "u_Subprotocols u = Some ps"
    and "quiet_header responseHeader" "\<forall>h. responseHeader = Some h \<longrightarrow> map_of h ''Sec-Websocket-Extensions'' = None" "dial_parser conn = None"
  defines "sub \<equiv> agreed_protocol ps (d_Subprotocols d)" and "compress \<equiv> u_enableCompression u \<and> u_enableCompression options"
  shows "commCheck urlParse' E u r responseHeader w = (w, Inr (key, sub, compress)) \<and>
    (\<exists>c' sent q. commResponse True u responseHeader key sub compress c = (c', None) \<and> hc_sent c' = hc_sent c @ sent \<and>
      Parse (client_env S (dial_handler newClientConn conn key)) (sent @ extra) (NewParser NewClientProcessor True) =
        Some (q, if extra = [] then None else snd (UpgradedParse S extra (newClientConn sub compress))) \<and>
      p_ParserCloser q = Some (if extra = [] then newClientConn sub compress else fst (UpgradedParse S extra (newClientConn sub compress))))"
proof -
  have "key \<noteq> []" using dial_request_headers(1) [OF assms(1,3,4)] assms(2) base64_encode_ne by (auto simp: challengeKey_def)
  then have "commCheck urlParse' E u r responseHeader w = (w, Inr (key, sub, compress))"
    unfolding sub_def compress_def using assms(3-8,10) by (intro server_accepts [OF assms(1)]) auto
  moreover have "hc_sent (fst (commResponse True u responseHeader key sub compress c)) = hc_sent c @ handshake_bytes responseHeader key sub compress"
    "snd (commResponse True u responseHeader key sub compress c) = None"
    by (simp_all add: commResponse_def Let_def)
  moreover note dialed [OF assms(9) agreed_token [OF assms(5), of ps, folded sub_def] assms(11), of S newClientConn key compress extra]
  ultimately show ?thesis by (metis prod.collapse)
qed

theorem handshake_agreement_witness:
  "commCheck (\<lambda>s. None) resp_demo server_demo (snd (projr dial_demo)) None (NewResponse req_demo) =
     (NewResponse req_demo, Inr (fst (projr dial_demo), ''chat'', True)) \<and>
   (\<exists>c' sent q. commResponse True server_demo None (fst (projr dial_demo)) ''chat'' True \<lparr>hc_sent = [], hc_closed = False, hc_writeDeadline = False\<rparr> = (c', None) \<and>
      hc_sent c' = sent \<and>
      Parse (client_env ws_demo (dial_handler Pair (DNbio True) (fst (projr dial_demo)))) (sent @ ''frame'') (NewParser NewClientProcessor True) = Some (q, None) \<and>
      p_ParserCloser q = Some (''chat'', True))"
proof -
  have "\<not> isl dial_demo" by code_simp
  then have d: "dial_request url_demo dialer_demo ''ws://example.com/ws'' [(''X-Trace'', [''1''])] (Some (map of_nat [0..<16])) =
      Inr (fst (projr dial_demo), snd (projr dial_demo))"
    by (simp add: dial_demo_def [symmetric])
  have "origin_allowed (\<lambda>s. None) server_demo (snd (projr dial_demo))" by code_simp
  moreover have "same_handshake r r" for r by (simp add: same_handshake_def list_all_iff)
  moreover have "list_all wf_token (d_Subprotocols dialer_demo)" "quiet_header None" by code_simp+
  moreover have "agreed_protocol [''superchat'', ''chat''] (d_Subprotocols dialer_demo) = ''chat''" by code_simp
  moreover have "map of_nat [0..<16] \<noteq> ([] :: octets)" by simp
  ultimately show ?thesis
    using handshake_agreement [OF d, of server_demo "snd (projr dial_demo)" "\<lambda>s. None" server_demo "[''superchat'', ''chat'']" None "DNbio True" resp_demo
        "NewResponse req_demo" "\<lparr>hc_sent = [], hc_closed = False, hc_writeDeadline = False\<rparr>" ws_demo Pair "''frame''"]
    by (simp add: dialer_demo_def server_demo_def dial_options_def ws_demo_def)
qed




















text \<open>
  A polled connection whose session is no parser is refused with the error of the hijack before, which is nil: the caller gets neither a
  connection nor an error.
\<close>
theorem upgrade_nil_nil:
  assumes "ui_under I = UNbio s" "s \<noteq> SParser" "ui_hijacker I" "ui_hijackOk I"
    and "snd (commCheck urlParse E (upgrader.truncate u) r responseHeader (uw_response w)) = Inr x"
  shows "snd (Upgrade urlParse E u I r responseHeader w) = NilNil"
proof (cases "commCheck urlParse E (upgrader.truncate u) r responseHeader (uw_response w)")
  case (Pair res c)
  then show ?thesis using assms by (cases x) (simp add: Upgrade_def Let_def take_conn_def from_poller_def refuse_def)
qed

text \<open>Two hosts that differ in a byte outside UTF-8 are taken for the same origin.\<close>
theorem origin_invalid_bytes: "equalASCIIFold [CHR 0xFF] [CHR 0xFE]"
proof -
  have d: "DecodeRune [CHR 0xFF] = (0xFFFD, 1)" "DecodeRune [CHR 0xFE] = (0xFFFD, 1)"
    by (simp_all add: DecodeRune_def Let_def cont_byte_def rune_byte_def)
  have e: "equalASCIIFold [] []" by (subst equalASCIIFold.simps) simp
  show ?thesis by (subst equalASCIIFold.simps) (simp add: d e)
qed

end
