(* ===== verification/ClientConn.thy ===== *)
theory ClientConn
  imports GoStd "HOL-Library.Sublist"
begin

text \<open>
  The HTTP client's connection, \<open>nbhttp/client_conn.go\<close>: requests are written one behind the other, and their handlers wait in a
  queue for the responses. A handler is a number; \<open>cc_calls\<close> is the sequence of handler calls with what each was given.
  Each exported method holds the connection's mutex, so it is one step. What \<open>Do\<close> meets outside (clock, proxy, dial, TLS handshake,
  registration with the engine, the write of the request) is the environment of the call.
\<close>

datatype cc_err = EOF | ErrClientClosed | ErrClientTimeout | ErrClientUnsupportedSchema | CcOther string

datatype 'r outcome = Got 'r | Failed cc_err

text \<open>\<open>c.conn\<close> is an \<open>nbio.Conn\<close>, or an \<open>nbhttp.Conn\<close> around TLS.\<close>

datatype client_link = NbioLink nat | TlsLink nat

datatype 't deadline = DlNone | DlAt 't

record 'r cconn =
  cc_conn :: "client_link option"
  cc_handlers :: "(nat \<times> int) list"
  cc_closed :: bool
  cc_calls :: "(nat \<times> 'r outcome) list"
  cc_dialerConns :: "nat set"
  cc_closedLinks :: "client_link list"
  cc_onClose :: nat
  cc_readDeadline :: "int deadline"
  cc_writeDeadline :: "int deadline"
  cc_writes :: nat

record cc_conf =
  cf_Timeout :: int
  cf_IdleConnTimeout :: int
  cf_WriteTimeout :: int

definition NewClientConn :: "'r cconn" where
  "NewClientConn = \<lparr>cc_conn = None, cc_handlers = [], cc_closed = False, cc_calls = [], cc_dialerConns = {}, cc_closedLinks = [], cc_onClose = 0,
     cc_readDeadline = DlNone, cc_writeDeadline = DlNone, cc_writes = 0\<rparr>"

definition cc_Reset :: "'r cconn \<Rightarrow> 'r cconn" where
  "cc_Reset c = (if cc_closed c then c\<lparr>cc_conn := None, cc_handlers := [], cc_closed := False\<rparr> else c)"

text \<open>Only a plain connection is taken out of \<open>dialerConns\<close>: the type switch has no case for an \<open>nbhttp.Conn\<close>.\<close>

definition drop_link :: "'r cconn \<Rightarrow> 'r cconn" where
  "drop_link c =
     (case cc_conn c of
        None \<Rightarrow> c
      | Some l \<Rightarrow>
          (let c = (case l of NbioLink i \<Rightarrow> c\<lparr>cc_dialerConns := cc_dialerConns c - {i}\<rparr> | TlsLink i \<Rightarrow> c)
           in c\<lparr>cc_closedLinks := cc_closedLinks c @ [l], cc_conn := None\<rparr>))"

definition cc_closeWithErrorWithoutLock :: "cc_err option \<Rightarrow> 'r cconn \<Rightarrow> 'r cconn" where
  "cc_closeWithErrorWithoutLock err c0 =
     (let e = (case err of None \<Rightarrow> EOF | Some e \<Rightarrow> e);
          c = c0\<lparr>cc_calls := cc_calls c0 @ map (\<lambda>h. (fst h, Failed e)) (cc_handlers c0), cc_handlers := []\<rparr>;
          c = drop_link c
      in c\<lparr>cc_onClose := Suc (cc_onClose c)\<rparr>)"

definition cc_CloseWithError :: "cc_err option \<Rightarrow> 'r cconn \<Rightarrow> 'r cconn" where
  "cc_CloseWithError err c = (if cc_closed c then c else cc_closeWithErrorWithoutLock err (c\<lparr>cc_closed := True\<rparr>))"

definition onResponse :: "cc_conf \<Rightarrow> int \<Rightarrow> 'r \<Rightarrow> 'r cconn \<Rightarrow> 'r cconn" where
  "onResponse C now res c0 =
     (if cc_closed c0 then c0
      else
        (case cc_handlers c0 of
           [] \<Rightarrow> c0
         | (h, t) # hs \<Rightarrow>
             (let c = c0\<lparr>cc_calls := cc_calls c0 @ [(h, Got res)], cc_handlers := hs\<rparr> in
              case hs of
                (h', t') # _ \<Rightarrow>
                  (let d = t' + cf_Timeout C in
                   if cf_Timeout C > 0 then (if now > d then cc_closeWithErrorWithoutLock (Some ErrClientTimeout) c else c)
                   else c\<lparr>cc_readDeadline := DlAt d\<rparr>)
              | [] \<Rightarrow> c\<lparr>cc_readDeadline := (if cf_IdleConnTimeout C > 0 then DlAt (now + cf_IdleConnTimeout C) else DlNone)\<rparr>)))"

text \<open>The address that is dialled.\<close>

datatype scheme = Http | Https | OtherScheme

definition dial_addr :: "scheme \<Rightarrow> string \<Rightarrow> string" where
  "dial_addr s host =
     (let strs = split_on (CHR '':'') host;
          port = (if length strs \<ge> 2 then strs ! 1 else case s of Http \<Rightarrow> ''80'' | Https \<Rightarrow> ''443'' | OtherScheme \<Rightarrow> ''80'')
      in strs ! 0 @ '':'' @ port)"

datatype proxy_res = NoProxy | ProxyErr cc_err | ProxyURL "cc_err option"

record do_env =
  de_now :: int
  de_until :: int
  de_proxy :: proxy_res
  de_dial :: "cc_err option"
  de_scheme :: scheme
  de_nbConn :: "cc_err option"
  de_tlsHandshake :: "cc_err option"
  de_skipVerify :: bool
  de_verify :: "cc_err option"
  de_addConn :: "cc_err option"
  de_write :: "cc_err option"
  de_id :: nat

definition sendRequest :: "cc_conf \<Rightarrow> do_env \<Rightarrow> 'r cconn \<Rightarrow> 'r cconn" where
  "sendRequest C D c0 =
     (let c = (if cf_WriteTimeout C > 0 then c0\<lparr>cc_writeDeadline := DlAt (de_now D + cf_WriteTimeout C)\<rparr> else c0) in
      case de_write D of
        Some e \<Rightarrow> cc_closeWithErrorWithoutLock (Some e) c
      | None \<Rightarrow> c\<lparr>cc_writes := Suc (cc_writes c)\<rparr>)"

text \<open>The connection once dialled. The error of \<open>AddConn\<close> is ignored without TLS. \<open>conn2Array\<close> does not fail on an \<open>nbio.Conn\<close>.\<close>

definition start_link :: "cc_conf \<Rightarrow> do_env \<Rightarrow> 'r cconn \<Rightarrow> 'r cconn" where
  "start_link C D c =
     (case de_scheme D of
        Http \<Rightarrow>
          (case de_nbConn D of
             Some e \<Rightarrow> cc_closeWithErrorWithoutLock (Some e) c
           | None \<Rightarrow> sendRequest C D (c\<lparr>cc_dialerConns := insert (de_id D) (cc_dialerConns c), cc_conn := Some (NbioLink (de_id D))\<rparr>))
      | Https \<Rightarrow>
          (case de_tlsHandshake D of
             Some e \<Rightarrow> cc_closeWithErrorWithoutLock (Some e) c
           | None \<Rightarrow>
               (case (if de_skipVerify D then None else de_verify D) of
                  Some e \<Rightarrow> cc_closeWithErrorWithoutLock (Some e) c
                | None \<Rightarrow>
                    (case de_nbConn D of
                       Some e \<Rightarrow> cc_closeWithErrorWithoutLock (Some e) c
                     | None \<Rightarrow>
                         (let c = c\<lparr>cc_dialerConns := insert (de_id D) (cc_dialerConns c), cc_conn := Some (TlsLink (de_id D))\<rparr> in
                          case de_addConn D of
                            Some e \<Rightarrow> cc_closeWithErrorWithoutLock (Some e) c
                          | None \<Rightarrow> sendRequest C D c))))
      | OtherScheme \<Rightarrow> cc_closeWithErrorWithoutLock (Some ErrClientUnsupportedSchema) c)"

definition dial_link :: "cc_conf \<Rightarrow> do_env \<Rightarrow> 'r cconn \<Rightarrow> 'r cconn" where
  "dial_link C D c =
     (case de_proxy D of
        ProxyErr e \<Rightarrow> cc_closeWithErrorWithoutLock (Some e) c
      | ProxyURL (Some e) \<Rightarrow> cc_closeWithErrorWithoutLock (Some e) c
      | _ \<Rightarrow> (case de_dial D of Some e \<Rightarrow> cc_closeWithErrorWithoutLock (Some e) c | None \<Rightarrow> start_link C D (if cf_Timeout C > 0 then c\<lparr>cc_readDeadline := DlAt (de_now D + cf_Timeout C)\<rparr> else c)))"

definition cc_Do :: "cc_conf \<Rightarrow> do_env \<Rightarrow> nat \<Rightarrow> 'r cconn \<Rightarrow> 'r cconn" where
  "cc_Do C D handler c0 =
     (if cc_closed c0 then c0\<lparr>cc_calls := cc_calls c0 @ [(handler, Failed ErrClientClosed)]\<rparr>
      else
        (let c = c0\<lparr>cc_handlers := cc_handlers c0 @ [(handler, de_now D)]\<rparr> in
         if cc_conn c \<noteq> None then
           sendRequest C D (if cf_Timeout C > 0 \<and> length (cc_handlers c) = 1 then c\<lparr>cc_readDeadline := DlAt (de_now D + cf_Timeout C)\<rparr> else c)
         else if cf_Timeout C > 0 \<and> de_until D \<le> 0 then cc_closeWithErrorWithoutLock (Some ErrClientTimeout) c
         else dial_link C D c))"

text \<open>The operations in any order.\<close>

datatype 'r cc_op = OpDo do_env nat | OpResponse int 'r | OpClose "cc_err option" | OpReset

fun cc_step :: "cc_conf \<Rightarrow> 'r cc_op \<Rightarrow> 'r cconn \<Rightarrow> 'r cconn" where
  "cc_step C (OpDo D h) c = cc_Do C D h c"
| "cc_step C (OpResponse now r) c = onResponse C now r c"
| "cc_step C (OpClose e) c = cc_CloseWithError e c"
| "cc_step C OpReset c = cc_Reset c"

definition gots :: "(nat \<times> 'r outcome) list \<Rightarrow> 'r list" where
  "gots calls = concat (map (\<lambda>x. case snd x of Got r \<Rightarrow> [r] | Failed e \<Rightarrow> []) calls)"

text \<open>No handler waits on a closed connection, nor without a connection; every handler called or waiting, in order.\<close>

definition cc_inv :: "'r cconn \<Rightarrow> bool" where
  "cc_inv c \<longleftrightarrow> (cc_closed c \<or> cc_conn c = None \<longrightarrow> cc_handlers c = [])"

definition cc_order :: "'r cconn \<Rightarrow> nat list" where
  "cc_order c = map fst (cc_calls c) @ map fst (cc_handlers c)"

lemma drop_link_fields [simp]:
  "cc_handlers (drop_link c) = cc_handlers c" "cc_closed (drop_link c) = cc_closed c" "cc_calls (drop_link c) = cc_calls c"
  by (simp_all add: drop_link_def Let_def split: option.split client_link.split)

lemma close_fields [simp]:
  "cc_handlers (cc_closeWithErrorWithoutLock e c) = []" "cc_closed (cc_closeWithErrorWithoutLock e c) = cc_closed c"
  "cc_order (cc_closeWithErrorWithoutLock e c) = cc_order c" "cc_inv (cc_closeWithErrorWithoutLock e c)"
  "gots (cc_calls (cc_closeWithErrorWithoutLock e c)) = gots (cc_calls c)"
  by (simp_all add: cc_closeWithErrorWithoutLock_def Let_def cc_order_def cc_inv_def gots_def comp_def)

lemma cc_order_updates [simp]:
  "cc_order (c\<lparr>cc_readDeadline := d\<rparr>) = cc_order c" "cc_order (c\<lparr>cc_dialerConns := s\<rparr>) = cc_order c" "cc_order (c\<lparr>cc_conn := l\<rparr>) = cc_order c"
  "cc_order (c\<lparr>cc_writes := n\<rparr>) = cc_order c" "cc_order (c\<lparr>cc_writeDeadline := d\<rparr>) = cc_order c"
  by (simp_all add: cc_order_def)

definition cc_keeps :: "'r cconn \<Rightarrow> 'r cconn \<Rightarrow> bool" where
  "cc_keeps c c' \<longleftrightarrow> cc_inv c' \<and> cc_order c' = cc_order c \<and> gots (cc_calls c') = gots (cc_calls c)"

lemma cc_keeps_updates [simp]:
  "cc_keeps (c\<lparr>cc_readDeadline := d\<rparr>) c' = cc_keeps c c'" "cc_keeps (c\<lparr>cc_dialerConns := s\<rparr>) c' = cc_keeps c c'" "cc_keeps (c\<lparr>cc_conn := l\<rparr>) c' = cc_keeps c c'"
  by (simp_all add: cc_keeps_def)

lemma close_keeps [simp]: "cc_keeps c (cc_closeWithErrorWithoutLock e c)"
  by (simp add: cc_keeps_def)

lemma sendRequest_keeps: "cc_conn c = Some l \<Longrightarrow> \<not> cc_closed c \<Longrightarrow> cc_keeps c (sendRequest C D c)"
  by (cases "de_write D") (auto simp: sendRequest_def Let_def cc_keeps_def cc_inv_def)

lemma link_keeps: "\<not> cc_closed c \<Longrightarrow> cc_keeps c (sendRequest C D (c\<lparr>cc_dialerConns := s, cc_conn := Some l\<rparr>))"
  "cc_keeps c (cc_closeWithErrorWithoutLock e (c\<lparr>cc_dialerConns := s, cc_conn := Some l\<rparr>))"
  using sendRequest_keeps [of "c\<lparr>cc_dialerConns := s, cc_conn := Some l\<rparr>" l C D] close_keeps [of "c\<lparr>cc_dialerConns := s, cc_conn := Some l\<rparr>" e]
  unfolding cc_keeps_updates by simp_all

lemma start_link_keeps: "\<not> cc_closed c \<Longrightarrow> cc_keeps c (start_link C D c)"
  by (simp add: start_link_def Let_def link_keeps split: scheme.split option.split)

lemma dial_link_keeps: "\<not> cc_closed c \<Longrightarrow> cc_keeps c (dial_link C D c)"
  using start_link_keeps [of "c\<lparr>cc_readDeadline := DlAt (de_now D + cf_Timeout C)\<rparr>" C D]
  by (simp add: dial_link_def start_link_keeps split: proxy_res.split option.split)

lemma cc_Do_keeps:
  assumes "cc_inv c"
  shows "cc_inv (cc_Do C D h c) \<and> cc_order (cc_Do C D h c) = cc_order c @ [h] \<and> gots (cc_calls (cc_Do C D h c)) = gots (cc_calls c)"
proof (cases "cc_closed c")
  case True
  then show ?thesis using assms by (simp add: cc_Do_def cc_inv_def cc_order_def gots_def)
next
  case False
  let ?c = "c\<lparr>cc_handlers := cc_handlers c @ [(h, de_now D)]\<rparr>"
  have o: "cc_order ?c = cc_order c @ [h]" by (simp add: cc_order_def)
  show ?thesis
  proof (cases "cc_conn c = None")
    case True
    have "cc_Do C D h c = (if cf_Timeout C > 0 \<and> de_until D \<le> 0 then cc_closeWithErrorWithoutLock (Some ErrClientTimeout) ?c else dial_link C D ?c)"
      using False True by (simp add: cc_Do_def Let_def)
    then show ?thesis using dial_link_keeps [of ?c C D] False o by (simp add: cc_keeps_def)
  next
    case conn: False
    let ?d = "if cf_Timeout C > 0 \<and> length (cc_handlers ?c) = 1 then ?c\<lparr>cc_readDeadline := DlAt (de_now D + cf_Timeout C)\<rparr> else ?c"
    obtain l where "cc_conn c = Some l" using conn by auto
    then have "cc_conn ?d = Some l" "\<not> cc_closed ?d" "cc_order ?d = cc_order c @ [h]" "gots (cc_calls ?d) = gots (cc_calls c)" using False conn o by auto
    moreover have "cc_Do C D h c = sendRequest C D ?d" using False conn by (simp add: cc_Do_def Let_def)
    ultimately show ?thesis using sendRequest_keeps [of ?d l C D] unfolding cc_keeps_def by presburger
  qed
qed

lemma onResponse_keeps:
  assumes "cc_inv c"
  shows "cc_inv (onResponse C now r c) \<and> cc_order (onResponse C now r c) = cc_order c \<and>
    (gots (cc_calls (onResponse C now r c)) = gots (cc_calls c) \<or> gots (cc_calls (onResponse C now r c)) = gots (cc_calls c) @ [r])"
proof (cases "cc_closed c \<or> cc_handlers c = []")
  case True
  then show ?thesis using assms by (auto simp: onResponse_def)
next
  case False
  then obtain h t hs where h: "cc_handlers c = (h, t) # hs" "\<not> cc_closed c" by (cases "cc_handlers c") auto
  let ?c = "c\<lparr>cc_calls := cc_calls c @ [(h, Got r)], cc_handlers := hs\<rparr>"
  have c: "cc_inv ?c" "cc_order ?c = cc_order c" "gots (cc_calls ?c) = gots (cc_calls c) @ [r]"
    using assms h by (auto simp: cc_inv_def cc_order_def gots_def)
  then have "cc_keeps ?c ?c" "cc_keeps ?c (?c\<lparr>cc_readDeadline := d\<rparr>)" for d by (simp_all add: cc_keeps_def cc_inv_def)
  then have "cc_keeps ?c (onResponse C now r c)" using h close_keeps [of ?c "Some ErrClientTimeout"]
    by (cases hs) (auto simp: onResponse_def Let_def)
  then show ?thesis using c by (simp add: cc_keeps_def)
qed

text \<open>What every operation cc_keeps, and that no handler call is taken back.\<close>

fun asks :: "'r cc_op \<Rightarrow> nat list" where
  "asks (OpDo D h) = [h]"
| "asks _ = []"

fun arrives :: "'r cc_op \<Rightarrow> 'r list" where
  "arrives (OpResponse now r) = [r]"
| "arrives _ = []"

lemma cc_step_keeps:
  assumes "cc_inv c"
  shows "cc_inv (cc_step C op c)" "cc_order (cc_step C op c) = cc_order c @ asks op"
    "\<exists>rs. subseq rs (arrives op) \<and> gots (cc_calls (cc_step C op c)) = gots (cc_calls c) @ rs"
proof -
  have "cc_inv (cc_step C op c) \<and> cc_order (cc_step C op c) = cc_order c @ asks op \<and>
      (\<exists>rs. subseq rs (arrives op) \<and> gots (cc_calls (cc_step C op c)) = gots (cc_calls c) @ rs)"
  proof (cases op)
    case (OpDo D h)
    then show ?thesis using cc_Do_keeps [OF assms, of C D h] by simp
  next
    case (OpResponse now r)
    then show ?thesis using onResponse_keeps [OF assms, of C now r] by (auto intro: exI [of _ "[]"] exI [of _ "[r]"])
  next
    case (OpClose e)
    then show ?thesis using assms close_fields [of e "c\<lparr>cc_closed := True\<rparr>"] by (auto simp: cc_CloseWithError_def cc_order_def)
  next
    case OpReset
    then show ?thesis using assms by (auto simp: cc_Reset_def cc_inv_def cc_order_def)
  qed
  then show "cc_inv (cc_step C op c)" "cc_order (cc_step C op c) = cc_order c @ asks op"
    "\<exists>rs. subseq rs (arrives op) \<and> gots (cc_calls (cc_step C op c)) = gots (cc_calls c) @ rs" by blast+
qed

lemma close_grows: "cc_calls (cc_closeWithErrorWithoutLock e c) = cc_calls c @ map (\<lambda>h. (fst h, Failed (case e of None \<Rightarrow> EOF | Some e \<Rightarrow> e))) (cc_handlers c)"
  by (simp add: cc_closeWithErrorWithoutLock_def Let_def)

lemma sendRequest_grows: "prefix (cc_calls c) (cc_calls (sendRequest C D c))"
  by (auto simp: sendRequest_def Let_def close_grows split: option.split)

lemma start_link_grows: "prefix (cc_calls c) (cc_calls (start_link C D c))"
  using sendRequest_grows [of "c\<lparr>cc_dialerConns := s, cc_conn := l\<rparr>" C D for s l]
  by (simp add: start_link_def Let_def close_grows split: scheme.split option.split)

lemma dial_link_grows: "prefix (cc_calls c) (cc_calls (dial_link C D c))"
  using start_link_grows [of c C D] start_link_grows [of "c\<lparr>cc_readDeadline := DlAt (de_now D + cf_Timeout C)\<rparr>" C D]
  by (simp add: dial_link_def close_grows split: proxy_res.split option.split)

lemma cc_Do_grows: "prefix (cc_calls c) (cc_calls (cc_Do C D h c))"
  using sendRequest_grows [of "c\<lparr>cc_handlers := hs, cc_readDeadline := d\<rparr>" C D for hs d] sendRequest_grows [of "c\<lparr>cc_handlers := hs\<rparr>" C D for hs]
    dial_link_grows [of "c\<lparr>cc_handlers := hs\<rparr>" C D for hs]
  by (simp add: cc_Do_def Let_def close_grows)

lemma cc_step_grows: "prefix (cc_calls c) (cc_calls (cc_step C op c))"
proof (cases op)
  case (OpResponse now r)
  then show ?thesis
    by (auto simp: onResponse_def Let_def close_grows split: list.split)
qed (auto simp: cc_Do_grows cc_CloseWithError_def cc_Reset_def close_grows)

lemma gots_steps:
  "cc_inv c \<Longrightarrow> \<exists>rs. subseq rs (concat (map arrives ops)) \<and> gots (cc_calls (fold (cc_step C) ops c)) = gots (cc_calls c) @ rs"
proof (induction ops arbitrary: c)
  case (Cons op ops)
  obtain rs where rs: "subseq rs (arrives op)" "gots (cc_calls (cc_step C op c)) = gots (cc_calls c) @ rs"
    using cc_step_keeps(3) [OF Cons.prems] by blast
  obtain rs' where rs': "subseq rs' (concat (map arrives ops))"
      "gots (cc_calls (fold (cc_step C) ops (cc_step C op c))) = gots (cc_calls (cc_step C op c)) @ rs'"
    using Cons.IH [OF cc_step_keeps(1) [OF Cons.prems, of C op]] by blast
  have "subseq (rs @ rs') (concat (map arrives (op # ops)))" using list_emb_append_mono [OF rs(1) rs'(1)] by simp
  then show ?case using rs(2) rs'(2) by (auto simp: append_assoc)
qed auto

end
