(* ===== verification/ClientPool.thy ===== *)
theory ClientPool
  imports ClientConn
begin

text \<open>
  The pool of connections per host of \<open>nbhttp/client.go\<close>. A request takes a free connection from the channel, or makes a new
  one if the counter allows, or waits for the channel; its handler gives the connection back. Any number of requests run at
  once: \<open>pool_step\<close> is any interleaving of their atomic steps. What the pool relies on, that the connection calls each
  handler once, is the locale \<open>calls_once\<close>, which \<open>ClientConn\<close> provides.
\<close>

locale calls_once =
  fixes step :: "'op \<Rightarrow> 's \<Rightarrow> 's" and init :: 's and inv :: "'s \<Rightarrow> bool" and asked :: "'op \<Rightarrow> 'h list"
    and called :: "'s \<Rightarrow> 'h list" and waiting :: "'s \<Rightarrow> 'h list"
  assumes inv_init: "inv init" and nothing_called: "called init = []"
    and inv_step: "inv s \<Longrightarrow> inv (step op s)"
    and in_order: "inv s \<Longrightarrow> called (step op s) @ waiting (step op s) = called s @ waiting s @ asked op"
    and grows: "prefix (called s) (called (step op s))"
begin

lemma inv_run: "inv s \<Longrightarrow> inv (fold step ops s)"
  by (induction ops arbitrary: s) (simp_all add: inv_step)

lemma conserved: "inv s \<Longrightarrow> called (fold step ops s) @ waiting (fold step ops s) = called s @ waiting s @ concat (map asked ops)"
  by (induction ops arbitrary: s) (simp_all add: inv_step in_order)

text \<open>The calls an operation makes are those of the handlers that stop waiting.\<close>

lemma answers: "inv s \<Longrightarrow> length (called (step op s)) - length (called s) + length (waiting (step op s)) = length (waiting s) + length (asked op)"
  using arg_cong [OF in_order [of s op], of length] prefix_length_le [OF grows [of s op]] by simp

end

interpretation client_conn:
  calls_once "cc_step C" NewClientConn cc_inv asks "\<lambda>c. map fst (cc_calls c)" "\<lambda>c. map fst (cc_handlers c)" for C :: cc_conf
proof unfold_locales
  fix c :: "'a cconn" and op
  show "prefix (map fst (cc_calls c)) (map fst (cc_calls (cc_step C op c)))" by (rule map_mono_prefix [OF cc_step_grows])
  show "cc_inv (cc_step C op c)" "map fst (cc_calls (cc_step C op c)) @ map fst (cc_handlers (cc_step C op c)) =
      map fst (cc_calls c) @ map fst (cc_handlers c) @ asks op" if "cc_inv c"
    using cc_step_keeps [OF that, where C = C and op = op] by (simp_all add: cc_order_def)
qed (simp_all add: cc_inv_def NewClientConn_def)

text \<open>The pool. \<open>hp_conns\<close> counts the connections made, which are numbered from 0; \<open>hp_pending\<close> the requests that found the counter
  too high and have not yet taken their increment back; \<open>hp_used\<close> the connections whose request is under way.\<close>

record host_conns =
  hp_max :: int
  hp_conns :: nat
  hp_connNum :: int
  hp_pending :: nat
  hp_free :: "nat list"
  hp_used :: "nat list"

definition newHostConns :: "int \<Rightarrow> host_conns" where
  "newHostConns maxConnsPerHost =
     \<lparr>hp_max = (if maxConnsPerHost > 0 then maxConnsPerHost else 1024), hp_conns = 0, hp_connNum = 0, hp_pending = 0, hp_free = [], hp_used = []\<rparr>"

text \<open>Receiving from the channel, in the first and in the third step of \<open>getConn\<close>.\<close>

definition take_free :: "host_conns \<Rightarrow> host_conns option" where
  "take_free p = (case hp_free p of [] \<Rightarrow> None | x # xs \<Rightarrow> Some (p\<lparr>hp_free := xs, hp_used := x # hp_used p\<rparr>))"

text \<open>The second step: the increment, which either makes a connection or has to be taken back.\<close>

definition add_conn :: "host_conns \<Rightarrow> host_conns" where
  "add_conn p =
     (let p = p\<lparr>hp_connNum := hp_connNum p + 1\<rparr> in
      if hp_connNum p \<le> hp_max p then p\<lparr>hp_conns := Suc (hp_conns p), hp_used := hp_conns p # hp_used p\<rparr>
      else p\<lparr>hp_pending := Suc (hp_pending p)\<rparr>)"

definition dec_conn :: "host_conns \<Rightarrow> host_conns option" where
  "dec_conn p = (if hp_pending p > 0 then Some (p\<lparr>hp_connNum := hp_connNum p - 1, hp_pending := hp_pending p - 1\<rparr>) else None)"

text \<open>\<open>releaseConn\<close>; sending blocks while the channel is full.\<close>

definition releaseConn :: "nat \<Rightarrow> host_conns \<Rightarrow> host_conns option" where
  "releaseConn x p =
     (if int (length (hp_free p)) < hp_max p
      then Some (p\<lparr>hp_used := remove1 x (hp_used p), hp_free := hp_free p @ [x]\<rparr>) else None)"

definition host_inv :: "host_conns \<Rightarrow> bool" where
  "host_inv p \<longleftrightarrow> distinct (hp_free p @ hp_used p) \<and> set (hp_free p @ hp_used p) = {..<hp_conns p} \<and> int (hp_conns p) \<le> hp_max p \<and>
     hp_connNum p = int (hp_conns p) + int (hp_pending p)"

lemma host_inv_new: "host_inv (newHostConns n)"
  by (simp add: host_inv_def newHostConns_def)

lemma take_free_keeps:
  "take_free p = Some p' \<Longrightarrow> host_inv p \<Longrightarrow>
   host_inv p' \<and> hp_max p' = hp_max p \<and> (\<exists>x. x \<notin> set (hp_used p) \<and> hp_used p' = x # hp_used p)"
  by (auto simp: host_inv_def take_free_def split: list.splits)

lemma add_conn_keeps:
  assumes "host_inv p"
  shows "host_inv (add_conn p) \<and> hp_max (add_conn p) = hp_max p \<and>
    (hp_used (add_conn p) = hp_used p \<or> (\<exists>x. x \<notin> set (hp_used p) \<and> hp_used (add_conn p) = x # hp_used p))"
proof -
  have "hp_conns p \<notin> set (hp_free p @ hp_used p)" using assms by (simp add: host_inv_def)
  with assms show ?thesis by (auto simp: host_inv_def add_conn_def Let_def lessThan_Suc)
qed

lemma dec_conn_keeps: "dec_conn p = Some p' \<Longrightarrow> host_inv p \<Longrightarrow> host_inv p' \<and> hp_max p' = hp_max p \<and> hp_used p' = hp_used p"
  by (auto simp: host_inv_def dec_conn_def split: if_splits)

text \<open>Giving back a connection in use never blocks: the channel has room for every connection.\<close>

lemma release_possible:
  assumes "host_inv p" "x \<in> set (hp_used p)"
  shows "\<exists>p'. releaseConn x p = Some p' \<and> host_inv p' \<and> hp_max p' = hp_max p \<and> set (hp_used p') = set (hp_used p) - {x}"
proof -
  have "length (hp_free p) + length (hp_used p) = hp_conns p"
    using assms(1) distinct_card [of "hp_free p @ hp_used p"] by (simp add: host_inv_def)
  moreover have "0 < length (hp_used p)" using assms(2) by (cases "hp_used p") auto
  moreover have "int (hp_conns p) \<le> hp_max p" using assms(1) by (simp add: host_inv_def)
  ultimately have "int (length (hp_free p)) < hp_max p" by linarith
  then show ?thesis using assms by (auto simp: releaseConn_def host_inv_def)
qed

text \<open>
  The client for one host: the pool, the connections by number, and the connections a request has taken but not yet
  used. An operation on a connection calls handlers, and each call gives the connection back (\<open>Client.Do\<close>'s handler).
\<close>

record 'r http_client =
  cl_pool :: host_conns
  cl_conn :: "nat \<Rightarrow> 'r cconn"
  cl_taken :: "nat set"

definition newClient :: "int \<Rightarrow> 'r http_client" where
  "newClient n = \<lparr>cl_pool = newHostConns n, cl_conn = (\<lambda>x. NewClientConn), cl_taken = {}\<rparr>"

fun releases :: "nat \<Rightarrow> nat \<Rightarrow> host_conns \<Rightarrow> host_conns option" where
  "releases 0 x p = Some p"
| "releases (Suc n) x p = (case releaseConn x p of None \<Rightarrow> None | Some p \<Rightarrow> releases n x p)"

definition conn_op :: "cc_conf \<Rightarrow> nat \<Rightarrow> 'r cc_op \<Rightarrow> 'r http_client \<Rightarrow> 'r http_client option" where
  "conn_op C x op s =
     (let c = cl_conn s x; c' = cc_step C op c in
      case releases (length (cc_calls c') - length (cc_calls c)) x (cl_pool s) of
        None \<Rightarrow> None
      | Some p \<Rightarrow> Some (s\<lparr>cl_pool := p, cl_conn := (cl_conn s)(x := c')\<rparr>))"

text \<open>The steps of the requests' goroutines, and of the connections: responses and closes come at any time.\<close>

inductive client_step :: "cc_conf \<Rightarrow> 'r http_client \<Rightarrow> 'r http_client \<Rightarrow> bool" for C where
  free: "take_free (cl_pool s) = Some p \<Longrightarrow> client_step C s (s\<lparr>cl_pool := p, cl_taken := insert (hd (hp_used p)) (cl_taken s)\<rparr>)"
| made: "hp_conns (add_conn (cl_pool s)) \<noteq> hp_conns (cl_pool s) \<Longrightarrow>
    client_step C s (s\<lparr>cl_pool := add_conn (cl_pool s), cl_taken := insert (hd (hp_used (add_conn (cl_pool s)))) (cl_taken s)\<rparr>)"
| full: "hp_conns (add_conn (cl_pool s)) = hp_conns (cl_pool s) \<Longrightarrow> client_step C s (s\<lparr>cl_pool := add_conn (cl_pool s)\<rparr>)"
| taken_back: "dec_conn (cl_pool s) = Some p \<Longrightarrow> client_step C s (s\<lparr>cl_pool := p\<rparr>)"
| reset: "x \<in> cl_taken s \<Longrightarrow> conn_op C x OpReset s = Some s' \<Longrightarrow> client_step C s s'"
| request: "x \<in> cl_taken s \<Longrightarrow> conn_op C x (OpDo D h) (s\<lparr>cl_taken := cl_taken s - {x}\<rparr>) = Some s' \<Longrightarrow> client_step C s s'"
| response: "x < hp_conns (cl_pool s) \<Longrightarrow> conn_op C x (OpResponse now r) s = Some s' \<Longrightarrow> client_step C s s'"
| closing: "x < hp_conns (cl_pool s) \<Longrightarrow> conn_op C x (OpClose e) s = Some s' \<Longrightarrow> client_step C s s'"

inductive_cases client_stepE: "client_step C s s'"

text \<open>A connection is in use exactly while its one request has taken it or its one handler waits.\<close>

definition owed :: "'r http_client \<Rightarrow> nat \<Rightarrow> nat" where
  "owed s x = length (cc_handlers (cl_conn s x)) + (if x \<in> cl_taken s then 1 else 0)"

definition client_inv :: "'r http_client \<Rightarrow> bool" where
  "client_inv s \<longleftrightarrow> host_inv (cl_pool s) \<and> (\<forall>x. cc_inv (cl_conn s x)) \<and> (\<forall>x. owed s x = (if x \<in> set (hp_used (cl_pool s)) then 1 else 0))"

lemma client_inv_new: "client_inv (newClient n)"
  by (simp add: client_inv_def newClient_def owed_def host_inv_new) (simp add: newHostConns_def cc_inv_def NewClientConn_def)

text \<open>An operation on a connection never blocks on the channel, and keeps the invariant.\<close>

lemma releases_possible:
  assumes "host_inv p" "n \<le> (if x \<in> set (hp_used p) then 1 else 0)"
  shows "\<exists>p'. releases n x p = Some p' \<and> host_inv p' \<and> hp_max p' = hp_max p \<and> set (hp_used p') = (if n = 0 then set (hp_used p) else set (hp_used p) - {x})"
proof (cases n)
  case 0
  then show ?thesis using assms by simp
next
  case (Suc m)
  then have n: "n = Suc 0" "x \<in> set (hp_used p)" using assms(2) by (auto split: if_splits)
  obtain p' where "releaseConn x p = Some p'" "host_inv p'" "hp_max p' = hp_max p" "set (hp_used p') = set (hp_used p) - {x}"
    using release_possible [OF assms(1) n(2)] by blast
  then show ?thesis unfolding n(1) by simp
qed

lemma conn_op_keeps:
  assumes "host_inv (cl_pool s)" "\<And>x. cc_inv (cl_conn s x)"
    and owe: "\<And>y. owed s y + (if y = x then length (asks op) else 0) = (if y \<in> set (hp_used (cl_pool s)) then 1 else 0)"
  shows "\<exists>s'. conn_op C x op s = Some s' \<and> client_inv s' \<and> hp_max (cl_pool s') = hp_max (cl_pool s)"
proof -
  define c' n where "c' = cc_step C op (cl_conn s x)" and "n = length (cc_calls c') - length (cc_calls (cl_conn s x))"
  have n: "n + length (cc_handlers c') = length (cc_handlers (cl_conn s x)) + length (asks op)"
    using client_conn.answers [OF assms(2) [of x], where C = C and op = op] by (simp add: n_def c'_def)
  have le: "n \<le> (if x \<in> set (hp_used (cl_pool s)) then 1 else 0)" using n owe [of x] by (simp add: owed_def)
  obtain p where p: "releases n x (cl_pool s) = Some p" "host_inv p" "hp_max p = hp_max (cl_pool s)"
      "set (hp_used p) = (if n = 0 then set (hp_used (cl_pool s)) else set (hp_used (cl_pool s)) - {x})"
    using le releases_possible [OF assms(1), of n x] by blast
  let ?s = "s\<lparr>cl_pool := p, cl_conn := (cl_conn s)(x := c')\<rparr>"
  have "owed ?s y = (if y \<in> set (hp_used p) then 1 else 0)" for y
  proof (cases "y = x")
    case True
    let ?t = "if x \<in> cl_taken s then 1 else 0 :: nat"
    have "length (cc_handlers c') + ?t + n = (if x \<in> set (hp_used (cl_pool s)) then 1 else 0)" using n owe [of x] unfolding owed_def by simp
    then have "length (cc_handlers c') + ?t = (if x \<in> set (hp_used p) then 1 else 0)" using p(4) le by (cases n) (auto split: if_splits)
    then show ?thesis using True by (simp add: owed_def)
  next
    case False
    then show ?thesis using owe [of y] p(4) unfolding owed_def by simp
  qed
  then have "client_inv ?s" using p assms(2) by (simp add: client_inv_def cc_step_keeps c'_def)
  moreover have "conn_op C x op s = Some ?s" using p(1) by (simp add: conn_op_def Let_def n_def c'_def)
  ultimately show ?thesis using p(3) by auto
qed

lemma taking_keeps:
  assumes "client_inv s" "host_inv p" "x \<notin> set (hp_used (cl_pool s))" "hp_used p = x # hp_used (cl_pool s)"
  shows "client_inv (s\<lparr>cl_pool := p, cl_taken := insert (hd (hp_used p)) (cl_taken s)\<rparr>)"
proof -
  have "owed s x = 0" using assms(1,3) by (simp add: client_inv_def)
  then have "x \<notin> cl_taken s" "cc_handlers (cl_conn s x) = []" by (auto simp: owed_def split: if_splits)
  then have "owed (s\<lparr>cl_pool := p, cl_taken := insert x (cl_taken s)\<rparr>) y = (if y = x then 1 else owed s y)" for y by (simp add: owed_def)
  then show ?thesis using assms by (simp add: client_inv_def)
qed

lemma pooling_keeps:
  "client_inv s \<Longrightarrow> host_inv p \<Longrightarrow> hp_used p = hp_used (cl_pool s) \<Longrightarrow> client_inv (s\<lparr>cl_pool := p\<rparr>)"
  by (auto simp: client_inv_def owed_def)

text \<open>No operation of a connection blocks, whichever the request, response, close or reset.\<close>

lemma quiet_op_possible:
  assumes "client_inv s" "asks op = []"
  shows "\<exists>s'. conn_op C x op s = Some s' \<and> client_inv s' \<and> hp_max (cl_pool s') = hp_max (cl_pool s)"
  using assms by (intro conn_op_keeps) (auto simp: client_inv_def)

lemma request_possible:
  assumes "client_inv s" "x \<in> cl_taken s"
  shows "\<exists>s'. conn_op C x (OpDo D h) (s\<lparr>cl_taken := cl_taken s - {x}\<rparr>) = Some s' \<and> client_inv s' \<and> hp_max (cl_pool s') = hp_max (cl_pool s)"
proof -
  let ?s = "s\<lparr>cl_taken := cl_taken s - {x}\<rparr>"
  have "owed ?s y + (if y = x then Suc 0 else 0) = owed s y" for y using assms(2) by (simp add: owed_def)
  moreover have "owed s y = (if y \<in> set (hp_used (cl_pool ?s)) then 1 else 0)" for y using assms(1) by (simp add: client_inv_def)
  moreover have "length (asks (OpDo D h :: 'a cc_op)) = Suc 0" by simp
  ultimately have "owed ?s y + (if y = x then length (asks (OpDo D h :: 'a cc_op)) else 0) = (if y \<in> set (hp_used (cl_pool ?s)) then 1 else 0)" for y
    by presburger
  from conn_op_keeps [OF _ _ this, of C] show ?thesis using assms(1) by (simp add: client_inv_def)
qed

lemma client_inv_step:
  assumes "client_step C s s'" "client_inv s"
  shows "client_inv s' \<and> hp_max (cl_pool s') = hp_max (cl_pool s)"
  using assms(1)
proof (rule client_stepE)
  have p: "host_inv (cl_pool s)" using assms(2) by (simp add: client_inv_def)
  show ?thesis if "take_free (cl_pool s) = Some p" "s' = s\<lparr>cl_pool := p, cl_taken := insert (hd (hp_used p)) (cl_taken s)\<rparr>" for p
    using take_free_keeps [OF that(1) p] taking_keeps [OF assms(2)] that(2) by auto
  show ?thesis if "dec_conn (cl_pool s) = Some p" "s' = s\<lparr>cl_pool := p\<rparr>" for p
    using dec_conn_keeps [OF that(1) p] pooling_keeps [OF assms(2)] that(2) by auto
  show ?thesis if "hp_conns (add_conn (cl_pool s)) \<noteq> hp_conns (cl_pool s)"
      "s' = s\<lparr>cl_pool := add_conn (cl_pool s), cl_taken := insert (hd (hp_used (add_conn (cl_pool s)))) (cl_taken s)\<rparr>"
  proof -
    have "hp_used (add_conn (cl_pool s)) = hp_conns (cl_pool s) # hp_used (cl_pool s)" "hp_conns (cl_pool s) \<notin> set (hp_used (cl_pool s))"
      using that(1) p by (auto simp: add_conn_def Let_def host_inv_def split: if_splits)
    then show ?thesis using add_conn_keeps [OF p] taking_keeps [OF assms(2)] that(2) by auto
  qed
  show ?thesis if "hp_conns (add_conn (cl_pool s)) = hp_conns (cl_pool s)" "s' = s\<lparr>cl_pool := add_conn (cl_pool s)\<rparr>"
  proof -
    have "hp_used (add_conn (cl_pool s)) = hp_used (cl_pool s)" using that(1) by (auto simp: add_conn_def Let_def split: if_splits)
    then show ?thesis using add_conn_keeps [OF p] pooling_keeps [OF assms(2)] that(2) by auto
  qed
  show ?thesis if "x \<in> cl_taken s" "conn_op C x OpReset s = Some s'" for x using quiet_op_possible [OF assms(2), of OpReset C x] that by auto
  show ?thesis if "conn_op C x (OpResponse now r) s = Some s'" for x now r using quiet_op_possible [OF assms(2), of "OpResponse now r" C x] that by auto
  show ?thesis if "conn_op C x (OpClose e) s = Some s'" for x e using quiet_op_possible [OF assms(2), of "OpClose e" C x] that by auto
  show ?thesis if "x \<in> cl_taken s" "conn_op C x (OpDo D h) (s\<lparr>cl_taken := cl_taken s - {x}\<rparr>) = Some s'" for x D h
    using request_possible [OF assms(2) that(1), of C D h] that(2) by auto
qed

lemma client_inv_reachable: "(client_step C)\<^sup>*\<^sup>* (newClient n) s \<Longrightarrow> client_inv s \<and> hp_max (cl_pool s) = hp_max (newHostConns n)"
proof (induction rule: rtranclp_induct)
  case base
  then show ?case using client_inv_new [of n] by (simp add: newClient_def)
next
  case (step s s')
  then show ?case using client_inv_step [of C s s'] by simp
qed

end
