(* ===== verification/Socks5.thy ===== *)
theory Socks5
  imports Prelude
begin

text \<open>
  The SOCKS5 proxy client of \<open>nbhttp/client.go\<close> (\<open>proxySocks5.connect\<close>), and the address of an HTTP proxy (\<open>hostPortNoPort\<close>). The connection is
  the messages written so far and the bytes still to be read; \<open>ok\<close> says which writes succeed. The target comes parsed: its port as \<open>Atoi\<close> gave it,
  and the address, if its host is one (\<open>net.ParseIP\<close>, four or sixteen bytes).
\<close>

record socks5 =
  so_user :: octets
  so_password :: octets

record socks_target =
  st_host :: octets
  st_port :: "int option"
  st_ip :: "octets option"

datatype socks_err = SParsePort | SPortRange | SWriteGreeting | SReadGreeting | SVersion octet | SAuthRequired | SWriteAuth | SReadAuth | SRejected | SHostTooLong
  | SWriteConnect | SReadConnect | SFailure string | SReadDomainLen | SAddrType octet | SReadAddr | SReadPort

definition proxySocks5Errors :: "string list" where
  "proxySocks5Errors = [[], ''general failure'', ''connection forbidden'', ''network unreachable'', ''host unreachable'', ''connection refused'', ''TTL expired'',
     ''command not supported'', ''address type not supported'']"

type_synonym socks_io = "octets list \<times> octets"

definition sock_write :: "(nat \<Rightarrow> bool) \<Rightarrow> octets \<Rightarrow> socks_io \<Rightarrow> socks_io option" where
  "sock_write ok m io = (if ok (length (fst io)) then Some (fst io @ [m], snd io) else None)"

definition sock_read :: "nat \<Rightarrow> socks_io \<Rightarrow> (octets \<times> socks_io) option" where
  "sock_read n io = (if n \<le> length (snd io) then Some (take n (snd io), (fst io, drop n (snd io))) else None)"

definition socks_offers_password :: "socks5 \<Rightarrow> bool" where
  "socks_offers_password S \<longleftrightarrow> length (so_user S) > 0 \<and> length (so_user S) < 256 \<and> length (so_password S) < 256"

definition socks_greeting :: "socks5 \<Rightarrow> octets" where
  "socks_greeting S = 5 # (if socks_offers_password S then [2, 0, 2] else [1, 0])"

definition socks_auth_request :: "socks5 \<Rightarrow> octets" where
  "socks_auth_request S = [1] @ [word_of_nat (length (so_user S))] @ so_user S @ [word_of_nat (length (so_password S))] @ so_password S"

definition socks_connect_request :: "socks_target \<Rightarrow> int \<Rightarrow> octets" where
  "socks_connect_request T port =
     [5, 1, 0] @
     (case st_ip T of
        Some ip \<Rightarrow> (if length ip = 4 then 1 else 4) # ip
      | None \<Rightarrow> 3 # word_of_nat (length (st_host T)) # st_host T) @
     [word_of_int (port div 256), word_of_int port]"

definition socks_greet :: "(nat \<Rightarrow> bool) \<Rightarrow> socks5 \<Rightarrow> socks_io \<Rightarrow> socks_io \<times> (socks_err + octet)" where
  "socks_greet ok S io =
     (case sock_write ok (socks_greeting S) io of
        None \<Rightarrow> (io, Inl SWriteGreeting)
      | Some io \<Rightarrow>
          (case sock_read 2 io of
             None \<Rightarrow> (io, Inl SReadGreeting)
           | Some (buf, io) \<Rightarrow>
               if buf ! 0 \<noteq> 5 then (io, Inl (SVersion (buf ! 0))) else if buf ! 1 = 0xFF then (io, Inl SAuthRequired) else (io, Inr (buf ! 1))))"

definition socks_auth :: "(nat \<Rightarrow> bool) \<Rightarrow> socks5 \<Rightarrow> octet \<Rightarrow> socks_io \<Rightarrow> socks_io \<times> socks_err option" where
  "socks_auth ok S m io =
     (if m = 2 then
        (case sock_write ok (socks_auth_request S) io of
           None \<Rightarrow> (io, Some SWriteAuth)
         | Some io \<Rightarrow>
             (case sock_read 2 io of
                None \<Rightarrow> (io, Some SReadAuth)
              | Some (buf, io) \<Rightarrow> if buf ! 1 \<noteq> 0 then (io, Some SRejected) else (io, None)))
      else (io, None))"

definition socks_reply :: "socks_io \<Rightarrow> socks_io \<times> socks_err option" where
  "socks_reply io =
     (case sock_read 4 io of
        None \<Rightarrow> (io, Some SReadConnect)
      | Some (buf, io) \<Rightarrow>
          (let failure = (if unat (buf ! 1) < length proxySocks5Errors then proxySocks5Errors ! unat (buf ! 1) else ''unknown error'') in
           if failure \<noteq> [] then (io, Some (SFailure failure))
           else
             (case (if buf ! 3 = 1 then (io, Inr 4) else if buf ! 3 = 4 then (io, Inr 16)
                    else if buf ! 3 = 3 then (case sock_read 1 io of None \<Rightarrow> (io, Inl SReadDomainLen) | Some (b, io) \<Rightarrow> (io, Inr (unat (b ! 0))))
                    else (io, Inl (SAddrType (buf ! 3)))) of
                (io, Inl e) \<Rightarrow> (io, Some e)
              | (io, Inr bytesToDiscard) \<Rightarrow>
                  (case sock_read bytesToDiscard io of
                     None \<Rightarrow> (io, Some SReadAddr)
                   | Some (_, io) \<Rightarrow> (case sock_read 2 io of None \<Rightarrow> (io, Some SReadPort) | Some (_, io) \<Rightarrow> (io, None))))))"

definition socks_connect :: "(nat \<Rightarrow> bool) \<Rightarrow> socks5 \<Rightarrow> socks_target \<Rightarrow> socks_io \<Rightarrow> socks_io \<times> socks_err option" where
  "socks_connect ok S T io =
     (case st_port T of
        None \<Rightarrow> (io, Some SParsePort)
      | Some port \<Rightarrow>
          if port < 1 \<or> port > 0xFFFF then (io, Some SPortRange)
          else
            (case socks_greet ok S io of
               (io, Inl e) \<Rightarrow> (io, Some e)
             | (io, Inr m) \<Rightarrow>
                 (case socks_auth ok S m io of
                    (io, Some e) \<Rightarrow> (io, Some e)
                  | (io, None) \<Rightarrow>
                      if st_ip T = None \<and> length (st_host T) > 255 then (io, Some SHostTooLong)
                      else
                        (case sock_write ok (socks_connect_request T port) io of
                           None \<Rightarrow> (io, Some SWriteConnect)
                         | Some io \<Rightarrow> socks_reply io))))"

text \<open>\<open>hostPortNoPort\<close> on the host of a proxy URL, with \<open>strings.LastIndex\<close>.\<close>

fun last_index :: "'a \<Rightarrow> 'a list \<Rightarrow> int" where
  "last_index x [] = - 1"
| "last_index x (y # ys) = (if last_index x ys \<ge> 0 then last_index x ys + 1 else if y = x then 0 else - 1)"

definition hostPortNoPort :: "string \<Rightarrow> string \<Rightarrow> string \<times> string" where
  "hostPortNoPort scheme host =
     (let i = last_index (CHR '':'') host in
      if i > last_index (CHR '']'') host then (host, take (nat i) host)
      else (host @ (if scheme = ''wss'' \<or> scheme = ''https'' then '':443'' else '':80''), host))"

text \<open>What a server reads: RFC 1929's user name and password, and RFC 1928's request, an address or a name, and a port.\<close>

definition rfc_auth :: "octets \<Rightarrow> (octets \<times> octets) option" where
  "rfc_auth bs = (case bs of
     v # n # r \<Rightarrow> (if v = 1 \<and> unat n < length r \<and> length r = unat n + 1 + unat (r ! unat n) then Some (take (unat n) r, drop (unat n + 1) r) else None)
   | _ \<Rightarrow> None)"

datatype rfc_addr = RfcIPv4 octets | RfcIPv6 octets | RfcName octets

definition rfc_request :: "octets \<Rightarrow> (rfc_addr \<times> nat) option" where
  "rfc_request bs = (case bs of
     v # cmd # rsv # t # r \<Rightarrow>
       (if v = 5 \<and> cmd = 1 \<and> rsv = 0 then
          (let a = (if t = 1 then Some (RfcIPv4 (take 4 r), drop 4 r) else if t = 4 then Some (RfcIPv6 (take 16 r), drop 16 r)
                    else if t = 3 then (case r of [] \<Rightarrow> None | n # r \<Rightarrow> Some (RfcName (take (unat n) r), drop (unat n) r)) else None) in
           case a of Some (a, [p, q]) \<Rightarrow> Some (a, 256 * unat p + unat q) | _ \<Rightarrow> None)
        else None)
   | _ \<Rightarrow> None)"

text \<open>The end of a reply: the address the server bound, of any kind, and its port.\<close>

definition bound_addr :: "octets \<Rightarrow> bool" where
  "bound_addr bs \<longleftrightarrow> (\<exists>t a p q. bs = t # a @ [p, q] \<and> (t = 1 \<and> length a = 4 \<or> t = 4 \<and> length a = 16 \<or> t = 3 \<and> (\<exists>n b. a = n # b \<and> length b = unat n)))"

lemma unat_byte: "n < 256 \<Longrightarrow> unat (word_of_nat n :: octet) = n"
  by (simp add: unat_of_nat)

lemma port_bytes: "1 \<le> port \<Longrightarrow> port \<le> 65535 \<Longrightarrow> 256 * unat (word_of_int (port div 256) :: octet) + unat (word_of_int port :: octet) = nat port"
proof -
  assume p: "1 \<le> port" "port \<le> 65535"
  have "int (unat (word_of_int (port div 256) :: octet)) = port div 256" "int (unat (word_of_int port :: octet)) = port mod 256"
    using p by (simp_all add: uint_word_of_int flip: uint_nat)
  then have "int (256 * unat (word_of_int (port div 256) :: octet) + unat (word_of_int port :: octet)) = port" by simp
  then show ?thesis by linarith
qed

lemma rfc_auth_request: "length (so_user S) < 256 \<Longrightarrow> length (so_password S) < 256 \<Longrightarrow> rfc_auth (socks_auth_request S) = Some (so_user S, so_password S)"
  by (simp add: rfc_auth_def socks_auth_request_def unat_byte nth_append)

lemma rfc_connect_request:
  assumes "1 \<le> port" "port \<le> 65535" "st_ip T = None \<longrightarrow> length (st_host T) \<le> 255" "\<And>ip. st_ip T = Some ip \<Longrightarrow> length ip = 4 \<or> length ip = 16"
  shows "rfc_request (socks_connect_request T port) =
    Some (case st_ip T of None \<Rightarrow> RfcName (st_host T) | Some ip \<Rightarrow> if length ip = 4 then RfcIPv4 ip else RfcIPv6 ip, nat port)"
proof (cases "st_ip T")
  case None
  then have "unat (word_of_nat (length (st_host T)) :: octet) = length (st_host T)" using assms(3) by (intro unat_byte) simp
  then show ?thesis using None port_bytes [OF assms(1,2)] by (simp add: rfc_request_def socks_connect_request_def Let_def)
next
  case (Some ip)
  then show ?thesis using assms(4) [OF Some] port_bytes [OF assms(1,2)] by (auto simp: rfc_request_def socks_connect_request_def Let_def)
qed

lemma socks_reply_bound:
  assumes "bound_addr a"
  shows "socks_reply (sent, [5, 0, r] @ a @ data) = ((sent, data), None)"
proof -
  obtain t b p q where a: "a = t # b @ [p, q]" "t = 1 \<and> length b = 4 \<or> t = 4 \<and> length b = 16 \<or> t = 3 \<and> (\<exists>n c. b = n # c \<and> length c = unat n)"
    using assms by (auto simp: bound_addr_def)
  have f: "proxySocks5Errors ! 0 = []" "0 < length proxySocks5Errors" by (simp_all add: proxySocks5Errors_def)
  from a(2) show ?thesis using f by (elim disjE conjE exE) (simp_all add: a(1) socks_reply_def sock_read_def Let_def)
qed

lemma socks_reply_code:
  assumes "code \<noteq> 0"
  shows "\<exists>f. snd (socks_reply (sent, [5, code, r, t] @ data)) = Some (SFailure f)"
proof -
  have "proxySocks5Errors ! n \<noteq> []" if "0 < n" "n < length proxySocks5Errors" for n
    using that by (auto simp: proxySocks5Errors_def less_Suc_eq numeral_eq_Suc)
  moreover have "0 < unat code" using assms by (simp add: unat_gt_0)
  ultimately show ?thesis by (simp add: socks_reply_def sock_read_def Let_def)
qed

end
