(* ===== verification/HttpClientProps.thy ===== *)
theory HttpClientProps
  imports ClientPool Socks5
begin

text \<open>Properties of the HTTP client's connections.\<close>

definition conf_demo :: cc_conf where
  "conf_demo = \<lparr>cf_Timeout = 5, cf_IdleConnTimeout = 0, cf_WriteTimeout = 0\<rparr>"

definition do_demo :: "nat \<Rightarrow> do_env" where
  "do_demo i = \<lparr>de_now = 1, de_until = 5, de_proxy = NoProxy, de_dial = None, de_scheme = Http, de_nbConn = None, de_tlsHandshake = None, de_skipVerify = False,
     de_verify = None, de_addConn = None, de_write = None, de_id = i\<rparr>"

definition cc_run :: "cc_conf \<Rightarrow> 'r cc_op list \<Rightarrow> 'r cconn" where
  "cc_run C ops = fold (cc_step C) ops NewClientConn"





text \<open>
  C35: The connections of a host. In every interleaving of any number of requests with the responses and the closing of their
  connections, at most \<open>MaxConnsPerHost\<close> (1024 by default) connections exist; each is in the channel of free connections once, or
  is in use by one request, which has it or whose handler is the only one waiting on it; the counter is the number of connections
  plus the increments still to be taken back; and no operation of a connection blocks on giving it back: a response, a
  close, and the request of a connection that was taken.
\<close>
theorem client_conns_exclusive:
  fixes s :: "'r http_client"
  assumes "(client_step C)\<^sup>*\<^sup>* (newClient n) s"
  shows "int (hp_conns (cl_pool s)) \<le> (if n > 0 then n else 1024) \<and>
    distinct (hp_free (cl_pool s) @ hp_used (cl_pool s)) \<and> set (hp_free (cl_pool s) @ hp_used (cl_pool s)) = {..<hp_conns (cl_pool s)} \<and>
    hp_connNum (cl_pool s) = int (hp_conns (cl_pool s)) + int (hp_pending (cl_pool s)) \<and>
    (\<forall>x. length (cc_handlers (cl_conn s x)) + (if x \<in> cl_taken s then 1 else 0) = (if x \<in> set (hp_used (cl_pool s)) then 1 else 0)) \<and>
    (\<forall>x now r e. conn_op C x (OpResponse now r) s \<noteq> None \<and> conn_op C x (OpClose e) s \<noteq> None) \<and>
    (\<forall>x \<in> cl_taken s. \<forall>D h. conn_op C x (OpDo D h) (s\<lparr>cl_taken := cl_taken s - {x}\<rparr>) \<noteq> None)"
proof -
  have inv: "client_inv s" "hp_max (cl_pool s) = (if n > 0 then n else 1024)"
    using client_inv_reachable [OF assms] by (simp_all add: newHostConns_def)
  have "conn_op C x (OpResponse now r) s \<noteq> None" "conn_op C x (OpClose e) s \<noteq> None" for x now r e
    using quiet_op_possible [OF inv(1), of "OpResponse now r" C x] quiet_op_possible [OF inv(1), of "OpClose e" C x] by auto
  moreover have "conn_op C x (OpDo D h) (s\<lparr>cl_taken := cl_taken s - {x}\<rparr>) \<noteq> None" if "x \<in> cl_taken s" for x D h
    using request_possible [OF inv(1) that, of C D h] by auto
  ultimately show ?thesis using inv unfolding client_inv_def owed_def host_inv_def by auto
qed

theorem client_conns_exclusive_witness:
  "let s = (newClient 1 :: string http_client)\<lparr>cl_pool := add_conn (newHostConns 1), cl_taken := {0}\<rparr> in
   int (hp_conns (cl_pool s)) \<le> 1 \<and> hp_used (cl_pool s) = [0] \<and>
   conn_op conf_demo 0 (OpDo (do_demo 0) 5) (s\<lparr>cl_taken := {}\<rparr>) \<noteq> None"
proof -
  let ?s = "(newClient 1 :: string http_client)\<lparr>cl_pool := add_conn (newHostConns 1), cl_taken := {0}\<rparr>"
  have "client_step conf_demo (newClient 1) ?s"
    using client_step.made [of "newClient 1 :: string http_client" conf_demo] by (simp add: newClient_def add_conn_def newHostConns_def Let_def)
  then have r: "(client_step conf_demo)\<^sup>*\<^sup>* (newClient 1) ?s" by blast
  show ?thesis using client_conns_exclusive [OF r] by (auto simp: Let_def newClient_def add_conn_def newHostConns_def)
qed

text \<open>
  C37: The SOCKS5 client against a server that follows RFC 1928. Whichever method the server selects of those offered, the client writes the
  greeting, the user name and password if selected, and the request; the server reads from them what the client has (user, password, target and
  port); on success the client has read exactly the replies, so that what follows belongs to the target; and a reply with another code is an error.
\<close>
theorem socks5_conforms:
  assumes "st_port T = Some port" "1 \<le> port" "port \<le> 65535" "st_ip T = None \<longrightarrow> length (st_host T) \<le> 255"
    "\<And>ip. st_ip T = Some ip \<Longrightarrow> length ip = 4 \<or> length ip = 16" "m \<in> set (drop 2 (socks_greeting S))" "bound_addr a" "code \<noteq> 0"
  shows "socks_connect (\<lambda>i. True) S T ([], [5, m] @ (if m = 2 then [1, 0] else []) @ [5, 0, r] @ a @ data) =
      (([socks_greeting S] @ (if m = 2 then [socks_auth_request S] else []) @ [socks_connect_request T port], data), None) \<and>
    (m = 2 \<longrightarrow> rfc_auth (socks_auth_request S) = Some (so_user S, so_password S)) \<and>
    rfc_request (socks_connect_request T port) =
      Some (case st_ip T of None \<Rightarrow> RfcName (st_host T) | Some ip \<Rightarrow> if length ip = 4 then RfcIPv4 ip else RfcIPv6 ip, nat port) \<and>
    (\<exists>f. snd (socks_connect (\<lambda>i. True) S T ([], [5, m] @ (if m = 2 then [1, 0] else []) @ [5, code, r, t] @ data)) = Some (SFailure f))"
proof -
  have m: "m = 0 \<or> m = 2 \<and> length (so_user S) < 256 \<and> length (so_password S) < 256"
    using assms(6) by (auto simp: socks_greeting_def socks_offers_password_def split: if_splits)
  then have m': "m \<noteq> 0xFF" "m = 2 \<longrightarrow> rfc_auth (socks_auth_request S) = Some (so_user S, so_password S)" using rfc_auth_request by auto
  have run: "socks_connect (\<lambda>i. True) S T ([], [5, m] @ (if m = 2 then [1, 0] else []) @ x) =
      socks_reply ([socks_greeting S] @ (if m = 2 then [socks_auth_request S] else []) @ [socks_connect_request T port], x)" for x
    using assms(1-4) m' by (auto simp: socks_connect_def socks_greet_def socks_auth_def sock_write_def sock_read_def)
  have "\<exists>f. snd (socks_reply (sent, [5, code, r, t] @ data)) = Some (SFailure f)" for sent
    using socks_reply_code [OF assms(8)] .
  then show ?thesis unfolding run using socks_reply_bound [OF assms(7)] m'(2) rfc_connect_request [OF assms(2-5)] by simp
qed

theorem socks5_conforms_witness:
  "let S = \<lparr>so_user = [117], so_password = [112, 119]\<rparr>; T = \<lparr>st_host = [104, 105], st_port = Some 8080, st_ip = None\<rparr> in
   socks_connect (\<lambda>i. True) S T ([], [5, 2] @ [1, 0] @ [5, 0, 0] @ [1, 127, 0, 0, 1, 31, 144] @ [72]) =
     (([[5, 2, 0, 2], [1, 1, 117, 2, 112, 119], [5, 1, 0, 3, 2, 104, 105, 31, 144]], [72]), None) \<and>
   (\<exists>f. snd (socks_connect (\<lambda>i. True) S T ([], [5, 2] @ [1, 0] @ [5, 5, 0, 1] @ [72])) = Some (SFailure f))"
proof -
  let ?S = "\<lparr>so_user = [117], so_password = [112, 119]\<rparr>" and ?T = "\<lparr>st_host = [104, 105], st_port = Some 8080, st_ip = None\<rparr>"
  have b: "bound_addr [1, 127, 0, 0, 1, 31, 144]"
    unfolding bound_addr_def by (intro exI [of _ 1] exI [of _ "[127, 0, 0, 1]"] exI [of _ 31] exI [of _ 144]) simp
  have g: "2 \<in> set (drop 2 (socks_greeting ?S))" "socks_greeting ?S = [5, 2, 0, 2]" by (simp_all add: socks_greeting_def socks_offers_password_def)
  have q: "socks_auth_request ?S = [1, 1, 117, 2, 112, 119]" "socks_connect_request ?T 8080 = [5, 1, 0, 3, 2, 104, 105, 31, 144]"
    by (simp_all add: socks_auth_request_def socks_connect_request_def)
  show ?thesis using socks5_conforms [where T = ?T and S = ?S and port = 8080 and m = 2 and a = "[1, 127, 0, 0, 1, 31, 144]" and code = 5 and r = 0 and t = 1 and data = "[72]", OF _ _ _ _ _ g(1) b]
    unfolding Let_def g(2) q by simp
qed

text \<open>Only a password method that was not offered lets a name of 256 bytes or more be sent, with its length cut to a byte.\<close>
theorem socks5_long_user:
  assumes "length (so_user S) = 256"
  shows "socks_greeting S = [5, 1, 0] \<and> socks_auth_request S ! 1 = 0"
  using assms by (simp add: socks_greeting_def socks_offers_password_def socks_auth_request_def)

text \<open>
  A connection whose request could not be written stays open for use: the next request dials again. The closing of the old
  connection is reported to the same object, which then fails the request on the new one.
\<close>
theorem stale_close_fails_new_request:
  "cc_calls (cc_run conf_demo [OpDo ((do_demo 0)\<lparr>de_write := Some EOF\<rparr>) 1, OpDo (do_demo 1) 2, OpClose (Some EOF)] :: string cconn) =
   [(1, Failed EOF), (2, Failed EOF)]"
  by (simp add: cc_run_def cc_Do_def NewClientConn_def do_demo_def conf_demo_def dial_link_def start_link_def sendRequest_def
      cc_closeWithErrorWithoutLock_def drop_link_def cc_CloseWithError_def Let_def)

text \<open>Without a timeout, the deadline set for the next waiting request is the time it was made, which has passed.\<close>
theorem no_timeout_expires:
  assumes "cf_Timeout C = 0" "\<not> cc_closed c" "cc_handlers c = (h, t) # (h', t') # hs"
  shows "cc_readDeadline (onResponse C now r c) = DlAt t'"
  using assms by (simp add: onResponse_def Let_def)

text \<open>The host of an IPv6 address is cut at its first colon.\<close>
theorem ipv6_address_cut: "dial_addr Http ''[::1]:8080'' = ''[:''"
  by code_simp

text \<open>A TLS connection is left in \<open>dialerConns\<close> when the client closes it.\<close>
theorem tls_key_left:
  "cc_dialerConns (cc_run conf_demo [OpDo ((do_demo 3)\<lparr>de_scheme := Https\<rparr>) 1, OpClose None] :: string cconn) = {3}"
  by (simp add: cc_run_def cc_Do_def NewClientConn_def do_demo_def conf_demo_def dial_link_def start_link_def sendRequest_def
      cc_closeWithErrorWithoutLock_def drop_link_def cc_CloseWithError_def Let_def)

end
