(* ===== verification/BlockingRead.thy ===== *)
theory BlockingRead
  imports StreamReader "HOL-Library.Sublist"
begin

text \<open>
  The ways bytes reach a connection's reader in \<open>nbhttp/engine.go\<close>: \<open>DataHandler\<close> and \<open>TLSDataHandler\<close> on a poller, and the goroutines
  \<open>readConnBlocking\<close> and \<open>readTLSConnBlocking\<close>. The reader is the interface \<open>ParserCloser\<close>, a parameter: the HTTP parser, or what an
  upgrade put in its place. What \<open>AppendAndRead\<close> of the TLS layer returns for one network read is a sequence of plaintexts,
  each with the error that came with it; an empty one ends it.
\<close>

definition DataHandler :: "('a list \<Rightarrow> 's \<Rightarrow> ('s \<times> 'e option) option) \<Rightarrow> 'a list \<Rightarrow> 's \<Rightarrow> ('s \<times> 'e option) option" where
  "DataHandler parse data s = parse data s"

fun TLSDataHandler :: "('a list \<Rightarrow> 's \<Rightarrow> ('s \<times> 'e option) option) \<Rightarrow> ('a list \<times> 'e option) list \<Rightarrow> 's \<Rightarrow> ('s \<times> 'e option) option" where
  "TLSDataHandler parse [] s = Some (s, None)"
| "TLSDataHandler parse ((plain, err) # reads) s =
     (case (if plain \<noteq> [] then parse plain s else Some (s, None)) of
        None \<Rightarrow> None
      | Some (s, Some e) \<Rightarrow> Some (s, Some e)
      | Some (s, None) \<Rightarrow> if err \<noteq> None then Some (s, err) else if plain = [] then Some (s, None) else TLSDataHandler parse reads s)"

text \<open>One network read of a TLS connection without an error of its own.\<close>

definition tls_read :: "'a list list \<Rightarrow> ('a list \<times> 'e option) list" where
  "tls_read plains = map (\<lambda>p. (p, None)) plains @ [([], None)]"

lemma TLSDataHandler_feed:
  "\<forall>p \<in> set plains. p \<noteq> [] \<Longrightarrow> TLSDataHandler parse (tls_read plains) s = feed_all parse plains s"
  by (induction plains arbitrary: s) (auto simp: tls_read_def split: option.split)

lemma TLSDataHandler_feed_all:
  "\<forall>ps \<in> set reads. \<forall>p \<in> set ps. p \<noteq> [] \<Longrightarrow> feed_all (TLSDataHandler parse) (map tls_read reads) s = feed_all parse (concat reads) s"
proof (induction reads arbitrary: s)
  case (Cons ps reads)
  have app: "feed_all parse (xs @ ys) s =
      (case feed_all parse xs s of None \<Rightarrow> None | Some (s', Some e) \<Rightarrow> Some (s', Some e) | Some (s', None) \<Rightarrow> feed_all parse ys s')" for xs ys s
    by (induction xs arbitrary: s) (auto split: option.split)
  show ?case using Cons by (simp add: TLSDataHandler_feed app split: option.split)
qed simp

text \<open>
  The blocking readers. The log has what was parsed and by whom, and the deferred actions in their order: the buffer is given
  back, the current reader closed (unless the connection was transferred), the key removed, \<open>OnClose\<close> called, \<open>decrease\<close> called.
\<close>

datatype rd_who = ByHttp | ByUpgraded

datatype ('a, 'e) rd_action = RParsed rd_who "'a list" | RParserClosed | RFreeBuffer | RCloseAndClean rd_who "'e option" | RTlsClose | RForgetKey
  | ROnClose "'e option" | RDecrease

record ('a, 's, 'e) rd_env =
  rd_parse :: "rd_who \<Rightarrow> 'a list \<Rightarrow> 's \<Rightarrow> 's \<times> 'e option"
  rd_transferred :: "'s \<Rightarrow> bool"
  rd_upgraded :: "'s \<Rightarrow> bool"

record ('a, 's, 'e) rd_state =
  rs_s :: 's
  rs_who :: rd_who
  rs_parser :: bool
  rs_log :: "('a, 'e) rd_action list"

definition rd_start :: "'s \<Rightarrow> ('a, 's, 'e) rd_state" where
  "rd_start s = \<lparr>rs_s = s, rs_who = ByHttp, rs_parser = True, rs_log = []\<rparr>"

datatype 'st rd_result = Waiting 'st | Ended 'st | NilParser

datatype ('st, 'e) rd_next = RGo 'st | RStop 'st "'e option" | RNil

text \<open>What follows a \<open>Parse\<close> in the loops: the connection was transferred to a poller, or an upgrade put another reader in place.\<close>

definition after_parse :: "('a, 's, 'e) rd_env \<Rightarrow> ('a, 's, 'e) rd_state \<Rightarrow> (('a, 's, 'e) rd_state, 'e) rd_next" where
  "after_parse E st =
     (if rd_transferred E (rs_s st) then (if rs_parser st then RStop (st\<lparr>rs_log := rs_log st @ [RParserClosed]\<rparr>) None else RNil)
      else if rs_parser st \<and> rd_upgraded E (rs_s st)
        then RGo (st\<lparr>rs_who := ByUpgraded, rs_parser := False, rs_log := rs_log st @ [RParserClosed]\<rparr>)
      else RGo st)"

definition rd_deferred :: "bool \<Rightarrow> ('a, 's, 'e) rd_env \<Rightarrow> 'e option \<Rightarrow> ('a, 's, 'e) rd_state \<Rightarrow> ('a, 's, 'e) rd_state" where
  "rd_deferred tls E err st =
     st\<lparr>rs_log := rs_log st @ [RFreeBuffer] @
       (if rd_transferred E (rs_s st) then [] else RCloseAndClean (rs_who st) err # (if tls then [RTlsClose] else [])) @ [RForgetKey, ROnClose err, RDecrease]\<rparr>"

definition rd_step :: "('a, 's, 'e) rd_env \<Rightarrow> 'a list \<Rightarrow> ('a, 's, 'e) rd_state \<Rightarrow> ('a, 's, 'e) rd_state \<times> 'e option" where
  "rd_step E data st =
     (case rd_parse E (rs_who st) data (rs_s st) of (s, err) \<Rightarrow> (st\<lparr>rs_s := s, rs_log := rs_log st @ [RParsed (rs_who st) data]\<rparr>, err))"

text \<open>\<open>readConnBlocking\<close> discards the error of \<open>Parse\<close>.\<close>

fun readConnBlocking :: "('a, 's, 'e) rd_env \<Rightarrow> ('e + 'a list) list \<Rightarrow> ('a, 's, 'e) rd_state \<Rightarrow> ('a, 's, 'e) rd_state rd_result" where
  "readConnBlocking E [] st = Waiting st"
| "readConnBlocking E (Inl e # reads) st = Ended (rd_deferred False E (Some e) st)"
| "readConnBlocking E (Inr data # reads) st =
     (case after_parse E (fst (rd_step E data st)) of
        RGo st \<Rightarrow> readConnBlocking E reads st
      | RStop st err \<Rightarrow> Ended (rd_deferred False E err st)
      | RNil \<Rightarrow> NilParser)"

fun tls_records :: "('a, 's, 'e) rd_env \<Rightarrow> ('a list \<times> 'e option) list \<Rightarrow> ('a, 's, 'e) rd_state \<Rightarrow> (('a, 's, 'e) rd_state, 'e) rd_next" where
  "tls_records E [] st = RGo st"
| "tls_records E ((plain, errRead) # rs) st =
     (if plain = [] then (if errRead \<noteq> None then RStop st errRead else RGo st)
      else
        (case rd_step E plain st of
           (st, Some e) \<Rightarrow> RStop st (Some e)
         | (st, None) \<Rightarrow>
             (case after_parse E st of
                RGo st \<Rightarrow> if errRead \<noteq> None then RStop st errRead else tls_records E rs st
              | r \<Rightarrow> r)))"

fun readTLSConnBlocking :: "('a, 's, 'e) rd_env \<Rightarrow> ('e + ('a list \<times> 'e option) list) list \<Rightarrow> ('a, 's, 'e) rd_state \<Rightarrow> ('a, 's, 'e) rd_state rd_result" where
  "readTLSConnBlocking E [] st = Waiting st"
| "readTLSConnBlocking E (Inl e # reads) st = Ended (rd_deferred True E (Some e) st)"
| "readTLSConnBlocking E (Inr recs # reads) st =
     (case tls_records E recs st of
        RGo st \<Rightarrow> readTLSConnBlocking E reads st
      | RStop st err \<Rightarrow> Ended (rd_deferred True E err st)
      | RNil \<Rightarrow> NilParser)"

text \<open>The log of a reader at work: the HTTP parser's part, and after an upgrade (or a transfer) the rest.\<close>

definition work_log :: "'a list list \<Rightarrow> bool \<Rightarrow> 'a list list \<Rightarrow> ('a, 'e) rd_action list" where
  "work_log hs sw us = map (RParsed ByHttp) hs @ (if sw then RParserClosed # map (RParsed ByUpgraded) us else [])"

definition working :: "('a, 's, 'e) rd_env \<Rightarrow> 'a list \<Rightarrow> ('a, 's, 'e) rd_state \<Rightarrow> bool" where
  "working E bs st \<longleftrightarrow> (\<exists>hs us. rs_log st = work_log hs (\<not> rs_parser st) us \<and> (rs_parser st \<longrightarrow> us = []) \<and> concat hs @ concat us = bs) \<and>
     rs_who st = (if rs_parser st then ByHttp else ByUpgraded) \<and> \<not> rd_transferred E (rs_s st)"

text \<open>An upgraded reader does not transfer the connection.\<close>

definition upgrade_final :: "('a, 's, 'e) rd_env \<Rightarrow> bool" where
  "upgrade_final E \<longleftrightarrow> (\<forall>d s. \<not> rd_transferred E s \<longrightarrow> \<not> rd_transferred E (fst (rd_parse E ByUpgraded d s)))"

text \<open>The end of a reader: everything parsed, then the deferred actions, each once.\<close>

definition ended :: "bool \<Rightarrow> ('a, 's, 'e) rd_env \<Rightarrow> 'a list \<Rightarrow> ('a, 's, 'e) rd_state \<Rightarrow> bool" where
  "ended tls E bs st \<longleftrightarrow> (\<exists>hs sw us err. concat hs @ concat us = bs \<and>
     rs_log st = work_log hs sw us @ [RFreeBuffer] @
       (if rd_transferred E (rs_s st) then [] else RCloseAndClean (rs_who st) err # (if tls then [RTlsClose] else [])) @ [RForgetKey, ROnClose err, RDecrease] \<and>
     (if rd_transferred E (rs_s st) then us = [] else (rs_who st = ByUpgraded) = sw))"

lemma work_log_parsed:
  "work_log hs False [] @ [RParsed ByHttp d] = work_log (hs @ [d]) False []" "work_log hs True us @ [RParsed ByUpgraded d] = work_log hs True (us @ [d])"
  "work_log hs False [] @ [RParserClosed] = work_log hs True []"
  by (simp_all add: work_log_def)

lemma rd_step_working:
  assumes "working E bs st" "upgrade_final E" "rd_step E d st = (st', err)"
  shows "\<exists>hs us. rs_log st' = work_log hs (\<not> rs_parser st') us \<and> (rs_parser st' \<longrightarrow> us = []) \<and> concat hs @ concat us = bs @ d"
    "rs_who st' = (if rs_parser st' then ByHttp else ByUpgraded)" "\<not> rs_parser st' \<longrightarrow> \<not> rd_transferred E (rs_s st')"
proof -
  obtain hs us where w: "rs_log st = work_log hs (\<not> rs_parser st) us" "rs_parser st \<longrightarrow> us = []" "concat hs @ concat us = bs"
      "rs_who st = (if rs_parser st then ByHttp else ByUpgraded)" "\<not> rd_transferred E (rs_s st)"
    using assms(1) unfolding working_def by blast
  have st': "st' = st\<lparr>rs_s := fst (rd_parse E (rs_who st) d (rs_s st)), rs_log := rs_log st @ [RParsed (rs_who st) d]\<rparr>"
    using assms(3) by (simp add: rd_step_def split: prod.splits)
  show "rs_who st' = (if rs_parser st' then ByHttp else ByUpgraded)" "\<not> rs_parser st' \<longrightarrow> \<not> rd_transferred E (rs_s st')"
    using w assms(2) by (simp_all add: st' upgrade_final_def)
  show "\<exists>hs us. rs_log st' = work_log hs (\<not> rs_parser st') us \<and> (rs_parser st' \<longrightarrow> us = []) \<and> concat hs @ concat us = bs @ d"
  proof (cases "rs_parser st")
    case True
    then show ?thesis using w by (intro exI [of _ "hs @ [d]"] exI [of _ "[]"]) (simp add: st' work_log_parsed)
  next
    case False
    then show ?thesis using w by (intro exI [of _ hs] exI [of _ "us @ [d]"]) (auto simp: st' work_log_parsed)
  qed
qed

text \<open>The state between \<open>Parse\<close> and what follows it.\<close>

definition parsed :: "('a, 's, 'e) rd_env \<Rightarrow> 'a list \<Rightarrow> ('a, 's, 'e) rd_state \<Rightarrow> bool" where
  "parsed E bs st \<longleftrightarrow> (\<exists>hs us. rs_log st = work_log hs (\<not> rs_parser st) us \<and> (rs_parser st \<longrightarrow> us = []) \<and> concat hs @ concat us = bs) \<and>
     rs_who st = (if rs_parser st then ByHttp else ByUpgraded) \<and> (\<not> rs_parser st \<longrightarrow> \<not> rd_transferred E (rs_s st))"

lemma working_parsed: "working E bs st \<longleftrightarrow> parsed E bs st \<and> \<not> rd_transferred E (rs_s st)"
  by (auto simp: working_def parsed_def)

lemma rd_step_parsed: "working E bs st \<Longrightarrow> upgrade_final E \<Longrightarrow> rd_step E d st = (st', err) \<Longrightarrow> parsed E (bs @ d) st'"
  using rd_step_working [of E bs st d st' err] unfolding parsed_def by blast

lemma deferred_ended:
  assumes "rs_log st = work_log hs sw us" "concat hs @ concat us = bs" "if rd_transferred E (rs_s st) then us = [] else (rs_who st = ByUpgraded) = sw"
  shows "ended tls E bs (rd_deferred tls E err st)"
  unfolding ended_def using assms by (intro exI [of _ hs] exI [of _ sw] exI [of _ us] exI [of _ err]) (simp add: rd_deferred_def)

lemma parsed_ended:
  assumes "parsed E bs st"
  shows "ended tls E bs (rd_deferred tls E err st)"
proof -
  obtain hs us where l: "rs_log st = work_log hs (\<not> rs_parser st) us" "rs_parser st \<longrightarrow> us = []" "concat hs @ concat us = bs"
    using assms unfolding parsed_def by blast
  show ?thesis by (rule deferred_ended [OF l(1,3)]) (use assms l(2) in \<open>auto simp: parsed_def\<close>)
qed

lemma working_ended: "working E bs st \<Longrightarrow> ended tls E bs (rd_deferred tls E err st)"
  by (simp add: working_parsed parsed_ended)

text \<open>Either the reader goes on, or it ends, and the parser is not nil where it is used.\<close>

lemma after_parse_cases:
  assumes "parsed E bs st"
  shows "case after_parse E st of RGo st' \<Rightarrow> working E bs st' | RStop st' err \<Rightarrow> ended tls E bs (rd_deferred tls E err st') | RNil \<Rightarrow> False"
proof -
  obtain hs us where w: "rs_log st = work_log hs (\<not> rs_parser st) us" "rs_parser st \<longrightarrow> us = []" "concat hs @ concat us = bs"
      "rs_who st = (if rs_parser st then ByHttp else ByUpgraded)" "\<not> rs_parser st \<longrightarrow> \<not> rd_transferred E (rs_s st)"
    using assms unfolding parsed_def by blast
  consider "rd_transferred E (rs_s st)" | "\<not> rd_transferred E (rs_s st)" "rs_parser st" "rd_upgraded E (rs_s st)"
    | "\<not> rd_transferred E (rs_s st)" "\<not> (rs_parser st \<and> rd_upgraded E (rs_s st))" by blast
  then show ?thesis
  proof cases
    case 1
    then have "rs_parser st" "us = []" using w by auto
    then have "ended tls E bs (rd_deferred tls E None (st\<lparr>rs_log := rs_log st @ [RParserClosed]\<rparr>))"
      using w 1 by (intro deferred_ended [where hs = hs and sw = True and us = "[]"]) (simp_all add: work_log_parsed)
    then show ?thesis using 1 \<open>rs_parser st\<close> by (simp add: after_parse_def)
  next
    case 2
    then have "working E bs (st\<lparr>rs_who := ByUpgraded, rs_parser := False, rs_log := rs_log st @ [RParserClosed]\<rparr>)"
      using w unfolding working_def by (intro conjI exI [of _ hs] exI [of _ "[]"]) (auto simp: work_log_parsed)
    then show ?thesis using 2 by (simp add: after_parse_def)
  next
    case 3
    then have "after_parse E st = RGo st" unfolding after_parse_def by presburger
    then show ?thesis using assms 3(1) by (simp add: working_parsed)
  qed
qed

text \<open>The results of the two loops. \<open>sent\<close> is the plaintext of the reads.\<close>

definition reader_ok :: "bool \<Rightarrow> ('a, 's, 'e) rd_env \<Rightarrow> 'a list \<Rightarrow> bool \<Rightarrow> ('a, 's, 'e) rd_state rd_result \<Rightarrow> bool" where
  "reader_ok tls E sent failed r = (case r of
     Waiting st \<Rightarrow> working E sent st \<and> \<not> failed
   | Ended st \<Rightarrow> \<exists>bs. prefix bs sent \<and> ended tls E bs st
   | NilParser \<Rightarrow> False)"

lemma reader_ok_prefix: "reader_ok tls E a f r \<Longrightarrow> (\<And>st. r = Waiting st \<Longrightarrow> a = b \<and> f = g) \<Longrightarrow> prefix a b \<Longrightarrow> reader_ok tls E b g r"
  by (auto simp: reader_ok_def split: rd_result.splits intro: prefix_order.trans)

definition net_bytes :: "('e + 'a list) list \<Rightarrow> 'a list" where
  "net_bytes reads = concat (map (\<lambda>r. case r of Inl e \<Rightarrow> [] | Inr d \<Rightarrow> d) reads)"

definition tls_bytes :: "('e + ('a list \<times> 'e option) list) list \<Rightarrow> 'a list" where
  "tls_bytes reads = concat (map (\<lambda>r. case r of Inl e \<Rightarrow> [] | Inr rs \<Rightarrow> concat (map fst (takeWhile (\<lambda>x. fst x \<noteq> []) rs))) reads)"

lemma readConnBlocking_ok:
  "working E bs st \<Longrightarrow> upgrade_final E \<Longrightarrow> reader_ok False E (bs @ net_bytes reads) (\<exists>e. Inl e \<in> set reads) (readConnBlocking E reads st)"
proof (induction E reads st arbitrary: bs rule: readConnBlocking.induct)
  case (1 E st)
  then show ?case by (simp add: reader_ok_def net_bytes_def)
next
  case (2 E e reads st)
  then show ?case using working_ended [of E bs st False "Some e"] by (auto simp: reader_ok_def intro!: exI [of _ bs])
next
  case (3 E data reads st)
  obtain st' err where p: "rd_step E data st = (st', err)" by fastforce
  have nb: "net_bytes (Inr data # reads) = data @ net_bytes reads" by (simp add: net_bytes_def)
  note c = after_parse_cases [OF rd_step_parsed [OF 3(2,3) p], of False]
  show ?case
  proof (cases "after_parse E st'")
    case (RGo st2)
    then have "working E (bs @ data) st2" using c by simp
    then have "reader_ok False E ((bs @ data) @ net_bytes reads) (\<exists>e. Inl e \<in> set reads) (readConnBlocking E reads st2)"
      using 3(1) [of st2 "bs @ data"] p RGo 3(3) by simp
    then show ?thesis using p RGo nb by simp
  next
    case (RStop st2 e)
    then have "ended False E (bs @ data) (rd_deferred False E e st2)" using c by simp
    then show ?thesis using p RStop nb by (auto simp: reader_ok_def intro!: exI [of _ "bs @ data"])
  qed (use c in simp)
qed

lemma tls_records_ok:
  "working E bs st \<Longrightarrow> upgrade_final E \<Longrightarrow>
   (case tls_records E rs st of
      RGo st' \<Rightarrow> working E (bs @ concat (map fst (takeWhile (\<lambda>x. fst x \<noteq> []) rs))) st'
    | RStop st' err \<Rightarrow> \<exists>b. prefix b (bs @ concat (map fst (takeWhile (\<lambda>x. fst x \<noteq> []) rs))) \<and> ended True E b (rd_deferred True E err st')
    | RNil \<Rightarrow> False)"
proof (induction E rs st arbitrary: bs rule: tls_records.induct)
  case (2 E plain errRead rs st)
  let ?more = "concat (map fst (takeWhile (\<lambda>x. fst x \<noteq> []) rs))"
  show ?case
  proof (cases "plain = []")
    case True
    then show ?thesis using 2 working_ended [OF 2(2), of True errRead] by auto
  next
    case plain: False
    obtain st' err where p: "rd_step E plain st = (st', err)" by fastforce
    note q = rd_step_parsed [OF 2(2,3) p]
    note c = after_parse_cases [OF q, of True]
    have stop: "\<exists>b. prefix b (bs @ plain @ ?more) \<and> ended True E b (rd_deferred True E e st2)" if "ended True E (bs @ plain) (rd_deferred True E e st2)" for e st2
      using that by (intro exI [of _ "bs @ plain"]) simp
    show ?thesis
    proof (cases err)
      case (Some e)
      have "ended True E (bs @ plain) (rd_deferred True E err st')" by (rule parsed_ended [OF q])
      then show ?thesis using plain p Some stop by simp
    next
      case None
      show ?thesis
      proof (cases "after_parse E st'")
        case (RGo st2)
        then have w: "working E (bs @ plain) st2" using c by simp
        show ?thesis
        proof (cases errRead)
          case E: None
          then have rec: "tls_records E ((plain, errRead) # rs) st = tls_records E rs st2" using plain p None RGo by simp
          have bytes: "bs @ concat (map fst (takeWhile (\<lambda>x. fst x \<noteq> []) ((plain, errRead) # rs))) = (bs @ plain) @ ?more" using plain by simp
          have "\<not> errRead \<noteq> None" using E by simp
          from 2(1) [OF plain p [symmetric] None RGo this w 2(3)] show ?thesis unfolding rec bytes .
        next
          case (Some e)
          then have "tls_records E ((plain, errRead) # rs) st = RStop st2 errRead" using plain p None RGo by simp
          then show ?thesis using stop [OF working_ended [OF w]] plain by simp
        qed
      qed (use c plain p None stop in simp_all)
    qed
  qed
qed simp

lemma readTLSConnBlocking_ok:
  "working E bs st \<Longrightarrow> upgrade_final E \<Longrightarrow> reader_ok True E (bs @ tls_bytes reads) (\<exists>e. Inl e \<in> set reads) (readTLSConnBlocking E reads st)"
proof (induction E reads st arbitrary: bs rule: readTLSConnBlocking.induct)
  case (1 E st)
  then show ?case by (simp add: reader_ok_def tls_bytes_def)
next
  case (2 E e reads st)
  then show ?case using working_ended [of E bs st True "Some e"] by (auto simp: reader_ok_def intro!: exI [of _ bs])
next
  case (3 E recs reads st)
  let ?b = "concat (map fst (takeWhile (\<lambda>x. fst x \<noteq> []) recs))"
  have nb: "tls_bytes (Inr recs # reads) = ?b @ tls_bytes reads" by (simp add: tls_bytes_def)
  note c = tls_records_ok [OF 3(2,3), of recs]
  show ?case
  proof (cases "tls_records E recs st")
    case (RGo st2)
    then have "working E (bs @ ?b) st2" using c by simp
    then have "reader_ok True E ((bs @ ?b) @ tls_bytes reads) (\<exists>e. Inl e \<in> set reads) (readTLSConnBlocking E reads st2)" using 3(1) RGo 3(3) by blast
    then show ?thesis using RGo nb by simp
  next
    case (RStop st2 e)
    then obtain b where "prefix b (bs @ ?b)" "ended True E b (rd_deferred True E e st2)" using c by auto
    then show ?thesis using RStop nb by (auto simp: reader_ok_def intro!: exI [of _ b] intro: prefix_order.trans)
  qed (use c in simp)
qed

lemma rd_start_working: "\<not> rd_transferred E s \<Longrightarrow> working E [] (rd_start s)"
  by (simp add: working_def rd_start_def work_log_def)

end
