(* ===== verification/ConnKey.thy ===== *)
theory ConnKey
  imports Prelude
begin

text \<open>
  \<open>nbhttp/convert.go\<close>: a connection as the key of a map, its address in little-endian order followed by a byte for its type.
  An address is a number below \<open>256 ^ uintptrSize\<close>.
\<close>

datatype std_conn = NbioConn nat | TCPConn nat | UnixConn nat | StdTlsConn nat | LlibTlsConn nat | OtherConn

fun put_le :: "nat \<Rightarrow> nat \<Rightarrow> 8 word list" where
  "put_le 0 p = []"
| "put_le (Suc n) p = word_of_nat p # put_le n (p div 256)"

fun get_le :: "8 word list \<Rightarrow> nat" where
  "get_le [] = 0"
| "get_le (b # bs) = unat b + 256 * get_le bs"

definition connTyp :: "std_conn \<Rightarrow> (nat \<times> 8 word) option" where
  "connTyp c = (case c of NbioConn p \<Rightarrow> Some (p, 1) | TCPConn p \<Rightarrow> Some (p, 2) | UnixConn p \<Rightarrow> Some (p, 3) | StdTlsConn p \<Rightarrow> Some (p, 4)
     | LlibTlsConn p \<Rightarrow> Some (p, 5) | OtherConn \<Rightarrow> None)"

definition conn2Array :: "nat \<Rightarrow> std_conn \<Rightarrow> 8 word list option" where
  "conn2Array uintptrSize c =
     (case connTyp c of
        None \<Rightarrow> None
      | Some (p, t) \<Rightarrow> if uintptrSize = 4 \<or> uintptrSize = 8 then Some (put_le uintptrSize p @ [t]) else None)"

definition array2Conn :: "nat \<Rightarrow> 8 word list \<Rightarrow> std_conn option" where
  "array2Conn uintptrSize b =
     (if uintptrSize = 4 \<or> uintptrSize = 8 then
        (let p = get_le (take uintptrSize b); t = b ! uintptrSize in
         if t = 1 then Some (NbioConn p) else if t = 2 then Some (TCPConn p) else if t = 3 then Some (UnixConn p)
         else if t = 4 then Some (StdTlsConn p) else if t = 5 then Some (LlibTlsConn p) else None)
      else None)"

fun address :: "std_conn \<Rightarrow> nat" where
  "address (NbioConn p) = p"
| "address (TCPConn p) = p"
| "address (UnixConn p) = p"
| "address (StdTlsConn p) = p"
| "address (LlibTlsConn p) = p"
| "address OtherConn = 0"

lemma length_put_le [simp]: "length (put_le n p) = n"
  by (induction n arbitrary: p) simp_all

lemma get_put_le: "p < 256 ^ n \<Longrightarrow> get_le (put_le n p) = p"
proof (induction n arbitrary: p)
  case (Suc n)
  have "unat (word_of_nat p :: 8 word) = p mod 256" by (simp add: unat_of_nat)
  then show ?case using Suc by (simp add: less_mult_imp_div_less mult.commute)
qed simp

lemma conn2Array_roundtrip:
  "conn2Array w c = Some b \<Longrightarrow> address c < 256 ^ w \<Longrightarrow> array2Conn w b = Some c"
  by (cases c) (auto simp: conn2Array_def array2Conn_def connTyp_def nth_append get_put_le split: if_splits)

lemma conn2Array_inj:
  "conn2Array w c = Some b \<Longrightarrow> conn2Array w c' = Some b \<Longrightarrow> address c < 256 ^ w \<Longrightarrow> address c' < 256 ^ w \<Longrightarrow> c = c'"
  by (metis conn2Array_roundtrip option.inject)

end
