(* ===== verification/ServerConns.thy ===== *)
theory ServerConns
  imports ConnKey
begin

text \<open>
  The connections of an HTTP engine, \<open>nbhttp/engine.go\<close> with \<open>lmux/lmux.go\<close>: accepted connections go to a blocking reader or to a
  poller, in mixed mode by the counter \<open>onlineA\<close> of the listener multiplexer; the set \<open>conns\<close> of keys, which \<open>Online\<close> counts and
  \<open>MaxLoad\<close> bounds; the callbacks \<open>OnOpen\<close> and \<open>OnClose\<close>; and \<open>decrease\<close>. A connection is named by the address of its object, which
  may be used again for another one later. \<open>he_ph\<close> says where each connection is; every atomic step of the goroutines that
  handle it is a step of \<open>serve_step\<close>. The channels of all listeners are taken together: any queued connection may be received.
\<close>

datatype io_mod = IOModNonBlocking | IOModBlocking | IOModMixed

datatype conn_phase =
    NotHere
  | OverA  \<comment> \<open>counted by \<open>onlineA\<close> above the limit, about to be counted down\<close>
  | ToA | ToB  \<comment> \<open>accepted, for a blocking reader or for a poller\<close>
  | Reading std_conn  \<comment> \<open>a goroutine reads it\<close>
  | Leaving  \<comment> \<open>\<open>decrease\<close> is the last thing to be done\<close>
  | Registered  \<comment> \<open>in \<open>conns\<close> and opened, before \<open>AddConn\<close>\<close>
  | Polled
  | Failing  \<comment> \<open>\<open>AddConn\<close> failed after the poller took it: the close callback will come\<close>
  | Transferring | TransferredIn | LateOpen | FailingIn  \<comment> \<open>\<open>AddTransferredConn\<close>: before \<open>AddConn\<close>, before \<open>OnOpen\<close>, closed before it, failed\<close>
  | Dropped bool bool  \<comment> \<open>nothing more happens; whether \<open>onlineA\<close> still counts it and whether \<open>OnOpen\<close> was called\<close>

record http_engine =
  he_mod :: io_mod
  he_uintptrSize :: nat
  he_MaxLoad :: nat
  he_maxOnlineA :: int
  he_onlineA :: int
  he_conns :: "8 word list set"
  he_ph :: "nat \<Rightarrow> conn_phase"
  he_opens :: "nat \<Rightarrow> nat"
  he_closes :: "nat \<Rightarrow> nat"
  he_transferred :: "nat set"
  he_closedConns :: "nat list"
  he_shutdown :: bool

definition new_http_engine :: "io_mod \<Rightarrow> nat \<Rightarrow> nat \<Rightarrow> int \<Rightarrow> http_engine" where
  "new_http_engine m w maxLoad maxBlockingOnline =
     \<lparr>he_mod = m, he_uintptrSize = w, he_MaxLoad = maxLoad, he_maxOnlineA = maxBlockingOnline, he_onlineA = 0, he_conns = {}, he_ph = (\<lambda>i. NotHere),
      he_opens = (\<lambda>i. 0), he_closes = (\<lambda>i. 0), he_transferred = {}, he_closedConns = [], he_shutdown = False\<rparr>"

definition goto :: "nat \<Rightarrow> conn_phase \<Rightarrow> http_engine \<Rightarrow> http_engine" where
  "goto i p s = s\<lparr>he_ph := (he_ph s)(i := p)\<rparr>"

definition he_Close :: "nat \<Rightarrow> http_engine \<Rightarrow> http_engine" where
  "he_Close i s = s\<lparr>he_closedConns := he_closedConns s @ [i]\<rparr>"

definition call_onOpen :: "nat \<Rightarrow> http_engine \<Rightarrow> http_engine" where
  "call_onOpen i s = s\<lparr>he_opens := (he_opens s)(i := Suc (he_opens s i))\<rparr>"

definition call_onClose :: "nat \<Rightarrow> http_engine \<Rightarrow> http_engine" where
  "call_onClose i s = s\<lparr>he_closes := (he_closes s)(i := Suc (he_closes s i))\<rparr>"

definition nbc_key :: "nat \<Rightarrow> http_engine \<Rightarrow> 8 word list option" where
  "nbc_key i s = conn2Array (he_uintptrSize s) (NbioConn i)"

text \<open>The multiplexer: the increment and the decision of \<open>ListenerMux.Start\<close>, and the two decrements. Without it a listener's connections
  go straight to \<open>listen\<close>, and \<open>decrease\<close> does nothing.\<close>

definition mux_accept :: "nat \<Rightarrow> http_engine \<Rightarrow> http_engine" where
  "mux_accept i s =
     (case he_mod s of
        IOModBlocking \<Rightarrow> goto i ToA s
      | IOModNonBlocking \<Rightarrow> goto i ToB s
      | IOModMixed \<Rightarrow>
          (let s = s\<lparr>he_onlineA := he_onlineA s + 1\<rparr> in
           if he_onlineA s \<le> he_maxOnlineA s then goto i ToA s else goto i OverA s))"

definition mux_over :: "nat \<Rightarrow> http_engine \<Rightarrow> http_engine" where
  "mux_over i s = goto i ToB (s\<lparr>he_onlineA := he_onlineA s - 1\<rparr>)"

definition DecreaseOnlineA :: "http_engine \<Rightarrow> http_engine" where
  "DecreaseOnlineA s = s\<lparr>he_onlineA := he_onlineA s - 1\<rparr>"

definition decrease :: "nat \<Rightarrow> http_engine \<Rightarrow> http_engine" where
  "decrease i s = goto i NotHere (if he_mod s = IOModMixed then DecreaseOnlineA s else s)"

text \<open>\<open>AddConnNonTLSBlocking\<close> and \<open>AddConnTLSBlocking\<close>, up to the reading goroutine: the second wraps the connection in TLS after the same steps.\<close>

definition AddConnNonTLSBlocking :: "nat \<Rightarrow> std_conn \<Rightarrow> http_engine \<Rightarrow> http_engine" where
  "AddConnNonTLSBlocking i c s =
     (if card (he_conns s) \<ge> he_MaxLoad s then goto i Leaving (he_Close i s)
      else
        (case (case c of TCPConn p \<Rightarrow> conn2Array (he_uintptrSize s) c | UnixConn p \<Rightarrow> conn2Array (he_uintptrSize s) c | _ \<Rightarrow> None) of
           None \<Rightarrow> goto i Leaving (he_Close i s)
         | Some key \<Rightarrow> goto i (Reading c) (call_onOpen i (s\<lparr>he_conns := insert key (he_conns s)\<rparr>))))"

definition AddConnTLSBlocking :: "nat \<Rightarrow> std_conn \<Rightarrow> http_engine \<Rightarrow> http_engine" where
  "AddConnTLSBlocking i underLayerConn s =
     (if card (he_conns s) \<ge> he_MaxLoad s then goto i Leaving (he_Close i s)
      else
        (case (case underLayerConn of TCPConn p \<Rightarrow> conn2Array (he_uintptrSize s) underLayerConn | UnixConn p \<Rightarrow> conn2Array (he_uintptrSize s) underLayerConn | _ \<Rightarrow> None) of
           None \<Rightarrow> goto i Leaving (he_Close i s)
         | Some key \<Rightarrow> goto i (Reading underLayerConn) (call_onOpen i (s\<lparr>he_conns := insert key (he_conns s)\<rparr>))))"

text \<open>The end of \<open>readConnBlocking\<close> and \<open>readTLSConnBlocking\<close>.\<close>

definition end_reading :: "nat \<Rightarrow> std_conn \<Rightarrow> http_engine \<Rightarrow> http_engine" where
  "end_reading i c s =
     (let s = (case conn2Array (he_uintptrSize s) c of None \<Rightarrow> s | Some key \<Rightarrow> s\<lparr>he_conns := he_conns s - {key}\<rparr>)
      in goto i Leaving (call_onClose i s))"

text \<open>\<open>AddConnNonTLSNonBlocking\<close> and \<open>AddConnTLSNonBlocking\<close> up to \<open>AddConn\<close>, and what follows it. \<open>nbOk\<close>: \<open>NBConn\<close> made a connection;
  \<open>fresh\<close>: it has no session. \<open>decrease\<close> does nothing on this path.\<close>

definition AddConnNonTLSNonBlocking :: "nat \<Rightarrow> bool \<Rightarrow> bool \<Rightarrow> http_engine \<Rightarrow> http_engine" where
  "AddConnNonTLSNonBlocking i nbOk fresh s =
     (if \<not> nbOk \<or> \<not> fresh then goto i NotHere (he_Close i s)
      else
        (case nbc_key i s of
           None \<Rightarrow> goto i NotHere (he_Close i s)
         | Some key \<Rightarrow>
             if card (he_conns s) \<ge> he_MaxLoad s then goto i NotHere (he_Close i s)
             else goto i Registered (call_onOpen i (s\<lparr>he_conns := insert key (he_conns s)\<rparr>))))"

definition AddConnTLSNonBlocking :: "nat \<Rightarrow> bool \<Rightarrow> bool \<Rightarrow> http_engine \<Rightarrow> http_engine" where
  "AddConnTLSNonBlocking i nbOk fresh s =
     (if \<not> nbOk \<or> \<not> fresh then goto i NotHere (he_Close i s)
      else
        (case nbc_key i s of
           None \<Rightarrow> goto i NotHere (he_Close i s)
         | Some key \<Rightarrow>
             if card (he_conns s) \<ge> he_MaxLoad s then goto i NotHere (he_Close i s)
             else goto i Registered (call_onOpen i (s\<lparr>he_conns := insert key (he_conns s)\<rparr>))))"

datatype add_result = AddOk | AddTooManyFiles | AddCtlFailed

definition drop_nbc :: "nat \<Rightarrow> http_engine \<Rightarrow> http_engine" where
  "drop_nbc i s = (case nbc_key i s of None \<Rightarrow> s | Some key \<Rightarrow> s\<lparr>he_conns := he_conns s - {key}\<rparr>)"

definition nb_added :: "nat \<Rightarrow> add_result \<Rightarrow> http_engine \<Rightarrow> http_engine" where
  "nb_added i r s =
     (case r of
        AddOk \<Rightarrow> goto i Polled s
      | AddTooManyFiles \<Rightarrow> goto i (Dropped False True) (drop_nbc i (he_Close i s))
      | AddCtlFailed \<Rightarrow> goto i Failing (drop_nbc i (he_Close i s)))"

text \<open>The close callback \<open>NewEngine\<close> registers with the pollers.\<close>

definition engine_onClose :: "nat \<Rightarrow> http_engine \<Rightarrow> http_engine" where
  "engine_onClose i s = goto i NotHere (drop_nbc i (call_onClose i s))"

text \<open>\<open>AddTransferredConn\<close>: up to \<open>AddConn\<close>, after it, and the call of \<open>OnOpen\<close> behind it.\<close>

definition AddTransferredConn :: "nat \<Rightarrow> http_engine \<Rightarrow> http_engine" where
  "AddTransferredConn i s0 =
     (let s = s0\<lparr>he_transferred := insert i (he_transferred s0)\<rparr> in
      case nbc_key i s of
        None \<Rightarrow> he_Close i s
      | Some key \<Rightarrow>
          if card (he_conns s) \<ge> he_MaxLoad s then he_Close i s
          else goto i Transferring (s\<lparr>he_conns := insert key (he_conns s)\<rparr>))"

definition transfer_added :: "nat \<Rightarrow> add_result \<Rightarrow> http_engine \<Rightarrow> http_engine" where
  "transfer_added i r s =
     (case r of
        AddOk \<Rightarrow> goto i TransferredIn s
      | AddTooManyFiles \<Rightarrow> goto i NotHere (drop_nbc i (he_Close i s))
      | AddCtlFailed \<Rightarrow> goto i FailingIn (drop_nbc i (he_Close i s)))"

text \<open>\<open>listen\<close> after \<open>Stop\<close> or \<open>Shutdown\<close>: a connection that was accepted is neither added nor closed.\<close>

definition listen_drop :: "nat \<Rightarrow> http_engine \<Rightarrow> http_engine" where
  "listen_drop i s = goto i (Dropped (he_ph s i = ToA) False) s"

inductive serve_step :: "http_engine \<Rightarrow> http_engine \<Rightarrow> bool" where
  accept: "he_ph s i = NotHere \<Longrightarrow> i < 256 ^ he_uintptrSize s \<Longrightarrow> serve_step s (mux_accept i s)"
| over: "he_ph s i = OverA \<Longrightarrow> serve_step s (mux_over i s)"
| blocking: "he_ph s i = ToA \<Longrightarrow> \<not> he_shutdown s \<Longrightarrow> c \<in> {TCPConn i, UnixConn i, OtherConn} \<Longrightarrow> serve_step s (AddConnNonTLSBlocking i c s)"
| blocking_tls: "he_ph s i = ToA \<Longrightarrow> \<not> he_shutdown s \<Longrightarrow> c \<in> {TCPConn i, UnixConn i, OtherConn} \<Longrightarrow> serve_step s (AddConnTLSBlocking i c s)"
| nonblocking: "he_ph s i = ToB \<Longrightarrow> \<not> he_shutdown s \<Longrightarrow> serve_step s (AddConnNonTLSNonBlocking i nbOk fresh s)"
| nonblocking_tls: "he_ph s i = ToB \<Longrightarrow> \<not> he_shutdown s \<Longrightarrow> serve_step s (AddConnTLSNonBlocking i nbOk fresh s)"
| dropped: "he_ph s i = ToA \<or> he_ph s i = ToB \<Longrightarrow> he_shutdown s \<Longrightarrow> serve_step s (listen_drop i s)"
| read_end: "he_ph s i = Reading c \<Longrightarrow> serve_step s (end_reading i c s)"
| left: "he_ph s i = Leaving \<Longrightarrow> serve_step s (decrease i s)"
| added: "he_ph s i = Registered \<Longrightarrow> serve_step s (nb_added i r s)"
| poll_close: "he_ph s i = Polled \<or> he_ph s i = Failing \<or> he_ph s i = FailingIn \<Longrightarrow> serve_step s (engine_onClose i s)"
| transfer: "he_ph s i = NotHere \<Longrightarrow> i < 256 ^ he_uintptrSize s \<Longrightarrow> serve_step s (AddTransferredConn i s)"
| transferred: "he_ph s i = Transferring \<Longrightarrow> serve_step s (transfer_added i r s)"
| transfer_open: "he_ph s i = TransferredIn \<Longrightarrow> serve_step s (goto i Polled (call_onOpen i s))"
| transfer_close: "he_ph s i = TransferredIn \<Longrightarrow> serve_step s (goto i LateOpen (engine_onClose i s))"
| late_open: "he_ph s i = LateOpen \<Longrightarrow> serve_step s (goto i NotHere (call_onOpen i s))"
| stop: "serve_step s (s\<lparr>he_shutdown := True\<rparr>)"

inductive_cases serve_stepE: "serve_step s s'"

text \<open>The connection whose key a phase holds, if any; the phases that \<open>onlineA\<close> counts; those with an \<open>OnOpen\<close> and no \<open>OnClose\<close> yet.\<close>

fun conn_of :: "nat \<Rightarrow> conn_phase \<Rightarrow> std_conn option" where
  "conn_of i (Reading c) = Some c"
| "conn_of i Registered = Some (NbioConn i)"
| "conn_of i Polled = Some (NbioConn i)"
| "conn_of i Transferring = Some (NbioConn i)"
| "conn_of i TransferredIn = Some (NbioConn i)"
| "conn_of i _ = None"

fun counted :: "conn_phase \<Rightarrow> bool" where
  "counted ToA = True"
| "counted (Reading c) = True"
| "counted Leaving = True"
| "counted (Dropped a b) = a"
| "counted _ = False"

fun owes_close :: "conn_phase \<Rightarrow> bool" where
  "owes_close (Reading c) = True"
| "owes_close Registered = True"
| "owes_close Polled = True"
| "owes_close Failing = True"
| "owes_close (Dropped a b) = b"
| "owes_close _ = False"

fun incoming :: "conn_phase \<Rightarrow> bool" where
  "incoming Transferring = True"
| "incoming TransferredIn = True"
| "incoming LateOpen = True"
| "incoming FailingIn = True"
| "incoming _ = False"

definition key_of :: "nat \<Rightarrow> (nat \<Rightarrow> conn_phase) \<Rightarrow> nat \<Rightarrow> 8 word list option" where
  "key_of w ph i = (case conn_of i (ph i) of None \<Rightarrow> None | Some c \<Rightarrow> conn2Array w c)"

definition keys_ok :: "nat \<Rightarrow> nat \<Rightarrow> 8 word list set \<Rightarrow> (nat \<Rightarrow> conn_phase) \<Rightarrow> bool" where
  "keys_ok w m ks ph \<longleftrightarrow>
     finite {i. ph i \<noteq> NotHere} \<and> (\<forall>i. ph i \<noteq> NotHere \<longrightarrow> i < 256 ^ w) \<and>
     (\<forall>i c. conn_of i (ph i) = Some c \<longrightarrow> address c = i \<and> conn2Array w c \<noteq> None) \<and> ks = {k. \<exists>i. key_of w ph i = Some k} \<and> card ks \<le> m"

lemma key_of_upd: "key_of w (ph(i := p)) j = (if j = i then (case conn_of i p of None \<Rightarrow> None | Some c \<Rightarrow> conn2Array w c) else key_of w ph j)"
  by (simp add: key_of_def)

lemma keys_okD:
  assumes "keys_ok w m ks ph"
  shows "finite {i. ph i \<noteq> NotHere}" "ph i \<noteq> NotHere \<Longrightarrow> i < 256 ^ w" "conn_of i (ph i) = Some c \<Longrightarrow> address c = i"
    "conn_of i (ph i) = Some c \<Longrightarrow> conn2Array w c \<noteq> None" "conn_of i (ph i) = Some c \<Longrightarrow> i < 256 ^ w" "ks = {k. \<exists>i. key_of w ph i = Some k}" "card ks \<le> m"
proof -
  show "conn_of i (ph i) = Some c \<Longrightarrow> i < 256 ^ w" using assms by (cases "ph i = NotHere") (auto simp: keys_ok_def)
qed (use assms in \<open>unfold keys_ok_def, blast+\<close>)

lemma keys_split: "{k. \<exists>j. key_of w ph j = Some k} = set_option (key_of w ph i) \<union> {k. \<exists>j. j \<noteq> i \<and> key_of w ph j = Some k}"
  by auto

lemma keys_split_upd:
  "{k. \<exists>j. key_of w (ph(i := p)) j = Some k} =
   set_option (case conn_of i p of None \<Rightarrow> None | Some c \<Rightarrow> conn2Array w c) \<union> {k. \<exists>j. j \<noteq> i \<and> key_of w ph j = Some k}"
  unfolding keys_split [of w "ph(i := p)" i] by (auto simp: key_of_upd)

lemma keys_ok_upd:
  assumes ok: "keys_ok w m ks ph" and "i < 256 ^ w" "\<And>c. conn_of i p = Some c \<Longrightarrow> address c = i \<and> conn2Array w c \<noteq> None"
    "ks' = {k. \<exists>j. key_of w (ph(i := p)) j = Some k}" "card ks' \<le> m"
  shows "keys_ok w m ks' (ph(i := p))"
proof -
  have "{j. (ph(i := p)) j \<noteq> NotHere} \<subseteq> insert i {j. ph j \<noteq> NotHere}" by auto
  then have "finite {j. (ph(i := p)) j \<noteq> NotHere}" by (rule finite_subset) (simp add: keys_okD(1) [OF ok])
  moreover have "(ph(i := p)) j \<noteq> NotHere \<longrightarrow> j < 256 ^ w" for j using keys_okD(2) [OF ok, of j] assms(2) by simp
  moreover have "conn_of j ((ph(i := p)) j) = Some c \<longrightarrow> address c = j \<and> conn2Array w c \<noteq> None" for j c
    using keys_okD(3,4) [OF ok, of j c] assms(3) [of c] by simp
  ultimately show ?thesis using assms(4,5) unfolding keys_ok_def by blast
qed

text \<open>The key of a connection is held by no other connection.\<close>

lemma key_unique:
  assumes ok: "keys_ok w m ks ph" and "conn2Array w c = Some k" "address c = i" "i < 256 ^ w" "key_of w ph j = Some k"
  shows "conn_of i (ph i) = Some c \<and> j = i"
proof -
  obtain d where d: "conn_of j (ph j) = Some d" "conn2Array w d = Some k" using assms(5) by (auto simp: key_of_def split: option.splits)
  have "address d = j" "j < 256 ^ w" using keys_okD [OF ok] d(1) by blast+
  then have "c = d" using conn2Array_inj [OF assms(2) d(2)] assms(3,4) by simp
  then show ?thesis using d(1) assms(3) \<open>address d = j\<close> by simp
qed

lemma keys_keep:
  assumes "keys_ok w m ks ph" "conn_of i p = conn_of i (ph i)" "i < 256 ^ w"
  shows "keys_ok w m ks (ph(i := p))"
proof (rule keys_ok_upd [OF assms(1,3)])
  have "key_of w (ph(i := p)) j = key_of w ph j" for j by (simp add: key_of_upd assms(2)) (simp add: key_of_def)
  then show "ks = {k. \<exists>j. key_of w (ph(i := p)) j = Some k}" using keys_okD(6) [OF assms(1)] by simp
qed (use keys_okD [OF assms(1)] assms(2) in auto)

lemma keys_insert:
  assumes ok: "keys_ok w m ks ph" and "conn_of i (ph i) = None" "conn2Array w c = Some k" "address c = i" "i < 256 ^ w" "card ks < m" "conn_of i p = Some c"
  shows "keys_ok w m (insert k ks) (ph(i := p))"
proof (rule keys_ok_upd [OF ok assms(5)])
  show "card (insert k ks) \<le> m" using assms(6) card_insert_le_m1 [of m ks k] by auto
  show "insert k ks = {k. \<exists>j. key_of w (ph(i := p)) j = Some k}"
    unfolding keys_okD(6) [OF ok] keys_split_upd keys_split [of w ph i] using assms(2,3,7) by (simp add: key_of_def [of w ph i])
qed (use assms in auto)

lemma keys_remove:
  assumes ok: "keys_ok w m ks ph" and "conn2Array w c = Some k" "address c = i" "i < 256 ^ w" "conn_of i p = None" "conn_of i (ph i) \<in> {None, Some c}"
  shows "keys_ok w m (ks - {k}) (ph(i := p))"
proof (rule keys_ok_upd [OF ok assms(4)])
  show "card (ks - {k}) \<le> m" using keys_okD(7) [OF ok] by (meson card_Diff1_le le_trans)
  have "set_option (key_of w ph i) \<subseteq> {k}" using assms(2,6) by (auto simp: key_of_def)
  moreover have "k \<notin> {k. \<exists>j. j \<noteq> i \<and> key_of w ph j = Some k}" using key_unique [OF ok assms(2,3,4)] by blast
  ultimately show "ks - {k} = {k. \<exists>j. key_of w (ph(i := p)) j = Some k}"
    unfolding keys_okD(6) [OF ok] keys_split_upd keys_split [of w ph i] assms(5) option.case option.set by blast
qed (use assms in auto)

text \<open>Counting the connections of a kind when one of them moves.\<close>

lemma card_phase_upd:
  assumes "finite {j. P (f j)}"
  shows "card {j. P ((f(i := p)) j)} + (if P (f i) then 1 else 0) = card {j. P (f j)} + (if P p then 1 else 0)"
proof -
  let ?R = "{j. j \<noteq> i \<and> P (f j)}"
  have fin: "finite ?R" by (rule finite_subset [OF _ assms]) auto
  have "{j. P (f j)} = (if P (f i) then insert i ?R else ?R)" "{j. P ((f(i := p)) j)} = (if P p then insert i ?R else ?R)" by auto
  then show ?thesis using fin by simp
qed

definition online_ok :: "http_engine \<Rightarrow> bool" where
  "online_ok s \<longleftrightarrow> he_mod s = IOModMixed \<longrightarrow>
     he_onlineA s = int (card {i. counted (he_ph s i)}) + int (card {i. he_ph s i = OverA}) \<and> int (card {i. counted (he_ph s i)}) \<le> he_maxOnlineA s"

definition calls_ok :: "http_engine \<Rightarrow> bool" where
  "calls_ok s \<longleftrightarrow> (\<forall>i. i \<notin> he_transferred s \<longrightarrow>
     he_opens s i = he_closes s i + (if owes_close (he_ph s i) then 1 else 0) \<and> \<not> incoming (he_ph s i))"

definition serve_inv :: "http_engine \<Rightarrow> bool" where
  "serve_inv s \<longleftrightarrow> keys_ok (he_uintptrSize s) (he_MaxLoad s) (he_conns s) (he_ph s) \<and> online_ok s \<and> calls_ok s"

lemma serve_inv_new: "serve_inv (new_http_engine m w l n)" if "0 \<le> n"
  using that by (simp add: serve_inv_def new_http_engine_def keys_ok_def key_of_def online_ok_def calls_ok_def)

lemma fixed_fields [simp]:
  "he_mod (goto i p s) = he_mod s" "he_uintptrSize (goto i p s) = he_uintptrSize s" "he_MaxLoad (goto i p s) = he_MaxLoad s" "he_conns (goto i p s) = he_conns s"
  "he_onlineA (goto i p s) = he_onlineA s" "he_maxOnlineA (goto i p s) = he_maxOnlineA s" "he_ph (goto i p s) = (he_ph s)(i := p)"
  "he_opens (goto i p s) = he_opens s" "he_closes (goto i p s) = he_closes s" "he_transferred (goto i p s) = he_transferred s"
  by (simp_all add: goto_def)

lemma he_Close_fields [simp]:
  "he_mod (he_Close i s) = he_mod s" "he_uintptrSize (he_Close i s) = he_uintptrSize s" "he_MaxLoad (he_Close i s) = he_MaxLoad s" "he_conns (he_Close i s) = he_conns s"
  "he_onlineA (he_Close i s) = he_onlineA s" "he_maxOnlineA (he_Close i s) = he_maxOnlineA s" "he_ph (he_Close i s) = he_ph s"
  "he_opens (he_Close i s) = he_opens s" "he_closes (he_Close i s) = he_closes s" "he_transferred (he_Close i s) = he_transferred s"
  by (simp_all add: he_Close_def)

lemma call_fields [simp]:
  "he_mod (call_onOpen i s) = he_mod s" "he_uintptrSize (call_onOpen i s) = he_uintptrSize s" "he_MaxLoad (call_onOpen i s) = he_MaxLoad s" "he_conns (call_onOpen i s) = he_conns s"
  "he_onlineA (call_onOpen i s) = he_onlineA s" "he_maxOnlineA (call_onOpen i s) = he_maxOnlineA s" "he_ph (call_onOpen i s) = he_ph s"
  "he_opens (call_onOpen i s) = (he_opens s)(i := Suc (he_opens s i))" "he_closes (call_onOpen i s) = he_closes s" "he_transferred (call_onOpen i s) = he_transferred s"
  "he_mod (call_onClose i s) = he_mod s" "he_uintptrSize (call_onClose i s) = he_uintptrSize s" "he_MaxLoad (call_onClose i s) = he_MaxLoad s" "he_conns (call_onClose i s) = he_conns s"
  "he_onlineA (call_onClose i s) = he_onlineA s" "he_maxOnlineA (call_onClose i s) = he_maxOnlineA s" "he_ph (call_onClose i s) = he_ph s"
  "he_opens (call_onClose i s) = he_opens s" "he_closes (call_onClose i s) = (he_closes s)(i := Suc (he_closes s i))" "he_transferred (call_onClose i s) = he_transferred s"
  by (simp_all add: call_onOpen_def call_onClose_def)

lemma drop_fields [simp]:
  "he_mod (drop_nbc i s) = he_mod s" "he_uintptrSize (drop_nbc i s) = he_uintptrSize s" "he_MaxLoad (drop_nbc i s) = he_MaxLoad s"
  "he_onlineA (drop_nbc i s) = he_onlineA s" "he_maxOnlineA (drop_nbc i s) = he_maxOnlineA s" "he_ph (drop_nbc i s) = he_ph s"
  "he_opens (drop_nbc i s) = he_opens s" "he_closes (drop_nbc i s) = he_closes s" "he_transferred (drop_nbc i s) = he_transferred s"
  by (simp_all add: drop_nbc_def split: option.split)

text \<open>Moves that leave \<open>onlineA\<close> alone keep the counts if they move between phases that count the same.\<close>

lemma count_keep:
  assumes "online_ok s" "keys_ok w m ks (he_ph s)" "he_mod s' = he_mod s" "he_maxOnlineA s' = he_maxOnlineA s" "he_ph s' = (he_ph s)(i := p)"
    "he_onlineA s' = he_onlineA s + d" "(if counted p then 1 else 0) + (if p = OverA then 1 else 0) = (if counted (he_ph s i) then 1 else 0) + (if he_ph s i = OverA then 1 else 0) + d"
    "counted p \<Longrightarrow> \<not> counted (he_ph s i) \<Longrightarrow> he_mod s = IOModMixed \<Longrightarrow> he_onlineA s < he_maxOnlineA s"
  shows "online_ok s'"
proof (cases "he_mod s = IOModMixed")
  case True
  let ?n = "\<lambda>f. card {i. counted (f i)}" and ?o = "\<lambda>f. card {i. f i = OverA}"
  have fin: "finite {i. counted (he_ph s i)}" "finite {i. he_ph s i = OverA}"
    by (rule finite_subset [OF _ keys_okD(1) [OF assms(2)]], force)+
  have "?n (he_ph s') + (if counted (he_ph s i) then 1 else 0) = ?n (he_ph s) + (if counted p then 1 else 0)"
    "?o (he_ph s') + (if he_ph s i = OverA then 1 else 0) = ?o (he_ph s) + (if p = OverA then 1 else 0)"
    unfolding assms(5) using card_phase_upd [of counted "he_ph s" i p] card_phase_upd [of "\<lambda>x. x = OverA" "he_ph s" i p] fin by simp_all
  moreover have "he_onlineA s = int (?n (he_ph s)) + int (?o (he_ph s))" "int (?n (he_ph s)) \<le> he_maxOnlineA s"
    using assms(1) True by (simp_all add: online_ok_def)
  ultimately show ?thesis using assms(3-4,6-8) True unfolding online_ok_def by (auto split: if_splits)
qed (use assms(3) in \<open>simp add: online_ok_def\<close>)

text \<open>Every step keeps the invariant.\<close>

lemma calls_keep:
  assumes "calls_ok s" "he_ph s' = (he_ph s)(i := p)" "he_transferred s' = he_transferred s" "\<And>j. j \<noteq> i \<Longrightarrow> he_opens s' j = he_opens s j \<and> he_closes s' j = he_closes s j"
    "i \<notin> he_transferred s \<Longrightarrow> \<not> incoming (he_ph s i) \<Longrightarrow>
     he_opens s' i + he_closes s i + (if owes_close (he_ph s i) then 1 else 0) = he_opens s i + he_closes s' i + (if owes_close p then 1 else 0) \<and>
     \<not> incoming p"
  shows "calls_ok s'"
  unfolding calls_ok_def
proof (intro allI impI)
  fix j assume "j \<notin> he_transferred s'"
  then have j: "j \<notin> he_transferred s" using assms(3) by simp
  then have "he_opens s j = he_closes s j + (if owes_close (he_ph s j) then 1 else 0)" "\<not> incoming (he_ph s j)"
    using assms(1) unfolding calls_ok_def by blast+
  then show "he_opens s' j = he_closes s' j + (if owes_close (he_ph s' j) then 1 else 0) \<and> \<not> incoming (he_ph s' j)"
  proof (cases "j = i")
    case True
    then have i: "\<not> incoming (he_ph s i)" "i \<notin> he_transferred s" "he_opens s i = he_closes s i + (if owes_close (he_ph s i) then 1 else 0)"
      using j \<open>\<not> incoming (he_ph s j)\<close> \<open>he_opens s j = _\<close> by simp_all
    have "he_ph s' j = p" using True assms(2) by simp
    then show ?thesis using assms(5) [OF i(2,1)] i(3) unfolding True by (auto split: if_splits)
  next
    case False
    then have "he_ph s' j = he_ph s j" using assms(2) by simp
    then show ?thesis using assms(4) [OF False] \<open>\<not> incoming (he_ph s j)\<close> \<open>he_opens s j = _\<close> by presburger
  qed
qed

lemma serve_keep:
  assumes "serve_inv s" "he_ph s' = (he_ph s)(i := p)" "he_mod s' = he_mod s" "he_uintptrSize s' = he_uintptrSize s" "he_MaxLoad s' = he_MaxLoad s"
    "he_maxOnlineA s' = he_maxOnlineA s" "he_transferred s' = he_transferred s" "keys_ok (he_uintptrSize s) (he_MaxLoad s) (he_conns s') ((he_ph s)(i := p))"
    "he_onlineA s' = he_onlineA s + d" "(if counted p then 1 else 0) + (if p = OverA then 1 else 0) = (if counted (he_ph s i) then 1 else 0) + (if he_ph s i = OverA then 1 else 0) + d"
    "counted p \<Longrightarrow> \<not> counted (he_ph s i) \<Longrightarrow> he_mod s = IOModMixed \<Longrightarrow> he_onlineA s < he_maxOnlineA s"
    "\<And>j. j \<noteq> i \<Longrightarrow> he_opens s' j = he_opens s j \<and> he_closes s' j = he_closes s j"
    "i \<notin> he_transferred s \<Longrightarrow> \<not> incoming (he_ph s i) \<Longrightarrow>
     he_opens s' i + he_closes s i + (if owes_close (he_ph s i) then 1 else 0) = he_opens s i + he_closes s' i + (if owes_close p then 1 else 0) \<and>
     \<not> incoming p"
  shows "serve_inv s'"
proof -
  have s: "keys_ok (he_uintptrSize s) (he_MaxLoad s) (he_conns s) (he_ph s)" "online_ok s" "calls_ok s" using assms(1) by (simp_all add: serve_inv_def)
  have "online_ok s'" by (rule count_keep [OF s(2,1) assms(3,6,2,9,10,11)])
  moreover have "calls_ok s'" by (rule calls_keep [OF s(3) assms(2,7,12,13)])
  ultimately show ?thesis using assms(8) unfolding serve_inv_def assms(2,4,5) by blast
qed

lemma inv_keys: "serve_inv s \<Longrightarrow> keys_ok (he_uintptrSize s) (he_MaxLoad s) (he_conns s) (he_ph s)"
  by (simp add: serve_inv_def)

lemma inv_address: "serve_inv s \<Longrightarrow> he_ph s i \<noteq> NotHere \<Longrightarrow> i < 256 ^ he_uintptrSize s"
  using keys_okD(2) [OF inv_keys] .

text \<open>A step between two phases that hold no key, or the same, and whose callbacks agree.\<close>

lemma goto_keep:
  assumes "serve_inv s" "i < 256 ^ he_uintptrSize s" "conn_of i p = conn_of i (he_ph s i)" "counted p = counted (he_ph s i)" "(p = OverA) = (he_ph s i = OverA)"
    "owes_close p = owes_close (he_ph s i)" "incoming p = incoming (he_ph s i)"
  shows "serve_inv (goto i p s)"
  by (rule serve_keep [where d = 0 and i = i and p = p, OF assms(1)]) (use keys_keep [OF inv_keys [OF assms(1)]] assms in simp_all)

lemma he_Close_inv [simp]: "serve_inv (he_Close i s) = serve_inv s"
  by (simp add: serve_inv_def online_ok_def calls_ok_def)

lemma mux_accept_inv:
  assumes "serve_inv s" "he_ph s i = NotHere" "i < 256 ^ he_uintptrSize s"
  shows "serve_inv (mux_accept i s)"
proof -
  have k: "keys_ok (he_uintptrSize s) (he_MaxLoad s) (he_conns s) ((he_ph s)(i := p))" if "conn_of i p = None" for p
    using keys_keep [OF inv_keys [OF assms(1)], of i p] assms that by simp
  show ?thesis
  proof (cases "he_mod s")
    case IOModMixed
    let ?p = "if he_onlineA s + 1 \<le> he_maxOnlineA s then ToA else OverA"
    have "mux_accept i s = goto i ?p (s\<lparr>he_onlineA := he_onlineA s + 1\<rparr>)" using IOModMixed by (simp add: mux_accept_def)
    moreover have "serve_inv (goto i ?p (s\<lparr>he_onlineA := he_onlineA s + 1\<rparr>))"
      by (rule serve_keep [where d = 1 and i = i and p = ?p, OF assms(1)]) (use k assms(2) in \<open>auto split: if_splits\<close>)
    ultimately show ?thesis by simp
  next
    case IOModBlocking
    then have "mux_accept i s = goto i ToA s" by (simp add: mux_accept_def)
    moreover have "serve_inv (goto i ToA s)"
      using assms(1,2) k IOModBlocking unfolding serve_inv_def by (auto simp: online_ok_def calls_ok_def)
    ultimately show ?thesis by simp
  next
    case IOModNonBlocking
    then have "mux_accept i s = goto i ToB s" by (simp add: mux_accept_def)
    then show ?thesis using goto_keep [OF assms(1,3), of ToB] assms(2) by simp
  qed
qed

lemma mux_over_inv: "serve_inv s \<Longrightarrow> he_ph s i = OverA \<Longrightarrow> serve_inv (mux_over i s)"
  unfolding mux_over_def by (rule serve_keep [where d = "-1" and i = i and p = ToB])
    (auto simp: inv_address intro: keys_keep inv_keys)

lemma decrease_inv:
  assumes "serve_inv s" "he_ph s i = Leaving"
  shows "serve_inv (decrease i s)"
proof -
  have k: "keys_ok (he_uintptrSize s) (he_MaxLoad s) (he_conns s) ((he_ph s)(i := NotHere))"
    by (rule keys_keep) (use assms in \<open>simp_all add: inv_keys inv_address\<close>)
  show ?thesis
  proof (cases "he_mod s = IOModMixed")
    case True
    have "serve_inv (goto i NotHere (DecreaseOnlineA s))"
      by (rule serve_keep [where d = "-1" and i = i and p = NotHere, OF assms(1)]) (use assms k in \<open>simp_all add: DecreaseOnlineA_def\<close>)
    then show ?thesis using True by (simp add: decrease_def)
  next
    case False
    then have "decrease i s = goto i NotHere s" by (simp add: decrease_def)
    then show ?thesis using assms k False unfolding serve_inv_def by (auto simp: online_ok_def calls_ok_def)
  qed
qed

text \<open>Registering a key and dropping it.\<close>

lemma register_inv:
  assumes "serve_inv s" "conn_of i (he_ph s i) = None" "conn2Array (he_uintptrSize s) c = Some key" "address c = i" "i < 256 ^ he_uintptrSize s" "card (he_conns s) < he_MaxLoad s"
    "conn_of i p = Some c" "counted p = counted (he_ph s i)" "p \<noteq> OverA" "he_ph s i \<noteq> OverA" "\<not> owes_close (he_ph s i)" "owes_close p" "\<not> incoming p"
  shows "serve_inv (goto i p (call_onOpen i (s\<lparr>he_conns := insert key (he_conns s)\<rparr>)))"
  by (rule serve_keep [where d = 0 and i = i and p = p, OF assms(1)])
    (use keys_insert [OF inv_keys [OF assms(1)] assms(2-7)] assms(8-13) in simp_all)

text \<open>With and without TLS the bookkeeping is the same.\<close>

lemma AddConnTLS_eq: "AddConnTLSBlocking i c s = AddConnNonTLSBlocking i c s" "AddConnTLSNonBlocking i nbOk fresh s = AddConnNonTLSNonBlocking i nbOk fresh s"
  by (simp_all add: AddConnTLSBlocking_def AddConnNonTLSBlocking_def AddConnTLSNonBlocking_def AddConnNonTLSNonBlocking_def)

lemma AddConnBlocking_inv:
  assumes "serve_inv s" "he_ph s i = ToA" "c \<in> {TCPConn i, UnixConn i, OtherConn}"
  shows "serve_inv (AddConnNonTLSBlocking i c s)"
proof -
  have i: "i < 256 ^ he_uintptrSize s" using inv_address [OF assms(1), of i] assms(2) by simp
  have refuse: "serve_inv (goto i Leaving (he_Close i s))" using goto_keep [of "he_Close i s" i Leaving] i assms(1,2) by simp
  show ?thesis
  proof (cases "card (he_conns s) \<ge> he_MaxLoad s \<or> conn2Array (he_uintptrSize s) c = None")
    case True
    then show ?thesis using refuse assms(3) by (auto simp: AddConnNonTLSBlocking_def)
  next
    case False
    then obtain key where key: "conn2Array (he_uintptrSize s) c = Some key" "card (he_conns s) < he_MaxLoad s" by auto
    have c: "c \<in> {TCPConn i, UnixConn i}" using key(1) assms(3) by (auto simp: conn2Array_def connTyp_def)
    then have "address c = i" by auto
    have "serve_inv (goto i (Reading c) (call_onOpen i (s\<lparr>he_conns := insert key (he_conns s)\<rparr>)))"
      by (rule register_inv [OF assms(1) _ key(1) \<open>address c = i\<close> i key(2)]) (simp_all add: assms(2))
    then show ?thesis using c key by (auto simp: AddConnNonTLSBlocking_def)
  qed
qed

lemma AddConnNonBlocking_inv:
  assumes "serve_inv s" "he_ph s i = ToB"
  shows "serve_inv (AddConnNonTLSNonBlocking i nbOk fresh s)"
proof -
  have i: "i < 256 ^ he_uintptrSize s" using inv_address [OF assms(1), of i] assms(2) by simp
  have refuse: "serve_inv (goto i NotHere (he_Close i s))" using goto_keep [of "he_Close i s" i NotHere] i assms(1,2) by simp
  have "serve_inv (goto i Registered (call_onOpen i (s\<lparr>he_conns := insert key (he_conns s)\<rparr>)))"
    if "nbc_key i s = Some key" "card (he_conns s) < he_MaxLoad s" for key
    by (rule register_inv [OF assms(1) _ that(1) [unfolded nbc_key_def] _ i that(2)]) (simp_all add: assms(2))
  then show ?thesis using refuse by (auto simp: AddConnNonTLSNonBlocking_def split: option.split)
qed

lemma drop_nbc_keys:
  assumes "serve_inv s" "i < 256 ^ he_uintptrSize s" "conn_of i (he_ph s i) \<in> {None, Some (NbioConn i)}" "conn_of i p = None"
  shows "keys_ok (he_uintptrSize s) (he_MaxLoad s) (he_conns (drop_nbc i s)) ((he_ph s)(i := p))"
proof (cases "nbc_key i s")
  case None
  then have "conn_of i (he_ph s i) = None" using assms(3) keys_okD(4) [OF inv_keys [OF assms(1)], of i "NbioConn i"] by (auto simp: nbc_key_def)
  then show ?thesis using keys_keep [OF inv_keys [OF assms(1)], of i p] assms(2,4) None by (simp add: drop_nbc_def)
next
  case (Some key)
  then show ?thesis using keys_remove [OF inv_keys [OF assms(1)], of "NbioConn i" key i p] assms(2-4) by (simp add: drop_nbc_def nbc_key_def)
qed

lemma drop_nbc_eq [simp]: "he_conns (drop_nbc i (he_Close j s)) = he_conns (drop_nbc i s)" "he_conns (drop_nbc i (call_onClose j s)) = he_conns (drop_nbc i s)"
  by (simp_all add: drop_nbc_def nbc_key_def he_Close_def call_onClose_def split: option.split)

lemma end_reading_inv:
  assumes "serve_inv s" "he_ph s i = Reading c"
  shows "serve_inv (end_reading i c s)"
proof -
  have i: "i < 256 ^ he_uintptrSize s" using inv_address [OF assms(1), of i] assms(2) by simp
  have c: "conn_of i (he_ph s i) = Some c" using assms(2) by simp
  obtain key where key: "conn2Array (he_uintptrSize s) c = Some key" using keys_okD(4) [OF inv_keys [OF assms(1)] c] by auto
  have k: "keys_ok (he_uintptrSize s) (he_MaxLoad s) (he_conns s - {key}) ((he_ph s)(i := Leaving))"
    using keys_remove [OF inv_keys [OF assms(1)] key keys_okD(3) [OF inv_keys [OF assms(1)] c] i, of Leaving] c by simp
  have "serve_inv (goto i Leaving (call_onClose i (s\<lparr>he_conns := he_conns s - {key}\<rparr>)))"
    by (rule serve_keep [where d = 0 and i = i and p = Leaving, OF assms(1)]) (use assms(2) k in simp_all)
  then show ?thesis using key by (simp add: end_reading_def)
qed

lemma nb_added_inv:
  assumes "serve_inv s" "he_ph s i = Registered"
  shows "serve_inv (nb_added i r s)"
proof -
  have i: "i < 256 ^ he_uintptrSize s" using inv_address [OF assms(1), of i] assms(2) by simp
  have fail: "serve_inv (goto i p (drop_nbc i (he_Close i s)))" if "conn_of i p = None" "owes_close p" "\<not> counted p" "p \<noteq> OverA" "\<not> incoming p" for p
    by (rule serve_keep [where d = 0 and i = i and p = p, OF assms(1)]) (use assms(2) that drop_nbc_keys [OF assms(1) i, of p] in simp_all)
  show ?thesis using fail goto_keep [OF assms(1) i, of Polled] assms(2) by (cases r) (simp_all add: nb_added_def)
qed

lemma engine_onClose_inv:
  assumes "serve_inv s" "conn_of i (he_ph s i) \<in> {None, Some (NbioConn i)}" "i < 256 ^ he_uintptrSize s" "owes_close (he_ph s i) \<or> incoming (he_ph s i)"
    "\<not> counted (he_ph s i)" "conn_of i p = None" "\<not> counted p" "p \<noteq> OverA" "he_ph s i \<noteq> OverA" "\<not> owes_close p" "\<not> incoming (he_ph s i) \<longrightarrow> \<not> incoming p"
  shows "serve_inv (goto i p (engine_onClose i s))"
proof -
  have "goto i p (engine_onClose i s) = goto i p (drop_nbc i (call_onClose i s))"
    by (simp add: engine_onClose_def goto_def)
  moreover have "serve_inv (goto i p (drop_nbc i (call_onClose i s)))"
    by (rule serve_keep [where d = 0 and i = i and p = p, OF assms(1)])
      (use assms drop_nbc_keys [OF assms(1,3,2,6)] in auto)
  ultimately show ?thesis by simp
qed

lemma incoming_transferred: "serve_inv s \<Longrightarrow> incoming (he_ph s i) \<Longrightarrow> i \<in> he_transferred s"
  by (auto simp: serve_inv_def calls_ok_def)

text \<open>Steps of a transferred connection: no claim is made about its callbacks.\<close>

lemma transferred_inv:
  assumes "serve_inv s" "i \<in> he_transferred s" "he_ph s' = (he_ph s)(i := p)" "he_mod s' = he_mod s" "he_uintptrSize s' = he_uintptrSize s" "he_MaxLoad s' = he_MaxLoad s"
    "he_maxOnlineA s' = he_maxOnlineA s" "he_transferred s' = he_transferred s" "keys_ok (he_uintptrSize s) (he_MaxLoad s) (he_conns s') ((he_ph s)(i := p))"
    "he_onlineA s' = he_onlineA s" "\<not> counted p" "p \<noteq> OverA" "\<not> counted (he_ph s i)" "he_ph s i \<noteq> OverA"
    "\<And>j. j \<noteq> i \<Longrightarrow> he_opens s' j = he_opens s j \<and> he_closes s' j = he_closes s j"
  shows "serve_inv s'"
  by (rule serve_keep [where d = 0 and i = i and p = p, OF assms(1)]) (use assms in auto)

lemma AddTransferredConn_inv:
  assumes "serve_inv s" "he_ph s i = NotHere" "i < 256 ^ he_uintptrSize s"
  shows "serve_inv (AddTransferredConn i s)"
proof -
  let ?s = "s\<lparr>he_transferred := insert i (he_transferred s)\<rparr>"
  have t: "serve_inv ?s" using assms(1) by (simp add: serve_inv_def online_ok_def calls_ok_def)
  have "serve_inv (goto i Transferring (?s\<lparr>he_conns := insert key (he_conns s)\<rparr>))" if "nbc_key i s = Some key" "card (he_conns s) < he_MaxLoad s" for key
    using that assms(2,3) keys_insert [OF inv_keys [OF assms(1)] _ that(1) [unfolded nbc_key_def] _ assms(3) that(2), of Transferring]
    by (intro transferred_inv [OF t, where i = i and p = Transferring]) simp_all
  moreover have "nbc_key i ?s = nbc_key i s" by (simp add: nbc_key_def)
  ultimately show ?thesis using t by (auto simp: AddTransferredConn_def Let_def split: option.split)
qed

lemma transfer_added_inv:
  assumes "serve_inv s" "he_ph s i = Transferring"
  shows "serve_inv (transfer_added i r s)"
proof -
  have i: "i < 256 ^ he_uintptrSize s" using inv_address [OF assms(1), of i] assms(2) by simp
  have t: "i \<in> he_transferred s" using incoming_transferred [OF assms(1), of i] assms(2) by simp
  have "serve_inv (goto i p (drop_nbc i (he_Close i s)))" if "conn_of i p = None" "\<not> counted p" "p \<noteq> OverA" for p
    by (rule transferred_inv [OF assms(1) t, where p = p]) (use that assms(2) drop_nbc_keys [OF assms(1) i, of p] in simp_all)
  then show ?thesis using goto_keep [OF assms(1) i, of TransferredIn] assms(2) by (cases r) (simp_all add: transfer_added_def)
qed

lemma transfer_open_inv:
  assumes "serve_inv s" "he_ph s i = TransferredIn \<and> p = Polled \<or> he_ph s i = LateOpen \<and> p = NotHere"
  shows "serve_inv (goto i p (call_onOpen i s))"
proof -
  have i: "i < 256 ^ he_uintptrSize s" using inv_address [OF assms(1), of i] assms(2) by auto
  have "i \<in> he_transferred s" using incoming_transferred [OF assms(1), of i] assms(2) by auto
  then show ?thesis by (rule transferred_inv [OF assms(1), where p = p]) (use assms(2) keys_keep [OF inv_keys [OF assms(1)] _ i, of p] in auto)
qed

lemma serve_inv_step:
  assumes "serve_step s s'" "serve_inv s"
  shows "serve_inv s'"
  using assms(1)
proof (rule serve_stepE)
  have close: "serve_inv (goto i p (engine_onClose i s))"
    if "he_ph s i \<in> {Polled, Failing, FailingIn} \<and> p = NotHere \<or> he_ph s i = TransferredIn \<and> p = LateOpen" for i p
    using that inv_address [OF assms(2), of i] by (intro engine_onClose_inv [OF assms(2)]) auto
  show ?thesis if "s' = engine_onClose i s" "he_ph s i = Polled \<or> he_ph s i = Failing \<or> he_ph s i = FailingIn" for i
    using close [of i NotHere] that by (simp add: engine_onClose_def goto_def)
  show ?thesis if "s' = goto i LateOpen (engine_onClose i s)" "he_ph s i = TransferredIn" for i using close that by simp
  show ?thesis if "s' = listen_drop i s" "he_ph s i = ToA \<or> he_ph s i = ToB" for i
    unfolding that(1) listen_drop_def by (rule goto_keep [OF assms(2)]) (use that(2) inv_address [OF assms(2), of i] in auto)
  show ?thesis if "s' = s\<lparr>he_shutdown := True\<rparr>" using assms(2) that by (simp add: serve_inv_def online_ok_def calls_ok_def)
qed (use assms(2) in \<open>simp_all add: AddConnTLS_eq mux_accept_inv mux_over_inv AddConnBlocking_inv AddConnNonBlocking_inv end_reading_inv decrease_inv nb_added_inv
    AddTransferredConn_inv transfer_added_inv transfer_open_inv\<close>)

lemma serve_step_config: "serve_step s s' \<Longrightarrow> he_mod s' = he_mod s \<and> he_uintptrSize s' = he_uintptrSize s \<and> he_MaxLoad s' = he_MaxLoad s \<and> he_maxOnlineA s' = he_maxOnlineA s"
  by (erule serve_stepE)
    (auto simp: AddConnTLS_eq mux_accept_def mux_over_def AddConnNonTLSBlocking_def AddConnNonTLSNonBlocking_def end_reading_def decrease_def DecreaseOnlineA_def nb_added_def AddTransferredConn_def
      transfer_added_def engine_onClose_def listen_drop_def Let_def split: io_mod.splits option.splits std_conn.splits add_result.splits)

lemma serve_reachable:
  assumes "serve_step\<^sup>*\<^sup>* (new_http_engine m w l n) s" "0 \<le> n"
  shows "serve_inv s" "he_mod s = m" "he_uintptrSize s = w" "he_MaxLoad s = l" "he_maxOnlineA s = n"
proof -
  have "serve_inv s \<and> he_mod s = m \<and> he_uintptrSize s = w \<and> he_MaxLoad s = l \<and> he_maxOnlineA s = n"
    using assms(1)
  proof (induction rule: rtranclp_induct)
    case base
    then show ?case using serve_inv_new [OF assms(2)] by (simp add: new_http_engine_def)
  next
    case (step s s')
    then show ?case using serve_inv_step serve_step_config by metis
  qed
  then show "serve_inv s" "he_mod s = m" "he_uintptrSize s = w" "he_MaxLoad s = l" "he_maxOnlineA s = n" by blast+
qed

end
