(* ===== verification/HttpEngineConf.thy ===== *)
theory HttpEngineConf
  imports ServerConns
begin

text \<open>
  Configuration and listeners of an HTTP engine: the defaults of \<open>NewEngine\<close>, the list of addresses it builds, and \<open>startListeners\<close> and
  \<open>stopListeners\<close> of \<open>nbhttp/engine.go\<close>; \<open>NewServer\<close> and \<open>NewServerTLS\<close> of \<open>nbhttp/server.go\<close>. What \<open>Listen\<close> returns is a parameter: the address
  it bound, or nothing. Listeners are numbered in the order they were opened.
\<close>

record conf_addr =
  ca_Network :: string
  ca_Addr :: string
  ca_NListener :: int

record http_conf =
  hf_Name :: string
  hf_Network :: string
  hf_Addrs :: "string list"
  hf_AddrsTLS :: "string list"
  hf_AddrConfigs :: "conf_addr list"
  hf_AddrConfigsTLS :: "conf_addr list"
  hf_NListener :: int
  hf_NPoller :: int
  hf_MaxLoad :: int
  hf_ReadLimit :: int
  hf_KeepaliveTime :: int
  hf_ReadBufferSize :: int
  hf_MaxWebsocketFramePayloadSize :: int
  hf_BlockingReadBufferSize :: int
  hf_MaxBlockingOnline :: int
  hf_MessageHandlerPoolSize :: int
  hf_hasServerExecutor :: bool
  hf_IOMod :: int
  hf_asyncET :: bool

text \<open>The constants, times in milliseconds.\<close>

definition DefaultMaxLoad :: int where "DefaultMaxLoad = 1024 * 1024"
definition DefaultHTTPReadLimit :: int where "DefaultHTTPReadLimit = 1024 * 1024 * 64"
definition DefaultKeepaliveTime :: int where "DefaultKeepaliveTime = 120 * 1000"
definition DefaultReadBufferSize :: int where "DefaultReadBufferSize = 1024 * 64"
definition DefaultMaxWebsocketFramePayloadSize :: int where "DefaultMaxWebsocketFramePayloadSize = 1024 * 32"
definition DefaultBlockingReadBufferSize :: int where "DefaultBlockingReadBufferSize = 1024 * 4"
definition DefaultMaxBlockingOnline :: int where "DefaultMaxBlockingOnline = 10000"

definition or_default :: "int \<Rightarrow> int \<Rightarrow> int" where
  "or_default v d = (if v \<le> 0 then d else v)"

definition defaultNPoller :: "int \<Rightarrow> int" where
  "defaultNPoller gomaxprocs = (if gomaxprocs div 4 > 0 then gomaxprocs div 4 else 1)"

definition NewServerTLS :: "http_conf \<Rightarrow> http_conf" where
  "NewServerTLS conf = conf\<lparr>hf_AddrsTLS := hf_AddrsTLS conf @ hf_Addrs conf, hf_Addrs := []\<rparr>"

text \<open>The part of \<open>NewEngine\<close> that completes the configuration.\<close>

definition addr_configs :: "http_conf \<Rightarrow> string list \<Rightarrow> conf_addr list \<Rightarrow> conf_addr list" where
  "addr_configs conf addrs configs =
     map (\<lambda>a. if ca_NListener a \<le> 0 then a\<lparr>ca_NListener := 1\<rparr> else a)
       (configs @ map (\<lambda>addr. \<lparr>ca_Network = hf_Network conf, ca_Addr = addr, ca_NListener = hf_NListener conf\<rparr>) addrs)"

definition io_mod_of :: "int \<Rightarrow> io_mod" where
  "io_mod_of n = (if n = 1 then IOModBlocking else if n = 2 then IOModMixed else IOModNonBlocking)"

definition complete_conf :: "int \<Rightarrow> http_conf \<Rightarrow> http_conf" where
  "complete_conf gomaxprocs conf =
     conf\<lparr>hf_Name := (if hf_Name conf = [] then ''NB'' else hf_Name conf),
       hf_MaxLoad := or_default (hf_MaxLoad conf) DefaultMaxLoad,
       hf_NPoller := (if hf_NPoller conf \<le> 0 then (if hf_asyncET conf then 1 else defaultNPoller gomaxprocs) else hf_NPoller conf),
       hf_ReadLimit := or_default (hf_ReadLimit conf) DefaultHTTPReadLimit,
       hf_KeepaliveTime := or_default (hf_KeepaliveTime conf) DefaultKeepaliveTime,
       hf_ReadBufferSize := or_default (hf_ReadBufferSize conf) DefaultReadBufferSize,
       hf_MaxWebsocketFramePayloadSize := or_default (hf_MaxWebsocketFramePayloadSize conf) DefaultMaxWebsocketFramePayloadSize,
       hf_BlockingReadBufferSize := or_default (hf_BlockingReadBufferSize conf) DefaultBlockingReadBufferSize,
       hf_MaxBlockingOnline := (if hf_IOMod conf = 2 then or_default (hf_MaxBlockingOnline conf) DefaultMaxBlockingOnline else hf_MaxBlockingOnline conf),
       hf_IOMod := (if hf_IOMod conf \<in> {0, 1, 2} then hf_IOMod conf else 0),
       hf_MessageHandlerPoolSize :=
         (if hf_hasServerExecutor conf then hf_MessageHandlerPoolSize conf else or_default (hf_MessageHandlerPoolSize conf) (gomaxprocs * 1024)),
       hf_AddrConfigs := addr_configs conf (hf_Addrs conf) (hf_AddrConfigs conf),
       hf_AddrConfigsTLS := addr_configs conf (hf_AddrsTLS conf) (hf_AddrConfigsTLS conf)\<rparr>"

text \<open>The listeners: those opened, those in \<open>e.listeners\<close>, those of the multiplexer, those closed, and which goroutines serve them.\<close>

datatype serve_kind = ServeBlocking | ServeNonBlocking

record listeners =
  ls_opened :: nat
  ls_listeners :: "nat list"
  ls_muxed :: "nat list"
  ls_closed :: "nat list"
  ls_serving :: "(nat \<times> bool \<times> serve_kind) list"

definition no_listeners :: listeners where
  "no_listeners = \<lparr>ls_opened = 0, ls_listeners = [], ls_muxed = [], ls_closed = [], ls_serving = []\<rparr>"

definition conf_network :: "string \<Rightarrow> conf_addr \<Rightarrow> string" where
  "conf_network engine_network a =
     (let network = ca_Network a; network = (if network = [] then engine_network else network) in if network = [] then ''tcp'' else network)"

definition open_listener :: "io_mod \<Rightarrow> bool \<Rightarrow> listeners \<Rightarrow> listeners" where
  "open_listener m tls L =
     (let i = ls_opened L; L = L\<lparr>ls_opened := Suc (ls_opened L)\<rparr> in
      case m of
        IOModMixed \<Rightarrow> L\<lparr>ls_muxed := ls_muxed L @ [i], ls_serving := ls_serving L @ [(i, tls, ServeBlocking), (i, tls, ServeNonBlocking)]\<rparr>
      | IOModBlocking \<Rightarrow> L\<lparr>ls_listeners := ls_listeners L @ [i], ls_serving := ls_serving L @ [(i, tls, ServeBlocking)]\<rparr>
      | IOModNonBlocking \<Rightarrow> L\<lparr>ls_listeners := ls_listeners L @ [i], ls_serving := ls_serving L @ [(i, tls, ServeNonBlocking)]\<rparr>)"

text \<open>The loop over \<open>NListener\<close> keeps the address that was bound.\<close>

fun start_addr :: "(nat \<Rightarrow> string \<Rightarrow> string \<Rightarrow> string option) \<Rightarrow> io_mod \<Rightarrow> bool \<Rightarrow> string \<Rightarrow> nat \<Rightarrow> string \<Rightarrow> listeners \<Rightarrow> listeners \<times> bool" where
  "start_addr Listen m tls network 0 addr L = (L, True)"
| "start_addr Listen m tls network (Suc n) addr L =
     (case Listen (ls_opened L) network addr of
        None \<Rightarrow> (L\<lparr>ls_closed := ls_closed L @ ls_listeners L\<rparr>, False)
      | Some bound \<Rightarrow> start_addr Listen m tls network n bound (open_listener m tls L))"

fun start_addrs :: "(nat \<Rightarrow> string \<Rightarrow> string \<Rightarrow> string option) \<Rightarrow> io_mod \<Rightarrow> string \<Rightarrow> bool \<Rightarrow> conf_addr list \<Rightarrow> listeners \<Rightarrow> listeners \<times> bool" where
  "start_addrs Listen m network tls [] L = (L, True)"
| "start_addrs Listen m network tls (a # as) L =
     (if ca_Addr a = [] then start_addrs Listen m network tls as L
      else
        (case start_addr Listen m tls (conf_network network a) (nat (ca_NListener a)) (ca_Addr a) L of
           (L, False) \<Rightarrow> (L, False)
         | (L, True) \<Rightarrow> start_addrs Listen m network tls as L))"

definition startListeners :: "(nat \<Rightarrow> string \<Rightarrow> string \<Rightarrow> string option) \<Rightarrow> http_conf \<Rightarrow> listeners \<times> bool" where
  "startListeners Listen conf =
     (let m = io_mod_of (hf_IOMod conf) in
      case start_addrs Listen m (hf_Network conf) True (hf_AddrConfigsTLS conf) no_listeners of
        (L, False) \<Rightarrow> (L, False)
      | (L, True) \<Rightarrow> start_addrs Listen m (hf_Network conf) False (hf_AddrConfigs conf) L)"

definition stopListeners :: "io_mod \<Rightarrow> listeners \<Rightarrow> listeners" where
  "stopListeners m L = L\<lparr>ls_closed := ls_closed L @ (if m = IOModMixed then ls_muxed L else []) @ ls_listeners L\<rparr>"

text \<open>A listener is kept in exactly one of the two places.\<close>

definition listeners_ok :: "io_mod \<Rightarrow> listeners \<Rightarrow> bool" where
  "listeners_ok m L \<longleftrightarrow> (if m = IOModMixed then ls_muxed L = [0..<ls_opened L] \<and> ls_listeners L = [] else ls_listeners L = [0..<ls_opened L] \<and> ls_muxed L = [])"

definition wanted :: "conf_addr list \<Rightarrow> nat" where
  "wanted as = sum_list (map (\<lambda>a. if ca_Addr a = [] then 0 else nat (ca_NListener a)) as)"

lemma start_addr_ok:
  assumes "listeners_ok m L" "ls_closed L = []" "start_addr Listen m tls network n addr L = (L', ok)"
  shows "listeners_ok m L' \<and> (ok \<longrightarrow> ls_closed L' = [] \<and> ls_opened L' = ls_opened L + n) \<and> (\<not> ok \<longrightarrow> ls_closed L' = ls_listeners L')"
  using assms
proof (induction n arbitrary: addr L)
  case (Suc n)
  show ?case
  proof (cases "Listen (ls_opened L) network addr")
    case None
    then show ?thesis using Suc.prems by (auto simp: listeners_ok_def)
  next
    case (Some bound)
    have "listeners_ok m (open_listener m tls L)" "ls_closed (open_listener m tls L) = []" "ls_opened (open_listener m tls L) = Suc (ls_opened L)"
      using Suc.prems(1,2) by (auto simp: open_listener_def listeners_ok_def Let_def split: io_mod.split if_splits)
    then show ?thesis using Suc.IH [of "open_listener m tls L" bound] Suc.prems(3) Some by auto
  qed
qed auto

lemma start_addrs_ok:
  assumes "listeners_ok m L" "ls_closed L = []" "start_addrs Listen m network tls as L = (L', ok)"
  shows "listeners_ok m L' \<and> (ok \<longrightarrow> ls_closed L' = [] \<and> ls_opened L' = ls_opened L + wanted as) \<and> (\<not> ok \<longrightarrow> ls_closed L' = ls_listeners L')"
  using assms
proof (induction as arbitrary: L)
  case (Cons a as)
  show ?case
  proof (cases "ca_Addr a = []")
    case True
    then show ?thesis using Cons by (simp add: wanted_def)
  next
    case False
    obtain L1 ok1 where s: "start_addr Listen m tls (conf_network network a) (nat (ca_NListener a)) (ca_Addr a) L = (L1, ok1)" by fastforce
    note a = start_addr_ok [OF Cons.prems(1,2) s]
    show ?thesis
    proof (cases ok1)
      case True
      then show ?thesis using a Cons.IH [of L1] Cons.prems(3) s False by (auto simp: wanted_def)
    next
      case f: False
      then show ?thesis using a Cons.prems(3) s False by simp
    qed
  qed
qed (auto simp: wanted_def)

lemma startListeners_ok:
  assumes "startListeners Listen conf = (L, ok)"
  shows "listeners_ok (io_mod_of (hf_IOMod conf)) L \<and> (ok \<longrightarrow> ls_closed L = [] \<and> ls_opened L = wanted (hf_AddrConfigsTLS conf) + wanted (hf_AddrConfigs conf)) \<and>
    (\<not> ok \<longrightarrow> ls_closed L = ls_listeners L)"
proof -
  let ?m = "io_mod_of (hf_IOMod conf)"
  obtain L1 ok1 where s: "start_addrs Listen ?m (hf_Network conf) True (hf_AddrConfigsTLS conf) no_listeners = (L1, ok1)" by fastforce
  have a: "listeners_ok ?m L1 \<and> (ok1 \<longrightarrow> ls_closed L1 = [] \<and> ls_opened L1 = wanted (hf_AddrConfigsTLS conf)) \<and> (\<not> ok1 \<longrightarrow> ls_closed L1 = ls_listeners L1)"
    using start_addrs_ok [OF _ _ s] by (simp add: listeners_ok_def no_listeners_def)
  show ?thesis
  proof (cases ok1)
    case True
    then have t: "start_addrs Listen ?m (hf_Network conf) False (hf_AddrConfigs conf) L1 = (L, ok)" using assms s by (simp add: startListeners_def)
    show ?thesis using start_addrs_ok [OF _ _ t] a True by simp
  next
    case False
    then show ?thesis using a assms s by (simp add: startListeners_def)
  qed
qed

end
