(* ===== verification/HttpEngineProps.thy ===== *)
theory HttpEngineProps
  imports HttpProps BlockingRead HttpEngineConf
begin

text \<open>Properties of the HTTP engine: its connections, its readers, its listeners.\<close>

definition err_env :: "(nat, nat, string) rd_env" where
  "err_env = \<lparr>rd_parse = (\<lambda>who d s. (s + length d, if d = [0] then Some ''invalid'' else None)), rd_transferred = (\<lambda>s. False), rd_upgraded = (\<lambda>s. s > 3)\<rparr>"

definition conf_demo_http :: "int \<Rightarrow> http_conf" where
  "conf_demo_http m = \<lparr>hf_Name = [], hf_Network = [], hf_Addrs = [''a:1'', ''b:2''], hf_AddrsTLS = [], hf_AddrConfigs = [], hf_AddrConfigsTLS = [],
     hf_NListener = 0, hf_NPoller = 0, hf_MaxLoad = 0, hf_ReadLimit = 0, hf_KeepaliveTime = 0, hf_ReadBufferSize = 0, hf_MaxWebsocketFramePayloadSize = 0,
     hf_BlockingReadBufferSize = 0, hf_MaxBlockingOnline = 0, hf_MessageHandlerPoolSize = 0, hf_hasServerExecutor = False, hf_IOMod = m, hf_asyncET = False\<rparr>"



text \<open>
  C22: The goroutine that reads a blocking connection, with and without TLS. It hands the bytes it read to the HTTP parser and, from an
  upgrade on, to the upgraded reader, in order and none twice; while it waits for more, all bytes read were handed over; it ends when
  a read fails; and when it ends, the buffer is given back, the reader closed unless the connection was transferred, the key removed, \<open>OnClose\<close>
  called and the counter decreased, each exactly once and nothing after it. It never uses the parser it has given up.
\<close>
theorem blocking_reader:
  assumes "upgrade_final E" "\<not> rd_transferred E s"
  shows "reader_ok False E (net_bytes reads) (\<exists>e. Inl e \<in> set reads) (readConnBlocking E reads (rd_start s)) \<and>
    reader_ok True E (tls_bytes records) (\<exists>e. Inl e \<in> set records) (readTLSConnBlocking E records (rd_start s))"
  using readConnBlocking_ok [OF rd_start_working [OF assms(2)] assms(1), of reads]
    readTLSConnBlocking_ok [OF rd_start_working [OF assms(2)] assms(1), of records] by simp

theorem blocking_reader_witness:
  "reader_ok False err_env [1, 2, 3, 4, 5] True (readConnBlocking err_env [Inr [1, 2], Inr [3, 4], Inr [5], Inl ''EOF''] (rd_start 0)) \<and>
   reader_ok True err_env [1, 2, 3] True (readTLSConnBlocking err_env [Inr [([1, 2], None), ([3], None), ([], None)], Inl ''EOF''] (rd_start 0))"
proof -
  have "upgrade_final err_env" "\<not> rd_transferred err_env 0" by (simp_all add: upgrade_final_def err_env_def)
  from blocking_reader [OF this, of "[Inr [1, 2], Inr [3, 4], Inr [5], Inl ''EOF'']" "[Inr [([1, 2], None), ([3], None), ([], None)], Inl ''EOF'']"]
  show ?thesis by (simp add: net_bytes_def tls_bytes_def)
qed

text \<open>
  C33: TLS makes no difference to the HTTP parser: however the plaintext is cut into records and the records into network reads,
  \<open>TLSDataHandler\<close> leaves the parser in the state, and with the callbacks and the error, of one \<open>Parse\<close> of all the plaintext, which is also
  what \<open>DataHandler\<close> gives for the same bytes without TLS in whatever reads.
\<close>
theorem tls_reads_agree:
  assumes "streaming E p (length (concat (concat reads)))" "\<forall>ps \<in> set reads. \<forall>x \<in> set ps. x \<noteq> []" "concat reads \<noteq> []"
    "concat datas = concat (concat reads)" "datas \<noteq> []"
  shows "forget (feed_all (TLSDataHandler (Parse E)) (map tls_read reads) p) = forget (Parse E (concat (concat reads)) p) \<and>
    forget (feed_all (DataHandler (Parse E)) datas p) = forget (Parse E (concat (concat reads)) p)"
proof -
  have d: "DataHandler (Parse E) = Parse E" by (intro ext) (simp add: DataHandler_def)
  have "forget (feed_all (Parse E) datas p) = forget (Parse E (concat (concat reads)) p)"
    using http.feed_all_concat [OF assms(5), of E p] assms(1,4) by simp
  moreover have "forget (feed_all (Parse E) (concat reads) p) = forget (Parse E (concat (concat reads)) p)"
    using http.feed_all_concat [OF assms(3,1)] .
  ultimately show ?thesis unfolding d TLSDataHandler_feed_all [OF assms(2)] by simp
qed

theorem tls_reads_agree_witness:
  "forget (feed_all (TLSDataHandler (Parse log_env)) (map tls_read [[''GE'', ''T /a HTTP/1.1'' @ [CR]], [[LF] @ ''A b'']]) (NewParser [] False)) =
   forget (Parse log_env (''GET /a HTTP/1.1'' @ [CR, LF] @ ''A b'') (NewParser [] False)) \<and>
   forget (feed_all (DataHandler (Parse log_env)) [''GET /a'', '' HTTP/1.1'' @ [CR, LF] @ ''A b''] (NewParser [] False)) =
   forget (Parse log_env (''GET /a HTTP/1.1'' @ [CR, LF] @ ''A b'') (NewParser [] False))"
proof -
  let ?reads = "[[''GE'', ''T /a HTTP/1.1'' @ [CR]], [[LF] @ ''A b'']]"
  have "streaming log_env (NewParser [] False) (length (concat (concat ?reads)))"
    unfolding streaming_def by (intro conjI) (rule pinv_NewParser, simp add: NewParser_def, simp, code_simp)
  from tls_reads_agree [OF this, of "[''GET /a'', '' HTTP/1.1'' @ [CR, LF] @ ''A b'']"] show ?thesis by simp
qed

text \<open>Without TLS, a blocking reader goes on after the parser refused the input.\<close>
theorem blocking_parse_error_ignored:
  "readConnBlocking err_env [Inr [0], Inr [1]] (rd_start 0) = Waiting \<lparr>rs_s = 2, rs_who = ByHttp, rs_parser = True, rs_log = [RParsed ByHttp [0], RParsed ByHttp [1]]\<rparr>"
  "snd (rd_parse err_env ByHttp [0] 0) = Some ''invalid''"
  by code_simp+

text \<open>\<open>OnOpen\<close> without \<open>OnClose\<close>: the poller refuses a descriptor beyond its table after \<open>OnOpen\<close> was called.\<close>
theorem open_never_closed:
  assumes "he_ph s i = Registered" "serve_step s' s''" "he_ph s' i = Dropped False True"
  shows "he_ph (nb_added i AddTooManyFiles s) i = Dropped False True \<and> he_ph s'' i = Dropped False True \<and> he_closes s'' i = he_closes s' i"
proof -
  have "he_ph s'' i = Dropped False True \<and> he_closes s'' i = he_closes s' i"
    using assms(2,3)
    by (cases rule: serve_step.cases)
      (auto simp: AddConnTLS_eq mux_accept_def mux_over_def AddConnNonTLSBlocking_def AddConnNonTLSNonBlocking_def end_reading_def decrease_def DecreaseOnlineA_def nb_added_def AddTransferredConn_def
      transfer_added_def engine_onClose_def listen_drop_def Let_def split: io_mod.splits option.splits std_conn.splits add_result.splits)
  then show ?thesis by (simp add: nb_added_def)
qed

text \<open>A transferred connection whose registration with \<open>epoll\<close> fails gets \<open>OnClose\<close> without \<open>OnOpen\<close>.\<close>
theorem transferred_close_without_open:
  assumes "he_opens s i = 0" "he_closes s i = 0"
  shows "he_opens (engine_onClose i (transfer_added i AddCtlFailed s)) i = 0 \<and> he_closes (engine_onClose i (transfer_added i AddCtlFailed s)) i = 1"
  using assms by (simp add: engine_onClose_def transfer_added_def)

text \<open>In mixed mode the listeners opened before a failure stay open; in the other modes they are closed.\<close>
theorem mixed_listeners_left:
  "startListeners (\<lambda>i n a. if i = 0 then Some a else None) (complete_conf 4 (conf_demo_http 2)) =
     (\<lparr>ls_opened = 1, ls_listeners = [], ls_muxed = [0], ls_closed = [], ls_serving = [(0, False, ServeBlocking), (0, False, ServeNonBlocking)]\<rparr>, False)"
  "startListeners (\<lambda>i n a. if i = 0 then Some a else None) (complete_conf 4 (conf_demo_http 1)) =
     (\<lparr>ls_opened = 1, ls_listeners = [0], ls_muxed = [], ls_closed = [0], ls_serving = [(0, False, ServeBlocking)]\<rparr>, False)"
  by code_simp+

text \<open>Started listeners are as many as configured, and \<open>Stop\<close> closes every one of them.\<close>
theorem listeners_stopped:
  assumes "startListeners Listen conf = (L, True)"
  shows "ls_opened L = wanted (hf_AddrConfigsTLS conf) + wanted (hf_AddrConfigs conf) \<and>
    ls_closed (stopListeners (io_mod_of (hf_IOMod conf)) L) = [0..<ls_opened L]"
  using startListeners_ok [OF assms] by (auto simp: stopListeners_def listeners_ok_def)

end
