(* ===== verification/Mempool.thy ===== *)
theory Mempool
  imports Prelude
begin

text \<open>
  The buffer allocators of \<open>mempool/\<close>: size classes (\<open>aligned_allocator.go\<close>), one pool (\<open>mempool.go\<close>) and plain allocation
  (\<open>std_allocator.go\<close>), behind the interface \<open>Allocator\<close>. Buffers live in an explicit heap: each has a backing array, whose length is
  its capacity, and a length; a pooled buffer keeps its array, so that a buffer handed out twice would show. Which buffer \<open>sync.Pool\<close>
  gives, or that it gives a new one, is a choice of the runtime; so is the capacity to which \<open>append\<close> grows.
\<close>

record mheap =
  mh_arr :: "nat \<Rightarrow> octets"
  mh_len :: "nat \<Rightarrow> nat"
  mh_next :: nat
  mh_pool :: "nat \<Rightarrow> nat set"
  mh_live :: "nat set"

definition empty_mheap :: mheap where
  "empty_mheap = \<lparr>mh_arr = (\<lambda>b. []), mh_len = (\<lambda>b. 0), mh_next = 0, mh_pool = (\<lambda>i. {}), mh_live = {}\<rparr>"

definition capacity :: "mheap \<Rightarrow> nat \<Rightarrow> nat" where
  "capacity h b = length (mh_arr h b)"

definition contents :: "mheap \<Rightarrow> nat \<Rightarrow> octets" where
  "contents h b = take (mh_len h b) (mh_arr h b)"

definition make_buf :: "nat \<Rightarrow> mheap \<Rightarrow> mheap \<times> nat" where
  "make_buf n h = (h\<lparr>mh_arr := (mh_arr h)(mh_next h := replicate n 0), mh_len := (mh_len h)(mh_next h := n), mh_next := Suc (mh_next h)\<rparr>, mh_next h)"

definition set_len :: "nat \<Rightarrow> nat \<Rightarrow> mheap \<Rightarrow> mheap" where
  "set_len b n h = h\<lparr>mh_len := (mh_len h)(b := n)\<rparr>"

definition own :: "nat \<Rightarrow> mheap \<Rightarrow> mheap" where
  "own b h = h\<lparr>mh_live := insert b (mh_live h)\<rparr>"

definition disown :: "nat \<Rightarrow> mheap \<Rightarrow> mheap" where
  "disown b h = h\<lparr>mh_live := mh_live h - {b}\<rparr>"

text \<open>\<open>copy\<close> into a buffer of at least that length.\<close>

definition write_buf :: "nat \<Rightarrow> octets \<Rightarrow> mheap \<Rightarrow> mheap" where
  "write_buf b data h = h\<lparr>mh_arr := (mh_arr h)(b := data @ drop (length data) (mh_arr h b))\<rparr>"

text \<open>Go's \<open>append\<close>: in place when the capacity is enough, else into a new array.\<close>

definition go_append :: "(nat \<Rightarrow> nat \<Rightarrow> nat) \<Rightarrow> nat \<Rightarrow> octets \<Rightarrow> mheap \<Rightarrow> mheap" where
  "go_append grow b extra h =
     (let n = mh_len h b + length extra;
          arr = (if n \<le> capacity h b then contents h b @ extra @ drop n (mh_arr h b)
                 else contents h b @ extra @ replicate (grow (capacity h b) n - n) 0)
      in h\<lparr>mh_arr := (mh_arr h)(b := arr), mh_len := (mh_len h)(b := n)\<rparr>)"

definition pool_get :: "nat \<Rightarrow> nat \<Rightarrow> nat option \<Rightarrow> mheap \<Rightarrow> mheap \<times> nat" where
  "pool_get i sz pick h =
     (case pick of
        None \<Rightarrow> make_buf sz h
      | Some b \<Rightarrow> if b \<in> mh_pool h i then (h\<lparr>mh_pool := (mh_pool h)(i := mh_pool h i - {b})\<rparr>, b) else make_buf sz h)"

definition pool_put :: "nat \<Rightarrow> nat \<Rightarrow> mheap \<Rightarrow> mheap" where
  "pool_put i b h = h\<lparr>mh_pool := (mh_pool h)(i := insert b (mh_pool h i))\<rparr>"

text \<open>The aligned allocator: eleven size classes, from 32 bytes to 32 kilobytes. Slicing beyond the capacity panics (\<open>None\<close>).\<close>

definition maxAlignedBufferSize :: nat where
  "maxAlignedBufferSize = 32768"

definition getPoolBySize :: "nat \<Rightarrow> nat" where
  "getPoolBySize n = (case find (\<lambda>i. n \<le> 2 ^ (i + 5)) [0..<11] of Some i \<Rightarrow> i | None \<Rightarrow> 0xFF)"

definition aligned_Malloc :: "nat option \<Rightarrow> int \<Rightarrow> mheap \<Rightarrow> (mheap \<times> nat) option" where
  "aligned_Malloc pick sz h =
     (if sz < 0 then None
      else
        (let n = nat sz in
         if n \<le> maxAlignedBufferSize then
           (let i = getPoolBySize n in
            case pool_get i (2 ^ (i + 5)) pick h of
              (h, b) \<Rightarrow> if n \<le> capacity h b then Some (own b (set_len b n h), b) else None)
         else (case make_buf n h of (h, b) \<Rightarrow> Some (own b h, b))))"

definition aligned_Free :: "nat \<Rightarrow> mheap \<Rightarrow> mheap" where
  "aligned_Free b h =
     (let n = capacity h b; h = disown b h in
      if n mod 32 \<noteq> 0 \<or> n > maxAlignedBufferSize then h else pool_put (getPoolBySize n) b h)"

definition aligned_Realloc :: "nat option \<Rightarrow> nat \<Rightarrow> nat \<Rightarrow> mheap \<Rightarrow> (mheap \<times> nat) option" where
  "aligned_Realloc pick b n h =
     (if n \<le> capacity h b then Some (set_len b n h, b)
      else
        (case aligned_Malloc pick (int n) h of
           None \<Rightarrow> None
         | Some (h', b') \<Rightarrow> Some (aligned_Free b (write_buf b' (contents h b) h'), b')))"

definition aligned_Append :: "nat option \<Rightarrow> nat \<Rightarrow> octets \<Rightarrow> mheap \<Rightarrow> (mheap \<times> nat) option" where
  "aligned_Append pick b extra h =
     (if capacity h b - mh_len h b \<ge> length extra then Some (go_append (\<lambda>c n. n) b extra h, b)
      else
        (case aligned_Malloc pick (int (mh_len h b + length extra)) h of
           None \<Rightarrow> None
         | Some (h', b') \<Rightarrow> Some (aligned_Free b (write_buf b' (contents h b @ extra) h'), b')))"

text \<open>The allocator with one pool.\<close>

record mempool_conf =
  mc_bufSize :: nat
  mc_freeSize :: nat
  mc_grow :: "nat \<Rightarrow> nat \<Rightarrow> nat"

definition New :: "int \<Rightarrow> int \<Rightarrow> (nat \<Rightarrow> nat \<Rightarrow> nat) \<Rightarrow> mempool_conf" where
  "New bufSize freeSize grow =
     (let bufSize = (if bufSize \<le> 0 then 64 else bufSize); freeSize = (if freeSize \<le> 0 then 64 * 1024 else freeSize);
          freeSize = (if freeSize < bufSize then bufSize else freeSize)
      in \<lparr>mc_bufSize = nat bufSize, mc_freeSize = nat freeSize, mc_grow = grow\<rparr>)"

definition stretch :: "mempool_conf \<Rightarrow> nat \<Rightarrow> nat \<Rightarrow> mheap \<Rightarrow> mheap" where
  "stretch C b n h =
     set_len b n (if capacity h b < n then go_append (mc_grow C) b (replicate (n - capacity h b) 0) (set_len b (capacity h b) h) else h)"

definition mp_Malloc :: "mempool_conf \<Rightarrow> nat option \<Rightarrow> int \<Rightarrow> mheap \<Rightarrow> (mheap \<times> nat) option" where
  "mp_Malloc C pick sz h =
     (if sz < 0 then None
      else if nat sz > mc_freeSize C then (case make_buf (nat sz) h of (h, b) \<Rightarrow> Some (own b h, b))
      else (case pool_get 0 (mc_bufSize C) pick h of (h, b) \<Rightarrow> Some (own b (stretch C b (nat sz) h), b)))"

definition mp_Free :: "mempool_conf \<Rightarrow> nat \<Rightarrow> mheap \<Rightarrow> mheap" where
  "mp_Free C b h =
     (let n = capacity h b; h = disown b h in if n = 0 \<or> n > mc_freeSize C then h else pool_put 0 b h)"

definition mp_Realloc :: "mempool_conf \<Rightarrow> nat option \<Rightarrow> nat \<Rightarrow> nat \<Rightarrow> mheap \<Rightarrow> (mheap \<times> nat) option" where
  "mp_Realloc C pick b n h =
     (if n \<le> capacity h b then Some (set_len b n h, b)
      else if capacity h b < mc_freeSize C then
        (case pool_get 0 (mc_bufSize C) pick h of
           (h', b') \<Rightarrow> Some (mp_Free C b (write_buf b' (contents h b) (own b' (stretch C b' n h'))), b'))
      else Some (stretch C b n h, b))"

definition mp_Append :: "mempool_conf \<Rightarrow> nat option \<Rightarrow> nat \<Rightarrow> octets \<Rightarrow> mheap \<Rightarrow> (mheap \<times> nat) option" where
  "mp_Append C pick b extra h = Some (go_append (mc_grow C) b extra h, b)"

text \<open>Plain allocation.\<close>

definition std_Malloc :: "nat option \<Rightarrow> int \<Rightarrow> mheap \<Rightarrow> (mheap \<times> nat) option" where
  "std_Malloc pick sz h = (if sz < 0 then None else case make_buf (nat sz) h of (h, b) \<Rightarrow> Some (own b h, b))"

definition std_Free :: "nat \<Rightarrow> mheap \<Rightarrow> mheap" where
  "std_Free b h = disown b h"

definition std_Realloc :: "nat option \<Rightarrow> nat \<Rightarrow> nat \<Rightarrow> mheap \<Rightarrow> (mheap \<times> nat) option" where
  "std_Realloc pick b n h =
     (if n \<le> capacity h b then Some (set_len b n h, b)
      else (case make_buf n h of (h', b') \<Rightarrow> Some (disown b (write_buf b' (contents h b) (own b' h')), b')))"

definition std_Append :: "(nat \<Rightarrow> nat \<Rightarrow> nat) \<Rightarrow> nat option \<Rightarrow> nat \<Rightarrow> octets \<Rightarrow> mheap \<Rightarrow> (mheap \<times> nat) option" where
  "std_Append grow pick b extra h = Some (go_append grow b extra h, b)"

text \<open>The counters of \<open>debugger.go\<close>, when debugging is on. Writing to the map before it was made panics (\<open>None\<close>).\<close>

record size_count =
  sc_MallocCount :: int
  sc_FreeCount :: int
  sc_NeedFree :: int

record mdebugger =
  db_MallocCount :: int
  db_FreeCount :: int
  db_NeedFree :: int
  db_SizeMap :: "(nat \<rightharpoonup> size_count) option"

definition incrMallocSlow :: "nat \<Rightarrow> mdebugger \<Rightarrow> mdebugger" where
  "incrMallocSlow n d =
     (let m = (case db_SizeMap d of None \<Rightarrow> Map.empty | Some m \<Rightarrow> m);
          v = (case m n of
                 Some v \<Rightarrow> v\<lparr>sc_MallocCount := sc_MallocCount v + 1, sc_NeedFree := sc_NeedFree v + 1\<rparr>
               | None \<Rightarrow> \<lparr>sc_MallocCount = 1, sc_FreeCount = 0, sc_NeedFree = 1\<rparr>)
      in d\<lparr>db_MallocCount := db_MallocCount d + 1, db_NeedFree := db_NeedFree d + 1, db_SizeMap := Some (m(n \<mapsto> v))\<rparr>)"

definition incrFreeSlow :: "nat \<Rightarrow> mdebugger \<Rightarrow> mdebugger option" where
  "incrFreeSlow n d =
     (let d = d\<lparr>db_FreeCount := db_FreeCount d + 1, db_NeedFree := db_NeedFree d - 1\<rparr> in
      case db_SizeMap d of
        None \<Rightarrow> None
      | Some m \<Rightarrow>
          (let v = (case m n of
                      Some v \<Rightarrow> v\<lparr>sc_FreeCount := sc_FreeCount v + 1, sc_NeedFree := sc_NeedFree v - 1\<rparr>
                    | None \<Rightarrow> \<lparr>sc_MallocCount = 1, sc_FreeCount = 0, sc_NeedFree = - 1\<rparr>)
           in Some (d\<lparr>db_SizeMap := Some (m(n \<mapsto> v))\<rparr>)))"

end
