(* ===== verification/MempoolLaws.thy ===== *)
theory MempoolLaws
  imports Mempool
begin

text \<open>
  What a user of an allocator relies on, as the locale \<open>buffer_allocator\<close>, with its three interpretations. The clients' lemma is a
  refinement: a program that makes, extends, resizes and frees buffers under names of its own sees independent byte strings, whatever
  the pool hands out.
\<close>

text \<open>Two heaps in which the buffers of a set have the same contents; \<open>moved\<close>: a buffer was replaced by another, or kept.\<close>

definition same_on :: "nat set \<Rightarrow> mheap \<Rightarrow> mheap \<Rightarrow> bool" where
  "same_on X h h' \<longleftrightarrow> (\<forall>x \<in> X. contents h' x = contents h x)"

locale buffer_allocator =
  fixes malloc :: "nat option \<Rightarrow> int \<Rightarrow> mheap \<Rightarrow> (mheap \<times> nat) option"
    and realloc :: "nat option \<Rightarrow> nat \<Rightarrow> nat \<Rightarrow> mheap \<Rightarrow> (mheap \<times> nat) option"
    and append_buf :: "nat option \<Rightarrow> nat \<Rightarrow> octets \<Rightarrow> mheap \<Rightarrow> (mheap \<times> nat) option"
    and free :: "nat \<Rightarrow> mheap \<Rightarrow> mheap"
    and ok :: "mheap \<Rightarrow> bool"
  assumes malloc_law: "ok h \<Longrightarrow> \<exists>h' b. malloc c (int n) h = Some (h', b) \<and> ok h' \<and> b \<notin> mh_live h \<and> mh_live h' = insert b (mh_live h) \<and>
      length (contents h' b) = n \<and> same_on (mh_live h) h h'"
    and append_law: "ok h \<Longrightarrow> b \<in> mh_live h \<Longrightarrow> \<exists>h' b'. append_buf c b extra h = Some (h', b') \<and> ok h' \<and> b' \<notin> mh_live h - {b} \<and>
      mh_live h' = insert b' (mh_live h - {b}) \<and> contents h' b' = contents h b @ extra \<and> same_on (mh_live h - {b}) h h'"
    and realloc_law: "ok h \<Longrightarrow> b \<in> mh_live h \<Longrightarrow> \<exists>h' b'. realloc c b n h = Some (h', b') \<and> ok h' \<and> b' \<notin> mh_live h - {b} \<and>
      mh_live h' = insert b' (mh_live h - {b}) \<and> length (contents h' b') = n \<and>
      take (length (contents h b)) (contents h' b') = take n (contents h b) \<and> same_on (mh_live h - {b}) h h'"
    and free_law: "ok h \<Longrightarrow> b \<in> mh_live h \<Longrightarrow> ok (free b h) \<and> mh_live (free b h) = mh_live h - {b} \<and> same_on (mh_live h - {b}) h (free b h)"
    and write_law: "ok h \<Longrightarrow> b \<in> mh_live h \<Longrightarrow> length data = length (contents h b) \<Longrightarrow> ok (write_buf b data h) \<and> mh_live (write_buf b data h) = mh_live h \<and>
      contents (write_buf b data h) b = data \<and> same_on (mh_live h - {b}) h (write_buf b data h)"

text \<open>A program: buffers under names. \<open>MMake\<close> is \<open>Malloc\<close> followed by \<open>copy\<close>; \<open>MCut\<close> is a \<open>Realloc\<close> to no more than the length.\<close>

datatype mem_op = MMake nat octets | MAppend nat octets | MCut nat nat | MFree nat

record mem_funs =
  mf_malloc :: "nat option \<Rightarrow> int \<Rightarrow> mheap \<Rightarrow> (mheap \<times> nat) option"
  mf_realloc :: "nat option \<Rightarrow> nat \<Rightarrow> nat \<Rightarrow> mheap \<Rightarrow> (mheap \<times> nat) option"
  mf_append :: "nat option \<Rightarrow> nat \<Rightarrow> octets \<Rightarrow> mheap \<Rightarrow> (mheap \<times> nat) option"
  mf_free :: "nat \<Rightarrow> mheap \<Rightarrow> mheap"

fun mem_step :: "mem_funs \<Rightarrow> nat option \<Rightarrow> mem_op \<Rightarrow> (nat \<rightharpoonup> nat) \<times> mheap \<Rightarrow> ((nat \<rightharpoonup> nat) \<times> mheap) option" where
  "mem_step A c (MMake k data) (m, h) =
     (case mf_malloc A c (int (length data)) h of None \<Rightarrow> None | Some (h, b) \<Rightarrow> Some (m(k \<mapsto> b), write_buf b data h))"
| "mem_step A c (MAppend k extra) (m, h) =
     (case m k of None \<Rightarrow> None | Some b \<Rightarrow> (case mf_append A c b extra h of None \<Rightarrow> None | Some (h, b) \<Rightarrow> Some (m(k \<mapsto> b), h)))"
| "mem_step A c (MCut k n) (m, h) =
     (case m k of None \<Rightarrow> None | Some b \<Rightarrow> (case mf_realloc A c b n h of None \<Rightarrow> None | Some (h, b) \<Rightarrow> Some (m(k \<mapsto> b), h)))"
| "mem_step A c (MFree k) (m, h) = (case m k of None \<Rightarrow> None | Some b \<Rightarrow> Some (m(k := None), mf_free A b h))"

fun mem_run :: "mem_funs \<Rightarrow> (nat option \<times> mem_op) list \<Rightarrow> (nat \<rightharpoonup> nat) \<times> mheap \<Rightarrow> ((nat \<rightharpoonup> nat) \<times> mheap) option" where
  "mem_run A [] s = Some s"
| "mem_run A ((c, op) # ops) s = (case mem_step A c op s of None \<Rightarrow> None | Some s \<Rightarrow> mem_run A ops s)"

text \<open>The specification: names and byte strings. A program makes a name only while it is free and uses it only after that.\<close>

fun str_step :: "mem_op \<Rightarrow> (nat \<rightharpoonup> octets) \<Rightarrow> (nat \<rightharpoonup> octets) option" where
  "str_step (MMake k data) s = (if s k = None then Some (s(k \<mapsto> data)) else None)"
| "str_step (MAppend k extra) s = (case s k of None \<Rightarrow> None | Some x \<Rightarrow> Some (s(k \<mapsto> x @ extra)))"
| "str_step (MCut k n) s = (case s k of None \<Rightarrow> None | Some x \<Rightarrow> if n \<le> length x then Some (s(k \<mapsto> take n x)) else None)"
| "str_step (MFree k) s = (case s k of None \<Rightarrow> None | Some x \<Rightarrow> Some (s(k := None)))"

fun str_run :: "mem_op list \<Rightarrow> (nat \<rightharpoonup> octets) \<Rightarrow> (nat \<rightharpoonup> octets) option" where
  "str_run [] s = Some s"
| "str_run (op # ops) s = (case str_step op s of None \<Rightarrow> None | Some s \<Rightarrow> str_run ops s)"

definition mem_view :: "(nat \<rightharpoonup> nat) \<times> mheap \<Rightarrow> nat \<rightharpoonup> octets" where
  "mem_view s k = map_option (contents (snd s)) (fst s k)"

definition names_ok :: "(nat \<rightharpoonup> nat) \<Rightarrow> mheap \<Rightarrow> bool" where
  "names_ok m h \<longleftrightarrow> inj_on m (dom m) \<and> ran m \<subseteq> mh_live h"

lemma names_okD:
  assumes "names_ok m h" "m k = Some b"
  shows "b \<in> mh_live h" "m j = Some b \<Longrightarrow> j = k"
proof -
  show "b \<in> mh_live h" using assms by (auto simp: names_ok_def ran_def)
  have "inj_on m (dom m)" using assms(1) by (simp add: names_ok_def)
  then show "m j = Some b \<Longrightarrow> j = k" using assms(2) by (auto simp: inj_on_def dom_def)
qed

text \<open>A name gets a new buffer, or its buffer moves: the other names keep theirs.\<close>

lemma names_upd:
  assumes "names_ok m h" "b' \<notin> mh_live h - X" "mh_live h' = insert b' (mh_live h - X)" "same_on (mh_live h - X) h h'" "X = set_option (m k)"
  shows "names_ok (m(k \<mapsto> b')) h'" "mem_view (m(k \<mapsto> b'), h') = (mem_view (m, h))(k \<mapsto> contents h' b')"
proof -
  have other: "b \<in> mh_live h - X" if "m j = Some b" "j \<noteq> k" for j b using names_okD [OF assms(1)] that assms(5) by (cases "m k") auto
  show "names_ok (m(k \<mapsto> b')) h'" unfolding names_ok_def
  proof
    show "ran (m(k \<mapsto> b')) \<subseteq> mh_live h'" using other assms(3) by (auto simp: ran_def split: if_splits)
    show "inj_on (m(k \<mapsto> b')) (dom (m(k \<mapsto> b')))"
    proof (rule inj_onI)
      fix i j assume "i \<in> dom (m(k \<mapsto> b'))" "j \<in> dom (m(k \<mapsto> b'))" "(m(k \<mapsto> b')) i = (m(k \<mapsto> b')) j"
      then show "i = j" using other [of i] other [of j] assms(2) names_okD(2) [OF assms(1), of i _ j] by (auto split: if_splits)
    qed
  qed
  show "mem_view (m(k \<mapsto> b'), h') = (mem_view (m, h))(k \<mapsto> contents h' b')"
  proof
    fix j show "mem_view (m(k \<mapsto> b'), h') j = ((mem_view (m, h))(k \<mapsto> contents h' b')) j"
      using other [of j] assms(4) by (cases "m j") (auto simp: mem_view_def same_on_def)
  qed
qed

lemma names_free:
  assumes "names_ok m h" "m k = Some b" "mh_live h' = mh_live h - {b}" "same_on (mh_live h - {b}) h h'"
  shows "names_ok (m(k := None)) h'" "mem_view (m(k := None), h') = (mem_view (m, h))(k := None)"
proof -
  have other: "c \<in> mh_live h - {b}" if "m j = Some c" "j \<noteq> k" for j c using names_okD [OF assms(1)] that assms(2) by auto
  show "names_ok (m(k := None)) h'"
    using assms(1,3) other unfolding names_ok_def by (auto simp: ran_def inj_on_def split: if_splits)
  show "mem_view (m(k := None), h') = (mem_view (m, h))(k := None)"
  proof
    fix j show "mem_view (m(k := None), h') j = ((mem_view (m, h))(k := None)) j"
      using other [of j] assms(4) by (cases "m j") (auto simp: mem_view_def same_on_def)
  qed
qed

text \<open>The refinement, once for every allocator.\<close>

context buffer_allocator
begin

lemma step_refines:
  assumes "ok h" "names_ok m h" "str_step op (mem_view (m, h)) = Some v"
  shows "\<exists>m' h'. mem_step \<lparr>mf_malloc = malloc, mf_realloc = realloc, mf_append = append_buf, mf_free = free\<rparr> c op (m, h) = Some (m', h') \<and> ok h' \<and> names_ok m' h' \<and> mem_view (m', h') = v"
proof (cases op)
  case (MMake k data)
  then have k: "m k = None" "v = (mem_view (m, h))(k \<mapsto> data)" using assms(3) by (auto simp: mem_view_def split: if_splits)
  obtain h1 b where b: "malloc c (int (length data)) h = Some (h1, b)" "ok h1" "b \<notin> mh_live h" "mh_live h1 = insert b (mh_live h)"
      "length (contents h1 b) = length data" "same_on (mh_live h) h h1"
    using malloc_law [OF assms(1), of c "length data"] by blast
  have w: "ok (write_buf b data h1)" "mh_live (write_buf b data h1) = mh_live h1" "contents (write_buf b data h1) b = data" "same_on (mh_live h1 - {b}) h1 (write_buf b data h1)"
    using write_law [OF b(2), of b data] b(4,5) by auto
  have "same_on (mh_live h) h (write_buf b data h1)" using b(3,4,6) w(4) by (auto simp: same_on_def)
  then have "names_ok (m(k \<mapsto> b)) (write_buf b data h1)" "mem_view (m(k \<mapsto> b), write_buf b data h1) = (mem_view (m, h))(k \<mapsto> contents (write_buf b data h1) b)"
    using names_upd [OF assms(2), of b "{}" "write_buf b data h1" k] b(3,4) w(2) k(1) by simp_all
  then show ?thesis using MMake b(1) w k(2) by simp
next
  case (MAppend k extra)
  then obtain b where k: "m k = Some b" "v = (mem_view (m, h))(k \<mapsto> contents h b @ extra)" using assms(3) by (auto simp: mem_view_def split: option.splits)
  obtain h1 b' where b: "append_buf c b extra h = Some (h1, b')" "ok h1" "b' \<notin> mh_live h - {b}" "mh_live h1 = insert b' (mh_live h - {b})"
      "contents h1 b' = contents h b @ extra" "same_on (mh_live h - {b}) h h1"
    using append_law [OF assms(1) names_okD(1) [OF assms(2) k(1)], of c extra] by blast
  have "names_ok (m(k \<mapsto> b')) h1" "mem_view (m(k \<mapsto> b'), h1) = (mem_view (m, h))(k \<mapsto> contents h1 b')"
    using names_upd [OF assms(2) b(3,4,6), of k] k(1) by simp_all
  then show ?thesis using MAppend b k by simp
next
  case (MCut k n)
  then obtain b where k: "m k = Some b" "n \<le> length (contents h b)" "v = (mem_view (m, h))(k \<mapsto> take n (contents h b))"
    using assms(3) by (auto simp: mem_view_def split: option.splits if_splits)
  obtain h1 b' where b: "realloc c b n h = Some (h1, b')" "ok h1" "b' \<notin> mh_live h - {b}" "mh_live h1 = insert b' (mh_live h - {b})"
      "length (contents h1 b') = n" "take (length (contents h b)) (contents h1 b') = take n (contents h b)" "same_on (mh_live h - {b}) h h1"
    using realloc_law [OF assms(1) names_okD(1) [OF assms(2) k(1)], of c n] by blast
  have "contents h1 b' = take n (contents h b)" using b(5,6) k(2) by simp
  moreover have "names_ok (m(k \<mapsto> b')) h1" "mem_view (m(k \<mapsto> b'), h1) = (mem_view (m, h))(k \<mapsto> contents h1 b')"
    using names_upd [OF assms(2) b(3,4,7), of k] k(1) by simp_all
  ultimately show ?thesis using MCut b k by simp
next
  case (MFree k)
  then obtain b where k: "m k = Some b" "v = (mem_view (m, h))(k := None)" using assms(3) by (auto simp: mem_view_def split: option.splits)
  have f: "ok (free b h)" "mh_live (free b h) = mh_live h - {b}" "same_on (mh_live h - {b}) h (free b h)"
    using free_law [OF assms(1) names_okD(1) [OF assms(2) k(1)]] by blast+
  show ?thesis using MFree k names_free [OF assms(2) k(1) f(2,3)] f(1) by simp
qed

lemma run_refines:
  "ok h \<Longrightarrow> names_ok m h \<Longrightarrow> str_run (map snd ops) (mem_view (m, h)) = Some v \<Longrightarrow>
   \<exists>m' h'. mem_run \<lparr>mf_malloc = malloc, mf_realloc = realloc, mf_append = append_buf, mf_free = free\<rparr> ops (m, h) = Some (m', h') \<and> ok h' \<and> names_ok m' h' \<and> mem_view (m', h') = v"
proof (induction ops arbitrary: m h)
  case (Cons x ops)
  obtain c op where x: "x = (c, op)" by fastforce
  obtain u where u: "str_step op (mem_view (m, h)) = Some u" "str_run (map snd ops) u = Some v" using Cons.prems(3) x by (auto split: option.splits)
  obtain m1 h1 where s: "mem_step \<lparr>mf_malloc = malloc, mf_realloc = realloc, mf_append = append_buf, mf_free = free\<rparr> c op (m, h) = Some (m1, h1)" "ok h1" "names_ok m1 h1" "mem_view (m1, h1) = u"
    using step_refines [OF Cons.prems(1,2) u(1)] by blast
  show ?case using Cons.IH [OF s(2,3)] s u(2) x by simp
qed simp

end

text \<open>Invariants of the heap: what is live or pooled was made, a buffer is in one place, and a live buffer's length is within its capacity.\<close>

definition heap_ok :: "mheap \<Rightarrow> bool" where
  "heap_ok h \<longleftrightarrow> (\<forall>b \<in> mh_live h. b < mh_next h \<and> mh_len h b \<le> capacity h b) \<and> (\<forall>i. \<forall>b \<in> mh_pool h i. b < mh_next h \<and> b \<notin> mh_live h) \<and>
     (\<forall>i j b. b \<in> mh_pool h i \<longrightarrow> b \<in> mh_pool h j \<longrightarrow> i = j)"

definition aligned_ok :: "mheap \<Rightarrow> bool" where
  "aligned_ok h \<longleftrightarrow> heap_ok h \<and> (\<forall>i. \<forall>b \<in> mh_pool h i. capacity h b = 2 ^ (i + 5)) \<and>
     (\<forall>b \<in> mh_live h. capacity h b > maxAlignedBufferSize \<or> (\<exists>i < 11. capacity h b = 2 ^ (i + 5)))"

text \<open>All changes of one buffer are of one form.\<close>

definition put_buf :: "nat \<Rightarrow> octets \<Rightarrow> nat \<Rightarrow> mheap \<Rightarrow> mheap" where
  "put_buf b a n h = h\<lparr>mh_arr := (mh_arr h)(b := a), mh_len := (mh_len h)(b := n)\<rparr>"

lemma put_buf_fields [simp]:
  "mh_live (put_buf b a n h) = mh_live h" "mh_pool (put_buf b a n h) = mh_pool h" "mh_next (put_buf b a n h) = mh_next h"
  "capacity (put_buf b a n h) x = (if x = b then length a else capacity h x)" "contents (put_buf b a n h) x = (if x = b then take n a else contents h x)"
  "mh_len (put_buf b a n h) x = (if x = b then n else mh_len h x)" "mh_arr (put_buf b a n h) x = (if x = b then a else mh_arr h x)"
  by (simp_all add: put_buf_def capacity_def contents_def)

lemma own_fields [simp]:
  "mh_live (own b h) = insert b (mh_live h)" "mh_pool (own b h) = mh_pool h" "mh_next (own b h) = mh_next h" "capacity (own b h) = capacity h"
  "contents (own b h) = contents h" "mh_len (own b h) = mh_len h" "mh_arr (own b h) = mh_arr h"
  "mh_live (disown b h) = mh_live h - {b}" "mh_pool (disown b h) = mh_pool h" "mh_next (disown b h) = mh_next h" "capacity (disown b h) = capacity h"
  "contents (disown b h) = contents h" "mh_len (disown b h) = mh_len h"
  "mh_live (pool_put i b h) = mh_live h" "mh_pool (pool_put i b h) = (mh_pool h)(i := insert b (mh_pool h i))" "mh_next (pool_put i b h) = mh_next h"
  "capacity (pool_put i b h) = capacity h" "contents (pool_put i b h) = contents h" "mh_len (pool_put i b h) = mh_len h"
  by (simp_all add: own_def disown_def pool_put_def capacity_def contents_def fun_eq_iff)

lemma set_len_put: "set_len b n h = put_buf b (mh_arr h b) n h"
  by (simp add: set_len_def put_buf_def)

lemma write_buf_put: "write_buf b data h = put_buf b (data @ drop (length data) (mh_arr h b)) (mh_len h b) h"
  by (simp add: write_buf_def put_buf_def)

lemma go_append_put:
  assumes "mh_len h b \<le> capacity h b"
  obtains a where "go_append grow b extra h = put_buf b a (mh_len h b + length extra) h" "take (mh_len h b + length extra) a = contents h b @ extra"
    "mh_len h b + length extra \<le> length a" "mh_len h b + length extra \<le> capacity h b \<Longrightarrow> length a = capacity h b" "capacity h b \<le> length a"
proof -
  let ?n = "mh_len h b + length extra"
  let ?a = "if ?n \<le> capacity h b then contents h b @ extra @ drop ?n (mh_arr h b) else contents h b @ extra @ replicate (grow (capacity h b) ?n - ?n) 0"
  have len: "length (contents h b) = mh_len h b" using assms(1) by (simp add: contents_def capacity_def)
  show ?thesis
  proof (rule that [of ?a])
    show "go_append grow b extra h = put_buf b ?a ?n h" by (simp add: go_append_def put_buf_def Let_def)
    show "take ?n ?a = contents h b @ extra" "?n \<le> length ?a" "?n \<le> capacity h b \<Longrightarrow> length ?a = capacity h b" "capacity h b \<le> length ?a"
      using len by (auto simp: capacity_def)
  qed
qed

lemma heap_ok_put: "heap_ok h \<Longrightarrow> n \<le> length a \<Longrightarrow> heap_ok (put_buf b a n h)"
  by (simp add: heap_ok_def)

text \<open>Taking a buffer, new or from a pool: it is not live, and no other changes.\<close>

definition taken :: "mheap \<Rightarrow> mheap \<Rightarrow> nat \<Rightarrow> bool" where
  "taken h h' b \<longleftrightarrow> heap_ok h' \<and> b \<notin> mh_live h \<and> mh_live h' = mh_live h \<and> b < mh_next h' \<and> (\<forall>i. b \<notin> mh_pool h' i) \<and> (\<forall>i. mh_pool h' i \<subseteq> mh_pool h i) \<and>
     (\<forall>x. x \<noteq> b \<longrightarrow> capacity h' x = capacity h x \<and> contents h' x = contents h x)"

lemma make_buf_taken:
  assumes "heap_ok h" "make_buf n h = (h', b)"
  shows "taken h h' b" "capacity h' b = n" "contents h' b = replicate n 0" "mh_len h' b = n"
proof -
  have "b = mh_next h" "h' = put_buf b (replicate n 0) n (h\<lparr>mh_next := Suc b\<rparr>)" using assms(2) by (auto simp: make_buf_def put_buf_def)
  moreover have "heap_ok (h\<lparr>mh_next := Suc (mh_next h)\<rparr>)" using assms(1) by (auto simp: heap_ok_def capacity_def less_Suc_eq)
  moreover have "mh_next h \<notin> mh_live h" "mh_next h \<notin> mh_pool h i" for i using assms(1) by (auto simp: heap_ok_def)
  ultimately show "taken h h' b" "capacity h' b = n" "contents h' b = replicate n 0" "mh_len h' b = n"
    by (simp_all add: taken_def heap_ok_put capacity_def contents_def)
qed

lemma heap_ok_pools:
  assumes "heap_ok h" "\<And>i. P i \<subseteq> mh_pool h i"
  shows "heap_ok (h\<lparr>mh_pool := P\<rparr>)"
proof -
  have sub: "b \<in> P i \<Longrightarrow> b \<in> mh_pool h i" for b i using assms(2) by blast
  show ?thesis using assms(1) sub unfolding heap_ok_def capacity_def by (simp, blast)
qed

lemma pool_get_taken:
  assumes "heap_ok h" "pool_get i n pick h = (h', b)"
  shows "taken h h' b \<and> (b \<in> mh_pool h i \<and> capacity h' b = capacity h b \<or> capacity h' b = n)"
proof (cases "make_buf n h = (h', b)")
  case True
  then show ?thesis using make_buf_taken [OF assms(1)] by simp
next
  case False
  then have p: "b \<in> mh_pool h i" "h' = h\<lparr>mh_pool := (mh_pool h)(i := mh_pool h i - {b})\<rparr>"
    using assms(2) by (auto simp: pool_get_def split: option.splits if_splits)
  have "b \<notin> mh_pool h j" if "j \<noteq> i" for j using assms(1) p(1) that unfolding heap_ok_def by blast
  then have "b \<notin> mh_pool h' j" for j by (simp add: p(2))
  moreover have "mh_pool h' j \<subseteq> mh_pool h j" for j by (auto simp: p(2))
  moreover have "b < mh_next h'" "b \<notin> mh_live h" "mh_live h' = mh_live h" using assms(1) p by (simp_all add: heap_ok_def)
  moreover have "heap_ok h'" unfolding p(2) by (rule heap_ok_pools [OF assms(1)]) simp
  moreover have "capacity h' x = capacity h x" "contents h' x = contents h x" for x by (simp_all add: p(2) capacity_def contents_def)
  ultimately show ?thesis using p(1) unfolding taken_def by blast
qed

text \<open>A buffer taken, given a content and owned.\<close>

definition gained :: "mheap \<Rightarrow> mheap \<Rightarrow> nat \<Rightarrow> nat \<Rightarrow> bool" where
  "gained h h' b n \<longleftrightarrow> heap_ok h' \<and> b \<notin> mh_live h \<and> mh_live h' = insert b (mh_live h) \<and> length (contents h' b) = n \<and> same_on (mh_live h) h h' \<and>
     (\<forall>i. mh_pool h' i \<subseteq> mh_pool h i) \<and> (\<forall>x. x \<noteq> b \<longrightarrow> capacity h' x = capacity h x)"

lemma taken_gained:
  assumes "taken h h1 b" "n \<le> length a"
  shows "gained h (own b (put_buf b a n h1)) b n"
proof -
  have "heap_ok (put_buf b a n h1)" using assms by (simp add: taken_def heap_ok_put)
  then have "heap_ok (own b (put_buf b a n h1))" using assms by (auto simp: heap_ok_def taken_def split: if_splits)
  then show ?thesis using assms by (auto simp: gained_def taken_def same_on_def)
qed

text \<open>Moving the content of a buffer to one that was gained, and giving up the first.\<close>

lemma gained_move:
  assumes "gained h h1 b' n" "b \<in> mh_live h" "length data \<le> n"
    and free: "mh_live h2 = mh_live h1 - {b}" "contents h2 = contents (write_buf b' data h1)"
  shows "b' \<notin> mh_live h - {b}" "mh_live h2 = insert b' (mh_live h - {b})" "contents h2 b' = data @ drop (length data) (contents h1 b')" "same_on (mh_live h - {b}) h h2"
    "length (contents h2 b') = n"
proof -
  have b: "b' \<noteq> b" "b' \<notin> mh_live h" using assms(1,2) by (auto simp: gained_def)
  show "b' \<notin> mh_live h - {b}" using b by simp
  show "mh_live h2 = insert b' (mh_live h - {b})" using free(1) b assms(1) by (auto simp: gained_def)
  have len: "length (contents h1 b') = n" using assms(1) by (simp add: gained_def)
  then have "mh_len h1 b' \<ge> length data" using assms(3) by (simp add: contents_def)
  then show c: "contents h2 b' = data @ drop (length data) (contents h1 b')"
    unfolding free(2) write_buf_put using len assms(3) by (simp add: contents_def drop_take)
  show "length (contents h2 b') = n" unfolding c using len assms(3) by simp
  show "same_on (mh_live h - {b}) h h2" using assms(1) b unfolding same_on_def free(2) write_buf_put gained_def by auto
qed

text \<open>Changes in place, and giving up a buffer.\<close>

lemma put_live:
  assumes "heap_ok h" "b \<in> mh_live h" "n \<le> length a" "h' = put_buf b a n h"
  shows "heap_ok h'" "b \<notin> mh_live h - {b}" "mh_live h' = insert b (mh_live h - {b})" "contents h' b = take n a" "same_on (mh_live h - {b}) h h'"
  using assms heap_ok_put [OF assms(1,3), of b] by (auto simp: same_on_def)

lemma heap_ok_disown: "heap_ok h \<Longrightarrow> heap_ok (disown b h)"
  by (simp add: heap_ok_def)

lemma heap_ok_pool_put:
  assumes "heap_ok h" "b \<in> mh_live h"
  shows "heap_ok (pool_put i b (disown b h))"
proof -
  have b: "b < mh_next h" "\<And>j. b \<notin> mh_pool h j" using assms by (auto simp: heap_ok_def)
  have pool: "(x = b \<and> j = i) \<or> (x \<in> mh_pool h j \<and> x \<noteq> b)" if "x \<in> mh_pool (pool_put i b (disown b h)) j" for x j
    using that b(2) by (cases "j = i") auto
  have old: "x < mh_next h \<and> x \<notin> mh_live h" if "x \<in> mh_pool h j" for x j using assms(1) that by (simp add: heap_ok_def)
  show ?thesis unfolding heap_ok_def
  proof (intro conjI)
    show "\<forall>x \<in> mh_live (pool_put i b (disown b h)). x < mh_next (pool_put i b (disown b h)) \<and> mh_len (pool_put i b (disown b h)) x \<le> capacity (pool_put i b (disown b h)) x"
      using assms(1) by (simp add: heap_ok_def)
    show "\<forall>j. \<forall>x \<in> mh_pool (pool_put i b (disown b h)) j. x < mh_next (pool_put i b (disown b h)) \<and> x \<notin> mh_live (pool_put i b (disown b h))"
      using pool old b(1) by fastforce
    show "\<forall>j k x. x \<in> mh_pool (pool_put i b (disown b h)) j \<longrightarrow> x \<in> mh_pool (pool_put i b (disown b h)) k \<longrightarrow> j = k"
      using pool assms(1) unfolding heap_ok_def by blast
  qed
qed

lemma write_live:
  assumes "heap_ok h" "b \<in> mh_live h" "length data = length (contents h b)"
  shows "heap_ok (write_buf b data h) \<and> mh_live (write_buf b data h) = mh_live h \<and> contents (write_buf b data h) b = data \<and>
    same_on (mh_live h - {b}) h (write_buf b data h) \<and> capacity (write_buf b data h) b = capacity h b"
proof -
  have l: "length (contents h b) = mh_len h b" "mh_len h b \<le> length (mh_arr h b)" using assms(1,2) by (auto simp: heap_ok_def contents_def capacity_def)
  then show ?thesis unfolding write_buf_put using assms(3) heap_ok_put [OF assms(1)] by (simp add: same_on_def capacity_def)
qed

lemma live_len: "heap_ok h \<Longrightarrow> b \<in> mh_live h \<Longrightarrow> mh_len h b \<le> capacity h b \<and> length (contents h b) = mh_len h b"
  by (auto simp: heap_ok_def contents_def capacity_def)

text \<open>Realloc within the capacity; append where the runtime's \<open>append\<close> does it.\<close>

lemma shrink_law:
  assumes "heap_ok h" "b \<in> mh_live h" "n \<le> capacity h b"
  shows "heap_ok (set_len b n h) \<and> b \<notin> mh_live h - {b} \<and> mh_live (set_len b n h) = insert b (mh_live h - {b}) \<and> length (contents (set_len b n h) b) = n \<and>
    take (length (contents h b)) (contents (set_len b n h) b) = take n (contents h b) \<and> same_on (mh_live h - {b}) h (set_len b n h)"
proof -
  note p = put_live [OF assms(1,2) _ set_len_put, of n]
  have a: "n \<le> length (mh_arr h b)" using assms(3) by (simp add: capacity_def)
  have "take (length (contents h b)) (take n (mh_arr h b)) = take n (contents h b)"
    using live_len [OF assms(1,2)] unfolding contents_def by (simp add: min.commute)
  then show ?thesis using p [OF a] a by simp
qed

lemma go_append_law:
  assumes "heap_ok h" "b \<in> mh_live h"
  shows "heap_ok (go_append grow b extra h) \<and> b \<notin> mh_live h - {b} \<and> mh_live (go_append grow b extra h) = insert b (mh_live h - {b}) \<and>
    contents (go_append grow b extra h) b = contents h b @ extra \<and> same_on (mh_live h - {b}) h (go_append grow b extra h)"
proof -
  obtain a where a: "go_append grow b extra h = put_buf b a (mh_len h b + length extra) h" "take (mh_len h b + length extra) a = contents h b @ extra"
      "mh_len h b + length extra \<le> length a"
    using go_append_put [of h b grow extra] live_len [OF assms] by metis
  show ?thesis using put_live [OF assms a(3,1)] a(2) by simp
qed

lemma write_gained:
  assumes "gained h h1 b' n" "length data \<le> n"
  shows "heap_ok (write_buf b' data h1)" "mh_live (write_buf b' data h1) = mh_live h1"
proof -
  have "heap_ok h1" "b' \<in> mh_live h1" "length (contents h1 b') = n" using assms(1) by (simp_all add: gained_def)
  then have "heap_ok h1" "mh_len h1 b' = n" "n \<le> length (mh_arr h1 b')" using live_len [of h1 b'] by (simp_all add: capacity_def)
  then show "heap_ok (write_buf b' data h1)" unfolding write_buf_put using assms(2) by (intro heap_ok_put) simp_all
  show "mh_live (write_buf b' data h1) = mh_live h1" by (simp add: write_buf_def)
qed

text \<open>The plain allocator.\<close>

interpretation std: buffer_allocator std_Malloc std_Realloc "std_Append grow" std_Free heap_ok for grow
proof unfold_locales
  fix h c b and n :: nat and extra data :: octets
  assume ok: "heap_ok h"
  obtain h1 b1 where m: "make_buf n h = (h1, b1)" by fastforce
  note t = make_buf_taken [OF ok m]
  have id: "own b1 h1 = own b1 (put_buf b1 (mh_arr h1 b1) n h1)" using t(4) by (simp add: put_buf_def own_def fun_upd_idem)
  have g: "gained h (own b1 h1) b1 n" unfolding id by (rule taken_gained [OF t(1)]) (use t(2) in \<open>simp add: capacity_def\<close>)
  show "\<exists>h' b. std_Malloc c (int n) h = Some (h', b) \<and> heap_ok h' \<and> b \<notin> mh_live h \<and> mh_live h' = insert b (mh_live h) \<and>
      length (contents h' b) = n \<and> same_on (mh_live h) h h'"
    using m g by (simp add: std_Malloc_def gained_def)
  assume b: "b \<in> mh_live h"
  show "\<exists>h' b'. std_Append grow c b extra h = Some (h', b') \<and> heap_ok h' \<and> b' \<notin> mh_live h - {b} \<and>
      mh_live h' = insert b' (mh_live h - {b}) \<and> contents h' b' = contents h b @ extra \<and> same_on (mh_live h - {b}) h h'"
    using go_append_law [OF ok b, of grow extra] unfolding std_Append_def by blast
  show "heap_ok (std_Free b h) \<and> mh_live (std_Free b h) = mh_live h - {b} \<and> same_on (mh_live h - {b}) h (std_Free b h)"
    using heap_ok_disown [OF ok] by (simp add: std_Free_def same_on_def)
  show "heap_ok (write_buf b data h) \<and> mh_live (write_buf b data h) = mh_live h \<and> contents (write_buf b data h) b = data \<and>
      same_on (mh_live h - {b}) h (write_buf b data h)" if "length data = length (contents h b)"
    using write_live [OF ok b that] by blast
  show "\<exists>h' b'. std_Realloc c b n h = Some (h', b') \<and> heap_ok h' \<and> b' \<notin> mh_live h - {b} \<and>
      mh_live h' = insert b' (mh_live h - {b}) \<and> length (contents h' b') = n \<and>
      take (length (contents h b)) (contents h' b') = take n (contents h b) \<and> same_on (mh_live h - {b}) h h'"
  proof (cases "n \<le> capacity h b")
    case True
    then show ?thesis using shrink_law [OF ok b True] unfolding std_Realloc_def by auto
  next
    case False
    let ?h2 = "disown b (write_buf b1 (contents h b) (own b1 h1))"
    have len: "length (contents h b) \<le> n" using live_len [OF ok b] False by simp
    have wl: "mh_live (write_buf b1 (contents h b) (own b1 h1)) = mh_live (own b1 h1)" by (simp add: write_buf_def)
    note mv = gained_move [OF g b len, of ?h2]
    have "heap_ok (write_buf b1 (contents h b) (own b1 h1))" by (rule write_gained [OF g len])
    then have "heap_ok ?h2" by (rule heap_ok_disown)
    moreover have "take (length (contents h b)) (contents ?h2 b1) = take n (contents h b)" using mv(3) wl len by simp
    ultimately show ?thesis using False m mv wl unfolding std_Realloc_def by simp
  qed
qed

text \<open>The allocator with one pool.\<close>

lemma stretch_put:
  obtains e where "stretch C b n h = put_buf b (mh_arr h b @ e) n h" "n \<le> length (mh_arr h b @ e)" "n \<le> capacity h b \<Longrightarrow> e = []"
proof (cases "capacity h b < n")
  case True
  let ?c = "capacity h b"
  let ?e = "replicate (n - ?c) 0 @ replicate (mc_grow C ?c n - n) 0"
  have "stretch C b n h = put_buf b (mh_arr h b @ ?e) n h"
    using True by (simp add: stretch_def go_append_def set_len_def put_buf_def contents_def capacity_def Let_def)
  then show ?thesis using that [of ?e] True by (simp add: capacity_def)
next
  case False
  then show ?thesis using that [of "[]"] by (simp add: stretch_def set_len_put capacity_def)
qed

lemma pool_get_gained:
  assumes "heap_ok h" "pool_get 0 k c h = (h1, b)"
  shows "gained h (own b (stretch C b n h1)) b n"
proof -
  have t: "taken h h1 b" using pool_get_taken [OF assms] by simp
  obtain e where "stretch C b n h1 = put_buf b (mh_arr h1 b @ e) n h1" "n \<le> length (mh_arr h1 b @ e)" using stretch_put [of C b n h1] by metis
  then show ?thesis using taken_gained [OF t] by simp
qed

lemma mp_Free_law:
  assumes "heap_ok h" "b \<in> mh_live h"
  shows "heap_ok (mp_Free C b h)" "mh_live (mp_Free C b h) = mh_live h - {b}" "contents (mp_Free C b h) = contents h"
  using heap_ok_disown [OF assms(1)] heap_ok_pool_put [OF assms, of 0] by (simp_all add: mp_Free_def Let_def)

interpretation mp: buffer_allocator "mp_Malloc C" "mp_Realloc C" "mp_Append C" "mp_Free C" heap_ok for C
proof unfold_locales
  fix h c b and n :: nat and extra data :: octets
  assume ok: "heap_ok h"
  obtain h1 b1 where m: "pool_get 0 (mc_bufSize C) c h = (h1, b1)" by fastforce
  have g: "gained h (own b1 (stretch C b1 n h1)) b1 n" by (rule pool_get_gained [OF ok m])
  show "\<exists>h' b. mp_Malloc C c (int n) h = Some (h', b) \<and> heap_ok h' \<and> b \<notin> mh_live h \<and> mh_live h' = insert b (mh_live h) \<and>
      length (contents h' b) = n \<and> same_on (mh_live h) h h'"
  proof (cases "n > mc_freeSize C")
    case True
    then have "mp_Malloc C c (int n) h = std_Malloc c (int n) h" by (simp add: mp_Malloc_def std_Malloc_def)
    then show ?thesis using std.malloc_law [OF ok] by metis
  next
    case False
    then show ?thesis using m g by (simp add: mp_Malloc_def gained_def)
  qed
  assume b: "b \<in> mh_live h"
  show "\<exists>h' b'. mp_Append C c b extra h = Some (h', b') \<and> heap_ok h' \<and> b' \<notin> mh_live h - {b} \<and>
      mh_live h' = insert b' (mh_live h - {b}) \<and> contents h' b' = contents h b @ extra \<and> same_on (mh_live h - {b}) h h'"
    using go_append_law [OF ok b, of "mc_grow C" extra] unfolding mp_Append_def by blast
  show "heap_ok (mp_Free C b h) \<and> mh_live (mp_Free C b h) = mh_live h - {b} \<and> same_on (mh_live h - {b}) h (mp_Free C b h)"
    using mp_Free_law [OF ok b, of C] by (simp add: same_on_def)
  show "heap_ok (write_buf b data h) \<and> mh_live (write_buf b data h) = mh_live h \<and> contents (write_buf b data h) b = data \<and>
      same_on (mh_live h - {b}) h (write_buf b data h)" if "length data = length (contents h b)"
    using write_live [OF ok b that] by blast
  show "\<exists>h' b'. mp_Realloc C c b n h = Some (h', b') \<and> heap_ok h' \<and> b' \<notin> mh_live h - {b} \<and>
      mh_live h' = insert b' (mh_live h - {b}) \<and> length (contents h' b') = n \<and>
      take (length (contents h b)) (contents h' b') = take n (contents h b) \<and> same_on (mh_live h - {b}) h h'"
  proof (cases "n \<le> capacity h b")
    case True
    then show ?thesis using shrink_law [OF ok b True] unfolding mp_Realloc_def by auto
  next
    case grow: False
    have len: "length (contents h b) \<le> n" using live_len [OF ok b] grow by simp
    show ?thesis
    proof (cases "capacity h b < mc_freeSize C")
      case True
      let ?h1 = "own b1 (stretch C b1 n h1)"
      let ?h2 = "mp_Free C b (write_buf b1 (contents h b) ?h1)"
      note w = write_gained [OF g len]
      have "b \<in> mh_live (write_buf b1 (contents h b) ?h1)" unfolding w(2) using g b by (simp add: gained_def)
      note f = mp_Free_law [OF w(1) this, of C]
      note mv = gained_move [OF g b len, of ?h2, unfolded f(2,3) w(2), OF refl refl]
      have "mp_Realloc C c b n h = Some (?h2, b1)" using grow True m by (simp add: mp_Realloc_def)
      moreover have "take (length (contents h b)) (contents ?h2 b1) = take n (contents h b)" unfolding f(3) mv(3) using len by simp
      ultimately show ?thesis using f mv w(2) unfolding same_on_def by auto
    next
      case False
      obtain e where e: "stretch C b n h = put_buf b (mh_arr h b @ e) n h" "n \<le> length (mh_arr h b @ e)" using stretch_put [of C b n h] by metis
      note p = put_live [OF ok b e(2,1)]
      have "take (length (contents h b)) (take n (mh_arr h b @ e)) = take n (contents h b)"
        using live_len [OF ok b] len unfolding contents_def by (simp add: capacity_def min_absorb1)
      then show ?thesis using p e(2) grow False unfolding mp_Realloc_def by auto
    qed
  qed
qed

text \<open>The aligned allocator: a pooled buffer has the size of its class, so that slicing it never panics.\<close>

lemma getPoolBySize_bound:
  assumes "n \<le> maxAlignedBufferSize"
  shows "getPoolBySize n < 11" "n \<le> 2 ^ (getPoolBySize n + 5)"
proof -
  have "\<exists>i \<in> set [0..<11]. n \<le> 2 ^ (i + 5)" using assms by (intro bexI [of _ 10]) (simp_all add: maxAlignedBufferSize_def)
  then have "find (\<lambda>i. n \<le> 2 ^ (i + 5)) [0..<11] \<noteq> None" unfolding find_None_iff by blast
  then obtain i where "find (\<lambda>i. n \<le> 2 ^ (i + 5)) [0..<11] = Some i" by auto
  moreover from this have "i < 11" "n \<le> 2 ^ (i + 5)" by (auto simp: find_Some_iff)
  ultimately show "getPoolBySize n < 11" "n \<le> 2 ^ (getPoolBySize n + 5)" by (simp_all add: getPoolBySize_def)
qed

lemma getPoolBySize_class: "i < 11 \<Longrightarrow> getPoolBySize (2 ^ (i + 5)) = i"
proof -
  assume "i < 11"
  then have "find (\<lambda>j. (2 :: nat) ^ (i + 5) \<le> 2 ^ (j + 5)) [0..<11] = Some i"
    unfolding find_Some_iff by (intro exI [of _ i]) (auto simp: not_le)
  then show ?thesis unfolding getPoolBySize_def by simp
qed

lemma aligned_okD: "aligned_ok h \<Longrightarrow> heap_ok h"
  by (simp add: aligned_ok_def)

text \<open>Steps that keep capacities keep the invariant.\<close>

lemma aligned_ok_put: "aligned_ok h \<Longrightarrow> n \<le> length a \<Longrightarrow> length a = capacity h b \<Longrightarrow> aligned_ok (put_buf b a n h)"
  using heap_ok_put [of h n a b] unfolding aligned_ok_def by simp

lemma aligned_gained:
  assumes "aligned_ok h" "gained h h1 b n" "capacity h1 b > maxAlignedBufferSize \<or> (\<exists>i < 11. capacity h1 b = 2 ^ (i + 5))" "\<And>i. b \<notin> mh_pool h1 i"
  shows "aligned_ok h1"
proof -
  have cap: "capacity h1 x = capacity h x" if "x \<noteq> b" for x using assms(2) that by (simp add: gained_def)
  have "capacity h1 x = 2 ^ (i + 5)" if "x \<in> mh_pool h1 i" for x i
  proof -
    have "x \<noteq> b" "x \<in> mh_pool h i" using that assms(2,4) by (auto simp: gained_def)
    then show ?thesis using cap assms(1) by (simp add: aligned_ok_def)
  qed
  moreover have "capacity h1 x > maxAlignedBufferSize \<or> (\<exists>i < 11. capacity h1 x = 2 ^ (i + 5))" if "x \<in> mh_live h1" for x
    using that assms(1,2,3) cap by (cases "x = b") (auto simp: gained_def aligned_ok_def)
  moreover have "heap_ok h1" using assms(2) by (simp add: gained_def)
  ultimately show ?thesis unfolding aligned_ok_def by blast
qed

lemma aligned_Malloc_law:
  assumes "aligned_ok h"
  shows "\<exists>h' b. aligned_Malloc c (int n) h = Some (h', b) \<and> aligned_ok h' \<and> gained h h' b n"
proof (cases "n \<le> maxAlignedBufferSize")
  case True
  let ?i = "getPoolBySize n"
  obtain h1 b where g: "pool_get ?i (2 ^ (?i + 5)) c h = (h1, b)" by fastforce
  note t = pool_get_taken [OF aligned_okD [OF assms] g]
  have cap: "capacity h1 b = 2 ^ (?i + 5)" using t assms by (auto simp: aligned_ok_def)
  have n: "n \<le> length (mh_arr h1 b)" using getPoolBySize_bound(2) [OF True] cap by (simp add: capacity_def)
  have gained: "gained h (own b (set_len b n h1)) b n" unfolding set_len_put using taken_gained [OF _ n] t by simp
  moreover have "aligned_ok (own b (set_len b n h1))"
    by (rule aligned_gained [OF assms gained]) (use t cap getPoolBySize_bound(1) [OF True] in \<open>auto simp: set_len_put taken_def capacity_def\<close>)
  moreover have "aligned_Malloc c (int n) h = Some (own b (set_len b n h1), b)" using True g n by (simp add: aligned_Malloc_def Let_def capacity_def)
  ultimately show ?thesis by blast
next
  case False
  obtain h1 b where m: "make_buf n h = (h1, b)" by fastforce
  note t = make_buf_taken [OF aligned_okD [OF assms] m]
  have id: "own b h1 = own b (put_buf b (mh_arr h1 b) n h1)" using t(4) by (simp add: put_buf_def own_def fun_upd_idem)
  have gained: "gained h (own b h1) b n" unfolding id by (rule taken_gained [OF t(1)]) (use t(2) in \<open>simp add: capacity_def\<close>)
  moreover have "aligned_ok (own b h1)" by (rule aligned_gained [OF assms gained]) (use t False in \<open>auto simp: taken_def\<close>)
  moreover have "aligned_Malloc c (int n) h = Some (own b h1, b)" using False m by (simp add: aligned_Malloc_def)
  ultimately show ?thesis by blast
qed

lemma aligned_Free_law:
  assumes "aligned_ok h" "b \<in> mh_live h"
  shows "aligned_ok (aligned_Free b h)" "mh_live (aligned_Free b h) = mh_live h - {b}" "contents (aligned_Free b h) = contents h"
proof -
  show "mh_live (aligned_Free b h) = mh_live h - {b}" "contents (aligned_Free b h) = contents h" by (simp_all add: aligned_Free_def Let_def)
  show "aligned_ok (aligned_Free b h)"
  proof (cases "capacity h b mod 32 \<noteq> 0 \<or> capacity h b > maxAlignedBufferSize")
    case True
    then show ?thesis using assms(1) heap_ok_disown [OF aligned_okD [OF assms(1)], of b] by (auto simp: aligned_Free_def Let_def aligned_ok_def)
  next
    case False
    then obtain i where i: "i < 11" "capacity h b = 2 ^ (i + 5)" using assms by (auto simp: aligned_ok_def)
    have c: "getPoolBySize (capacity h b) = i" using getPoolBySize_class i by simp
    have "aligned_Free b h = pool_put i b (disown b h)" using False unfolding aligned_Free_def Let_def c by simp
    moreover have "heap_ok (pool_put i b (disown b h))" by (rule heap_ok_pool_put [OF aligned_okD [OF assms(1)] assms(2)])
    moreover have "capacity (pool_put i b (disown b h)) x = 2 ^ (j + 5)" if "x \<in> mh_pool (pool_put i b (disown b h)) j" for x j
      using that assms(1) i by (cases "j = i") (auto simp: aligned_ok_def)
    ultimately show ?thesis using assms(1) unfolding aligned_ok_def by simp
  qed
qed

lemma aligned_move:
  assumes "aligned_ok h" "b \<in> mh_live h" "length data \<le> n" "length (contents h b) \<le> n"
  shows "\<exists>h1 b'. aligned_Malloc c (int n) h = Some (h1, b') \<and> aligned_ok (aligned_Free b (write_buf b' data h1)) \<and> b' \<notin> mh_live h - {b} \<and>
    mh_live (aligned_Free b (write_buf b' data h1)) = insert b' (mh_live h - {b}) \<and> same_on (mh_live h - {b}) h (aligned_Free b (write_buf b' data h1)) \<and>
    length (contents (aligned_Free b (write_buf b' data h1)) b') = n \<and> take (length data) (contents (aligned_Free b (write_buf b' data h1)) b') = data"
proof -
  obtain h1 b' where m: "aligned_Malloc c (int n) h = Some (h1, b')" "aligned_ok h1" "gained h h1 b' n" using aligned_Malloc_law [OF assms(1)] by blast
  let ?w = "write_buf b' data h1"
  note w = write_gained [OF m(3) assms(3)]
  have "length (contents h1 b') = n" "b' \<in> mh_live h1" using m(3) by (simp_all add: gained_def)
  then have l: "mh_len h1 b' \<le> length (mh_arr h1 b')" "mh_len h1 b' = n" using live_len [OF aligned_okD [OF m(2)], of b'] by (simp_all add: capacity_def)
  have ok: "aligned_ok ?w" unfolding write_buf_put by (rule aligned_ok_put [OF m(2)]) (use l assms(3) in \<open>simp_all add: capacity_def\<close>)
  have "b \<in> mh_live ?w" unfolding w(2) using m(3) assms(2) by (simp add: gained_def)
  note f = aligned_Free_law [OF ok this]
  note mv = gained_move [OF m(3) assms(2,3), of "aligned_Free b ?w", unfolded f(2,3) w(2), OF refl refl]
  have same: "same_on (mh_live h - {b}) h (aligned_Free b ?w)" unfolding same_on_def
  proof
    fix x assume x: "x \<in> mh_live h - {b}"
    then have "x \<noteq> b'" using m(3) by (auto simp: gained_def)
    then show "contents (aligned_Free b ?w) x = contents h x" unfolding f(3) using x m(3) by (simp add: write_buf_put gained_def same_on_def)
  qed
  show ?thesis
  proof (intro exI conjI)
    show "aligned_Malloc c (int n) h = Some (h1, b')" by (rule m(1))
    show "take (length data) (contents (aligned_Free b ?w) b') = data" unfolding f(3) mv(3) by simp
  qed (use f mv same w(2) in simp_all)
qed

interpretation aligned: buffer_allocator aligned_Malloc aligned_Realloc aligned_Append aligned_Free aligned_ok
proof unfold_locales
  fix h c b and n :: nat and extra data :: octets
  assume ok: "aligned_ok h"
  note hok = aligned_okD [OF ok]
  show "\<exists>h' b. aligned_Malloc c (int n) h = Some (h', b) \<and> aligned_ok h' \<and> b \<notin> mh_live h \<and> mh_live h' = insert b (mh_live h) \<and>
      length (contents h' b) = n \<and> same_on (mh_live h) h h'"
    using aligned_Malloc_law [OF ok, of c n] unfolding gained_def by blast
  assume b: "b \<in> mh_live h"
  note len = live_len [OF hok b]
  show "aligned_ok (aligned_Free b h) \<and> mh_live (aligned_Free b h) = mh_live h - {b} \<and> same_on (mh_live h - {b}) h (aligned_Free b h)"
    using aligned_Free_law [OF ok b] by (simp add: same_on_def)
  show "aligned_ok (write_buf b data h) \<and> mh_live (write_buf b data h) = mh_live h \<and> contents (write_buf b data h) b = data \<and>
      same_on (mh_live h - {b}) h (write_buf b data h)" if d: "length data = length (contents h b)"
  proof -
    have "aligned_ok (write_buf b data h)" unfolding write_buf_put
      by (rule aligned_ok_put [OF ok]) (use len d in \<open>simp_all add: capacity_def\<close>)
    then show ?thesis using write_live [OF hok b d] by blast
  qed
  show "\<exists>h' b'. aligned_Append c b extra h = Some (h', b') \<and> aligned_ok h' \<and> b' \<notin> mh_live h - {b} \<and>
      mh_live h' = insert b' (mh_live h - {b}) \<and> contents h' b' = contents h b @ extra \<and> same_on (mh_live h - {b}) h h'"
  proof (cases "capacity h b - mh_len h b \<ge> length extra")
    case True
    obtain a where a: "go_append (\<lambda>c n. n) b extra h = put_buf b a (mh_len h b + length extra) h" "mh_len h b + length extra \<le> length a" "length a = capacity h b"
      using go_append_put [of h b "\<lambda>c n. n" extra] len True by (metis le_diff_conv2 add.commute)
    have "aligned_ok (go_append (\<lambda>c n. n) b extra h)" unfolding a(1) by (rule aligned_ok_put [OF ok a(2,3)])
    then show ?thesis using True go_append_law [OF hok b, of "\<lambda>c n. n" extra] unfolding aligned_Append_def by auto
  next
    case False
    let ?n = "mh_len h b + length extra"
    have "length (contents h b @ extra) = ?n" using len by simp
    then obtain h1 b' where m: "aligned_Malloc c (int ?n) h = Some (h1, b')" "aligned_ok (aligned_Free b (write_buf b' (contents h b @ extra) h1))" "b' \<notin> mh_live h - {b}"
        "mh_live (aligned_Free b (write_buf b' (contents h b @ extra) h1)) = insert b' (mh_live h - {b})" "same_on (mh_live h - {b}) h (aligned_Free b (write_buf b' (contents h b @ extra) h1))"
        "length (contents (aligned_Free b (write_buf b' (contents h b @ extra) h1)) b') = ?n"
        "take ?n (contents (aligned_Free b (write_buf b' (contents h b @ extra) h1)) b') = contents h b @ extra"
      using aligned_move [OF ok b, of "contents h b @ extra" ?n c] by fastforce
    then have "contents (aligned_Free b (write_buf b' (contents h b @ extra) h1)) b' = contents h b @ extra" by simp
    then show ?thesis using False m unfolding aligned_Append_def by simp
  qed
  show "\<exists>h' b'. aligned_Realloc c b n h = Some (h', b') \<and> aligned_ok h' \<and> b' \<notin> mh_live h - {b} \<and>
      mh_live h' = insert b' (mh_live h - {b}) \<and> length (contents h' b') = n \<and>
      take (length (contents h b)) (contents h' b') = take n (contents h b) \<and> same_on (mh_live h - {b}) h h'"
  proof (cases "n \<le> capacity h b")
    case True
    have "aligned_ok (set_len b n h)" unfolding set_len_put by (rule aligned_ok_put [OF ok]) (use True in \<open>simp_all add: capacity_def\<close>)
    then show ?thesis using shrink_law [OF hok b True] True unfolding aligned_Realloc_def by auto
  next
    case False
    then have n: "length (contents h b) \<le> n" using len by simp
    obtain h1 b' where "aligned_Malloc c (int n) h = Some (h1, b')" "aligned_ok (aligned_Free b (write_buf b' (contents h b) h1))" "b' \<notin> mh_live h - {b}"
        "mh_live (aligned_Free b (write_buf b' (contents h b) h1)) = insert b' (mh_live h - {b})" "same_on (mh_live h - {b}) h (aligned_Free b (write_buf b' (contents h b) h1))"
        "length (contents (aligned_Free b (write_buf b' (contents h b) h1)) b') = n"
        "take (length (contents h b)) (contents (aligned_Free b (write_buf b' (contents h b) h1)) b') = contents h b"
      using aligned_move [OF ok b n n, of c] by blast
    then show ?thesis using False n unfolding aligned_Realloc_def by simp
  qed
qed

end
