(* ===== verification/WsReadAll.thy ===== *)
theory WsReadAll
  imports MempoolLaws
begin

text \<open>
  \<open>readAll\<close> of \<open>nbhttp/websocket/conn.go\<close>, which reads a decompressed message into a buffer of the body allocator and makes the buffer larger as
  needed, up to the message length limit. The decompressor is the reader \<open>R\<close>: given its state and the room in the buffer, it returns bytes, an error
  (\<open>io.EOF\<close> at the end) and its next state. \<open>pick\<close> is the runtime's choice of pooled buffers.
\<close>

datatype 'e read_err = REof | RErr 'e

type_synonym ('s, 'e) byte_reader = "'s \<Rightarrow> nat \<Rightarrow> octets \<times> 'e read_err option \<times> 's"

definition maxAppendSize :: nat where
  "maxAppendSize = 1024 * 1024 * 4"

definition too_large :: "int \<Rightarrow> nat \<Rightarrow> bool" where
  "too_large limit n \<longleftrightarrow> 0 < limit \<and> int n > limit"

text \<open>By how much the buffer is extended.\<close>

definition extend_by :: "int \<Rightarrow> nat \<Rightarrow> nat" where
  "extend_by limit l = (let al = min l maxAppendSize in if 0 < limit \<and> int (l + al) > limit then nat (limit - int l) else al)"

partial_function (option) read_more ::
  "mem_funs \<Rightarrow> (mheap \<Rightarrow> nat option) \<Rightarrow> int \<Rightarrow> ('s, 'e) byte_reader \<Rightarrow> nat \<Rightarrow> 's \<Rightarrow> mheap \<Rightarrow> (mheap \<times> (nat \<times> 'e option) option) option" where
  "read_more A pick limit R b s h =
     (case R s (capacity h b - mh_len h b) of
        (data, err, s) \<Rightarrow>
          (let h = go_append (\<lambda>c n. n) b data h in
           case err of
             Some REof \<Rightarrow> Some (h, Some (b, None))
           | Some (RErr e) \<Rightarrow> Some (h, Some (b, Some e))
           | None \<Rightarrow>
               (let l = mh_len h b in
                if l = capacity h b then
                  if too_large limit (l + 1) then Some (h, None)
                  else
                    (case mf_append A (pick h) b (replicate (extend_by limit l) 0) h of
                       None \<Rightarrow> None
                     | Some (h, b) \<Rightarrow> read_more A pick limit R b s (set_len b l h))
                else read_more A pick limit R b s h)))"

declare read_more.simps [code]

definition readAll :: "mem_funs \<Rightarrow> (mheap \<Rightarrow> nat option) \<Rightarrow> int \<Rightarrow> ('s, 'e) byte_reader \<Rightarrow> 's \<Rightarrow> nat \<Rightarrow> mheap \<Rightarrow> (mheap \<times> (nat \<times> 'e option) option) option" where
  "readAll A pick limit R s n h =
     (let n = (if 0 < limit \<and> int n > limit then nat limit else n) in
      case mf_malloc A (pick h) (int n) h of
        None \<Rightarrow> None
      | Some (h, b) \<Rightarrow> read_more A pick limit R b s (set_len b 0 h))"

text \<open>What is known of the decompressor: \<open>out\<close> is all it still has to give, and with room it gives all of it after finitely many reads.\<close>

definition source_ok :: "('s, 'e) byte_reader \<Rightarrow> ('s \<Rightarrow> octets) \<Rightarrow> ('s \<Rightarrow> nat) \<Rightarrow> bool" where
  "source_ok R out m \<longleftrightarrow> (\<forall>s room d err s'. R s room = (d, err, s') \<longrightarrow>
     length d \<le> room \<and> out s = d @ (if err = None then out s' else []) \<and> (err = None \<and> 0 < room \<longrightarrow> m s' < m s))"

text \<open>What the loop returns: a buffer with every byte, beside the set \<open>D\<close> of the others, or nothing because the message reaches the limit.\<close>

definition read_result :: "int \<Rightarrow> nat set \<Rightarrow> octets \<Rightarrow> mheap \<Rightarrow> (nat \<times> 'e option) option \<Rightarrow> bool" where
  "read_result limit D bs h r = (case r of
     Some (b, err) \<Rightarrow> b \<notin> D \<and> mh_live h = insert b D \<and> contents h b = bs
   | None \<Rightarrow> 0 < limit \<and> limit \<le> int (length bs))"

text \<open>An allocator whose buffers may be changed in place.\<close>

locale buffer_allocator_inplace = buffer_allocator +
  assumes len_law: "ok h \<Longrightarrow> b \<in> mh_live h \<Longrightarrow> mh_len h b \<le> capacity h b"
    and put_law: "ok h \<Longrightarrow> b \<in> mh_live h \<Longrightarrow> n \<le> capacity h b \<Longrightarrow> length a = capacity h b \<Longrightarrow> ok (put_buf b a n h)"
    and room_law: "ok h \<Longrightarrow> malloc c (int n) h = Some (h', b) \<Longrightarrow> n \<le> capacity h' b"
begin

lemma fill_law:
  assumes "ok h" "b \<in> mh_live h" "mh_len h b + length d \<le> capacity h b"
  shows "ok (go_append (\<lambda>c n. n) b d h)" "mh_live (go_append (\<lambda>c n. n) b d h) = mh_live h" "contents (go_append (\<lambda>c n. n) b d h) b = contents h b @ d"
    "same_on (mh_live h - {b}) h (go_append (\<lambda>c n. n) b d h)" "mh_len (go_append (\<lambda>c n. n) b d h) b = mh_len h b + length d" "capacity (go_append (\<lambda>c n. n) b d h) b = capacity h b"
proof -
  obtain a where a: "go_append (\<lambda>c n. n) b d h = put_buf b a (mh_len h b + length d) h" "take (mh_len h b + length d) a = contents h b @ d" "length a = capacity h b"
    using go_append_put [of h b "\<lambda>c n. n" d] len_law [OF assms(1,2)] assms(3) by metis
  show "ok (go_append (\<lambda>c n. n) b d h)" unfolding a(1) using put_law [OF assms a(3)] .
  show "mh_live (go_append (\<lambda>c n. n) b d h) = mh_live h" "contents (go_append (\<lambda>c n. n) b d h) b = contents h b @ d"
    "same_on (mh_live h - {b}) h (go_append (\<lambda>c n. n) b d h)" "mh_len (go_append (\<lambda>c n. n) b d h) b = mh_len h b + length d" "capacity (go_append (\<lambda>c n. n) b d h) b = capacity h b"
    unfolding a(1) using a(2,3) by (simp_all add: same_on_def)
qed

lemma cut_law:
  assumes "ok h" "b \<in> mh_live h" "n \<le> length (contents h b)"
  shows "ok (set_len b n h)" "mh_live (set_len b n h) = mh_live h" "contents (set_len b n h) b = take n (contents h b)" "same_on (mh_live h - {b}) h (set_len b n h)"
    "capacity (set_len b n h) b = capacity h b" "mh_len (set_len b n h) b = n"
proof -
  have l: "n \<le> mh_len h b" "n \<le> capacity h b" using assms(3) by (simp_all add: contents_def capacity_def)
  show "ok (set_len b n h)" unfolding set_len_put by (rule put_law [OF assms(1,2) l(2)]) (simp add: capacity_def)
  show "mh_live (set_len b n h) = mh_live h" "contents (set_len b n h) b = take n (contents h b)" "same_on (mh_live h - {b}) h (set_len b n h)"
    "capacity (set_len b n h) b = capacity h b" "mh_len (set_len b n h) b = n"
    unfolding set_len_put using l by (simp_all add: same_on_def contents_def capacity_def min_absorb1)
qed

end

lemma extend_by_pos: "0 < l \<Longrightarrow> \<not> too_large limit (l + 1) \<Longrightarrow> 0 < extend_by limit l"
  by (auto simp: extend_by_def too_large_def maxAppendSize_def Let_def)

lemma same_on_trans: "same_on D h h1 \<Longrightarrow> same_on D h1 h2 \<Longrightarrow> same_on D h h2"
  by (simp add: same_on_def)

context buffer_allocator_inplace
begin

lemma read_more_ok:
  assumes src: "source_ok R out m"
  shows "ok h \<Longrightarrow> b \<in> mh_live h \<Longrightarrow> mh_len h b < capacity h b \<Longrightarrow>
    \<exists>h' r. read_more \<lparr>mf_malloc = malloc, mf_realloc = realloc, mf_append = append_buf, mf_free = free\<rparr> pick limit R b s h = Some (h', r) \<and> ok h' \<and>
      same_on (mh_live h - {b}) h h' \<and> read_result limit (mh_live h - {b}) (contents h b @ out s) h' r"
proof (induction "m s" arbitrary: h b s rule: less_induct)
  case less
  let ?A = "\<lparr>mf_malloc = malloc, mf_realloc = realloc, mf_append = append_buf, mf_free = free\<rparr>" and ?D = "mh_live h - {b}"
  obtain d err s' where R: "R s (capacity h b - mh_len h b) = (d, err, s')" by (metis prod_cases3)
  have d: "length d \<le> capacity h b - mh_len h b" "out s = d @ (if err = None then out s' else [])" "err = None \<longrightarrow> m s' < m s"
    using src R less.prems(3) unfolding source_ok_def by (metis zero_less_diff)+
  let ?h = "go_append (\<lambda>c n. n) b d h"
  have room: "mh_len h b + length d \<le> capacity h b" using d(1) less.prems(3) by simp
  note f = fill_law [OF less.prems(1,2) room]
  have b: "b \<in> mh_live ?h" "b \<notin> ?D" "mh_live ?h = insert b ?D" using f(2) less.prems(2) by auto
  note step = read_more.simps [of ?A pick limit R b s h, unfolded R prod.case Let_def]
  show ?case
  proof (cases err)
    case (Some e)
    then have "contents ?h b = contents h b @ out s" using f(3) d(2) by simp
    then show ?thesis using Some f b unfolding step by (cases e) (auto simp: read_result_def)
  next
    case None
    let ?l = "mh_len ?h b"
    have len: "length (contents ?h b) = ?l" using f(5,6) room by (simp add: contents_def capacity_def)
    have out: "contents ?h b @ out s' = contents h b @ out s" using f(3) d(2) None by simp
    have lo: "length (contents h b @ out s) = ?l + length (out s')" using len by (simp flip: out)
    show ?thesis
    proof (cases "?l = capacity ?h b")
      case False
      then have "?l < capacity ?h b" using len_law [OF f(1) b(1)] by simp
      from less.hyps [OF _ f(1) b(1) this, of s'] obtain h' r where r:
          "read_more ?A pick limit R b s' ?h = Some (h', r)" "ok h'" "same_on (mh_live ?h - {b}) ?h h'" "read_result limit (mh_live ?h - {b}) (contents ?h b @ out s') h' r"
        using d(3) None by blast
      have "mh_live ?h - {b} = ?D" using f(2) by simp
      then show ?thesis using r None False same_on_trans [OF f(4)] unfolding step out by simp
    next
      case full: True
      show ?thesis
      proof (cases "too_large limit (?l + 1)")
        case True
        then have "0 < limit \<and> limit \<le> int (length (contents h b @ out s))" using lo unfolding too_large_def by simp
        then show ?thesis using None full True f(1,4) unfolding step by (auto simp: read_result_def)
      next
        case False
        let ?e = "extend_by limit ?l"
        have e: "0 < ?e" using extend_by_pos [OF _ False] full f(6) less.prems(3) by simp
        obtain h2 b2 where a: "append_buf (pick ?h) b (replicate ?e 0) ?h = Some (h2, b2)" "ok h2" "b2 \<notin> mh_live ?h - {b}" "mh_live h2 = insert b2 (mh_live ?h - {b})"
            "contents h2 b2 = contents ?h b @ replicate ?e 0" "same_on (mh_live ?h - {b}) ?h h2"
          using append_law [OF f(1) b(1), of "pick ?h" "replicate ?e 0"] by blast
        have b2: "b2 \<in> mh_live h2" "?l \<le> length (contents h2 b2)" "length (contents h2 b2) = ?l + ?e" using a(4,5) len by simp_all
        let ?h3 = "set_len b2 ?l h2"
        note c = cut_law [OF a(2) b2(1,2)]
        have c3: "contents ?h3 b2 = contents ?h b" using c(3) a(5) len by simp
        have "?l + ?e \<le> capacity h2 b2" using b2(3) by (simp add: contents_def capacity_def)
        then have "mh_len ?h3 b2 < capacity ?h3 b2" using c(5,6) e by simp
        from less.hyps [OF _ c(1) _ this, of s'] obtain h' r where r:
            "read_more ?A pick limit R b2 s' ?h3 = Some (h', r)" "ok h'" "same_on (mh_live ?h3 - {b2}) ?h3 h'" "read_result limit (mh_live ?h3 - {b2}) (contents ?h3 b2 @ out s') h' r"
          using d(3) None c(2) b2(1) by blast
        have D: "mh_live ?h3 - {b2} = ?D" "mh_live h2 - {b2} = ?D" "mh_live ?h - {b} = ?D" using c(2) a(3,4) f(2) by auto
        have "same_on ?D h h'" using f(4) a(6) c(4) r(3) unfolding D by (auto simp: same_on_def)
        then show ?thesis using r None full False a(1) unfolding step c3 out D(1) by simp
      qed
    qed
  qed
qed

lemma readAll_ok:
  assumes "source_ok R out m" "ok h" "0 < n"
  shows "\<exists>h' r. readAll \<lparr>mf_malloc = malloc, mf_realloc = realloc, mf_append = append_buf, mf_free = free\<rparr> pick limit R s n h = Some (h', r) \<and> ok h' \<and>
    same_on (mh_live h) h h' \<and> read_result limit (mh_live h) (out s) h' r"
proof -
  define k where "k = (if 0 < limit \<and> int n > limit then nat limit else n)"
  have k: "0 < k" using assms(3) by (auto simp: k_def)
  obtain h1 b where a: "malloc (pick h) (int k) h = Some (h1, b)" "ok h1" "b \<notin> mh_live h" "mh_live h1 = insert b (mh_live h)" "length (contents h1 b) = k" "same_on (mh_live h) h h1"
    using malloc_law [OF assms(2), of "pick h" k] by blast
  have b: "b \<in> mh_live h1" "0 \<le> length (contents h1 b)" using a(4) by simp_all
  note c = cut_law [OF a(2) b]
  have "mh_len (set_len b 0 h1) b < capacity (set_len b 0 h1) b" using room_law [OF assms(2) a(1)] k c(5,6) by simp
  moreover have "b \<in> mh_live (set_len b 0 h1)" using c(2) b(1) by simp
  ultimately obtain h' r where r: "read_more \<lparr>mf_malloc = malloc, mf_realloc = realloc, mf_append = append_buf, mf_free = free\<rparr> pick limit R b s (set_len b 0 h1) = Some (h', r)"
      "ok h'" "same_on (mh_live (set_len b 0 h1) - {b}) (set_len b 0 h1) h'" "read_result limit (mh_live (set_len b 0 h1) - {b}) (contents (set_len b 0 h1) b @ out s) h' r"
    using read_more_ok [OF assms(1) c(1)] by blast
  have D: "mh_live (set_len b 0 h1) - {b} = mh_live h" "mh_live h1 - {b} = mh_live h" using c(2) a(3,4) by auto
  have "same_on (mh_live h) h h'" using a(6) c(4) r(3) unfolding D by (auto simp: same_on_def)
  moreover have "contents (set_len b 0 h1) b @ out s = out s" using c(3) by simp
  ultimately show ?thesis using r a(1) unfolding readAll_def D k_def [symmetric] Let_def by simp
qed

end

interpretation std_in: buffer_allocator_inplace std_Malloc std_Realloc "std_Append grow" std_Free heap_ok for grow
proof unfold_locales
  fix h b n a c h'
  show "heap_ok h \<Longrightarrow> b \<in> mh_live h \<Longrightarrow> mh_len h b \<le> capacity h b" using live_len by blast
  show "heap_ok h \<Longrightarrow> b \<in> mh_live h \<Longrightarrow> n \<le> capacity h b \<Longrightarrow> length a = capacity h b \<Longrightarrow> heap_ok (put_buf b a n h)" using heap_ok_put by simp
  show "heap_ok h \<Longrightarrow> std_Malloc c (int n) h = Some (h', b) \<Longrightarrow> n \<le> capacity h' b"
    by (auto simp: std_Malloc_def make_buf_def own_def capacity_def)
qed

interpretation mp_in: buffer_allocator_inplace "mp_Malloc C" "mp_Realloc C" "mp_Append C" "mp_Free C" heap_ok for C
proof unfold_locales
  fix h b n a c h'
  show "heap_ok h \<Longrightarrow> b \<in> mh_live h \<Longrightarrow> mh_len h b \<le> capacity h b" using live_len by blast
  show "heap_ok h \<Longrightarrow> b \<in> mh_live h \<Longrightarrow> n \<le> capacity h b \<Longrightarrow> length a = capacity h b \<Longrightarrow> heap_ok (put_buf b a n h)" using heap_ok_put by simp
  assume "heap_ok h" "mp_Malloc C c (int n) h = Some (h', b)"
  then show "n \<le> capacity h' b" using mp.malloc_law [of h C c n] by (auto simp: contents_def capacity_def)
qed

interpretation aligned_in: buffer_allocator_inplace aligned_Malloc aligned_Realloc aligned_Append aligned_Free aligned_ok
proof unfold_locales
  fix h b n a c h'
  show "aligned_ok h \<Longrightarrow> b \<in> mh_live h \<Longrightarrow> mh_len h b \<le> capacity h b" using live_len aligned_okD by blast
  show "aligned_ok h \<Longrightarrow> b \<in> mh_live h \<Longrightarrow> n \<le> capacity h b \<Longrightarrow> length a = capacity h b \<Longrightarrow> aligned_ok (put_buf b a n h)" using aligned_ok_put by simp
  assume "aligned_ok h" "aligned_Malloc c (int n) h = Some (h', b)"
  then show "n \<le> capacity h' b" using aligned.malloc_law [of h c n] by (auto simp: contents_def capacity_def)
qed

end
