(* ===== verification/MempoolProps.thy ===== *)
theory MempoolProps
  imports WsReadAll
begin

text \<open>Properties of the buffer allocators.\<close>

definition aligned_funs :: mem_funs where
  "aligned_funs = \<lparr>mf_malloc = aligned_Malloc, mf_realloc = aligned_Realloc, mf_append = aligned_Append, mf_free = aligned_Free\<rparr>"

definition mp_funs :: "mempool_conf \<Rightarrow> mem_funs" where
  "mp_funs C = \<lparr>mf_malloc = mp_Malloc C, mf_realloc = mp_Realloc C, mf_append = mp_Append C, mf_free = mp_Free C\<rparr>"

definition std_funs :: "(nat \<Rightarrow> nat \<Rightarrow> nat) \<Rightarrow> mem_funs" where
  "std_funs grow = \<lparr>mf_malloc = std_Malloc, mf_realloc = std_Realloc, mf_append = std_Append grow, mf_free = std_Free\<rparr>"

definition mem_start :: "(nat \<rightharpoonup> nat) \<times> mheap" where
  "mem_start = (Map.empty, empty_mheap)"

lemma mem_start_ok: "heap_ok empty_mheap" "aligned_ok empty_mheap" "names_ok Map.empty empty_mheap" "mem_view (Map.empty, empty_mheap) = Map.empty"
  by (simp_all add: heap_ok_def aligned_ok_def empty_mheap_def names_ok_def mem_view_def fun_eq_iff)

text \<open>
  C28: The three allocators implement independent buffers. A program that makes, extends, cuts and frees buffers under names of its own,
  using a name only between making and freeing it, never panics, and each of its buffers has at every moment the bytes the program put into
  it, whichever freed buffer the pool hands out again, however \<open>append\<close> grows an array, and however many buffers share the pool.
\<close>
theorem allocators_refine_strings:
  assumes "str_run (map snd ops) Map.empty = Some v"
  shows "(\<exists>s. mem_run aligned_funs ops mem_start = Some s \<and> mem_view s = v) \<and>
    (\<exists>s. mem_run (mp_funs C) ops mem_start = Some s \<and> mem_view s = v) \<and> (\<exists>s. mem_run (std_funs grow) ops mem_start = Some s \<and> mem_view s = v)"
  using aligned.run_refines [OF mem_start_ok(2,3), of ops v] mp.run_refines [OF mem_start_ok(1,3), of ops v C] std.run_refines [OF mem_start_ok(1,3), of ops v grow] assms
  unfolding mem_start_ok(4) aligned_funs_def mp_funs_def std_funs_def mem_start_def by blast

theorem allocators_refine_strings_witness:
  "let ops = [(None, MMake 0 [1, 2]), (None, MFree 0), (Some 0, MMake 1 [3]), (None, MMake 2 []), (None, MAppend 1 [4, 5]), (None, MCut 1 2)] in
   (\<exists>s. mem_run aligned_funs ops mem_start = Some s \<and> mem_view s = [1 \<mapsto> [3, 4], 2 \<mapsto> []]) \<and>
   (\<exists>s. mem_run (mp_funs (New 64 0 (\<lambda>c n. 2 * n))) ops mem_start = Some s \<and> mem_view s = [1 \<mapsto> [3, 4], 2 \<mapsto> []]) \<and>
   (\<exists>s. mem_run (std_funs (\<lambda>c n. n)) ops mem_start = Some s \<and> mem_view s = [1 \<mapsto> [3, 4], 2 \<mapsto> []])"
proof -
  let ?ops = "[(None, MMake 0 [1, 2]), (None, MFree 0), (Some 0, MMake 1 [3]), (None, MMake 2 []), (None, MAppend 1 [4, 5]), (None, MCut 1 2)]"
  have "str_run (map snd ?ops) Map.empty = Some [1 \<mapsto> [3, 4], 2 \<mapsto> []]" by (simp add: fun_eq_iff)
  from allocators_refine_strings [OF this, of "New 64 0 (\<lambda>c n. 2 * n)" "\<lambda>c n. n"] show ?thesis unfolding Let_def .
qed

text \<open>
  C38: Reading a decompressed message, over each of the three allocators. If the decompressor ends, \<open>readAll\<close> returns; the buffer it returns has
  exactly the decompressed bytes, or those up to the decompressor's error, and is a new one; no other buffer changes; and it refuses a message only if
  it has at least \<open>MessageLengthLimit\<close> bytes.
\<close>
theorem readAll_bytes:
  assumes "source_ok R out m" "heap_ok h" "aligned_ok h'" "0 < n"
  shows "(\<exists>h1 r. readAll (mp_funs C) pick limit R s n h = Some (h1, r) \<and> same_on (mh_live h) h h1 \<and> read_result limit (mh_live h) (out s) h1 r) \<and>
    (\<exists>h1 r. readAll (std_funs grow) pick limit R s n h = Some (h1, r) \<and> same_on (mh_live h) h h1 \<and> read_result limit (mh_live h) (out s) h1 r) \<and>
    (\<exists>h1 r. readAll aligned_funs pick limit R s n h' = Some (h1, r) \<and> same_on (mh_live h') h' h1 \<and> read_result limit (mh_live h') (out s) h1 r)"
  using mp_in.readAll_ok [OF assms(1,2,4), of C pick limit s] std_in.readAll_ok [OF assms(1,2,4), of grow pick limit s]
    aligned_in.readAll_ok [OF assms(1,3,4), of pick limit s]
  unfolding mp_funs_def std_funs_def aligned_funs_def by blast

definition list_reader :: "(octets, string) byte_reader" where
  "list_reader s room = (take room s, if length s \<le> room then Some REof else None, drop room s)"

lemma list_reader_ok: "source_ok list_reader (\<lambda>s. s) length"
  by (auto simp: source_ok_def list_reader_def split: if_splits)

theorem readAll_bytes_witness:
  "(\<exists>h1 r. readAll (mp_funs (New 4 8 (\<lambda>c n. n))) (\<lambda>h. None) 10 list_reader [1, 2, 3, 4, 5, 6] 2 empty_mheap = Some (h1, r) \<and> read_result 10 {} [1, 2, 3, 4, 5, 6] h1 r) \<and>
   (\<exists>h1 r. readAll (std_funs (\<lambda>c n. n)) (\<lambda>h. None) 10 list_reader [1, 2, 3, 4, 5, 6] 2 empty_mheap = Some (h1, r) \<and> read_result 10 {} [1, 2, 3, 4, 5, 6] h1 r) \<and>
   (\<exists>h1 r. readAll aligned_funs (\<lambda>h. None) 10 list_reader [1, 2, 3, 4, 5, 6] 2 empty_mheap = Some (h1, r) \<and> read_result 10 {} [1, 2, 3, 4, 5, 6] h1 r)"
proof -
  have "mh_live empty_mheap = {}" "(0 :: nat) < 2" by (simp_all add: empty_mheap_def)
  then show ?thesis using readAll_bytes [OF list_reader_ok mem_start_ok(1,2), of 2 "New 4 8 (\<lambda>c n. n)" "\<lambda>h. None" 10 "[1, 2, 3, 4, 5, 6]" "\<lambda>c n. n"] by auto
qed

text \<open>The limit is not the limit: a buffer with more capacity is filled beyond it, and with exactly the limit as capacity a message of
  exactly that length is refused.\<close>
theorem limit_not_exact:
  "(case readAll (mp_funs (New 8 8 (\<lambda>c n. n))) (\<lambda>h. None) 3 list_reader [1, 2, 3, 4, 5, 6] 2 empty_mheap of
      Some (h, Some (b, None)) \<Rightarrow> contents h b = [1, 2, 3, 4, 5, 6] | _ \<Rightarrow> False)"
  "(case readAll (std_funs (\<lambda>c n. n)) (\<lambda>h. None) 3 (\<lambda>s room. (take room s, if s = [] then Some REof else None :: string read_err option, drop room s)) [1, 2, 3] 3 empty_mheap of
      Some (h, None) \<Rightarrow> True | _ \<Rightarrow> False)"
  by code_simp+

text \<open>The aligned allocator takes back any buffer whose capacity is a multiple of 32; one of 96 bytes is pooled with those of 128, and a
  later \<open>Malloc\<close> slices it beyond its capacity. So does one of capacity 0.\<close>
theorem foreign_buffer_panics:
  assumes "mh_arr h b = replicate 96 x"
  shows "aligned_Malloc (Some b) 128 (aligned_Free b h) = None"
proof -
  have i: "getPoolBySize 96 = 2" "getPoolBySize 128 = 2"
    by (simp_all add: getPoolBySize_def upt_rec)
  show ?thesis using assms i by (simp add: aligned_Free_def aligned_Malloc_def pool_get_def pool_put_def disown_def capacity_def maxAlignedBufferSize_def)
qed

text \<open>The first event a debugger records must not be a \<open>Free\<close>; and a first \<open>Free\<close> of a size counts as a \<open>Malloc\<close>.\<close>
theorem debugger_free_first:
  "incrFreeSlow n \<lparr>db_MallocCount = 0, db_FreeCount = 0, db_NeedFree = 0, db_SizeMap = None\<rparr> = None"
  "m n = None \<Longrightarrow> incrFreeSlow n \<lparr>db_MallocCount = a, db_FreeCount = f, db_NeedFree = k, db_SizeMap = Some m\<rparr> =
     Some \<lparr>db_MallocCount = a, db_FreeCount = f + 1, db_NeedFree = k - 1, db_SizeMap = Some (m(n \<mapsto> \<lparr>sc_MallocCount = 1, sc_FreeCount = 0, sc_NeedFree = - 1\<rparr>))\<rparr>"
  by (simp_all add: incrFreeSlow_def Let_def)

end
