(* ===== verification/IoTaskPool.thy ===== *)
theory IoTaskPool
  imports MempoolLaws
begin

text \<open>
  \<open>taskpool/iotaskpool.go\<close>: each task given to \<open>Go\<close> or \<open>Call\<close> is wrapped so that it runs with a buffer from a \<open>sync.Pool\<close> and puts it back
  behind itself. Which tasks run at once is up to the task pool below (\<open>TaskPool\<close>): here any number, in any interleaving. A task that
  panics does not put its buffer back.
\<close>

record io_pool =
  io_bufSize :: nat
  io_heap :: mheap
  io_running :: "nat \<rightharpoonup> nat"

definition NewIO :: "nat \<Rightarrow> io_pool" where
  "NewIO bufSize = \<lparr>io_bufSize = bufSize, io_heap = empty_mheap, io_running = Map.empty\<rparr>"

definition io_start :: "nat \<Rightarrow> nat option \<Rightarrow> io_pool \<Rightarrow> io_pool" where
  "io_start t pick s =
     (case pool_get 0 (io_bufSize s) pick (io_heap s) of (h, b) \<Rightarrow> s\<lparr>io_heap := own b (set_len b (io_bufSize s) h), io_running := (io_running s)(t \<mapsto> b)\<rparr>)"

definition io_done :: "nat \<Rightarrow> nat \<Rightarrow> io_pool \<Rightarrow> io_pool" where
  "io_done t b s = s\<lparr>io_heap := pool_put 0 b (disown b (io_heap s)), io_running := (io_running s)(t := None)\<rparr>"

definition io_panic :: "nat \<Rightarrow> nat \<Rightarrow> io_pool \<Rightarrow> io_pool" where
  "io_panic t b s = s\<lparr>io_heap := disown b (io_heap s), io_running := (io_running s)(t := None)\<rparr>"

text \<open>A task writes to its buffer only.\<close>

definition io_write :: "nat \<Rightarrow> octets \<Rightarrow> io_pool \<Rightarrow> io_pool" where
  "io_write b data s = s\<lparr>io_heap := write_buf b data (io_heap s)\<rparr>"

inductive io_step :: "io_pool \<Rightarrow> io_pool \<Rightarrow> bool" where
  start: "io_running s t = None \<Longrightarrow> io_step s (io_start t pick s)"
| finish: "io_running s t = Some b \<Longrightarrow> io_step s (io_done t b s)"
| panic: "io_running s t = Some b \<Longrightarrow> io_step s (io_panic t b s)"
| use_buf: "io_running s t = Some b \<Longrightarrow> length data = io_bufSize s \<Longrightarrow> io_step s (io_write b data s)"

definition io_inv :: "io_pool \<Rightarrow> bool" where
  "io_inv s \<longleftrightarrow> heap_ok (io_heap s) \<and> names_ok (io_running s) (io_heap s) \<and> (\<forall>i. \<forall>b \<in> mh_pool (io_heap s) i. capacity (io_heap s) b = io_bufSize s) \<and>
     (\<forall>b \<in> mh_live (io_heap s). capacity (io_heap s) b = io_bufSize s \<and> mh_len (io_heap s) b = io_bufSize s)"

lemma io_start_inv:
  assumes "io_inv s" "io_running s t = None"
  shows "io_inv (io_start t pick s)"
proof -
  let ?h = "io_heap s" and ?n = "io_bufSize s"
  have ok: "heap_ok ?h" "names_ok (io_running s) ?h" using assms(1) by (simp_all add: io_inv_def)
  obtain h1 b where g: "pool_get 0 ?n pick ?h = (h1, b)" by fastforce
  note t = pool_get_taken [OF ok(1) g]
  have cap: "capacity h1 b = ?n" using t assms(1) by (auto simp: io_inv_def)
  let ?h2 = "own b (set_len b ?n h1)"
  have gn: "gained ?h ?h2 b ?n" unfolding set_len_put using taken_gained [of ?h h1 b ?n "mh_arr h1 b"] t cap by (simp add: capacity_def)
  have names: "names_ok ((io_running s)(t \<mapsto> b)) ?h2"
    using names_upd(1) [OF ok(2), of b "{}" ?h2 t] gn assms(2) by (simp add: gained_def)
  have same: "capacity ?h2 x = capacity ?h x" if "x \<noteq> b" for x using gn that by (simp add: gained_def)
  have len: "mh_len ?h2 x = ?n" if "x \<in> mh_live ?h2" for x
  proof (cases "x = b")
    case False
    then have x: "x \<in> mh_live ?h" using that gn unfolding gained_def by blast
    have "length (contents ?h2 x) = length (contents ?h x)" using x gn by (simp add: gained_def same_on_def)
    moreover have "heap_ok ?h2" using gn by (simp add: gained_def)
    ultimately show ?thesis using live_len [OF ok(1) x] live_len [of ?h2 x] that x assms(1) by (simp add: io_inv_def)
  qed (simp add: set_len_def)
  have capb: "capacity ?h2 b = ?n" using cap by (simp add: set_len_put capacity_def)
  have pool: "capacity ?h2 x = ?n" if "x \<in> mh_pool ?h2 i" for x i
  proof -
    have "x \<in> mh_pool ?h i" using that gn by (auto simp: gained_def)
    then show ?thesis using same [of x] capb assms(1) by (cases "x = b") (auto simp: io_inv_def)
  qed
  have live: "capacity ?h2 x = ?n" if "x \<in> mh_live ?h2" for x
    using that same [of x] capb gn assms(1) by (cases "x = b") (auto simp: io_inv_def gained_def)
  have "heap_ok ?h2" using gn by (simp add: gained_def)
  then show ?thesis using names pool live len g unfolding io_inv_def io_start_def by simp
qed

lemma io_inv_step:
  assumes "io_step s s'" "io_inv s"
  shows "io_inv s' \<and> io_bufSize s' = io_bufSize s"
  using assms(1)
proof cases
  case (start t pick)
  then show ?thesis using io_start_inv [OF assms(2)] by (simp add: io_start_def split: prod.split)
next
  case (finish t b)
  let ?h = "io_heap s"
  have ok: "heap_ok ?h" "names_ok (io_running s) ?h" using assms(2) by (simp_all add: io_inv_def)
  have b: "b \<in> mh_live ?h" using names_okD(1) [OF ok(2) finish(2)] .
  have "names_ok ((io_running s)(t := None)) (pool_put 0 b (disown b ?h))" by (rule names_free(1) [OF ok(2) finish(2)]) (simp_all add: same_on_def)
  moreover have "heap_ok (pool_put 0 b (disown b ?h))" by (rule heap_ok_pool_put [OF ok(1) b])
  ultimately show ?thesis using assms(2) b unfolding finish(1) io_inv_def io_done_def by auto
next
  case (panic t b)
  let ?h = "io_heap s"
  have ok: "heap_ok ?h" "names_ok (io_running s) ?h" using assms(2) by (simp_all add: io_inv_def)
  have "names_ok ((io_running s)(t := None)) (disown b ?h)" by (rule names_free(1) [OF ok(2) panic(2)]) (simp_all add: same_on_def)
  then show ?thesis using assms(2) heap_ok_disown [OF ok(1)] unfolding panic(1) io_inv_def io_panic_def by auto
next
  case (use_buf t b data)
  let ?h = "io_heap s"
  have ok: "heap_ok ?h" "names_ok (io_running s) ?h" using assms(2) by (simp_all add: io_inv_def)
  have b: "b \<in> mh_live ?h" using names_okD(1) [OF ok(2) use_buf(2)] .
  have l: "capacity ?h b = io_bufSize s" "mh_len ?h b = io_bufSize s" using assms(2) b by (simp_all add: io_inv_def)
  have "heap_ok (write_buf b data ?h)" using write_live [OF ok(1) b, of data] live_len [OF ok(1) b] use_buf(3) l by simp
  moreover have "capacity (write_buf b data ?h) x = capacity ?h x" for x using use_buf(3) l by (simp add: write_buf_def capacity_def)
  ultimately show ?thesis using assms(2) unfolding use_buf(1) io_inv_def io_write_def names_ok_def by (simp add: write_buf_def)
qed

text \<open>Two tasks that run at the same time have different buffers, each of the size of the pool.\<close>

theorem io_buffers_exclusive:
  assumes "io_step\<^sup>*\<^sup>* (NewIO n) s" "io_running s t = Some b" "io_running s t' = Some b'" "t \<noteq> t'"
  shows "b \<noteq> b' \<and> length (contents (io_heap s) b) = n"
proof -
  have "io_inv (NewIO n)" by (simp add: io_inv_def NewIO_def heap_ok_def empty_mheap_def names_ok_def)
  with assms(1) have inv: "io_inv s \<and> io_bufSize s = n"
  proof (induction rule: rtranclp_induct)
    case base
    then show ?case by (simp add: NewIO_def)
  next
    case (step s s')
    then show ?case using io_inv_step [of s s'] by simp
  qed
  then have ok: "names_ok (io_running s) (io_heap s)" "heap_ok (io_heap s)" by (simp_all add: io_inv_def)
  have b: "b \<in> mh_live (io_heap s)" by (rule names_okD(1) [OF ok(1) assms(2)])
  have "b \<noteq> b'" using names_okD(2) [OF ok(1) assms(2), of t'] assms(3,4) by auto
  then show ?thesis using inv live_len [OF ok(2) b] b by (simp add: io_inv_def)
qed

end
