(* ===== verification/Spec2Isabelle.thy ===== *)
theory Spec2Isabelle
  imports HttpProps WsProps NetProps ExecProps BodyProps ServerProps ResponseProps ClientProps HandshakeProps HttpClientProps HttpEngineProps MempoolProps IoTaskPool
begin

text \<open>
  \<^bold>\<open>nbio: a verification development\<close>

  nbio is an event-driven network library in Go: an engine with epoll pollers and non-blocking
  connections (root package), goroutine pools and timers (\<open>taskpool\<close>, \<open>timer\<close>), and on top of them an
  incremental HTTP/1.x parser with its body type (\<open>nbhttp\<close>) and WebSocket (\<open>nbhttp/websocket\<close>).
  A poller waits for events; a readable connection delivers bytes to the data handler, which feeds
  \<open>Parser.Parse\<close> or, after an upgrade, \<open>websocket.Conn.Parse\<close>; complete messages become jobs in the
  connection's job list; handlers answer through the connection's write side, which writes what the
  kernel takes and queues the rest for the next writable event.

  The definitions are a shallow embedding of the code: structs are records, enumerations datatypes,
  methods functions from the old state (and the arguments) to the new state and the results, errors are
  values, loops are recursive functions or \<open>partial_function (option)\<close> where termination is a
  property. System calls, TLS, callbacks of the application and compression are parameters; what the code
  relies on of them is a named hypothesis (for instance \<open>kernel_ok\<close>) with an instance among
  the witnesses. Bytes are \<open>8 word\<close>, lengths that the code computes at 64 bits wrap where that
  matters (\<open>wrap64\<close>).

  \<^bold>\<open>Theories\<close>

  \<^item> \<open>Prelude\<close>, \<open>GoStd\<close>: lists, words, byte order, slices; what the code uses of strconv, strings, textproto.
  \<^item> \<open>StreamReader\<close>: the locale \<open>stream_reader\<close>, an incremental parser whose result does not depend on
    how its input is cut. Interpreted by the HTTP parser (\<open>HttpStream\<close>) and the WebSocket reader (\<open>WsStream\<close>).
  \<^item> \<open>HttpTable\<close>, \<open>HttpParser\<close>, \<open>HttpParserInv\<close>, \<open>HttpStream\<close>, \<open>HttpRoundtrip\<close>, \<open>HttpProps\<close>:
    \<open>nbhttp/table.go\<close>, \<open>state.go\<close>, \<open>parser.go\<close>. Character tables, the state machine one step per loop
    iteration, the cache between calls, framing by Content-Length and chunks, trailers, upgrade; its
    invariant, termination, independence of cuts, and that pipelined requests come out as sent.
  \<^item> \<open>WsMask\<close>, \<open>WsFrame\<close>, \<open>WsConn\<close>, \<open>WsStream\<close>, \<open>WsWrite\<close>, \<open>WsRoundtrip\<close>, \<open>WsProps\<close>:
    \<open>nbhttp/websocket/conn.go\<close>. Masking, frames, fragments and control frames, limits, message
    dispatch, writing with fragmentation and the send queue; round trip of writer and reader.
  \<^item> \<open>ConnUnix\<close>, \<open>ConnStream\<close>: the write side of \<open>conn_unix.go\<close>, \<open>sendfile_unix.go\<close>, \<open>writev_linux.go\<close>
    and its refinement of a FIFO byte stream, its limits and the progress of flush.
  \<^item> \<open>ConnRead\<close>, \<open>ConnReadInv\<close>: its read side, UDP children, the asynchronous read loop.
  \<^item> \<open>Poller\<close>, \<open>PollerInv\<close>: \<open>poller_epoll.go\<close>, the registered masks and the handling of one event.
  \<^item> \<open>EngineConns\<close>, \<open>EngineInv\<close>: the table of connections, the wait group, callbacks and \<open>Stop\<close>
    (\<open>engine.go\<close>, \<open>engine_unix.go\<close>, \<open>poller_epoll.go\<close>). \<open>NetProps\<close> holds the properties of this and the
    three groups above.
  \<^item> \<open>JobQueue\<close>: the locale \<open>serial_executor\<close> with its two interpretations, \<open>Conn.Execute\<close> and
    \<open>Timer.Async\<close>; \<open>TaskPool\<close>: \<open>taskpool.go\<close> as a step relation; properties in \<open>ExecProps\<close>.
  \<^item> \<open>BodyReader\<close>, \<open>BodyProps\<close>: \<open>nbhttp/body.go\<close>, a byte queue whose buffers are given back once.
  \<^item> \<open>ProcessorProtocol\<close>, \<open>HttpProcessor\<close>, \<open>HttpServer\<close>, \<open>ServerProps\<close>: \<open>nbhttp/processor.go\<close>. The locale
    \<open>processor_protocol\<close> is what the parser promises about the order of its callbacks; server and client
    processor are its interpretations. Parser, processor and body together: one request per request sent.
  \<^item> \<open>HttpResponse\<close>, \<open>ResponseInv\<close>, \<open>ResponseProps\<close>: \<open>nbhttp/response.go\<close>, headers, Content-Length and
    chunked bodies, flushing, hijacking, connection persistence.
  \<^item> \<open>HttpReply\<close>, \<open>HttpClient\<close>, \<open>ResponseReply\<close>, \<open>ClientProps\<close>: the way back, from the response writer of a server
    through the parser and the client processor to the response handler of a client.
  \<^item> \<open>WsTokens\<close>, \<open>WsHandshake\<close>, \<open>WsAgreement\<close>, \<open>WsUpgrade\<close>, \<open>HandshakeProps\<close>: \<open>websocket/upgrader.go\<close>,
    \<open>dialer.go\<close>. The handshake on both sides (with SHA-1 and base64) and that they agree; which reader a connection
    has after an upgrade, for every type of connection.
  \<^item> \<open>ClientConn\<close>, \<open>ClientPool\<close>, \<open>HttpClientProps\<close>: \<open>nbhttp/client_conn.go\<close>, \<open>client.go\<close>. The queue of handlers
    of a connection, and the connections of a host under any number of concurrent requests. The locale \<open>calls_once\<close>
    is what the pool relies on: each handler is called once and in order. \<open>Socks5\<close>: its SOCKS5 proxy client.
  \<^item> \<open>ConnKey\<close>, \<open>ServerConns\<close>, \<open>BlockingRead\<close>, \<open>HttpEngineConf\<close>, \<open>HttpEngineProps\<close>: \<open>nbhttp/engine.go\<close>, \<open>convert.go\<close>,
    \<open>server.go\<close>, \<open>lmux/lmux.go\<close>. Where the connections of a server are and what counts them, the four ways bytes
    reach a reader, configuration and listeners.
  \<^item> \<open>Mempool\<close>, \<open>MempoolLaws\<close>, \<open>MempoolProps\<close>: \<open>mempool/\<close>. The locale \<open>buffer_allocator\<close> is what the users of a pool rely on;
    its three interpretations are the aligned, the pooled and the plain allocator, over a heap in which a buffer handed
    out twice would show. \<open>WsReadAll\<close>: \<open>readAll\<close> of \<open>websocket/conn.go\<close> over any of them (locale
    \<open>buffer_allocator_inplace\<close>). \<open>IoTaskPool\<close>: \<open>taskpool/iotaskpool.go\<close>, tasks that run with a pooled buffer.

  Each \<open>Props\<close> theory states the properties, each after a text that says what it means, with an instance
  behind it where it has hypotheses. Theorems there without a number show where the code does not do
  what its comments or its other parts expect.

  \<^bold>\<open>Concurrency\<close>

  Code under one lock is one operation, and runs are arbitrary sequences of operations. Where the code works
  with separate atomic operations (the event counter of \<open>AsyncRead\<close>, the task pool, the listener multiplexer, the
  connections per host) each of them is a step, and the properties hold for every interleaving.

  \<^bold>\<open>Bounds and fuel\<close>

  No model has an artificial bound. \<open>parse_loop\<close>, \<open>flush_loop\<close> and \<open>poll_reads\<close> are partial functions
  whose value is \<open>None\<close> when the loop does not end, like \<open>read_more\<close>; that they return is proved (\<open>Parse_returns\<close>,
  \<open>flush_returns\<close>, \<open>readAll_bytes\<close>). The exceptions, where the code does not end, are theorems as well. Hypotheses bound what
  machine integers bound: lengths below \<open>2 ^ 62\<close> in the response writer, addresses below \<open>256 ^ uintptrSize\<close>, and the atomic
  32-bit counters are integers, exact for fewer than \<open>2 ^ 31\<close> concurrent callers. The chunked response theorem is about
  output within one packet (\<open>maxPacketSize\<close>), which is sent at once.

  \<^bold>\<open>Not modelled\<close>

  Other platforms (\<open>conn_std.go\<close>, \<open>poller_std.go\<close>, \<open>poller_kqueue.go\<close>, \<open>engine_std.go\<close>): they replace the modelled files
  on systems other than Linux. System calls and addresses (\<open>net_unix.go\<close>), the TLS layer, \<open>compress/flate\<close>, the
  application's handlers: parameters where the modelled code calls them. The HTTP proxy of the client, logging, examples,
  test servers and tools: calls of the operating system or of other packages, without state of their own.
\<close>

end
